(* ===== verification/Prelude.thy ===== *)
theory Prelude
  imports Complex_Main "HOL-Library.Char_ord" "HOL-Library.List_Lexorder" "HOL-Library.Product_Lexorder"
begin

text \<open>
  Shared vocabulary of the development: Python exceptions as values, keyed tables with the
  SQL statements the program issues on them, and the generic lemmas on lists, sets and
  sorting the components use.

  Conventions. A Python \<open>str\<close> is a \<open>string\<close>; the code only compares, sorts,
  concatenates and prefix-tests it. Python's \<open>sorted(set(...))\<close> is
  \<open>sorted_list_of_set\<close>. A \<open>float\<close> is a \<open>rat\<close>: comparisons, sums and products are
  exact, IEEE rounding is not modelled. An exception is \<open>Inl\<close> of a \<open>py_error\<close>.
\<close>

section \<open>Exceptions as values\<close>

datatype py_error =
    ValueError string
  | KeyError string
  | RuntimeError string
  | TypeError string
  | PermissionError string
  | TimeoutError string
  | IntegrityError string
  | AssertionError string
  | AttributeError string
  | NetworkXError string
  | VerificationCancelled string

type_synonym 'a result = "py_error + 'a"
type_synonym time = rat

definition bindE :: "'e + 'a \<Rightarrow> ('a \<Rightarrow> 'e + 'b) \<Rightarrow> 'e + 'b" where
  "bindE r f = (case r of Inl e \<Rightarrow> Inl e | Inr x \<Rightarrow> f x)"

lemma bindE_simps [simp]:
  "bindE (Inl e) f = Inl e"
  "bindE (Inr x) f = f x"
  by (simp_all add: bindE_def)

lemma bindE_Inr_iff: "bindE r f = Inr y \<longleftrightarrow> (\<exists>x. r = Inr x \<and> f x = Inr y)"
  by (cases r) auto

text \<open>A Python \<open>for\<close> loop over a sequence whose body may raise.\<close>

fun foldE :: "('a \<Rightarrow> 's \<Rightarrow> 'e + 's) \<Rightarrow> 'a list \<Rightarrow> 's \<Rightarrow> 'e + 's" where
  "foldE f [] s = Inr s"
| "foldE f (x # xs) s = bindE (f x s) (foldE f xs)"

lemma foldE_append: "foldE f (xs @ ys) s = bindE (foldE f xs s) (foldE f ys)"
  by (induction xs arbitrary: s) (auto simp: bindE_def split: sum.splits)

lemma foldE_invariant:
  assumes "foldE f xs s = Inr t" and "I s"
    and "\<And>x s t. x \<in> set xs \<Longrightarrow> I s \<Longrightarrow> f x s = Inr t \<Longrightarrow> I t"
  shows "I t"
  using assms
proof (induction xs arbitrary: s)
  case Nil
  then show ?case by simp
next
  case (Cons x xs)
  from Cons.prems(1) obtain u where u: "f x s = Inr u" "foldE f xs u = Inr t"
    by (auto simp: bindE_Inr_iff)
  have "I u" using Cons.prems(3) [OF _ Cons.prems(2) u(1)] by simp
  show ?case
  proof (rule Cons.IH [OF u(2) \<open>I u\<close>])
    show "\<And>y s t. y \<in> set xs \<Longrightarrow> I s \<Longrightarrow> f y s = Inr t \<Longrightarrow> I t"
      using Cons.prems(3) by (meson list.set_intros(2))
  qed
qed

lemma fold_invariant_on:
  assumes "I s" and "\<And>x s. x \<in> set xs \<Longrightarrow> I s \<Longrightarrow> I (f x s)"
  shows "I (fold f xs s)"
  using assms by (induction xs arbitrary: s) auto

section \<open>Lists and sorted sets\<close>

lemma find_SomeD: "find P xs = Some x \<Longrightarrow> x \<in> set xs \<and> P x"
  by (induction xs) (auto split: if_splits)

lemma find_None_iff_all: "find P xs = None \<longleftrightarrow> (\<forall>x\<in>set xs. \<not> P x)"
  by (induction xs) auto

lemma find_append: "find P (xs @ ys) = (case find P xs of None \<Rightarrow> find P ys | Some x \<Rightarrow> Some x)"
  by (induction xs) auto

lemma set_sorted_list_of_set_set [simp]:
  "set (sorted_list_of_set (set xs)) = set (xs :: 'a::linorder list)"
  by simp

lemma sorted_list_of_set_set_code: "sorted_list_of_set (set xs) = sort (remdups (xs :: 'a::linorder list))"
  by (simp add: sorted_list_of_set_sort_remdups)

lemma distinct_map_sort_key: "distinct (map f (sort_key g xs)) = distinct (map f xs)"
  by (simp add: distinct_map)

lemma sort_key_nil_iff [simp]: "sort_key f xs = [] \<longleftrightarrow> xs = []"
  by (metis length_0_conv length_sort)

lemma subset_singleton_of_length: "length xs \<le> Suc 0 \<Longrightarrow> x \<in> set xs \<Longrightarrow> y \<in> set xs \<Longrightarrow> x = y"
  by (cases xs) auto

text \<open>\<open>str.strip()\<close> on the ASCII white-space characters.\<close>

definition py_is_space :: "char \<Rightarrow> bool" where
  "py_is_space c = (of_char c \<in> {9 :: nat, 10, 11, 12, 13, 28, 29, 30, 31, 32})"

definition py_strip :: "string \<Rightarrow> string" where
  "py_strip s = rev (dropWhile py_is_space (rev (dropWhile py_is_space s)))"

text \<open>\<open>str.casefold()\<close> on ASCII text, \<open>str.replace('-', '_')\<close>, \<open>sep.join(xs)\<close> and the slice \<open>xs[-n:]\<close>
  (which is the whole list for \<open>n = 0\<close>, and drops \<open>-n\<close> elements for a negative \<open>n\<close>).\<close>

definition py_lower_char :: "char \<Rightarrow> char" where
  "py_lower_char c = (if (of_char c :: nat) \<in> {65..90} then char_of ((of_char c :: nat) + 32) else c)"

definition py_casefold :: "string \<Rightarrow> string" where
  "py_casefold s = map py_lower_char s"

definition dash_to_underscore :: "string \<Rightarrow> string" where
  "dash_to_underscore s = map (\<lambda>c. if c = CHR ''-'' then CHR ''_'' else c) s"

definition py_join :: "string \<Rightarrow> string list \<Rightarrow> string" where
  "py_join sep xs = concat (case xs of [] \<Rightarrow> [] | y # ys \<Rightarrow> y # map (\<lambda>x. sep @ x) ys)"

definition py_last :: "int \<Rightarrow> 'a list \<Rightarrow> 'a list" where
  "py_last n xs = drop (if 0 < n then length xs - nat n else nat (- n)) xs"

lemma length_py_last: "0 < n \<Longrightarrow> length (py_last n xs) \<le> nat n"
  by (simp add: py_last_def)

lemma set_py_last_subset: "set (py_last n xs) \<subseteq> set xs"
  by (simp add: py_last_def set_drop_subset)

definition count_where :: "('r \<Rightarrow> bool) \<Rightarrow> 'r list \<Rightarrow> nat" where
  "count_where P tbl = length (filter P tbl)"

section \<open>Operations of several transactions\<close>

text \<open>
  An operation that runs several transactions maps the database to the database it leaves and its
  result: what was committed before an exception stays committed. \<open>txn\<close> runs one transaction, which
  commits nothing when it raises.
\<close>

type_synonym ('s, 'a) op = "'s \<Rightarrow> 's \<times> 'a result"

definition returnS :: "'a \<Rightarrow> ('s, 'a) op" where
  "returnS x s = (s, Inr x)"

definition raiseS :: "py_error \<Rightarrow> ('s, 'a) op" where
  "raiseS e s = (s, Inl e)"

definition bindS :: "('s, 'a) op \<Rightarrow> ('a \<Rightarrow> ('s, 'b) op) \<Rightarrow> ('s, 'b) op" where
  "bindS m f s = (case m s of (t, Inl e) \<Rightarrow> (t, Inl e) | (t, Inr x) \<Rightarrow> f x t)"

definition txn :: "('s \<Rightarrow> ('s \<times> 'a) result) \<Rightarrow> ('s, 'a) op" where
  "txn f s = (case f s of Inl e \<Rightarrow> (s, Inl e) | Inr (t, x) \<Rightarrow> (t, Inr x))"

definition readS :: "('s \<Rightarrow> 'a result) \<Rightarrow> ('s, 'a) op" where
  "readS f s = (s, f s)"

definition modifyS :: "('s \<Rightarrow> 's \<times> 'a) \<Rightarrow> ('s, 'a) op" where
  "modifyS f s = (case f s of (t, x) \<Rightarrow> (t, Inr x))"

lemma op_simps [simp]:
  "returnS x s = (s, Inr x)" "raiseS e s = (s, Inl e)" "readS f s = (s, f s)"
  "modifyS g s = (fst (g s), Inr (snd (g s)))"
  by (simp_all add: returnS_def raiseS_def readS_def modifyS_def split: prod.splits)

lemma bindS_simps [simp]:
  "m s = (t, Inl e) \<Longrightarrow> bindS m f s = (t, Inl e)"
  "m s = (t, Inr x) \<Longrightarrow> bindS m f s = f x t"
  by (simp_all add: bindS_def)

lemma txn_simps [simp]:
  "f s = Inl e \<Longrightarrow> txn f s = (s, Inl e)"
  "f s = Inr (t, x) \<Longrightarrow> txn f s = (t, Inr x)"
  by (simp_all add: txn_def)

lemma bindS_Inr_iff: "bindS m f s = (u, Inr y) \<longleftrightarrow> (\<exists>t x. m s = (t, Inr x) \<and> f x t = (u, Inr y))"
  by (auto simp: bindS_def split: prod.splits sum.splits)

lemma txn_Inr_iff: "txn f s = (t, Inr x) \<longleftrightarrow> f s = Inr (t, x)"
  by (auto simp: txn_def split: sum.splits)

text \<open>Whatever an operation leaves behind satisfies \<open>I\<close>, also when it raises.\<close>

definition preservesS :: "('s \<Rightarrow> bool) \<Rightarrow> ('s, 'a) op \<Rightarrow> bool" where
  "preservesS I m = (\<forall>s. I s \<longrightarrow> I (fst (m s)))"

lemma preservesS_simps [simp]:
  "preservesS I (returnS x)" "preservesS I (raiseS e)" "preservesS I (readS f)"
  by (simp_all add: preservesS_def)

lemma preservesSD: "preservesS I m \<Longrightarrow> I s \<Longrightarrow> I (fst (m s))"
  by (simp add: preservesS_def)

lemma preservesS_bindS:
  assumes "preservesS I m" and "\<And>x. preservesS I (f x)"
  shows "preservesS I (bindS m f)"
proof -
  have "I (fst (bindS m f s))" if "I s" for s
  proof (cases "m s")
    case (Pair t r)
    with assms(1) that have "I t" by (force simp: preservesS_def)
    with Pair assms(2) show ?thesis by (cases r) (auto simp: preservesS_def bindS_def)
  qed
  then show ?thesis by (simp add: preservesS_def)
qed

lemma preservesS_txn:
  assumes "\<And>s t x. I s \<Longrightarrow> f s = Inr (t, x) \<Longrightarrow> I t"
  shows "preservesS I (txn f)"
  using assms by (auto simp: preservesS_def txn_def split: sum.splits)

text \<open>A \<open>for\<close> statement over operations.\<close>

primrec forS :: "('a \<Rightarrow> ('s, unit) op) \<Rightarrow> 'a list \<Rightarrow> ('s, unit) op" where
  "forS f [] = returnS ()"
| "forS f (x # xs) = bindS (f x) (\<lambda>_. forS f xs)"

lemma preservesS_forS: "(\<And>x. x \<in> set xs \<Longrightarrow> preservesS I (f x)) \<Longrightarrow> preservesS I (forS f xs)"
  by (induction xs) (auto intro: preservesS_bindS)

text \<open>Rules that take an operation apart.\<close>

lemma preserves_check: "(\<And>s x. I s \<Longrightarrow> f s = Inr x \<Longrightarrow> preservesS I (g x)) \<Longrightarrow> preservesS I (bindS (readS f) g)"
  by (auto simp: preservesS_def bindS_def readS_def split: sum.splits)

lemma preserves_if: "(P \<Longrightarrow> preservesS I m) \<Longrightarrow> (\<not> P \<Longrightarrow> preservesS I n) \<Longrightarrow> preservesS I (if P then m else n)"
  by simp

lemma preserves_option:
  "(x = None \<Longrightarrow> preservesS I m) \<Longrightarrow> (\<And>y. x = Some y \<Longrightarrow> preservesS I (n y)) \<Longrightarrow> preservesS I (case x of None \<Rightarrow> m | Some y \<Rightarrow> n y)"
  by (cases x) simp_all

lemma preserves_prod: "(\<And>a b. x = (a, b) \<Longrightarrow> preservesS I (m a b)) \<Longrightarrow> preservesS I (case x of (a, b) \<Rightarrow> m a b)"
  by (cases x) simp

lemmas preserves_rules = preserves_if preserves_option preserves_prod preserves_check preservesS_bindS preservesS_simps

section \<open>Keyed tables and the SQL statements on them\<close>

text \<open>
  A SQL table is the list of its rows in rowid order. \<open>unique_on key\<close> is a \<open>PRIMARY KEY\<close> or
  \<open>UNIQUE\<close> constraint. \<open>upsert_row\<close> is \<open>INSERT ... ON CONFLICT(key) DO UPDATE SET ...\<close>
  (\<open>merge old new\<close> writes the \<open>SET\<close> list), \<open>insert_or_ignore\<close> and \<open>insert_or_replace\<close>
  are the statements of that name, and \<open>insert_row\<close> is a plain \<open>INSERT\<close>, which raises
  \<open>IntegrityError\<close> on a duplicate key.
\<close>

definition unique_on :: "('r \<Rightarrow> 'k) \<Rightarrow> 'r list \<Rightarrow> bool" where
  "unique_on key tbl = distinct (map key tbl)"

definition lookup_row :: "('r \<Rightarrow> 'k) \<Rightarrow> 'k \<Rightarrow> 'r list \<Rightarrow> 'r option" where
  "lookup_row key k tbl = find (\<lambda>r. key r = k) tbl"

definition insert_row :: "('r \<Rightarrow> 'k) \<Rightarrow> 'r \<Rightarrow> 'r list \<Rightarrow> 'r list result" where
  "insert_row key new tbl =
     (if key new \<in> set (map key tbl) then Inl (IntegrityError ''UNIQUE constraint failed'')
      else Inr (tbl @ [new]))"

definition insert_or_ignore :: "('r \<Rightarrow> 'k) \<Rightarrow> 'r \<Rightarrow> 'r list \<Rightarrow> 'r list" where
  "insert_or_ignore key new tbl = (if key new \<in> set (map key tbl) then tbl else tbl @ [new])"

definition insert_or_replace :: "('r \<Rightarrow> 'k) \<Rightarrow> 'r \<Rightarrow> 'r list \<Rightarrow> 'r list" where
  "insert_or_replace key new tbl = filter (\<lambda>r. key r \<noteq> key new) tbl @ [new]"

definition upsert_row :: "('r \<Rightarrow> 'k) \<Rightarrow> ('r \<Rightarrow> 'r \<Rightarrow> 'r) \<Rightarrow> 'r \<Rightarrow> 'r list \<Rightarrow> 'r list" where
  "upsert_row key merge new tbl =
     (if key new \<in> set (map key tbl)
      then map (\<lambda>r. if key r = key new then merge r new else r) tbl
      else tbl @ [new])"

definition update_where :: "('r \<Rightarrow> bool) \<Rightarrow> ('r \<Rightarrow> 'r) \<Rightarrow> 'r list \<Rightarrow> 'r list" where
  "update_where P f tbl = map (\<lambda>r. if P r then f r else r) tbl"

definition delete_where :: "('r \<Rightarrow> bool) \<Rightarrow> 'r list \<Rightarrow> 'r list" where
  "delete_where P tbl = filter (\<lambda>r. \<not> P r) tbl"

named_theorems table_defs "the SQL statements on tables"
declare unique_on_def [table_defs] lookup_row_def [table_defs] insert_row_def [table_defs]
  insert_or_ignore_def [table_defs] insert_or_replace_def [table_defs] upsert_row_def [table_defs]
  update_where_def [table_defs] delete_where_def [table_defs]

lemma lookup_row_Nil [simp]: "lookup_row key k [] = None"
  by (simp add: lookup_row_def)

lemma lookup_row_Cons:
  "lookup_row key k (r # tbl) = (if key r = k then Some r else lookup_row key k tbl)"
  by (simp add: lookup_row_def)

lemma lookup_row_append:
  "lookup_row key k (xs @ ys)
   = (case lookup_row key k xs of None \<Rightarrow> lookup_row key k ys | Some r \<Rightarrow> Some r)"
  by (simp add: lookup_row_def find_append split: option.splits)

lemma lookup_row_SomeD: "lookup_row key k tbl = Some r \<Longrightarrow> r \<in> set tbl \<and> key r = k"
  by (auto simp: lookup_row_def dest: find_SomeD)

lemma lookup_row_None_iff: "lookup_row key k tbl = None \<longleftrightarrow> k \<notin> key ` set tbl"
  by (auto simp: lookup_row_def find_None_iff_all)

lemma lookup_row_unique:
  "unique_on key tbl \<Longrightarrow> r \<in> set tbl \<Longrightarrow> lookup_row key (key r) tbl = Some r"
  by (induction tbl) (auto simp: unique_on_def lookup_row_Cons image_iff)

lemma lookup_row_Some_iff:
  "unique_on key tbl \<Longrightarrow> lookup_row key k tbl = Some r \<longleftrightarrow> r \<in> set tbl \<and> key r = k"
  using lookup_row_SomeD lookup_row_unique by metis

lemma unique_on_filter [intro]: "unique_on key tbl \<Longrightarrow> unique_on key (filter P tbl)"
  by (simp add: unique_on_def distinct_map_filter)

lemma unique_on_delete_where [intro]: "unique_on key tbl \<Longrightarrow> unique_on key (delete_where P tbl)"
  by (simp add: delete_where_def unique_on_filter)

lemma update_where_mem: "r \<in> set tbl \<Longrightarrow> (if P r then f r else r) \<in> set (update_where P f tbl)"
  by (simp add: update_where_def)

lemma map_key_update_where:
  "(\<And>r. key (f r) = key r) \<Longrightarrow> map key (update_where P f tbl) = map key tbl"
  by (simp add: update_where_def)

lemma unique_on_update_where:
  "(\<And>r. key (f r) = key r) \<Longrightarrow> unique_on key (update_where P f tbl) = unique_on key tbl"
  by (simp add: unique_on_def map_key_update_where)

lemma lookup_row_update_where:
  assumes "\<And>r. key (f r) = key r"
  shows "lookup_row key k (update_where P f tbl)
         = map_option (\<lambda>r. if P r then f r else r) (lookup_row key k tbl)"
  using assms by (induction tbl) (auto simp: update_where_def lookup_row_Cons)

lemma lookup_row_delete_where:
  assumes "unique_on key tbl"
  shows "lookup_row key k (delete_where P tbl)
         = (case lookup_row key k tbl of None \<Rightarrow> None | Some r \<Rightarrow> if P r then None else Some r)"
  using assms
proof (induction tbl)
  case Nil
  then show ?case by (simp add: delete_where_def)
next
  case (Cons r tbl)
  have "P r \<Longrightarrow> key r = k \<Longrightarrow> lookup_row key k (delete_where P tbl) = None"
    using Cons.prems by (auto simp: lookup_row_None_iff delete_where_def unique_on_def)
  with Cons show ?case by (auto simp: delete_where_def lookup_row_Cons unique_on_def)
qed

lemma insert_row_unique:
  "insert_row key new tbl = Inr tbl' \<Longrightarrow> unique_on key tbl \<Longrightarrow> unique_on key tbl'"
  by (auto simp: insert_row_def unique_on_def split: if_splits)

lemma insert_or_ignore_unique [intro]:
  "unique_on key tbl \<Longrightarrow> unique_on key (insert_or_ignore key new tbl)"
  by (auto simp: insert_or_ignore_def unique_on_def)

lemma insert_or_replace_unique [intro]:
  "unique_on key tbl \<Longrightarrow> unique_on key (insert_or_replace key new tbl)"
  by (auto simp: insert_or_replace_def unique_on_def distinct_map_filter)

lemma lookup_insert_or_replace:
  "lookup_row key k (insert_or_replace key new tbl)
   = (if k = key new then Some new else lookup_row key k tbl)"
  by (induction tbl) (auto simp: insert_or_replace_def lookup_row_Cons)

lemma lookup_insert_or_ignore:
  "lookup_row key k (insert_or_ignore key new tbl)
   = (if k = key new \<and> lookup_row key k tbl = None then Some new else lookup_row key k tbl)"
  by (auto simp: insert_or_ignore_def lookup_row_append lookup_row_Cons lookup_row_None_iff split: option.splits)
    (metis lookup_row_None_iff option.distinct(1))+

text \<open>A column the \<open>SET\<close> list does not write.\<close>

lemma map_upsert_frame:
  assumes "\<And>old. g (merge old new) = g old"
  shows "map g (upsert_row key merge new tbl)
         = (if key new \<in> set (map key tbl) then map g tbl else map g tbl @ [g new])"
  using assms by (auto simp: upsert_row_def)

text \<open>
  The interface of an upserted table: its key and the \<open>SET\<close> list of its upsert, which keeps the
  key. Each table of the program that is written this way interprets it.
\<close>

locale upsert_table =
  fixes key :: "'r \<Rightarrow> 'k" and merge :: "'r \<Rightarrow> 'r \<Rightarrow> 'r"
  assumes key_merge: "key (merge old new) = key old"
begin

lemma upsert_keys:
  "map key (upsert_row key merge new tbl)
   = (if key new \<in> set (map key tbl) then map key tbl else map key tbl @ [key new])"
  by (auto simp: upsert_row_def key_merge)

lemma upsert_unique: "unique_on key tbl \<Longrightarrow> unique_on key (upsert_row key merge new tbl)"
  by (auto simp: unique_on_def upsert_keys)

lemma upsert_lookup_other:
  assumes "k \<noteq> key new"
  shows "lookup_row key k (upsert_row key merge new tbl) = lookup_row key k tbl"
proof -
  have "lookup_row key k (map (\<lambda>r. if key r = key new then merge r new else r) tbl)
        = lookup_row key k tbl"
    using assms by (induction tbl) (auto simp: lookup_row_Cons key_merge)
  moreover have "lookup_row key k (tbl @ [new]) = lookup_row key k tbl"
    using assms by (simp add: lookup_row_append lookup_row_Cons split: option.splits)
  ultimately show ?thesis by (simp add: upsert_row_def)
qed

lemma upsert_lookup_same:
  "lookup_row key (key new) (upsert_row key merge new tbl)
   = (case lookup_row key (key new) tbl of None \<Rightarrow> Some new | Some old \<Rightarrow> Some (merge old new))"
proof (cases "key new \<in> set (map key tbl)")
  case True
  have "lookup_row key (key new) (map (\<lambda>r. if key r = key new then merge r new else r) tbl)
        = map_option (\<lambda>old. merge old new) (lookup_row key (key new) tbl)"
    by (induction tbl) (auto simp: lookup_row_Cons key_merge)
  moreover obtain old where "lookup_row key (key new) tbl = Some old"
    using True by (metis lookup_row_None_iff list.set_map not_None_eq)
  ultimately show ?thesis using True by (simp add: upsert_row_def)
next
  case False
  then have "lookup_row key (key new) tbl = None" by (simp add: lookup_row_None_iff)
  with False show ?thesis by (simp add: upsert_row_def lookup_row_append lookup_row_Cons)
qed

lemma upsert_set:
  "r \<in> set (upsert_row key merge new tbl) \<Longrightarrow>
   r = new \<or> r \<in> set tbl \<or> (\<exists>old\<in>set tbl. key old = key new \<and> r = merge old new)"
  by (auto simp: upsert_row_def split: if_splits)

end

end
