(* ===== verification/Models.thy ===== *)
theory Models
  imports Prelude
begin

text \<open>
  The data model of the incremental verifier, \<^verbatim>\<open>incremental/models.py\<close>: the claim states, the task,
  the indexed source objects, manuscript edges and Lean declarations, and the host policy that says
  which source objects are proof obligations. A frozen dataclass is a record with prefixed field
  names; \<open>str(ClaimState.X)\<close> is \<open>claim_state_text X\<close>.
\<close>

section \<open>Claim states\<close>

datatype claim_state =
    DISCOVERED | STATEMENT_DRAFTED | STATEMENT_APPROVED | READY_TO_PROVE | PROVING | CERTIFIED
  | DIRTY_SOURCE | INVALIDATED | NEEDS_CLARIFICATION | BLOCKED_DEPENDENCY | FAILED_TECHNICAL
  | FAILED_FORMALIZATION | UNRESOLVED | SUSPECT_FALSE | COUNTEREXAMPLE_FOUND | SKIPPED_UNPROVED

fun claim_state_text :: "claim_state \<Rightarrow> string" where
  "claim_state_text DISCOVERED = ''DISCOVERED''"
| "claim_state_text STATEMENT_DRAFTED = ''STATEMENT_DRAFTED''"
| "claim_state_text STATEMENT_APPROVED = ''STATEMENT_APPROVED''"
| "claim_state_text READY_TO_PROVE = ''READY_TO_PROVE''"
| "claim_state_text PROVING = ''PROVING''"
| "claim_state_text CERTIFIED = ''CERTIFIED''"
| "claim_state_text DIRTY_SOURCE = ''DIRTY_SOURCE''"
| "claim_state_text INVALIDATED = ''INVALIDATED''"
| "claim_state_text NEEDS_CLARIFICATION = ''NEEDS_CLARIFICATION''"
| "claim_state_text BLOCKED_DEPENDENCY = ''BLOCKED_DEPENDENCY''"
| "claim_state_text FAILED_TECHNICAL = ''FAILED_TECHNICAL''"
| "claim_state_text FAILED_FORMALIZATION = ''FAILED_FORMALIZATION''"
| "claim_state_text UNRESOLVED = ''UNRESOLVED''"
| "claim_state_text SUSPECT_FALSE = ''SUSPECT_FALSE''"
| "claim_state_text COUNTEREXAMPLE_FOUND = ''COUNTEREXAMPLE_FOUND''"
| "claim_state_text SKIPPED_UNPROVED = ''SKIPPED_UNPROVED''"

lemma claim_state_text_inject: "claim_state_text a = claim_state_text b \<longleftrightarrow> a = b"
  by (cases a; cases b; simp)

definition TERMINAL_CLAIM_STATES :: "claim_state set" where
  "TERMINAL_CLAIM_STATES =
     {CERTIFIED, NEEDS_CLARIFICATION, BLOCKED_DEPENDENCY, UNRESOLVED, COUNTEREXAMPLE_FOUND,
      SKIPPED_UNPROVED}"

section \<open>Tasks, snapshots, source objects\<close>

definition ASSERTION_KINDS :: "string set" where
  "ASSERTION_KINDS =
     {''claim'', ''conjecture'', ''corollary'', ''lemma'', ''observation'', ''proposition'', ''theorem''}"

record task_policy =
  tp_pause_on_ambiguity :: bool
  tp_preserve_certified :: bool
  tp_counterexample_search :: bool
  tp_require_statement_correspondence_review :: bool

definition default_task_policy :: task_policy where
  "default_task_policy = \<lparr>tp_pause_on_ambiguity = True, tp_preserve_certified = True,
     tp_counterexample_search = True, tp_require_statement_correspondence_review = False\<rparr>"

record task_spec =
  ts_mode :: string
  ts_targets :: "string list"
  ts_policy :: task_policy
  ts_free_form :: string
  ts_source_format :: string

definition default_task_spec :: task_spec where
  "default_task_spec = \<lparr>ts_mode = ''theorem'', ts_targets = [], ts_policy = default_task_policy,
     ts_free_form = [], ts_source_format = ''text''\<rparr>"

record source_file_info =
  sf_path :: string
  sf_sha256 :: string
  sf_git_blob :: string
  sf_size :: int

record snapshot_info =
  sn_commit :: string
  sn_tree :: string
  sn_previous_commit :: "string option"
  sn_identical :: bool
  sn_files :: "source_file_info list"

record source_object =
  so_claim_id :: string
  so_kind :: string
  so_source_file :: string
  so_environment :: string
  so_label :: "string option"
  so_ordinal :: int
  so_statement_start :: int
  so_statement_end :: int
  so_statement_byte_start :: int
  so_statement_byte_end :: int
  so_proof_start :: "int option"
  so_proof_end :: "int option"
  so_proof_byte_start :: "int option"
  so_proof_byte_end :: "int option"
  so_statement_hash :: string
  so_proof_hash :: string
  so_normalized_statement_hash :: string
  so_statement_text :: string
  so_proof_text :: string
  so_references :: "string list"
  so_assistant_context :: string
  so_assistant_references :: "string list"

record manuscript_edge =
  e_src :: string
  e_dst :: string
  e_kind :: string
  e_provenance :: string
  e_approved :: bool

record lean_declaration =
  ld_name :: string
  ld_kind :: string
  ld_type_hash :: string
  ld_value_hash :: "string option"
  ld_direct_dependencies :: "string list"
  ld_axioms :: "string list"

section \<open>Which source objects are proof obligations\<close>

definition is_conjectural_assertion_shape :: "string \<Rightarrow> int option \<Rightarrow> bool" where
  "is_conjectural_assertion_shape kind proof_start =
     (kind \<in> ASSERTION_KINDS \<and> (kind = ''conjecture'' \<or> proof_start = None))"

definition is_conjectural_assertion :: "source_object \<Rightarrow> bool" where
  "is_conjectural_assertion item = is_conjectural_assertion_shape (so_kind item) (so_proof_start item)"

definition is_proof_bearing_assertion :: "source_object \<Rightarrow> bool" where
  "is_proof_bearing_assertion item = (so_kind item \<in> ASSERTION_KINDS \<and> \<not> is_conjectural_assertion item)"

definition proof_target_ids :: "task_spec \<Rightarrow> source_object list \<Rightarrow> string set" where
  "proof_target_ids task objects =
     (let requested = (if ts_targets task \<noteq> [] then set (ts_targets task)
                       else set (map so_claim_id (filter (\<lambda>item. so_kind item \<in> ASSERTION_KINDS) objects)))
      in set (map so_claim_id
           (filter (\<lambda>item. so_claim_id item \<in> requested \<and> is_proof_bearing_assertion item) objects)))"

lemma is_proof_bearing_iff:
  "is_proof_bearing_assertion item \<longleftrightarrow>
   so_kind item \<in> ASSERTION_KINDS \<and> so_kind item \<noteq> ''conjecture'' \<and> so_proof_start item \<noteq> None"
  by (auto simp: is_proof_bearing_assertion_def is_conjectural_assertion_def
      is_conjectural_assertion_shape_def)

lemma conjectural_not_proof_bearing:
  "is_conjectural_assertion item \<Longrightarrow> \<not> is_proof_bearing_assertion item"
  by (simp add: is_proof_bearing_assertion_def)

lemma assertion_dichotomy:
  "so_kind item \<in> ASSERTION_KINDS \<Longrightarrow>
   is_conjectural_assertion item \<noteq> is_proof_bearing_assertion item"
  by (auto simp: is_proof_bearing_assertion_def)

lemma proof_target_ids_iff:
  "cid \<in> proof_target_ids task objects \<longleftrightarrow>
   (\<exists>item\<in>set objects. so_claim_id item = cid \<and> is_proof_bearing_assertion item \<and>
      (ts_targets task = [] \<or> cid \<in> set (ts_targets task)))"
  by (auto simp: proof_target_ids_def Let_def is_proof_bearing_assertion_def)

end
