(* ===== verification/NetworkX.thy ===== *)
theory NetworkX
  imports Prelude
begin

text \<open>
  The interface of the third-party graph package \<^verbatim>\<open>networkx\<close> as
  \<^verbatim>\<open>incremental/graph.py\<close> and \<^verbatim>\<open>incremental/failures.py\<close> call it. The package
  is not part of the repository, so its operations are the fields of a record that the model's
  definitions take as an argument, and the locale \<open>networkx\<close> states the documented behaviour the
  code relies on. The end of the theory gives an executable adjacency-list digraph and interprets
  the locale on it, so the laws are satisfiable and every theorem that assumes them can be
  evaluated on concrete graphs.
\<close>

section \<open>The interface\<close>

record 'g nx_api =
  nx_empty :: 'g
  nx_add_nodes_from :: "'g \<Rightarrow> string list \<Rightarrow> 'g"
  nx_add_edges_from :: "'g \<Rightarrow> (string \<times> string) list \<Rightarrow> 'g"
  nx_reverse :: "'g \<Rightarrow> 'g"
  nx_contains :: "'g \<Rightarrow> string \<Rightarrow> bool"
  nx_has_edge :: "'g \<Rightarrow> string \<Rightarrow> string \<Rightarrow> bool"
  nx_successors :: "'g \<Rightarrow> string \<Rightarrow> string list"
  nx_edges :: "'g \<Rightarrow> (string \<times> string) list"
  nx_descendants :: "'g \<Rightarrow> string \<Rightarrow> string set option"
  nx_strongly_connected_components :: "'g \<Rightarrow> string set list"
  nx_is_directed_acyclic_graph :: "'g \<Rightarrow> bool"

definition nx_rel :: "'g nx_api \<Rightarrow> 'g \<Rightarrow> (string \<times> string) set" where
  "nx_rel N g = {(u, v). nx_has_edge N g u v}"

definition same_component :: "(string \<times> string) set \<Rightarrow> string \<Rightarrow> string \<Rightarrow> bool" where
  "same_component R u v \<longleftrightarrow> (u, v) \<in> R\<^sup>* \<and> (v, u) \<in> R\<^sup>*"

locale networkx =
  fixes N :: "'g nx_api"
  assumes contains_empty: "\<not> nx_contains N (nx_empty N) v"
    and has_edge_empty: "\<not> nx_has_edge N (nx_empty N) u v"
    and contains_add_nodes: "nx_contains N (nx_add_nodes_from N g vs) v \<longleftrightarrow> nx_contains N g v \<or> v \<in> set vs"
    and has_edge_add_nodes: "nx_has_edge N (nx_add_nodes_from N g vs) u v \<longleftrightarrow> nx_has_edge N g u v"
    and contains_add_edges: "nx_contains N (nx_add_edges_from N g es) v
          \<longleftrightarrow> nx_contains N g v \<or> v \<in> fst ` set es \<or> v \<in> snd ` set es"
    and has_edge_add_edges: "nx_has_edge N (nx_add_edges_from N g es) u v \<longleftrightarrow> nx_has_edge N g u v \<or> (u, v) \<in> set es"
    and contains_reverse: "nx_contains N (nx_reverse N g) v \<longleftrightarrow> nx_contains N g v"
    and has_edge_reverse: "nx_has_edge N (nx_reverse N g) u v \<longleftrightarrow> nx_has_edge N g v u"
    and has_edge_contains: "nx_has_edge N g u v \<Longrightarrow> nx_contains N g u \<and> nx_contains N g v"
    and set_successors: "set (nx_successors N g u) = {v. nx_has_edge N g u v}"
    and distinct_successors: "distinct (nx_successors N g u)"
    and set_edges: "set (nx_edges N g) = nx_rel N g"
    and descendants_Some: "nx_contains N g v \<Longrightarrow>
          nx_descendants N g v = Some {w. (v, w) \<in> (nx_rel N g)\<^sup>+ \<and> w \<noteq> v}"
    and descendants_None: "\<not> nx_contains N g v \<Longrightarrow> nx_descendants N g v = None"
    and set_scc: "set (nx_strongly_connected_components N g)
          = {C. \<exists>v. nx_contains N g v \<and> C = {w. same_component (nx_rel N g) v w}}"
    and distinct_scc: "distinct (nx_strongly_connected_components N g)"
    and finite_nodes: "finite {v. nx_contains N g v}"
    and is_dag_iff: "nx_is_directed_acyclic_graph N g \<longleftrightarrow> acyclic (nx_rel N g)"
begin

lemmas contains_simps = contains_empty contains_add_nodes contains_add_edges contains_reverse
lemmas has_edge_simps = has_edge_empty has_edge_add_nodes has_edge_add_edges has_edge_reverse

lemma nx_rel_add_edges: "nx_rel N (nx_add_edges_from N g es) = nx_rel N g \<union> set es"
  by (auto simp: nx_rel_def has_edge_simps)

lemma nx_rel_add_nodes: "nx_rel N (nx_add_nodes_from N g vs) = nx_rel N g"
  by (auto simp: nx_rel_def has_edge_simps)

lemma nx_rel_empty: "nx_rel N (nx_empty N) = {}"
  by (auto simp: nx_rel_def has_edge_simps)

lemma nx_rel_reverse: "nx_rel N (nx_reverse N g) = (nx_rel N g)\<inverse>"
  by (auto simp: nx_rel_def has_edge_simps)

lemmas nx_rel_simps = nx_rel_add_edges nx_rel_add_nodes nx_rel_empty nx_rel_reverse

lemma scc_nonempty: "C \<in> set (nx_strongly_connected_components N g) \<Longrightarrow> C \<noteq> {}"
  by (auto simp: set_scc same_component_def)

lemma same_component_contains:
  assumes "nx_contains N g v" and "same_component (nx_rel N g) v w"
  shows "nx_contains N g w"
proof -
  have "(v, w) \<in> (nx_rel N g)\<^sup>*" using assms(2) by (simp add: same_component_def)
  then show ?thesis
    using assms(1) by (induction) (auto simp: nx_rel_def dest: has_edge_contains)
qed

lemma scc_member:
  assumes "C \<in> set (nx_strongly_connected_components N g)" and "v \<in> C"
  shows "C = {w. same_component (nx_rel N g) v w}" and "nx_contains N g v"
proof -
  from assms(1) obtain u where u: "nx_contains N g u"
    and C: "C = {w. same_component (nx_rel N g) u w}"
    by (auto simp: set_scc)
  from assms(2) C have uv: "same_component (nx_rel N g) u v" by simp
  show "nx_contains N g v" using u uv by (rule same_component_contains)
  show "C = {w. same_component (nx_rel N g) v w}"
    using uv unfolding C same_component_def by (auto intro: rtrancl_trans)
qed

end

section \<open>An executable instance\<close>

text \<open>Nodes and edges as lists; reachability by iterating the successor step once per edge.\<close>

type_synonym list_graph = "string list \<times> (string \<times> string) list"

definition lg_nodes :: "list_graph \<Rightarrow> string list" where
  "lg_nodes g = remdups (fst g @ map fst (snd g) @ map snd (snd g))"

definition expand_step :: "(string \<times> string) list \<Rightarrow> string list \<Rightarrow> string list" where
  "expand_step es vs = remdups (vs @ map snd (filter (\<lambda>e. fst e \<in> set vs) es))"

fun iterate :: "nat \<Rightarrow> ('a \<Rightarrow> 'a) \<Rightarrow> 'a \<Rightarrow> 'a" where
  "iterate 0 f x = x"
| "iterate (Suc n) f x = iterate n f (f x)"

definition lg_reach :: "(string \<times> string) list \<Rightarrow> string list \<Rightarrow> string list" where
  "lg_reach es vs = iterate (length es) (expand_step es) vs"

lemma set_expand_step: "set (expand_step es vs) = set vs \<union> set es `` set vs"
  by (force simp: expand_step_def Image_def)

lemma mem_iterate_expand:
  "w \<in> set (iterate n (expand_step es) vs) \<longleftrightarrow> (\<exists>k\<le>n. \<exists>v\<in>set vs. (v, w) \<in> set es ^^ k)"
proof (induction n arbitrary: vs)
  case 0
  then show ?case by simp
next
  case (Suc n)
  have "w \<in> set (iterate (Suc n) (expand_step es) vs)
        \<longleftrightarrow> (\<exists>k\<le>n. \<exists>v\<in>set vs \<union> set es `` set vs. (v, w) \<in> set es ^^ k)"
    by (simp add: Suc.IH set_expand_step)
  also have "\<dots> \<longleftrightarrow> (\<exists>k\<le>Suc n. \<exists>v\<in>set vs. (v, w) \<in> set es ^^ k)" (is "?L \<longleftrightarrow> ?R")
  proof
    assume ?L
    then obtain k v where k: "k \<le> n" "v \<in> set vs \<union> set es `` set vs" "(v, w) \<in> set es ^^ k" by blast
    show ?R
    proof (cases "v \<in> set vs")
      case True
      with k show ?thesis by (meson le_SucI)
    next
      case False
      with k(2) obtain u where "u \<in> set vs" "(u, v) \<in> set es" by auto
      with k(1,3) show ?thesis by (meson Suc_le_mono relpow_Suc_I2)
    qed
  next
    assume ?R
    then obtain k v where k: "k \<le> Suc n" "v \<in> set vs" "(v, w) \<in> set es ^^ k" by blast
    show ?L
    proof (cases k)
      case 0
      with k show ?thesis by auto
    next
      case (Suc j)
      with k(3) obtain u where "(v, u) \<in> set es" "(u, w) \<in> set es ^^ j" by (metis relpow_Suc_E2)
      with k Suc show ?thesis by (metis ImageI Suc_le_mono UnI2)
    qed
  qed
  finally show ?case .
qed

lemma set_lg_reach: "set (lg_reach es vs) = (set es)\<^sup>* `` set vs"
proof -
  have "(set es)\<^sup>* = (\<Union>k\<in>{k. k \<le> card (set es)}. set es ^^ k)"
    by (rule rtrancl_finite_eq_relpow) simp
  then have "(v, w) \<in> (set es)\<^sup>* \<longleftrightarrow> (\<exists>k\<le>length es. (v, w) \<in> set es ^^ k)" for v w
    using card_length [of es] relpow_imp_rtrancl [of "(v, w)" _ "set es"] by (auto intro: order_trans)
  then have "w \<in> set (lg_reach es vs) \<longleftrightarrow> (\<exists>v\<in>set vs. (v, w) \<in> (set es)\<^sup>*)" for w
    unfolding lg_reach_def mem_iterate_expand by blast
  then show ?thesis by (auto simp: Image_iff)
qed

definition lg_descendants :: "list_graph \<Rightarrow> string \<Rightarrow> string set option" where
  "lg_descendants g v =
     (if v \<in> set (lg_nodes g) then Some (set (filter (\<lambda>w. w \<noteq> v) (lg_reach (snd g) [v]))) else None)"

definition lg_component :: "list_graph \<Rightarrow> string \<Rightarrow> string set" where
  "lg_component g v = set (filter (\<lambda>w. v \<in> set (lg_reach (snd g) [w])) (lg_reach (snd g) [v]))"

definition lg_is_dag :: "list_graph \<Rightarrow> bool" where
  "lg_is_dag g = (\<forall>e\<in>set (snd g). fst e \<notin> set (lg_reach (snd g) [snd e]))"

definition list_nx :: "list_graph nx_api" where
  "list_nx = \<lparr>
     nx_empty = ([], []),
     nx_add_nodes_from = (\<lambda>g vs. (fst g @ vs, snd g)),
     nx_add_edges_from = (\<lambda>g es. (fst g, snd g @ es)),
     nx_reverse = (\<lambda>g. (lg_nodes g, map prod.swap (snd g))),
     nx_contains = (\<lambda>g v. v \<in> set (lg_nodes g)),
     nx_has_edge = (\<lambda>g u v. (u, v) \<in> set (snd g)),
     nx_successors = (\<lambda>g u. remdups (map snd (filter (\<lambda>e. fst e = u) (snd g)))),
     nx_edges = snd,
     nx_descendants = lg_descendants,
     nx_strongly_connected_components = (\<lambda>g. remdups (map (lg_component g) (lg_nodes g))),
     nx_is_directed_acyclic_graph = lg_is_dag\<rparr>"

lemma set_lg_nodes: "set (lg_nodes g) = set (fst g) \<union> fst ` set (snd g) \<union> snd ` set (snd g)"
  by (auto simp: lg_nodes_def)

lemma nx_rel_list_nx: "nx_rel list_nx g = set (snd g)"
  by (simp add: nx_rel_def list_nx_def)

lemma lg_component_eq: "lg_component g v = {w. same_component (set (snd g)) v w}"
  by (auto simp: lg_component_def set_lg_reach same_component_def)

lemma lg_is_dag_iff: "lg_is_dag g \<longleftrightarrow> acyclic (set (snd g))"
proof
  assume dag: "lg_is_dag g"
  show "acyclic (set (snd g))"
  proof (rule acyclicI, rule allI, rule notI)
    fix x assume "(x, x) \<in> (set (snd g))\<^sup>+"
    then obtain y where "(x, y) \<in> set (snd g)" "(y, x) \<in> (set (snd g))\<^sup>*" by (meson tranclD)
    with dag show False by (fastforce simp: lg_is_dag_def set_lg_reach)
  qed
next
  assume ac: "acyclic (set (snd g))"
  have "(v, u) \<notin> (set (snd g))\<^sup>*" if "(u, v) \<in> set (snd g)" for u v
    using ac that rtrancl_into_trancl2 [OF that] by (auto simp: acyclic_def)
  then show "lg_is_dag g" by (auto simp: lg_is_dag_def set_lg_reach)
qed

lemma lg_descendants_eq:
  "lg_descendants g v = (if v \<in> set (lg_nodes g)
     then Some {w. (v, w) \<in> (set (snd g))\<^sup>+ \<and> w \<noteq> v} else None)"
  by (auto simp: lg_descendants_def set_lg_reach dest: rtranclD intro: trancl_into_rtrancl)

lemma swap_mem_iff: "(u, v) \<in> prod.swap ` R \<longleftrightarrow> (v, u) \<in> R"
proof
  assume "(v, u) \<in> R"
  then have "prod.swap (v, u) \<in> prod.swap ` R" by (rule imageI)
  then show "(u, v) \<in> prod.swap ` R" by simp
qed auto

lemma edge_in_lg_nodes: "(u, v) \<in> set (snd g) \<Longrightarrow> u \<in> set (lg_nodes g) \<and> v \<in> set (lg_nodes g)"
  by (force simp: set_lg_nodes)

interpretation list_graphs: networkx list_nx
proof (unfold_locales, goal_cases)
  case (7 g v)
  then show ?case by (auto simp: list_nx_def set_lg_nodes swap_mem_iff image_iff)
next
  case (8 g u v)
  then show ?case by (simp add: list_nx_def swap_mem_iff)
next
  case (9 g u v)
  then show ?case using edge_in_lg_nodes [of u v g] by (simp add: list_nx_def)
next
  case (10 g u)
  then show ?case by (force simp: list_nx_def)
next
  case (13 g v)
  then show ?case by (simp add: nx_rel_list_nx) (simp add: list_nx_def lg_descendants_eq)
next
  case (15 g)
  show ?case
    by (simp add: nx_rel_list_nx) (auto simp: list_nx_def lg_component_eq)
next
  case (17 g)
  show ?case by (simp add: list_nx_def)
next
  case (18 g)
  show ?case by (simp add: nx_rel_list_nx) (simp add: list_nx_def lg_is_dag_iff)
qed (auto simp: nx_rel_list_nx lg_is_dag_iff set_lg_nodes lg_descendants_eq list_nx_def nx_rel_def
      image_iff split: prod.splits)

end
