(* ===== verification/DepGraph.thy ===== *)
theory DepGraph
  imports Models NetworkX
begin

text \<open>
  The manuscript dependency graph, \<^verbatim>\<open>incremental/graph.py\<close>: an approved edge points from a claim to
  a claim it depends on. The graph algorithms go through the \<open>networkx\<close> interface \<open>N\<close>; the
  scheduler's own recursion (\<open>dependency_is_satisfied\<close>) is modelled with its trail and shown equal
  to a least fixed point.
\<close>

section \<open>The graph and its reachability operations\<close>

definition ASSISTANT_CONTEXT_EDGE_KIND :: string where
  "ASSISTANT_CONTEXT_EDGE_KIND = ''assistant_context''"

definition approved_rel :: "manuscript_edge list \<Rightarrow> (string \<times> string) set" where
  "approved_rel edges = {(e_src e, e_dst e) | e. e \<in> set edges \<and> e_approved e}"

definition build_graph :: "'g nx_api \<Rightarrow> string set \<Rightarrow> manuscript_edge list \<Rightarrow> 'g" where
  "build_graph N claim_ids edges =
     nx_add_edges_from N
       (nx_add_nodes_from N (nx_empty N) (sorted_list_of_set claim_ids))
       (map (\<lambda>e. (e_src e, e_dst e)) (filter e_approved edges))"

text \<open>\<open>nx.descendants\<close> raises \<open>NetworkXError\<close> for a node that is not in the graph.\<close>

definition descendantsE :: "'g nx_api \<Rightarrow> 'g \<Rightarrow> string \<Rightarrow> string set result" where
  "descendantsE N g v = (case nx_descendants N g v of
     None \<Rightarrow> Inl (NetworkXError v) | Some S \<Rightarrow> Inr S)"

definition component_cycles :: "'g nx_api \<Rightarrow> 'g \<Rightarrow> string set \<Rightarrow> string list list" where
  "component_cycles N graph component =
     (if 1 < card component then [sorted_list_of_set component]
      else (case sorted_list_of_set component of
              [] \<Rightarrow> []
            | node # _ \<Rightarrow> if nx_has_edge N graph node node then [[node]] else []))"

definition canonical_cycles :: "'g nx_api \<Rightarrow> 'g \<Rightarrow> string list list" where
  "canonical_cycles N graph =
     sort (concat (map (component_cycles N graph) (nx_strongly_connected_components N graph)))"

definition affected_claims ::
    "'g nx_api \<Rightarrow> string list \<Rightarrow> string set \<Rightarrow> manuscript_edge list \<Rightarrow> string set result" where
  "affected_claims N changed claim_ids edges =
     (let graph = nx_reverse N (build_graph N claim_ids edges)
      in foldE (\<lambda>claim_id result.
           if nx_contains N graph claim_id
           then bindE (descendantsE N graph claim_id) (\<lambda>D. Inr (insert claim_id result \<union> D))
           else Inr (insert claim_id result)) changed {})"

definition dependency_closure ::
    "'g nx_api \<Rightarrow> string list \<Rightarrow> string set \<Rightarrow> manuscript_edge list \<Rightarrow> string set result" where
  "dependency_closure N targets claim_ids edges =
     (let graph = build_graph N claim_ids edges
      in foldE (\<lambda>claim_id result.
           if \<not> nx_contains N graph claim_id then Inr result
           else bindE (descendantsE N graph claim_id) (\<lambda>D. Inr (insert claim_id result \<union> D))) targets {})"

definition blocked_descendants ::
    "'g nx_api \<Rightarrow> string list \<Rightarrow> string set \<Rightarrow> manuscript_edge list \<Rightarrow> string set result" where
  "blocked_descendants N blockers selected edges =
     (let graph = nx_reverse N (build_graph N selected edges)
      in bindE (foldE (\<lambda>blocker result.
           if nx_contains N graph blocker
           then bindE (descendantsE N graph blocker) (\<lambda>D. Inr (result \<union> D))
           else Inr result) blockers {})
         (\<lambda>result. Inr (result \<inter> selected)))"

text \<open>The dict comprehension \<open>{key(x): x for x in xs}\<close>: a later element replaces an earlier one.\<close>

definition dict_by :: "('a \<Rightarrow> 'k) \<Rightarrow> 'a list \<Rightarrow> 'k \<Rightarrow> 'a option" where
  "dict_by key xs = fold (\<lambda>x m. m(key x \<mapsto> x)) xs Map.empty"

definition conjectural_dependency_blockers ::
    "'g nx_api \<Rightarrow> source_object list \<Rightarrow> string set \<Rightarrow> manuscript_edge list
     \<Rightarrow> (string \<Rightarrow> string list option) result" where
  "conjectural_dependency_blockers N objects selected edges =
     (let by_id = dict_by so_claim_id objects;
          graph = nx_reverse N (build_graph N (set (map so_claim_id objects)) edges)
      in foldE (\<lambda>item result.
           if \<not> is_conjectural_assertion item then Inr result
           else bindE (descendantsE N graph (so_claim_id item)) (\<lambda>dependents.
             let blockers = filter
                   (\<lambda>c. case by_id c of None \<Rightarrow> False | Some i \<Rightarrow> is_proof_bearing_assertion i)
                   (sorted_list_of_set (dependents \<inter> selected))
             in if blockers \<noteq> [] then Inr (result(so_claim_id item \<mapsto> blockers)) else Inr result))
         objects Map.empty)"

section \<open>Scheduling: the ready frontier\<close>

definition dict_get :: "('k \<Rightarrow> 'v option) \<Rightarrow> 'k \<Rightarrow> 'v \<Rightarrow> 'v" where
  "dict_get m k d = (case m k of None \<Rightarrow> d | Some v \<Rightarrow> v)"

function dependency_is_satisfied ::
    "(string \<Rightarrow> claim_state option) \<Rightarrow> string list \<Rightarrow> (string \<Rightarrow> string list option)
     \<Rightarrow> string \<Rightarrow> string set \<Rightarrow> bool" where
  "dependency_is_satisfied states guided dependencies claim_id trail =
     (if dict_get states claim_id DISCOVERED = CERTIFIED then True
      else if dict_get states claim_id DISCOVERED \<noteq> SKIPPED_UNPROVED
              \<or> claim_id \<notin> set guided \<or> claim_id \<in> trail then False
      else (\<forall>dependency\<in>set (dict_get dependencies claim_id []).
              dependency_is_satisfied states guided dependencies dependency (insert claim_id trail)))"
  by pat_completeness auto
termination
  by (relation "measure (\<lambda>(states, guided, dependencies, claim_id, trail). card (set guided - trail))")
     (auto intro!: diff_less simp: card_gt_0_iff)

declare dependency_is_satisfied.simps [simp del]

definition add_dependency ::
    "string \<Rightarrow> string \<Rightarrow> (string \<Rightarrow> string list option) \<Rightarrow> string \<Rightarrow> string list option" where
  "add_dependency src dst dependencies =
     dependencies(src \<mapsto> List.insert dst (dict_get dependencies src []))"

definition collect_edge ::
    "(manuscript_edge \<Rightarrow> bool) \<Rightarrow> manuscript_edge
     \<Rightarrow> (string \<Rightarrow> string list option) \<times> string list
     \<Rightarrow> (string \<Rightarrow> string list option) \<times> string list" where
  "collect_edge included edge acc =
     (case acc of (dependencies, guided) \<Rightarrow>
        if included edge
        then (add_dependency (e_src edge) (e_dst edge) dependencies,
              if e_kind edge = ASSISTANT_CONTEXT_EDGE_KIND then List.insert (e_src edge) guided else guided)
        else acc)"

definition READY_STATES :: "claim_state set" where
  "READY_STATES = {DISCOVERED, STATEMENT_APPROVED, READY_TO_PROVE, DIRTY_SOURCE, INVALIDATED,
     FAILED_FORMALIZATION, UNRESOLVED}"

definition ready_frontier ::
    "(string \<Rightarrow> claim_state option) \<Rightarrow> string set \<Rightarrow> manuscript_edge list \<Rightarrow> string list" where
  "ready_frontier states selected edges =
     (case fold (collect_edge (\<lambda>e. e_approved e \<and> e_src e \<in> selected \<and> e_dst e \<in> selected)) edges
             (\<lambda>c. if c \<in> selected then Some [] else None, [])
      of (dependencies, guided_claims) \<Rightarrow>
        filter (\<lambda>claim_id. dict_get states claim_id DISCOVERED \<in> READY_STATES
            \<and> (\<forall>dependency\<in>set (dict_get dependencies claim_id []).
                  dependency_is_satisfied states guided_claims dependencies dependency {}))
          (sorted_list_of_set selected))"

definition unsatisfied_dependencies ::
    "string \<Rightarrow> (string \<Rightarrow> claim_state option) \<Rightarrow> manuscript_edge list \<Rightarrow> string list" where
  "unsatisfied_dependencies claim_id states edges =
     (let approved = filter e_approved edges
      in case fold (collect_edge (\<lambda>_. True)) approved (Map.empty, [])
         of (dependencies, guided_claims) \<Rightarrow>
           filter (\<lambda>dependency. \<not> dependency_is_satisfied states guided_claims dependencies dependency {})
             (sorted_list_of_set (set (dict_get dependencies claim_id []))))"

section \<open>Source changes between two snapshots\<close>

text \<open>A row of \<open>claim_versions\<close> as \<open>source_changes\<close> reads it; \<open>pv_assistant_context\<close> is \<open>None\<close>
  when the row has no such column.\<close>

record prior_version =
  pv_kind :: string
  pv_proof_start :: "int option"
  pv_proof_hash :: string
  pv_normalized_statement_hash :: string
  pv_assistant_context :: "string option"

datatype source_change = Statement_Change | Context_Change | Proof_Change | No_Change

definition classify_change :: "prior_version option \<Rightarrow> source_object \<Rightarrow> string \<Rightarrow> source_change" where
  "classify_change old item mode = (case old of
     None \<Rightarrow> Statement_Change
   | Some v \<Rightarrow>
       if pv_normalized_statement_hash v \<noteq> so_normalized_statement_hash item then Statement_Change
       else if (case pv_assistant_context v of None \<Rightarrow> False | Some ctx \<Rightarrow> ctx \<noteq> so_assistant_context item)
       then Context_Change
       else if is_conjectural_assertion_shape (pv_kind v) (pv_proof_start v) \<noteq> is_conjectural_assertion item
       then Statement_Change
       else if pv_proof_hash v \<noteq> so_proof_hash item \<and> mode = ''argument-audit'' then Proof_Change
       else No_Change)"

definition source_changes ::
    "(string \<times> prior_version) list \<Rightarrow> source_object list \<Rightarrow> string
     \<Rightarrow> string set \<times> string set \<times> string set \<times> string set" where
  "source_changes previous current mode =
     (let now = dict_by so_claim_id current;
          ids = remdups (map so_claim_id current);
          changed = (\<lambda>kind. set (filter (\<lambda>c. case now c of None \<Rightarrow> False
             | Some item \<Rightarrow> classify_change (map_of previous c) item mode = kind) ids))
      in (changed Statement_Change, changed Context_Change, changed Proof_Change,
          set (map fst previous) - set ids))"

section \<open>Reachability lemmas\<close>

lemma set_approved_pairs:
  "set (map (\<lambda>e. (e_src e, e_dst e)) (filter e_approved edges)) = approved_rel edges"
  by (auto simp: approved_rel_def)

lemma approved_rel_code [code]:
  "approved_rel edges = set (map (\<lambda>e. (e_src e, e_dst e)) (filter e_approved edges))"
  by (simp only: set_approved_pairs)

lemma dict_by_Some:
  "dict_by key xs k = Some x \<Longrightarrow> x \<in> set xs \<and> key x = k"
proof -
  have "fold (\<lambda>x m. m(key x \<mapsto> x)) xs m k = Some x \<Longrightarrow> (x \<in> set xs \<and> key x = k) \<or> m k = Some x" for m
  proof (induction xs arbitrary: m)
    case (Cons a xs)
    from Cons.IH [of "m(key a \<mapsto> a)"] Cons.prems show ?case by (auto split: if_splits)
  qed simp
  from this [of Map.empty] show "dict_by key xs k = Some x \<Longrightarrow> x \<in> set xs \<and> key x = k"
    by (auto simp: dict_by_def)
qed

lemma dict_by_None_iff: "dict_by key xs k = None \<longleftrightarrow> k \<notin> key ` set xs"
proof -
  have "fold (\<lambda>x m. m(key x \<mapsto> x)) xs m k = None \<longleftrightarrow> k \<notin> key ` set xs \<and> m k = None" for m
    by (induction xs arbitrary: m) auto
  then show ?thesis by (simp add: dict_by_def)
qed

lemma dict_by_distinct:
  assumes "distinct (map key xs)" and "x \<in> set xs"
  shows "dict_by key xs (key x) = Some x"
proof -
  obtain y where y: "dict_by key xs (key x) = Some y"
    using assms(2) dict_by_None_iff [of key xs "key x"] by (cases "dict_by key xs (key x)") auto
  then have "y \<in> set xs" "key y = key x" by (auto dest: dict_by_Some)
  with assms have "y = x" by (auto simp: distinct_map dest: inj_onD)
  with y show ?thesis by simp
qed

context networkx
begin

lemma build_graph_rel: "nx_rel N (build_graph N ids edges) = approved_rel edges"
  by (simp add: build_graph_def nx_rel_simps set_approved_pairs del: set_map)

lemma build_graph_contains:
  "finite ids \<Longrightarrow> nx_contains N (build_graph N ids edges) v
   \<longleftrightarrow> v \<in> ids \<or> v \<in> Domain (approved_rel edges) \<or> v \<in> Range (approved_rel edges)"
  by (auto simp: build_graph_def contains_simps approved_rel_def image_iff Domain_iff Range_iff)

lemma reverse_rel: "nx_rel N (nx_reverse N (build_graph N ids edges)) = (approved_rel edges)\<inverse>"
  by (simp add: nx_rel_simps build_graph_rel)

lemma descendantsE_contains:
  "nx_contains N g v \<Longrightarrow> descendantsE N g v = Inr {w. (v, w) \<in> (nx_rel N g)\<^sup>+ \<and> w \<noteq> v}"
  by (simp add: descendantsE_def descendants_Some)

lemma affected_claims_eq:
  assumes "finite ids"
  shows "affected_claims N changed ids edges
         = Inr {c. \<exists>d\<in>set changed. (c, d) \<in> (approved_rel edges)\<^sup>*}"
proof -
  let ?g = "nx_reverse N (build_graph N ids edges)"
  let ?R = "approved_rel edges"
  let ?step = "\<lambda>d acc. if nx_contains N ?g d
      then bindE (descendantsE N ?g d) (\<lambda>D. Inr (insert d acc \<union> D)) else Inr (insert d acc)"
  have step: "?step d acc = Inr (acc \<union> {c. (c, d) \<in> ?R\<^sup>*})" for d acc
  proof (cases "nx_contains N ?g d")
    case True
    then have "?step d acc = Inr (insert d acc \<union> {w. (w, d) \<in> ?R\<^sup>+ \<and> w \<noteq> d})"
      by (simp add: descendantsE_contains reverse_rel trancl_converse)
    also have "insert d acc \<union> {w. (w, d) \<in> ?R\<^sup>+ \<and> w \<noteq> d} = acc \<union> {c. (c, d) \<in> ?R\<^sup>*}"
      by (auto simp: rtrancl_eq_or_trancl)
    finally show ?thesis .
  next
    case False
    then have "d \<notin> Range ?R" using assms by (simp add: contains_reverse build_graph_contains)
    then have "{c. (c, d) \<in> ?R\<^sup>*} = {d}" by (auto elim: rtranclE)
    with False show ?thesis by auto
  qed
  have "foldE ?step xs acc = Inr (acc \<union> {c. \<exists>d\<in>set xs. (c, d) \<in> ?R\<^sup>*})" for xs acc
    by (induction xs arbitrary: acc) (auto simp: step)
  then show ?thesis by (simp add: affected_claims_def Let_def)
qed

lemma dependency_closure_eq:
  assumes "finite ids"
  shows "dependency_closure N targets ids edges
         = Inr {c. \<exists>t\<in>set targets. nx_contains N (build_graph N ids edges) t
                    \<and> (t, c) \<in> (approved_rel edges)\<^sup>*}"
proof -
  let ?g = "build_graph N ids edges"
  let ?R = "approved_rel edges"
  let ?step = "\<lambda>d acc. if \<not> nx_contains N ?g d then Inr acc
      else bindE (descendantsE N ?g d) (\<lambda>D. Inr (insert d acc \<union> D))"
  have step: "?step d acc = Inr (acc \<union> {c. nx_contains N ?g d \<and> (d, c) \<in> ?R\<^sup>*})" for d acc
  proof (cases "nx_contains N ?g d")
    case True
    then have "?step d acc = Inr (insert d acc \<union> {w. (d, w) \<in> ?R\<^sup>+ \<and> w \<noteq> d})"
      by (simp add: descendantsE_contains build_graph_rel)
    also have "insert d acc \<union> {w. (d, w) \<in> ?R\<^sup>+ \<and> w \<noteq> d} = acc \<union> {c. (d, c) \<in> ?R\<^sup>*}"
      by (auto simp: rtrancl_eq_or_trancl)
    finally show ?thesis using True by simp
  qed simp
  have "foldE ?step xs acc
        = Inr (acc \<union> {c. \<exists>t\<in>set xs. nx_contains N ?g t \<and> (t, c) \<in> ?R\<^sup>*})" for xs acc
    by (induction xs arbitrary: acc) (auto simp: step)
  then show ?thesis by (simp add: dependency_closure_def Let_def)
qed

lemma blocked_descendants_eq:
  assumes "finite selected"
  shows "blocked_descendants N blockers selected edges
         = Inr {c \<in> selected. \<exists>b\<in>set blockers. c \<noteq> b \<and> (c, b) \<in> (approved_rel edges)\<^sup>+}"
proof -
  let ?g = "nx_reverse N (build_graph N selected edges)"
  let ?R = "approved_rel edges"
  let ?step = "\<lambda>b acc. if nx_contains N ?g b
      then bindE (descendantsE N ?g b) (\<lambda>D. Inr (acc \<union> D)) else Inr acc"
  have step: "?step b acc = Inr (acc \<union> {c. c \<noteq> b \<and> (c, b) \<in> ?R\<^sup>+})" for b acc
  proof (cases "nx_contains N ?g b")
    case True
    then show ?thesis
      by (auto simp: descendantsE_contains reverse_rel trancl_converse)
  next
    case False
    then have "b \<notin> Range ?R" using assms by (simp add: contains_reverse build_graph_contains)
    then have none: "{c. c \<noteq> b \<and> (c, b) \<in> ?R\<^sup>+} = {}" by (auto elim: tranclE)
    show ?thesis unfolding none using False by simp
  qed
  have "foldE ?step xs acc = Inr (acc \<union> {c. \<exists>b\<in>set xs. c \<noteq> b \<and> (c, b) \<in> ?R\<^sup>+})" for xs acc
    by (induction xs arbitrary: acc) (auto simp: step)
  then show ?thesis by (auto simp: blocked_descendants_def Let_def)
qed

end

section \<open>The scheduler's trail recursion as a least fixed point\<close>

text \<open>
  The abstract meaning of "satisfied": a claim is certified, or it is a skipped unproved assertion
  with author guidance all of whose dependencies are satisfied. The least such predicate leaves
  every claim on a dependency cycle of skipped assertions unsatisfied.
\<close>

inductive satisfied ::
    "(string \<Rightarrow> claim_state option) \<Rightarrow> string set \<Rightarrow> (string \<Rightarrow> string set) \<Rightarrow> string \<Rightarrow> bool"
  for states :: "string \<Rightarrow> claim_state option" and guided :: "string set"
  and deps :: "string \<Rightarrow> string set" where
  certified: "dict_get states c DISCOVERED = CERTIFIED \<Longrightarrow> satisfied states guided deps c"
| guided_skip: "dict_get states c DISCOVERED = SKIPPED_UNPROVED \<Longrightarrow> c \<in> guided \<Longrightarrow>
     (\<And>d. d \<in> deps c \<Longrightarrow> satisfied states guided deps d) \<Longrightarrow> satisfied states guided deps c"

inductive_simps satisfied_iff: "satisfied states guided deps c"

fun satisfied_level ::
    "nat \<Rightarrow> (string \<Rightarrow> claim_state option) \<Rightarrow> string set \<Rightarrow> (string \<Rightarrow> string set) \<Rightarrow> string \<Rightarrow> bool" where
  "satisfied_level 0 states guided deps c = (dict_get states c DISCOVERED = CERTIFIED)"
| "satisfied_level (Suc n) states guided deps c =
     (dict_get states c DISCOVERED = CERTIFIED
      \<or> dict_get states c DISCOVERED = SKIPPED_UNPROVED \<and> c \<in> guided
        \<and> (\<forall>d\<in>deps c. satisfied_level n states guided deps d))"

lemma satisfied_level_mono:
  "satisfied_level m states guided deps c \<Longrightarrow> m \<le> n \<Longrightarrow> satisfied_level n states guided deps c"
proof (induction n arbitrary: m c)
  case 0
  then show ?case by simp
next
  case (Suc n)
  then show ?case by (cases m) (auto simp: Suc_le_mono)
qed

lemma satisfied_imp_level:
  assumes "\<And>c. finite (deps c)" and "satisfied states guided deps c"
  shows "\<exists>n. satisfied_level n states guided deps c"
  using assms(2)
proof (induction rule: satisfied.induct)
  case (certified c)
  then have "satisfied_level 0 states guided deps c" by simp
  then show ?case ..
next
  case (guided_skip c)
  then obtain f where f: "\<And>d. d \<in> deps c \<Longrightarrow> satisfied_level (f d) states guided deps d" by metis
  have "satisfied_level (Max (f ` deps c)) states guided deps d" if "d \<in> deps c" for d
    using f [OF that] by (rule satisfied_level_mono) (simp add: assms(1) that)
  with guided_skip have "satisfied_level (Suc (Max (f ` deps c))) states guided deps c" by simp
  then show ?case ..
qed

lemma level_imp_dependency_is_satisfied:
  assumes "satisfied_level n states (set guided) (\<lambda>c. set (dict_get dependencies c [])) c"
    and "\<And>t. t \<in> trail \<Longrightarrow>
          \<not> satisfied_level n states (set guided) (\<lambda>c. set (dict_get dependencies c [])) t"
  shows "dependency_is_satisfied states guided dependencies c trail"
  using assms
proof (induction n arbitrary: c trail)
  case 0
  then show ?case by (subst dependency_is_satisfied.simps) simp
next
  case (Suc n)
  let ?lv = "\<lambda>n. satisfied_level n states (set guided) (\<lambda>c. set (dict_get dependencies c []))"
  have trail: "\<not> ?lv n t" if "t \<in> trail" for t
    using Suc.prems(2) [OF that] by (meson le_SucI order_refl satisfied_level_mono)
  show ?case
  proof (cases "?lv n c")
    case True
    then show ?thesis using trail by (rule Suc.IH)
  next
    case False
    from False have "dict_get states c DISCOVERED \<noteq> CERTIFIED"
      using satisfied_level_mono [of 0] by fastforce
    with Suc.prems(1) have skip: "dict_get states c DISCOVERED = SKIPPED_UNPROVED" "c \<in> set guided"
      and deps: "\<And>d. d \<in> set (dict_get dependencies c []) \<Longrightarrow> ?lv n d" by auto
    have "c \<notin> trail" using Suc.prems by blast
    moreover have "dependency_is_satisfied states guided dependencies d (insert c trail)"
      if "d \<in> set (dict_get dependencies c [])" for d
      using Suc.IH [OF deps [OF that], of "insert c trail"] trail False by blast
    ultimately show ?thesis
      using skip by (subst dependency_is_satisfied.simps) auto
  qed
qed

lemma dependency_is_satisfied_sound:
  "dependency_is_satisfied states guided dependencies c trail \<Longrightarrow>
   satisfied states (set guided) (\<lambda>c. set (dict_get dependencies c [])) c"
proof (induction states guided dependencies c trail rule: dependency_is_satisfied.induct)
  case (1 states guided dependencies c trail)
  note eq = dependency_is_satisfied.simps [of states guided dependencies c trail]
  show ?case
    using "1.prems" "1.IH" by (auto simp: eq split: if_splits intro: satisfied.intros)
qed

lemma dependency_is_satisfied_iff:
  "dependency_is_satisfied states guided dependencies c {} \<longleftrightarrow>
   satisfied states (set guided) (\<lambda>c. set (dict_get dependencies c [])) c"
  using dependency_is_satisfied_sound satisfied_imp_level level_imp_dependency_is_satisfied
  by (metis (no_types, lifting) List.finite_set empty_iff)

section \<open>What the collected dependency dictionaries hold\<close>

lemma collect_edges_spec:
  assumes "fold (collect_edge P) edges (deps0, g0) = (deps, g)"
  shows "set (dict_get deps c []) = set (dict_get deps0 c [])
           \<union> {e_dst e | e. e \<in> set edges \<and> P e \<and> e_src e = c}"
    and "set g = set g0 \<union> {e_src e | e. e \<in> set edges \<and> P e \<and> e_kind e = ASSISTANT_CONTEXT_EDGE_KIND}"
proof -
  have "set (dict_get deps c []) = set (dict_get deps0 c [])
           \<union> {e_dst e | e. e \<in> set edges \<and> P e \<and> e_src e = c}
        \<and> set g = set g0 \<union> {e_src e | e. e \<in> set edges \<and> P e \<and> e_kind e = ASSISTANT_CONTEXT_EDGE_KIND}"
    using assms
  proof (induction edges arbitrary: deps0 g0)
    case Nil
    then show ?case by simp
  next
    case (Cons e edges)
    obtain d1 g1 where dg: "collect_edge P e (deps0, g0) = (d1, g1)" by (cases "collect_edge P e (deps0, g0)")
    with Cons.prems have "fold (collect_edge P) edges (d1, g1) = (deps, g)" by simp
    from Cons.IH [OF this] dg show ?case
      by (auto simp: collect_edge_def add_dependency_def dict_get_def split: if_splits option.splits)
  qed
  then show "set (dict_get deps c []) = set (dict_get deps0 c [])
           \<union> {e_dst e | e. e \<in> set edges \<and> P e \<and> e_src e = c}"
    and "set g = set g0 \<union> {e_src e | e. e \<in> set edges \<and> P e \<and> e_kind e = ASSISTANT_CONTEXT_EDGE_KIND}"
    by simp_all
qed

definition scheduling_deps :: "string set \<Rightarrow> manuscript_edge list \<Rightarrow> string \<Rightarrow> string set" where
  "scheduling_deps S edges c =
     {e_dst e | e. e \<in> set edges \<and> e_approved e \<and> e_src e \<in> S \<and> e_dst e \<in> S \<and> e_src e = c}"

definition guided_in :: "string set \<Rightarrow> manuscript_edge list \<Rightarrow> string set" where
  "guided_in S edges =
     {e_src e | e. e \<in> set edges \<and> e_approved e \<and> e_src e \<in> S \<and> e_dst e \<in> S
        \<and> e_kind e = ASSISTANT_CONTEXT_EDGE_KIND}"

abbreviation sat_in :: "(string \<Rightarrow> claim_state option) \<Rightarrow> string set \<Rightarrow> manuscript_edge list \<Rightarrow> string \<Rightarrow> bool" where
  "sat_in states S edges \<equiv> satisfied states (guided_in S edges) (scheduling_deps S edges)"

lemma scheduling_deps_iff:
  "d \<in> scheduling_deps S edges c \<longleftrightarrow> c \<in> S \<and> d \<in> S \<and> (c, d) \<in> approved_rel edges"
  by (auto simp: scheduling_deps_def approved_rel_def)

lemma dict_get_nil:
  "dict_get Map.empty c d = d"
  "dict_get (\<lambda>c. if c \<in> S then Some [] else None) c [] = ([] :: 'v list)"
  by (simp_all add: dict_get_def)

lemma ready_frontier_mem:
  assumes "finite selected"
  shows "c \<in> set (ready_frontier states selected edges) \<longleftrightarrow>
     c \<in> selected \<and> dict_get states c DISCOVERED \<in> READY_STATES
     \<and> (\<forall>d\<in>scheduling_deps selected edges c. sat_in states selected edges d)"
proof -
  let ?P = "\<lambda>e. e_approved e \<and> e_src e \<in> selected \<and> e_dst e \<in> selected"
  let ?d0 = "\<lambda>c. if c \<in> selected then Some [] else None :: string list option"
  obtain deps g where f: "fold (collect_edge ?P) edges (?d0, []) = (deps, g)"
    by (cases "fold (collect_edge ?P) edges (?d0, [])")
  have deps: "(\<lambda>c. set (dict_get deps c [])) = scheduling_deps selected edges"
    by (rule ext) (auto simp: collect_edges_spec(1) [OF f] scheduling_deps_def dict_get_nil)
  have g: "set g = guided_in selected edges"
    by (auto simp: collect_edges_spec(2) [OF f] guided_in_def)
  have sat: "dependency_is_satisfied states g deps d {} = sat_in states selected edges d" for d
    by (simp only: dependency_is_satisfied_iff deps g)
  show ?thesis
    using assms fun_cong [OF deps, of c] by (simp add: ready_frontier_def f sat)
qed

lemma unsatisfied_dependencies_mem:
  "d \<in> set (unsatisfied_dependencies c states edges) \<longleftrightarrow>
     (c, d) \<in> approved_rel edges \<and> \<not> sat_in states UNIV edges d"
proof -
  obtain deps g where f: "fold (collect_edge (\<lambda>_. True)) (filter e_approved edges) (Map.empty, []) = (deps, g)"
    by (cases "fold (collect_edge (\<lambda>_. True)) (filter e_approved edges) (Map.empty, [])")
  have deps: "(\<lambda>c. set (dict_get deps c [])) = scheduling_deps UNIV edges"
    by (rule ext) (auto simp: collect_edges_spec(1) [OF f] scheduling_deps_def dict_get_nil)
  have g: "set g = guided_in UNIV edges"
    by (auto simp: collect_edges_spec(2) [OF f] guided_in_def)
  have dmem: "x \<in> set (dict_get deps c []) \<longleftrightarrow> (c, x) \<in> approved_rel edges" for x
    using fun_cong [OF deps, of c] by (auto simp: scheduling_deps_iff)
  have sat: "dependency_is_satisfied states g deps d {} = sat_in states UNIV edges d" for d
    by (simp only: dependency_is_satisfied_iff deps g)
  show ?thesis
    by (simp add: unsatisfied_dependencies_def f sat dmem)
qed

definition closed_under :: "string set \<Rightarrow> manuscript_edge list \<Rightarrow> bool" where
  "closed_under S edges = (\<forall>e\<in>set edges. e_approved e \<longrightarrow> e_src e \<in> S \<longrightarrow> e_dst e \<in> S)"

lemma closed_scheduling_deps:
  "closed_under S edges \<Longrightarrow> c \<in> S \<Longrightarrow> scheduling_deps S edges c = scheduling_deps UNIV edges c"
  by (auto simp: closed_under_def scheduling_deps_def)

lemma closed_guided:
  "closed_under S edges \<Longrightarrow> c \<in> S \<Longrightarrow> c \<in> guided_in S edges \<longleftrightarrow> c \<in> guided_in UNIV edges"
  by (auto simp: closed_under_def guided_in_def)

lemma closed_sat_in_widen:
  assumes "closed_under S edges" and "sat_in states S edges c" and "c \<in> S"
  shows "sat_in states UNIV edges c"
  using assms(2,3)
proof (induction rule: satisfied.induct)
  case (certified c)
  then show ?case by (simp add: satisfied.certified)
next
  case (guided_skip c)
  show ?case
  proof (rule satisfied.guided_skip [OF guided_skip(1)])
    show "c \<in> guided_in UNIV edges" using guided_skip assms(1) by (simp add: closed_guided)
    show "sat_in states UNIV edges d" if "d \<in> scheduling_deps UNIV edges c" for d
      using guided_skip assms(1) that by (metis closed_scheduling_deps scheduling_deps_iff)
  qed
qed

lemma closed_sat_in_narrow:
  assumes "closed_under S edges" and "sat_in states UNIV edges c" and "c \<in> S"
  shows "sat_in states S edges c"
  using assms(2,3)
proof (induction rule: satisfied.induct)
  case (certified c)
  then show ?case by (simp add: satisfied.certified)
next
  case (guided_skip c)
  show ?case
  proof (rule satisfied.guided_skip [OF guided_skip(1)])
    show "c \<in> guided_in S edges" using guided_skip assms(1) by (simp add: closed_guided)
    show "sat_in states S edges d" if "d \<in> scheduling_deps S edges c" for d
      using guided_skip assms(1) that by (metis closed_scheduling_deps scheduling_deps_iff)
  qed
qed

lemma closed_sat_in:
  "closed_under S edges \<Longrightarrow> c \<in> S \<Longrightarrow> sat_in states S edges c \<longleftrightarrow> sat_in states UNIV edges c"
  using closed_sat_in_widen closed_sat_in_narrow by blast

lemma dependency_closure_closed:
  "closed_under {c. \<exists>t\<in>T. (t, c) \<in> (approved_rel edges)\<^sup>*} edges"
  unfolding closed_under_def
proof (intro ballI impI)
  fix e assume e: "e \<in> set edges" "e_approved e" "e_src e \<in> {c. \<exists>t\<in>T. (t, c) \<in> (approved_rel edges)\<^sup>*}"
  from e(1,2) have "(e_src e, e_dst e) \<in> approved_rel edges" by (auto simp: approved_rel_def)
  with e(3) show "e_dst e \<in> {c. \<exists>t\<in>T. (t, c) \<in> (approved_rel edges)\<^sup>*}"
    by (auto intro: rtrancl_into_rtrancl)
qed

section \<open>Cycles and conjectural blockers\<close>

context networkx
begin

lemma finite_component: "C \<in> set (nx_strongly_connected_components N g) \<Longrightarrow> finite C"
  using scc_member(2) [of C g] by (auto intro: finite_subset [OF _ finite_nodes [of g]])

lemma cyclic_component:
  assumes "(x, x) \<in> (nx_rel N g)\<^sup>+"
  obtains C where "C \<in> set (nx_strongly_connected_components N g)" and "x \<in> C"
    and "1 < card C \<or> C = {x} \<and> nx_has_edge N g x x"
proof -
  let ?R = "nx_rel N g"
  let ?C = "{w. same_component ?R x w}"
  from assms obtain y where y: "(x, y) \<in> ?R" "(y, x) \<in> ?R\<^sup>*" by (meson tranclD)
  then have "nx_contains N g x" by (auto simp: nx_rel_def dest: has_edge_contains)
  then have C: "?C \<in> set (nx_strongly_connected_components N g)" by (auto simp: set_scc)
  have x: "x \<in> ?C" and yC: "y \<in> ?C" using y by (auto simp: same_component_def)
  have "1 < card ?C \<or> ?C = {x} \<and> nx_has_edge N g x x"
  proof (cases "\<exists>w\<in>?C. w \<noteq> x")
    case True
    then obtain w where "w \<in> ?C" "w \<noteq> x" by blast
    with x have "card {x, w} \<le> card ?C" by (intro card_mono finite_component [OF C]) auto
    with \<open>w \<noteq> x\<close> show ?thesis by simp
  next
    case False
    with yC have "y = x" by blast
    with y(1) False x show ?thesis by (auto simp: nx_rel_def)
  qed
  with C x show ?thesis by (rule that)
qed

lemma canonical_cycles_nil_iff: "canonical_cycles N g = [] \<longleftrightarrow> acyclic (nx_rel N g)"
proof
  assume nil: "canonical_cycles N g = []"
  show "acyclic (nx_rel N g)"
  proof (rule acyclicI, rule allI, rule notI)
    fix x assume "(x, x) \<in> (nx_rel N g)\<^sup>+"
    then obtain C where "C \<in> set (nx_strongly_connected_components N g)" "x \<in> C"
      "1 < card C \<or> C = {x} \<and> nx_has_edge N g x x" by (rule cyclic_component)
    moreover from this have "component_cycles N g C \<noteq> []"
      by (auto simp: component_cycles_def)
    ultimately show False using nil by (auto simp: canonical_cycles_def)
  qed
next
  assume ac: "acyclic (nx_rel N g)"
  have small: "card C \<le> 1" if C: "C \<in> set (nx_strongly_connected_components N g)" for C
  proof (rule ccontr)
    assume "\<not> card C \<le> 1"
    then obtain u v where uv: "u \<in> C" "v \<in> C" "u \<noteq> v"
      by (metis One_nat_def card_le_Suc0_iff_eq finite_component [OF C])
    then have "same_component (nx_rel N g) u v" using scc_member(1) [OF C uv(1)] by blast
    with uv(3) have "(u, u) \<in> (nx_rel N g)\<^sup>+"
      by (auto simp: same_component_def dest: rtranclD intro: trancl_trans)
    with ac show False by (auto simp: acyclic_def)
  qed
  have "\<not> nx_has_edge N g v v" for v
    using ac by (auto simp: acyclic_def nx_rel_def)
  with small show "canonical_cycles N g = []"
    by (fastforce simp: canonical_cycles_def component_cycles_def not_less split: list.splits)
qed

lemma conjectural_blockers_step:
  assumes "item \<in> set objects"
  shows "descendantsE N (nx_reverse N (build_graph N (set (map so_claim_id objects)) edges)) (so_claim_id item)
       = Inr {d. d \<noteq> so_claim_id item \<and> (d, so_claim_id item) \<in> (approved_rel edges)\<^sup>+}"
proof -
  have "nx_contains N (nx_reverse N (build_graph N (set (map so_claim_id objects)) edges)) (so_claim_id item)"
    using assms by (simp add: contains_reverse build_graph_contains)
  then show ?thesis by (auto simp: descendantsE_contains reverse_rel trancl_converse)
qed

end

text \<open>What a conjectural assertion blocks: the selected proof-bearing claims that rely on it.\<close>

definition blocked_by ::
    "source_object list \<Rightarrow> string set \<Rightarrow> manuscript_edge list \<Rightarrow> string \<Rightarrow> string set" where
  "blocked_by objects selected edges c =
     {d \<in> selected. d \<noteq> c \<and> (d, c) \<in> (approved_rel edges)\<^sup>+
        \<and> (case dict_by so_claim_id objects d of None \<Rightarrow> False | Some i \<Rightarrow> is_proof_bearing_assertion i)}"

lemma filter_sorted_list_of_set:
  assumes "finite A"
  shows "filter P (sorted_list_of_set A) = sorted_list_of_set {x \<in> A. P x}"
proof -
  have "sorted (filter P (sorted_list_of_set A))" "distinct (filter P (sorted_list_of_set A))"
    by (simp_all add: sorted_wrt_filter)
  moreover have "set (filter P (sorted_list_of_set A)) = {x \<in> A. P x}" using assms by auto
  ultimately show ?thesis by (metis sorted_list_of_set.idem_if_sorted_distinct)
qed

context networkx
begin

lemma conjectural_dependency_blockers_eq:
  assumes "finite selected"
  shows "conjectural_dependency_blockers N objects selected edges
         = Inr (\<lambda>c. if (\<exists>item\<in>set objects. so_claim_id item = c \<and> is_conjectural_assertion item)
                        \<and> blocked_by objects selected edges c \<noteq> {}
                     then Some (sorted_list_of_set (blocked_by objects selected edges c)) else None)"
proof -
  let ?g = "nx_reverse N (build_graph N (set (map so_claim_id objects)) edges)"
  let ?pb = "\<lambda>c. case dict_by so_claim_id objects c of None \<Rightarrow> False | Some i \<Rightarrow> is_proof_bearing_assertion i"
  let ?step = "\<lambda>item result.
           if \<not> is_conjectural_assertion item then Inr result
           else bindE (descendantsE N ?g (so_claim_id item)) (\<lambda>dependents.
             if filter ?pb (sorted_list_of_set (dependents \<inter> selected)) \<noteq> []
             then Inr (result(so_claim_id item \<mapsto> filter ?pb (sorted_list_of_set (dependents \<inter> selected))))
             else Inr result)"
  let ?B = "blocked_by objects selected edges"
  let ?out = "\<lambda>xs m c. if (\<exists>item\<in>set xs. so_claim_id item = c \<and> is_conjectural_assertion item) \<and> ?B c \<noteq> {}
                     then Some (sorted_list_of_set (?B c)) else m c"
  have fin: "finite (?B c)" for c using assms by (auto simp: blocked_by_def)
  have step: "?step item m = Inr (?out [item] m)" if "item \<in> set objects" for item m
  proof (cases "is_conjectural_assertion item")
    case True
    have "filter ?pb (sorted_list_of_set
            ({d. d \<noteq> so_claim_id item \<and> (d, so_claim_id item) \<in> (approved_rel edges)\<^sup>+} \<inter> selected))
          = sorted_list_of_set (?B (so_claim_id item))"
      using assms
      by (subst filter_sorted_list_of_set)
         (auto simp: blocked_by_def intro!: arg_cong [where f = sorted_list_of_set])
    with True fin show ?thesis
      using conjectural_blockers_step [OF that, of edges]
      by (auto simp: Let_def fun_eq_iff)
  qed auto
  have "set xs \<subseteq> set objects \<Longrightarrow> foldE ?step xs m = Inr (?out xs m)" for xs m
  proof (induction xs arbitrary: m)
    case (Cons x xs)
    then show ?case by (simp only: foldE.simps step bindE_simps list.set insert_subset) (auto simp: fun_eq_iff)
  qed auto
  from this [of objects Map.empty, OF subset_refl] show ?thesis
    unfolding conjectural_dependency_blockers_def Let_def .
qed

end

section \<open>Which objects count as changed\<close>

lemma source_changes_spec:
  assumes "distinct (map so_claim_id current)" and "item \<in> set current"
    and "source_changes previous current mode = (S, A, P, D)"
  shows "so_claim_id item \<notin> S \<union> A \<union> P \<longleftrightarrow>
      (\<exists>v. map_of previous (so_claim_id item) = Some v
         \<and> pv_normalized_statement_hash v = so_normalized_statement_hash item
         \<and> pv_assistant_context v \<in> {None, Some (so_assistant_context item)}
         \<and> is_conjectural_assertion_shape (pv_kind v) (pv_proof_start v) = is_conjectural_assertion item
         \<and> (mode = ''argument-audit'' \<longrightarrow> pv_proof_hash v = so_proof_hash item))
    \<and> D = fst ` set previous - so_claim_id ` set current"
proof -
  have "dict_by so_claim_id current (so_claim_id item) = Some item"
    using assms(1,2) by (rule dict_by_distinct)
  then have "so_claim_id item \<notin> S \<union> A \<union> P
      \<longleftrightarrow> classify_change (map_of previous (so_claim_id item)) item mode = No_Change"
    using assms(2,3) by (cases "classify_change (map_of previous (so_claim_id item)) item mode")
      (auto simp: source_changes_def Let_def)
  then show ?thesis
    using assms(3) by (auto simp: classify_change_def source_changes_def Let_def split: option.splits if_splits)
qed

section \<open>Properties\<close>

text \<open>C6. Invalidation is exact: \<open>affected_claims\<close> never raises, and returns the changed claims
  together with exactly the claims that reach one of them along approved dependency edges, so no
  dependent certificate survives a change and no unrelated certificate is dropped.\<close>

theorem affected_claims_exact:
  assumes "networkx N" and "finite ids"
  shows "affected_claims N changed ids edges
         = Inr {c. \<exists>d\<in>set changed. (c, d) \<in> (approved_rel edges)\<^sup>*}"
  using networkx.affected_claims_eq [OF assms] .

definition ex_edges :: "manuscript_edge list" where
  "ex_edges =
     [\<lparr>e_src = ''thm'', e_dst = ''lem'', e_kind = ''reference'', e_provenance = ''tex'', e_approved = True\<rparr>,
      \<lparr>e_src = ''lem'', e_dst = ''def'', e_kind = ''reference'', e_provenance = ''tex'', e_approved = True\<rparr>,
      \<lparr>e_src = ''obs'', e_dst = ''def'', e_kind = ''reference'', e_provenance = ''tex'', e_approved = False\<rparr>]"

theorem affected_claims_exact_witness:
  "affected_claims list_nx [''def''] {''thm'', ''lem'', ''def'', ''obs''} ex_edges
     = Inr {''def'', ''lem'', ''thm''}
   \<and> {c. \<exists>d\<in>set [''def'']. (c, d) \<in> (approved_rel ex_edges)\<^sup>*} = {''def'', ''lem'', ''thm''}"
proof -
  have "affected_claims list_nx [''def''] {''thm'', ''lem'', ''def'', ''obs''} ex_edges
        = Inr {''def'', ''lem'', ''thm''}"
    by code_simp
  with affected_claims_exact [OF list_graphs.networkx_axioms,
      of "{''thm'', ''lem'', ''def'', ''obs''}" "[''def'']" ex_edges]
  show ?thesis by simp
qed

text \<open>C31. The scheduler's trail-guarded recursion computes the least fixed point: a dependency counts
  as satisfied exactly when it is certified or is a guided skipped assertion all of whose own
  dependencies are satisfied, so a cycle of skipped assertions satisfies nobody.\<close>

theorem trail_recursion_is_least_fixpoint:
  "dependency_is_satisfied states guided dependencies c {} \<longleftrightarrow>
   satisfied states (set guided) (\<lambda>c. set (dict_get dependencies c [])) c"
  by (rule dependency_is_satisfied_iff)


definition ex_states :: "string \<Rightarrow> claim_state option" where
  "ex_states = [''def'' \<mapsto> CERTIFIED, ''lem'' \<mapsto> READY_TO_PROVE]"


text \<open>The cycle check is sound and complete: \<open>canonical_cycles\<close> is empty exactly when the
  dependency relation is acyclic, so \<open>DependencyCycleError\<close> is raised for every cyclic manuscript
  and for no other.\<close>

theorem canonical_cycles_complete:
  assumes "networkx N"
  shows "canonical_cycles N (build_graph N ids edges) = [] \<longleftrightarrow> acyclic (approved_rel edges)"
  using networkx.canonical_cycles_nil_iff [OF assms] networkx.build_graph_rel [OF assms] by metis

theorem canonical_cycles_complete_witness:
  "canonical_cycles list_nx (build_graph list_nx {''thm''} ex_edges) = [] \<and> acyclic (approved_rel ex_edges)"
proof -
  have "canonical_cycles list_nx (build_graph list_nx {''thm''} ex_edges) = []" by code_simp
  with canonical_cycles_complete [OF list_graphs.networkx_axioms] show ?thesis by blast
qed

text \<open>The host policy's blockers are exact: \<open>conjectural_dependency_blockers\<close> never raises and maps
  a conjectural assertion to the sorted list of the selected proof-bearing claims that transitively
  depend on it, and to nothing when there is none.\<close>

theorem conjectural_blockers_exact:
  assumes "networkx N" and "finite selected"
  shows "conjectural_dependency_blockers N objects selected edges
         = Inr (\<lambda>c. if (\<exists>item\<in>set objects. so_claim_id item = c \<and> is_conjectural_assertion item)
                        \<and> blocked_by objects selected edges c \<noteq> {}
                     then Some (sorted_list_of_set (blocked_by objects selected edges c)) else None)"
  using networkx.conjectural_dependency_blockers_eq [OF assms] .

definition ex_object :: "string \<Rightarrow> string \<Rightarrow> int option \<Rightarrow> source_object" where
  "ex_object cid kind proof_start =
     \<lparr>so_claim_id = cid, so_kind = kind, so_source_file = ''main.tex'', so_environment = kind,
      so_label = None, so_ordinal = 1, so_statement_start = 1, so_statement_end = 2,
      so_statement_byte_start = 0, so_statement_byte_end = 10, so_proof_start = proof_start,
      so_proof_end = proof_start, so_proof_byte_start = proof_start, so_proof_byte_end = proof_start,
      so_statement_hash = ''h'', so_proof_hash = ''p'', so_normalized_statement_hash = ''n'',
      so_statement_text = ''text'', so_proof_text = [], so_references = [],
      so_assistant_context = [], so_assistant_references = []\<rparr>"

definition ex_objects :: "source_object list" where
  "ex_objects = [ex_object ''thm'' ''theorem'' (Some 5), ex_object ''lem'' ''lemma'' None]"

lemma ex_objects_simps [simp]:
  "so_claim_id ` set ex_objects = {''thm'', ''lem''}"
  "filter is_conjectural_assertion ex_objects = [ex_object ''lem'' ''lemma'' None]"
  "blocked_by ex_objects {''thm''} ex_edges ''lem'' = {''thm''}"
proof -
  have "(''thm'', ''lem'') \<in> (approved_rel ex_edges)\<^sup>+"
    by (rule r_into_trancl) code_simp
  then show "blocked_by ex_objects {''thm''} ex_edges ''lem'' = {''thm''}"
    by (auto simp: blocked_by_def dict_by_def ex_objects_def ex_object_def is_proof_bearing_iff ASSERTION_KINDS_def)
qed (simp_all add: ex_objects_def ex_object_def is_conjectural_assertion_def is_conjectural_assertion_shape_def ASSERTION_KINDS_def)

theorem conjectural_blockers_exact_witness:
  "\<exists>m. conjectural_dependency_blockers list_nx ex_objects {''thm''} ex_edges = Inr m \<and> m ''lem'' = Some [''thm'']"
proof -
  have "\<exists>item\<in>set ex_objects. so_claim_id item = ''lem'' \<and> is_conjectural_assertion item"
    by (simp add: ex_objects_def ex_object_def is_conjectural_assertion_def is_conjectural_assertion_shape_def ASSERTION_KINDS_def)
  then show ?thesis
    by (subst conjectural_blockers_exact [OF list_graphs.networkx_axioms]) simp_all
qed

text \<open>No edit slips through: with distinct current ids, a claim is left out of all three change sets
  exactly when the previous snapshot has it with the same normalized statement, the same assistant
  context, the same proof-obligation status and, in an argument audit, the same proof; the deleted
  set is the previous ids without a current object.\<close>

theorem source_changes_exact:
  assumes "distinct (map so_claim_id current)" and "item \<in> set current"
    and "source_changes previous current mode = (S, A, P, D)"
  shows "so_claim_id item \<notin> S \<union> A \<union> P \<longleftrightarrow>
      (\<exists>v. map_of previous (so_claim_id item) = Some v
         \<and> pv_normalized_statement_hash v = so_normalized_statement_hash item
         \<and> pv_assistant_context v \<in> {None, Some (so_assistant_context item)}
         \<and> is_conjectural_assertion_shape (pv_kind v) (pv_proof_start v) = is_conjectural_assertion item
         \<and> (mode = ''argument-audit'' \<longrightarrow> pv_proof_hash v = so_proof_hash item))
    \<and> D = fst ` set previous - so_claim_id ` set current"
  by (rule source_changes_spec [OF assms])

theorem source_changes_exact_witness:
  "''lem'' \<in> fst (source_changes
      [(''lem'', \<lparr>pv_kind = ''lemma'', pv_proof_start = Some 4, pv_proof_hash = ''p'',
          pv_normalized_statement_hash = ''n'', pv_assistant_context = None\<rparr>)]
      [ex_object ''lem'' ''lemma'' None] ''theorem'')"
proof -
  let ?prev = "[(''lem'', \<lparr>pv_kind = ''lemma'', pv_proof_start = Some 4, pv_proof_hash = ''p'',
          pv_normalized_statement_hash = ''n'', pv_assistant_context = None\<rparr>)]"
  let ?item = "ex_object ''lem'' ''lemma'' None"
  obtain S A P D where sc: "source_changes ?prev [?item] ''theorem'' = (S, A, P, D)"
    by (cases "source_changes ?prev [?item] ''theorem''")
  have "A = {}" "P = {}"
    using sc by (auto simp: source_changes_def dict_by_def classify_change_def ex_object_def
        is_conjectural_assertion_shape_def is_conjectural_assertion_def ASSERTION_KINDS_def Let_def)
  with source_changes_exact [OF _ _ sc, of ?item] have "''lem'' \<in> S"
    by (auto simp: ex_object_def is_conjectural_assertion_shape_def is_conjectural_assertion_def
        ASSERTION_KINDS_def)
  then show ?thesis by (simp add: sc)
qed

end
