(* ===== verification/Admission.thy ===== *)
theory Admission
  imports Prelude
begin

text \<open>
  Cross-process admission leases, \<^verbatim>\<open>concurrency/admission.py\<close>. The SQLite database is a record of its
  four tables; each store operation is one transaction, so it is a function from the database to the
  database it commits. An operation that rolls back and raises returns \<open>Inl\<close> and commits nothing.
  The clock reading (\<open>now\<close>) and the fresh \<open>uuid4\<close> are arguments.
\<close>

section \<open>Data\<close>

datatype resource_kind = AI | LEAN | BUILD

fun resource_value :: "resource_kind \<Rightarrow> string" where
  "resource_value AI = ''ai''"
| "resource_value LEAN = ''lean''"
| "resource_value BUILD = ''build''"

record admission_request =
  ar_resource :: resource_kind
  ar_priority :: int
  ar_owner :: string
  ar_ttl_seconds :: time
  ar_request_id :: "string option"

definition make_request ::
    "resource_kind \<Rightarrow> int \<Rightarrow> string \<Rightarrow> time \<Rightarrow> string option \<Rightarrow> admission_request result" where
  "make_request resource priority owner ttl request_id =
     (if py_strip owner = [] then Inl (ValueError ''admission owner must not be empty'')
      else if ttl \<le> 0 then Inl (ValueError ''admission TTL must be positive'')
      else Inr \<lparr>ar_resource = resource, ar_priority = priority, ar_owner = owner,
                ar_ttl_seconds = ttl, ar_request_id = request_id\<rparr>)"

definition request_key :: "admission_request \<Rightarrow> string" where
  "request_key request = (case ar_request_id request of
     None \<Rightarrow> ar_owner request
   | Some r \<Rightarrow> if r = [] then ar_owner request else r)"

record admission_lease =
  al_lease_id :: string
  al_resource :: resource_kind
  al_owner :: string
  al_request_id :: string
  al_priority :: int
  al_acquired_at :: time
  al_heartbeat_at :: time
  al_expires_at :: time
  al_ttl_seconds :: time

record admission_snapshot =
  as_resource :: resource_kind
  as_limit :: int
  as_active :: nat
  as_queued :: nat
  as_oldest_wait_seconds :: time

record limit_row =
  lr_resource :: resource_kind
  lr_limit_value :: int
  lr_generation :: int
  lr_updated_at :: time

record waiter_row =
  w_ticket :: int
  w_resource :: resource_kind
  w_request_id :: string
  w_owner :: string
  w_priority :: int
  w_requested_at :: time
  w_expires_at :: time
  w_ttl_seconds :: time

text \<open>
  \<open>payload_json\<close> holds the text of \<open>json.dumps\<close>: the payload together with the separators it was
  written with, since \<open>sync_limits_if_state_changed\<close> compares texts. \<open>json.loads\<close> gives the payload
  back.
\<close>

datatype json_style = Spaced | Compact
datatype 'p json_text = JsonText json_style (json_payload: 'p)

record 'p controller_row =
  cs_resource :: resource_kind
  cs_state_key :: string
  cs_payload :: "'p json_text"
  cs_updated_at :: time

record 'p admission_db =
  db_limits :: "limit_row list"
  db_waiters :: "waiter_row list"
  db_next_ticket :: int
  db_leases :: "admission_lease list"
  db_controller :: "'p controller_row list"

definition empty_db :: "'p admission_db" where
  "empty_db = \<lparr>db_limits = [], db_waiters = [], db_next_ticket = 1, db_leases = [], db_controller = []\<rparr>"

definition waiter_key :: "waiter_row \<Rightarrow> resource_kind \<times> string" where
  "waiter_key w = (w_resource w, w_request_id w)"

definition lease_key :: "admission_lease \<Rightarrow> resource_kind \<times> string" where
  "lease_key l = (al_resource l, al_request_id l)"

definition controller_key :: "'p controller_row \<Rightarrow> resource_kind \<times> string" where
  "controller_key c = (cs_resource c, cs_state_key c)"

section \<open>Store operations\<close>

definition prune :: "time \<Rightarrow> 'p admission_db \<Rightarrow> 'p admission_db" where
  "prune now db = db\<lparr>db_leases := delete_where (\<lambda>l. al_expires_at l \<le> now) (db_leases db),
                     db_waiters := delete_where (\<lambda>w. w_expires_at w \<le> now) (db_waiters db)\<rparr>"

definition limit_lookup :: "resource_kind \<Rightarrow> 'p admission_db \<Rightarrow> int option" where
  "limit_lookup resource db = map_option lr_limit_value (lookup_row lr_resource resource (db_limits db))"

definition ensure_limit :: "resource_kind \<Rightarrow> int \<Rightarrow> time \<Rightarrow> 'p admission_db \<Rightarrow> ('p admission_db \<times> int) result" where
  "ensure_limit resource limit now db =
     (if limit < 0 then Inl (ValueError ''admission limit must not be negative'')
      else let db' = db\<lparr>db_limits := insert_or_ignore lr_resource
                  \<lparr>lr_resource = resource, lr_limit_value = limit, lr_generation = 1, lr_updated_at = now\<rparr>
                  (db_limits db)\<rparr>
           in case limit_lookup resource db' of
                None \<Rightarrow> Inl (AssertionError ''row is not None'')
              | Some v \<Rightarrow> Inr (db', v))"

definition merge_limit :: "limit_row \<Rightarrow> limit_row \<Rightarrow> limit_row" where
  "merge_limit old new = old\<lparr>lr_limit_value := lr_limit_value new,
     lr_generation := lr_generation old + 1, lr_updated_at := lr_updated_at new\<rparr>"

definition write_limit :: "resource_kind \<Rightarrow> int \<Rightarrow> time \<Rightarrow> 'p admission_db \<Rightarrow> 'p admission_db" where
  "write_limit resource limit now db =
     db\<lparr>db_limits := upsert_row lr_resource merge_limit
          \<lparr>lr_resource = resource, lr_limit_value = limit, lr_generation = 1, lr_updated_at = now\<rparr>
          (db_limits db)\<rparr>"

definition store_set_limit :: "resource_kind \<Rightarrow> int \<Rightarrow> time \<Rightarrow> 'p admission_db \<Rightarrow> ('p admission_db \<times> int) result" where
  "store_set_limit resource limit now db =
     (if limit < 0 then Inl (ValueError ''admission limit must not be negative'')
      else Inr (write_limit resource limit now db, limit))"

definition store_limit :: "resource_kind \<Rightarrow> 'p admission_db \<Rightarrow> int result" where
  "store_limit resource db = (case limit_lookup resource db of
     None \<Rightarrow> Inl (RuntimeError ''no admission limit configured'')
   | Some v \<Rightarrow> Inr v)"

definition merge_waiter :: "waiter_row \<Rightarrow> waiter_row \<Rightarrow> waiter_row" where
  "merge_waiter old new = old\<lparr>w_owner := w_owner new, w_priority := w_priority new,
     w_expires_at := w_expires_at new, w_ttl_seconds := w_ttl_seconds new\<rparr>"

definition waiter_for :: "admission_request \<Rightarrow> time \<Rightarrow> 'p admission_db \<Rightarrow> waiter_row" where
  "waiter_for request now db =
     \<lparr>w_ticket = db_next_ticket db, w_resource = ar_resource request,
      w_request_id = request_key request, w_owner = ar_owner request,
      w_priority = ar_priority request, w_requested_at = now,
      w_expires_at = now + max 60 (ar_ttl_seconds request * 4),
      w_ttl_seconds = ar_ttl_seconds request\<rparr>"

text \<open>\<open>INSERT INTO waiters ... ON CONFLICT DO UPDATE\<close>: a new row takes the next AUTOINCREMENT ticket.
  Only the order of tickets is ever read.\<close>

definition enqueue :: "admission_request \<Rightarrow> time \<Rightarrow> 'p admission_db \<Rightarrow> 'p admission_db" where
  "enqueue request now db =
     db\<lparr>db_waiters := upsert_row waiter_key merge_waiter (waiter_for request now db) (db_waiters db),
        db_next_ticket := db_next_ticket db + 1\<rparr>"

definition active_leases :: "resource_kind \<Rightarrow> 'p admission_db \<Rightarrow> nat" where
  "active_leases resource db = count_where (\<lambda>l. al_resource l = resource) (db_leases db)"

definition ahead :: "waiter_row \<Rightarrow> waiter_row \<Rightarrow> bool" where
  "ahead v w = (w_priority v < w_priority w \<or> (w_priority v = w_priority w \<and> w_ticket v < w_ticket w))"

definition earlier_waiters :: "waiter_row \<Rightarrow> 'p admission_db \<Rightarrow> nat" where
  "earlier_waiters w db = count_where (\<lambda>v. w_resource v = w_resource w \<and> ahead v w) (db_waiters db)"

definition grant :: "admission_request \<Rightarrow> string \<Rightarrow> time \<Rightarrow> admission_lease" where
  "grant request lease_id now =
     \<lparr>al_lease_id = lease_id, al_resource = ar_resource request, al_owner = ar_owner request,
      al_request_id = request_key request, al_priority = ar_priority request, al_acquired_at = now,
      al_heartbeat_at = now, al_expires_at = now + ar_ttl_seconds request,
      al_ttl_seconds = ar_ttl_seconds request\<rparr>"

definition store_try_acquire ::
    "admission_request \<Rightarrow> string \<Rightarrow> time \<Rightarrow> 'p admission_db
     \<Rightarrow> ('p admission_db \<times> admission_lease option) result" where
  "store_try_acquire request lease_id now db =
     (let pruned = prune now db; key = (ar_resource request, request_key request)
      in case lookup_row lease_key key (db_leases pruned) of
           Some existing \<Rightarrow> Inr (pruned, Some existing)
         | None \<Rightarrow>
             let queued = enqueue request now pruned
             in case (lookup_row waiter_key key (db_waiters queued),
                      limit_lookup (ar_resource request) queued) of
                  (Some waiter, Some limit) \<Rightarrow>
                    let active = active_leases (ar_resource request) queued;
                        available = max 0 (limit - int active);
                        earlier = earlier_waiters waiter queued
                    in if available = 0 \<or> int earlier \<ge> available then Inr (queued, None)
                       else let lease = grant request lease_id now
                            in bindE (insert_row al_lease_id lease (db_leases queued))
                                 (\<lambda>leases. Inr
                                    (queued\<lparr>db_leases := leases,
                                            db_waiters := delete_where (\<lambda>w. waiter_key w = key) (db_waiters queued)\<rparr>,
                                     Some lease))
                | _ \<Rightarrow> Inl (RuntimeError ''admission resource is not configured''))"

definition effective_ttl :: "time option \<Rightarrow> time \<Rightarrow> time" where
  "effective_ttl ttl_seconds stored =
     (case ttl_seconds of None \<Rightarrow> stored | Some t \<Rightarrow> if t = 0 then stored else t)"

definition store_heartbeat ::
    "string \<Rightarrow> time option \<Rightarrow> time \<Rightarrow> 'p admission_db
     \<Rightarrow> ('p admission_db \<times> admission_lease option) result" where
  "store_heartbeat lease_id ttl_seconds now db =
     (let pruned = prune now db
      in case lookup_row al_lease_id lease_id (db_leases pruned) of
           None \<Rightarrow> Inr (pruned, None)
         | Some row \<Rightarrow>
             let ttl = effective_ttl ttl_seconds (al_ttl_seconds row)
             in if ttl \<le> 0 then Inl (ValueError ''admission TTL must be positive'')
                else let refresh = (\<lambda>l. l\<lparr>al_heartbeat_at := now, al_expires_at := now + ttl, al_ttl_seconds := ttl\<rparr>);
                         db' = pruned\<lparr>db_leases := update_where (\<lambda>l. al_lease_id l = lease_id) refresh (db_leases pruned)\<rparr>
                     in Inr (db', lookup_row al_lease_id lease_id (db_leases db')))"

definition store_release :: "string \<Rightarrow> 'p admission_db \<Rightarrow> 'p admission_db \<times> bool" where
  "store_release lease_id db =
     (db\<lparr>db_leases := delete_where (\<lambda>l. al_lease_id l = lease_id) (db_leases db)\<rparr>,
      count_where (\<lambda>l. al_lease_id l = lease_id) (db_leases db) > 0)"

definition store_cancel :: "admission_request \<Rightarrow> 'p admission_db \<Rightarrow> 'p admission_db \<times> bool" where
  "store_cancel request db =
     (let key = (ar_resource request, request_key request)
      in (db\<lparr>db_waiters := delete_where (\<lambda>w. waiter_key w = key) (db_waiters db)\<rparr>,
          count_where (\<lambda>w. waiter_key w = key) (db_waiters db) > 0))"

text \<open>\<open>snapshot\<close> commits its pruning before it looks at the limit row, so the database changes even
  when it raises. \<open>MIN(requested_at)\<close> of 0.0 is falsy in Python and reads as \<open>now\<close>.\<close>

definition store_snapshot ::
    "resource_kind \<Rightarrow> time \<Rightarrow> 'p admission_db \<Rightarrow> 'p admission_db \<times> admission_snapshot result" where
  "store_snapshot resource now db =
     (let pruned = prune now db;
          waiting = filter (\<lambda>w. w_resource w = resource) (db_waiters pruned);
          queued = length waiting;
          oldest = (if waiting = [] then now
                    else let m = Min (set (map w_requested_at waiting)) in if m = 0 then now else m)
      in (pruned, case limit_lookup resource pruned of
            None \<Rightarrow> Inl (RuntimeError ''no admission limit configured'')
          | Some v \<Rightarrow> Inr \<lparr>as_resource = resource, as_limit = v, as_active = active_leases resource pruned,
                as_queued = queued,
                as_oldest_wait_seconds = (if queued \<noteq> 0 then max 0 (now - oldest) else 0)\<rparr>))"

definition merge_controller :: "'p controller_row \<Rightarrow> 'p controller_row \<Rightarrow> 'p controller_row" where
  "merge_controller old new = old\<lparr>cs_payload := cs_payload new, cs_updated_at := cs_updated_at new\<rparr>"

definition write_state ::
    "resource_kind \<Rightarrow> string \<Rightarrow> 'p json_text \<Rightarrow> time \<Rightarrow> 'p admission_db \<Rightarrow> 'p admission_db" where
  "write_state resource key payload now db =
     db\<lparr>db_controller := upsert_row controller_key merge_controller
          \<lparr>cs_resource = resource, cs_state_key = key, cs_payload = payload, cs_updated_at = now\<rparr>
          (db_controller db)\<rparr>"

definition store_set_state :: "resource_kind \<Rightarrow> string \<Rightarrow> 'p \<Rightarrow> time \<Rightarrow> 'p admission_db \<Rightarrow> 'p admission_db" where
  "store_set_state resource key payload now db = write_state resource key (JsonText Spaced payload) now db"

definition store_get_state :: "resource_kind \<Rightarrow> string \<Rightarrow> 'p admission_db \<Rightarrow> 'p option" where
  "store_get_state resource key db =
     map_option (json_payload \<circ> cs_payload) (lookup_row controller_key (resource, key) (db_controller db))"

text \<open>\<open>update\<close> sees \<open>fresh\<close> (the dict \<open>{}\<close>) when the key has no row.\<close>

definition store_update_state ::
    "'p \<Rightarrow> resource_kind \<Rightarrow> string \<Rightarrow> ('p \<Rightarrow> 'p) \<Rightarrow> time \<Rightarrow> 'p admission_db \<Rightarrow> 'p admission_db \<times> 'p" where
  "store_update_state fresh resource key update now db =
     (let current = (case store_get_state resource key db of None \<Rightarrow> fresh | Some p \<Rightarrow> p);
          candidate = update current
      in (write_state resource key (JsonText Spaced candidate) now db, candidate))"

definition sync_limits_if_state_changed ::
    "resource_kind \<Rightarrow> string \<Rightarrow> 'p \<Rightarrow> (resource_kind \<times> int) list \<Rightarrow> time \<Rightarrow> 'p admission_db
     \<Rightarrow> ('p admission_db \<times> bool) result" where
  "sync_limits_if_state_changed state_resource state_key payload limits now db =
     (if \<exists>l\<in>set limits. snd l < 0 then Inl (ValueError ''admission limits must not be negative'')
      else let encoded = JsonText Compact payload;
               row = lookup_row controller_key (state_resource, state_key) (db_controller db)
           in if map_option cs_payload row = Some encoded then Inr (db, False)
              else Inr (write_state state_resource state_key encoded now
                          (fold (\<lambda>(resource, limit). write_limit resource limit now) limits db), True))"

section \<open>The table invariant\<close>

interpretation limit_table: upsert_table lr_resource merge_limit
  by unfold_locales (simp add: merge_limit_def)

interpretation waiter_table: upsert_table waiter_key merge_waiter
  by unfold_locales (simp add: merge_waiter_def waiter_key_def)

interpretation controller_table: upsert_table controller_key merge_controller
  by unfold_locales (simp add: merge_controller_def controller_key_def)

definition adm_inv :: "'p admission_db \<Rightarrow> bool" where
  "adm_inv db \<longleftrightarrow>
     unique_on lr_resource (db_limits db) \<and> unique_on waiter_key (db_waiters db)
     \<and> unique_on w_ticket (db_waiters db) \<and> (\<forall>w\<in>set (db_waiters db). w_ticket w < db_next_ticket db)
     \<and> unique_on al_lease_id (db_leases db) \<and> unique_on lease_key (db_leases db)
     \<and> unique_on controller_key (db_controller db)"

lemma adm_invD:
  assumes "adm_inv db"
  shows "unique_on lr_resource (db_limits db)" "unique_on waiter_key (db_waiters db)"
    "unique_on w_ticket (db_waiters db)" "w \<in> set (db_waiters db) \<Longrightarrow> w_ticket w < db_next_ticket db"
    "unique_on al_lease_id (db_leases db)" "unique_on lease_key (db_leases db)"
    "unique_on controller_key (db_controller db)"
  using assms by (simp_all add: adm_inv_def)

lemma adm_inv_empty [simp]: "adm_inv empty_db"
  by (simp add: adm_inv_def empty_db_def unique_on_def)

lemma prune_simps [simp]:
  "db_limits (prune now db) = db_limits db" "db_next_ticket (prune now db) = db_next_ticket db"
  "db_controller (prune now db) = db_controller db"
  "limit_lookup r (prune now db) = limit_lookup r db"
  by (simp_all add: prune_def limit_lookup_def)

lemma limit_lookup_frame [simp]:
  "limit_lookup r (db\<lparr>db_leases := x\<rparr>) = limit_lookup r db"
  "limit_lookup r (db\<lparr>db_waiters := y\<rparr>) = limit_lookup r db"
  by (simp_all add: limit_lookup_def)

lemma set_delete_where [simp]: "set (delete_where P tbl) = {r \<in> set tbl. \<not> P r}"
  by (auto simp: delete_where_def)

lemma adm_inv_prune: "adm_inv db \<Longrightarrow> adm_inv (prune now db)"
  by (auto simp: adm_inv_def prune_def)

lemma write_limit_simps [simp]:
  "db_leases (write_limit r n now db) = db_leases db" "db_waiters (write_limit r n now db) = db_waiters db"
  "db_next_ticket (write_limit r n now db) = db_next_ticket db"
  "db_controller (write_limit r n now db) = db_controller db"
  by (simp_all add: write_limit_def)

lemma limit_lookup_write_limit:
  "limit_lookup s (write_limit r n now db) = (if s = r then Some n else limit_lookup s db)"
  using limit_table.upsert_lookup_same [of "\<lparr>lr_resource = r, lr_limit_value = n, lr_generation = 1, lr_updated_at = now\<rparr>"]
    limit_table.upsert_lookup_other [of s "\<lparr>lr_resource = r, lr_limit_value = n, lr_generation = 1, lr_updated_at = now\<rparr>"]
  by (auto simp: limit_lookup_def write_limit_def merge_limit_def split: option.splits)

lemma adm_inv_write_limit: "adm_inv db \<Longrightarrow> adm_inv (write_limit r n now db)"
  by (simp add: adm_inv_def) (simp add: write_limit_def limit_table.upsert_unique)

lemma write_state_simps [simp]:
  "db_leases (write_state r k p now db) = db_leases db" "db_waiters (write_state r k p now db) = db_waiters db"
  "db_next_ticket (write_state r k p now db) = db_next_ticket db"
  "db_limits (write_state r k p now db) = db_limits db"
  "limit_lookup s (write_state r k p now db) = limit_lookup s db"
  by (simp_all add: write_state_def limit_lookup_def)

lemma adm_inv_write_state: "adm_inv db \<Longrightarrow> adm_inv (write_state r k p now db)"
  by (simp add: adm_inv_def) (simp add: write_state_def controller_table.upsert_unique)

lemma lookup_write_state:
  "map_option cs_payload (lookup_row controller_key (r', k') (db_controller (write_state r k p now db)))
   = (if (r', k') = (r, k) then Some p else map_option cs_payload (lookup_row controller_key (r', k') (db_controller db)))"
  using controller_table.upsert_lookup_same [of "\<lparr>cs_resource = r, cs_state_key = k, cs_payload = p, cs_updated_at = now\<rparr>"]
    controller_table.upsert_lookup_other [of "(r', k')" "\<lparr>cs_resource = r, cs_state_key = k, cs_payload = p, cs_updated_at = now\<rparr>"]
  by (auto simp: write_state_def controller_key_def merge_controller_def split: option.splits)

lemma get_write_state:
  "store_get_state r' k' (write_state r k (JsonText st p) now db)
   = (if (r', k') = (r, k) then Some p else store_get_state r' k' db)"
  using arg_cong [OF lookup_write_state, where f = "map_option json_payload", of r' k' r k "JsonText st p" now db]
  by (auto simp: store_get_state_def option.map_comp)

lemma enqueue_simps [simp]:
  "db_leases (enqueue q now db) = db_leases db" "db_limits (enqueue q now db) = db_limits db"
  "db_controller (enqueue q now db) = db_controller db"
  "limit_lookup r (enqueue q now db) = limit_lookup r db"
  "active_leases r (enqueue q now db) = active_leases r db"
  by (simp_all add: enqueue_def limit_lookup_def active_leases_def)

lemma merge_waiter_simps [simp]:
  "w_ticket (merge_waiter old new) = w_ticket old" "w_resource (merge_waiter old new) = w_resource old"
  "w_request_id (merge_waiter old new) = w_request_id old" "w_priority (merge_waiter old new) = w_priority new"
  by (simp_all add: merge_waiter_def)

lemma waiter_for_simps [simp]:
  "w_ticket (waiter_for q now db) = db_next_ticket db" "w_resource (waiter_for q now db) = ar_resource q"
  "w_request_id (waiter_for q now db) = request_key q" "w_priority (waiter_for q now db) = ar_priority q"
  "waiter_key (waiter_for q now db) = (ar_resource q, request_key q)"
  by (simp_all add: waiter_for_def waiter_key_def)

lemma enqueue_tickets:
  assumes "adm_inv db"
  shows "unique_on w_ticket (db_waiters (enqueue q now db))
    \<and> (\<forall>w\<in>set (db_waiters (enqueue q now db)). w_ticket w < db_next_ticket db + 1)"
proof -
  have m: "map w_ticket (db_waiters (enqueue q now db))
      = (if (ar_resource q, request_key q) \<in> waiter_key ` set (db_waiters db)
         then map w_ticket (db_waiters db) else map w_ticket (db_waiters db) @ [db_next_ticket db])"
    by (simp add: enqueue_def map_upsert_frame)
  have "\<forall>t\<in>set (map w_ticket (db_waiters (enqueue q now db))). t < db_next_ticket db + 1"
    using assms unfolding m by (auto simp: adm_inv_def intro: less_trans)
  moreover have "distinct (map w_ticket (db_waiters (enqueue q now db)))"
    using assms unfolding m by (force simp: adm_inv_def unique_on_def)
  ultimately show ?thesis by (simp add: unique_on_def)
qed

lemma adm_inv_enqueue: "adm_inv db \<Longrightarrow> adm_inv (enqueue q now db)"
  using enqueue_tickets [of db q now]
  by (simp add: adm_inv_def) (simp add: enqueue_def waiter_table.upsert_unique)

lemma enqueue_lookup:
  "\<exists>w. lookup_row waiter_key (ar_resource q, request_key q) (db_waiters (enqueue q now db)) = Some w
       \<and> w_priority w = ar_priority q \<and> w_resource w = ar_resource q
       \<and> (\<forall>old. lookup_row waiter_key (ar_resource q, request_key q) (db_waiters db) = Some old \<longrightarrow> w_ticket w = w_ticket old)"
  using waiter_table.upsert_lookup_same [of "waiter_for q now db" "db_waiters db"]
  by (auto simp: enqueue_def waiter_key_def split: option.splits dest!: lookup_row_SomeD)

section \<open>What an acquisition attempt does\<close>

abbreviation rkey :: "admission_request \<Rightarrow> resource_kind \<times> string" where
  "rkey q \<equiv> (ar_resource q, request_key q)"

lemma try_acquire_cases:
  assumes "store_try_acquire q lid now db = Inr (db', r)"
  obtains (existing) l where "lookup_row lease_key (rkey q) (db_leases (prune now db)) = Some l"
      "db' = prune now db" "r = Some l"
  | (refused) w limit where "lookup_row lease_key (rkey q) (db_leases (prune now db)) = None"
      "lookup_row waiter_key (rkey q) (db_waiters (enqueue q now (prune now db))) = Some w"
      "limit_lookup (ar_resource q) db = Some limit"
      "limit - int (active_leases (ar_resource q) (prune now db))
         \<le> int (earlier_waiters w (enqueue q now (prune now db)))"
      "db' = enqueue q now (prune now db)" "r = None"
  | (granted) w limit where "lookup_row lease_key (rkey q) (db_leases (prune now db)) = None"
      "lookup_row waiter_key (rkey q) (db_waiters (enqueue q now (prune now db))) = Some w"
      "limit_lookup (ar_resource q) db = Some limit"
      "int (earlier_waiters w (enqueue q now (prune now db)))
         < limit - int (active_leases (ar_resource q) (prune now db))"
      "lid \<notin> al_lease_id ` set (db_leases (prune now db))"
      "db' = (enqueue q now (prune now db))
         \<lparr>db_leases := db_leases (prune now db) @ [grant q lid now],
          db_waiters := delete_where (\<lambda>w. waiter_key w = rkey q) (db_waiters (enqueue q now (prune now db)))\<rparr>"
      "r = Some (grant q lid now)"
proof (cases "lookup_row lease_key (rkey q) (db_leases (prune now db))")
  case (Some l)
  from assms Some have "db' = prune now db" "r = Some l"
    by (simp_all add: store_try_acquire_def Let_def)
  with Some show ?thesis by (intro existing)
next
  case None
  let ?p = "prune now db" and ?e = "enqueue q now (prune now db)"
  obtain w where w: "lookup_row waiter_key (rkey q) (db_waiters ?e) = Some w"
    using enqueue_lookup [of q now ?p] by blast
  from assms None w obtain limit where limit: "limit_lookup (ar_resource q) db = Some limit"
    by (auto simp: store_try_acquire_def Let_def split: option.splits)
  show ?thesis
  proof (cases "int (earlier_waiters w ?e) < limit - int (active_leases (ar_resource q) ?p)")
    case True
    with assms None w limit show ?thesis
      by (intro granted [OF None w limit True])
         (auto simp: store_try_acquire_def Let_def insert_row_def bindE_def grant_def
            split: if_splits sum.splits)
  next
    case False
    with assms None w limit show ?thesis
      by (intro refused [OF None w limit])
         (auto simp: store_try_acquire_def Let_def split: if_splits)
  qed
qed

text \<open>The decision as an equation, for a request that holds no lease.\<close>

lemma try_acquire_grants:
  assumes "lookup_row lease_key (rkey q) (db_leases (prune now db)) = None"
    and "lookup_row waiter_key (rkey q) (db_waiters (enqueue q now (prune now db))) = Some w"
    and "limit_lookup (ar_resource q) db = Some limit"
    and "int (earlier_waiters w (enqueue q now (prune now db)))
           < limit - int (active_leases (ar_resource q) (prune now db))"
    and "lid \<notin> al_lease_id ` set (db_leases (prune now db))"
  shows "\<exists>db'. store_try_acquire q lid now db = Inr (db', Some (grant q lid now))"
  using assms by (auto simp: store_try_acquire_def Let_def insert_row_def grant_def)

lemma grant_simps [simp]:
  "al_lease_id (grant q lid now) = lid" "al_resource (grant q lid now) = ar_resource q"
  "al_request_id (grant q lid now) = request_key q" "lease_key (grant q lid now) = rkey q"
  "al_expires_at (grant q lid now) = now + ar_ttl_seconds q"
  by (simp_all add: grant_def lease_key_def)

lemma adm_inv_try_acquire:
  assumes "adm_inv db" and "store_try_acquire q lid now db = Inr (db', r)"
  shows "adm_inv db'"
  using assms(2)
proof (cases rule: try_acquire_cases)
  case (existing l)
  then show ?thesis using adm_inv_prune [OF assms(1)] by simp
next
  case (refused w limit)
  then show ?thesis using adm_inv_enqueue [OF adm_inv_prune [OF assms(1)]] by simp
next
  case (granted w limit)
  have "adm_inv (enqueue q now (prune now db))" using assms(1) by (intro adm_inv_enqueue adm_inv_prune)
  moreover have "rkey q \<notin> lease_key ` set (db_leases (prune now db))"
    using granted(1) by (simp add: lookup_row_None_iff)
  ultimately show ?thesis
    using granted(5) unfolding granted(6)
    by (auto simp: adm_inv_def unique_on_def delete_where_def distinct_map_filter)
qed

lemma adm_inv_heartbeat:
  assumes "adm_inv db" and "store_heartbeat lid ttl now db = Inr (db', r)"
  shows "adm_inv db'"
  using assms adm_inv_prune [OF assms(1), of now]
  by (auto simp: store_heartbeat_def Let_def adm_inv_def unique_on_update_where lease_key_def
      split: option.splits if_splits)

lemma adm_inv_release: "adm_inv db \<Longrightarrow> adm_inv (fst (store_release lid db))"
  by (auto simp: store_release_def adm_inv_def)

lemma adm_inv_cancel: "adm_inv db \<Longrightarrow> adm_inv (fst (store_cancel q db))"
  by (auto simp: store_cancel_def adm_inv_def Let_def)

lemma adm_inv_snapshot: "adm_inv db \<Longrightarrow> adm_inv (fst (store_snapshot r now db))"
  by (simp add: store_snapshot_def Let_def adm_inv_prune)

lemma ensure_limit_cases:
  assumes "ensure_limit r n now db = Inr (db', v)"
  shows "db_leases db' = db_leases db" "db_waiters db' = db_waiters db" "0 \<le> n"
    "limit_lookup s db' = (if s = r \<and> limit_lookup r db = None then Some n else limit_lookup s db)"
    "adm_inv db \<Longrightarrow> adm_inv db'"
  using assms
  by (auto simp: ensure_limit_def Let_def limit_lookup_def lookup_insert_or_ignore adm_inv_def
      intro!: insert_or_ignore_unique split: option.splits if_splits)

end
