(* ===== verification/Admission_Runs.thy ===== *)
theory Admission_Runs
  imports Admission
begin

text \<open>
  Runs of the admission store: any number of processes interleave transactions on one database, each
  with its own clock reading. A run is a list of events; the theorems hold for every interleaving.
\<close>

section \<open>Events and runs\<close>

datatype 'p adm_event =
    Try_Acquire admission_request string time
  | Heartbeat string "time option" time
  | Release string
  | Cancel admission_request
  | Snapshot resource_kind time
  | Ensure_Limit resource_kind int time
  | Set_Limit resource_kind int time
  | Set_State resource_kind string 'p time
  | Update_State 'p resource_kind string "'p \<Rightarrow> 'p" time
  | Sync_Limits resource_kind string 'p "(resource_kind \<times> int) list" time

definition committed :: "'d \<Rightarrow> ('d \<times> 'a) result \<Rightarrow> 'd" where
  "committed db r = (case r of Inl e \<Rightarrow> db | Inr (db', x) \<Rightarrow> db')"

fun adm_apply :: "'p adm_event \<Rightarrow> 'p admission_db \<Rightarrow> 'p admission_db" where
  "adm_apply (Try_Acquire q lid now) db = committed db (store_try_acquire q lid now db)"
| "adm_apply (Heartbeat lid ttl now) db = committed db (store_heartbeat lid ttl now db)"
| "adm_apply (Release lid) db = fst (store_release lid db)"
| "adm_apply (Cancel q) db = fst (store_cancel q db)"
| "adm_apply (Snapshot r now) db = fst (store_snapshot r now db)"
| "adm_apply (Ensure_Limit r n now) db = committed db (ensure_limit r n now db)"
| "adm_apply (Set_Limit r n now) db = committed db (store_set_limit r n now db)"
| "adm_apply (Set_State r k p now) db = store_set_state r k p now db"
| "adm_apply (Update_State fresh r k f now) db = fst (store_update_state fresh r k f now db)"
| "adm_apply (Sync_Limits r k p limits now) db = committed db (sync_limits_if_state_changed r k p limits now db)"

definition adm_run :: "'p adm_event list \<Rightarrow> 'p admission_db \<Rightarrow> 'p admission_db" where
  "adm_run es db = fold adm_apply es db"

lemma fold_write_limit_frame [simp]:
  "db_leases (fold (\<lambda>(r, n). write_limit r n now) limits db) = db_leases db"
  "db_waiters (fold (\<lambda>(r, n). write_limit r n now) limits db) = db_waiters db"
  "db_controller (fold (\<lambda>(r, n). write_limit r n now) limits db) = db_controller db"
  by (induction limits arbitrary: db) (auto split: prod.splits)

lemma adm_inv_fold_write_limit:
  "adm_inv db \<Longrightarrow> adm_inv (fold (\<lambda>(r, n). write_limit r n now) limits db)"
  by (induction limits arbitrary: db) (auto simp: adm_inv_write_limit split: prod.splits)

lemma adm_inv_apply: "adm_inv db \<Longrightarrow> adm_inv (adm_apply e db)"
proof (cases e)
  case (Try_Acquire q lid now)
  then show "adm_inv db \<Longrightarrow> ?thesis"
    by (auto simp: committed_def adm_inv_try_acquire split: sum.splits prod.splits)
next
  case (Heartbeat lid ttl now)
  then show "adm_inv db \<Longrightarrow> ?thesis"
    by (auto simp: committed_def adm_inv_heartbeat split: sum.splits prod.splits)
next
  case (Ensure_Limit r n now)
  then show "adm_inv db \<Longrightarrow> ?thesis"
    by (auto simp: committed_def ensure_limit_cases(5) split: sum.splits prod.splits)
next
  case (Sync_Limits r k p limits now)
  then show "adm_inv db \<Longrightarrow> ?thesis"
    by (auto simp: committed_def sync_limits_if_state_changed_def Let_def adm_inv_write_state
        adm_inv_fold_write_limit split: sum.splits prod.splits if_splits)
qed (auto simp: committed_def store_set_limit_def store_set_state_def store_update_state_def Let_def
      adm_inv_release adm_inv_cancel adm_inv_snapshot adm_inv_write_limit adm_inv_write_state
      split: sum.splits if_splits)

lemma adm_inv_run: "adm_inv db \<Longrightarrow> adm_inv (adm_run es db)"
  unfolding adm_run_def by (rule fold_invariant_on) (auto intro: adm_inv_apply)

section \<open>Capacity\<close>

text \<open>The limit values an event may publish for \<open>r\<close> are at most \<open>M\<close>.\<close>

fun publishes_at_most :: "resource_kind \<Rightarrow> int \<Rightarrow> 'p adm_event \<Rightarrow> bool" where
  "publishes_at_most r M (Ensure_Limit s n now) = (s = r \<longrightarrow> n \<le> M)"
| "publishes_at_most r M (Set_Limit s n now) = (s = r \<longrightarrow> n \<le> M)"
| "publishes_at_most r M (Sync_Limits s k p limits now) = (\<forall>l\<in>set limits. fst l = r \<longrightarrow> snd l \<le> M)"
| "publishes_at_most r M e = True"

definition within_capacity :: "resource_kind \<Rightarrow> int \<Rightarrow> 'p admission_db \<Rightarrow> bool" where
  "within_capacity r M db \<longleftrightarrow> int (active_leases r db) \<le> M
     \<and> (\<forall>v. limit_lookup r db = Some v \<longrightarrow> v \<le> M)"

lemma count_where_mono: "(\<And>x. Q x \<Longrightarrow> P x) \<Longrightarrow> count_where Q xs \<le> count_where P xs"
  by (induction xs) (auto simp: count_where_def)

lemma count_where_delete: "count_where P (delete_where Q xs) \<le> count_where P xs"
  by (induction xs) (auto simp: count_where_def delete_where_def)

lemma count_where_update:
  "(\<And>x. P (f x) = P x) \<Longrightarrow> count_where P (update_where Q f xs) = count_where P xs"
  by (induction xs) (auto simp: count_where_def update_where_def)

lemma active_prune: "active_leases r (prune now db) \<le> active_leases r db"
  by (simp add: active_leases_def prune_def count_where_delete)

lemma capacity_prune: "within_capacity r M db \<Longrightarrow> within_capacity r M (prune now db)"
  using active_prune [of r now db] by (auto simp: within_capacity_def)

lemma capacity_try_acquire:
  assumes "within_capacity r M db" and "store_try_acquire q lid now db = Inr (db', res)"
  shows "within_capacity r M db'"
  using assms(2)
proof (cases rule: try_acquire_cases)
  case (existing l)
  then show ?thesis using capacity_prune [OF assms(1)] by simp
next
  case (refused w limit)
  then show ?thesis using capacity_prune [OF assms(1), of now] by (simp add: within_capacity_def)
next
  case (granted w limit)
  have lim: "limit_lookup s db' = limit_lookup s db" for s
    unfolding granted(6) limit_lookup_def by simp
  have "active_leases s db' = active_leases s (prune now db) + (if s = ar_resource q then 1 else 0)" for s
    unfolding granted(6) by (simp add: active_leases_def count_where_def)
  with granted(3,4) lim capacity_prune [OF assms(1), of now] show ?thesis
    by (auto simp: within_capacity_def)
qed

lemma capacity_write_limit:
  "within_capacity r M db \<Longrightarrow> (s = r \<longrightarrow> n \<le> M) \<Longrightarrow> within_capacity r M (write_limit s n now db)"
  by (auto simp: within_capacity_def active_leases_def limit_lookup_write_limit)

lemma capacity_fold_write_limit:
  "within_capacity r M db \<Longrightarrow> \<forall>l\<in>set limits. fst l = r \<longrightarrow> snd l \<le> M \<Longrightarrow>
   within_capacity r M (fold (\<lambda>(r, n). write_limit r n now) limits db)"
  by (rule fold_invariant_on) (auto intro!: capacity_write_limit)

lemma capacity_heartbeat:
  assumes "within_capacity r M db" and "store_heartbeat lid ttl now db = Inr (db', res)"
  shows "within_capacity r M db'"
  using assms(2) capacity_prune [OF assms(1), of now]
  by (auto simp: store_heartbeat_def Let_def within_capacity_def active_leases_def count_where_update
      limit_lookup_def split: option.splits if_splits)

lemma capacity_apply:
  assumes "within_capacity r M db" and "publishes_at_most r M e"
  shows "within_capacity r M (adm_apply e db)"
proof (cases e)
  case (Try_Acquire q lid now)
  with assms show ?thesis
    by (auto simp: committed_def capacity_try_acquire split: sum.splits prod.splits)
next
  case (Heartbeat lid ttl now)
  with assms show ?thesis
    by (auto simp: committed_def capacity_heartbeat split: sum.splits prod.splits)
next
  case (Release lid)
  with assms show ?thesis
    using count_where_delete [of "\<lambda>l. al_resource l = r" "\<lambda>l. al_lease_id l = lid" "db_leases db"]
    by (auto simp: store_release_def within_capacity_def active_leases_def limit_lookup_def)
next
  case (Snapshot s now)
  with assms show ?thesis by (simp add: store_snapshot_def Let_def capacity_prune)
next
  case (Ensure_Limit s n now)
  with assms show ?thesis
    by (auto simp: committed_def within_capacity_def active_leases_def ensure_limit_cases(1,4)
        split: sum.splits prod.splits if_splits)
next
  case (Sync_Limits s k p limits now)
  with assms show ?thesis
    using capacity_fold_write_limit [OF assms(1), of limits now]
    by (auto simp: committed_def sync_limits_if_state_changed_def Let_def within_capacity_def
        active_leases_def split: sum.splits prod.splits if_splits)
qed (use assms in \<open>auto simp: committed_def store_set_limit_def store_set_state_def store_update_state_def
      Let_def store_cancel_def within_capacity_def active_leases_def limit_lookup_write_limit
      split: sum.splits if_splits\<close>)

lemma capacity_run:
  assumes "within_capacity r M db" and "\<forall>e\<in>set es. publishes_at_most r M e"
  shows "within_capacity r M (adm_run es db)"
  unfolding adm_run_def
proof (rule fold_invariant_on [where I = "within_capacity r M"])
  show "within_capacity r M db" by (rule assms(1))
  show "within_capacity r M (adm_apply e d)" if "e \<in> set es" "within_capacity r M d" for e d
    using that assms(2) by (blast intro: capacity_apply)
qed

section \<open>Waiters\<close>

lemma head_waiter_exists:
  assumes "v \<in> set ws" and "P v"
  shows "\<exists>w\<in>set ws. P w \<and> (\<forall>u\<in>set ws. P u \<longrightarrow> \<not> ahead u w)"
proof -
  let ?S = "{w \<in> set ws. P w}"
  let ?f = "\<lambda>w. (w_priority w, w_ticket w)"
  have "finite (?f ` ?S)" "?f ` ?S \<noteq> {}" using assms by auto
  then have "Min (?f ` ?S) \<in> ?f ` ?S" by (rule Min_in)
  then obtain w where w: "w \<in> ?S" "?f w = Min (?f ` ?S)" by auto
  have "\<not> ahead u w" if "u \<in> ?S" for u
  proof -
    have "?f w \<le> ?f u" using w(2) that by simp
    then show ?thesis by (auto simp: ahead_def)
  qed
  with w show ?thesis by blast
qed

lemma enqueue_head:
  assumes inv: "adm_inv p" and w0: "w0 \<in> set (db_waiters p)"
    and head: "\<forall>u\<in>set (db_waiters p). w_resource u = w_resource w0 \<longrightarrow> \<not> ahead u w0"
    and q: "rkey q = waiter_key w0" "ar_priority q = w_priority w0"
    and w: "lookup_row waiter_key (rkey q) (db_waiters (enqueue q now p)) = Some w"
  shows "earlier_waiters w (enqueue q now p) = 0"
proof -
  have old: "lookup_row waiter_key (rkey q) (db_waiters p) = Some w0"
    using w0 adm_invD(2) [OF inv] by (simp add: q(1) lookup_row_unique)
  with enqueue_lookup [of q now p] w
  have wt: "w_priority w = w_priority w0" "w_ticket w = w_ticket w0" "w_resource w = w_resource w0"
    using q by (auto simp: waiter_key_def)
  have "\<not> ahead v w" if v: "v \<in> set (db_waiters (enqueue q now p))" "w_resource v = w_resource w" for v
  proof -
    from v(1) waiter_table.upsert_set [of v "waiter_for q now p" "db_waiters p"]
    consider "v = waiter_for q now p" | "v \<in> set (db_waiters p)"
      | x where "x \<in> set (db_waiters p)" "waiter_key x = rkey q" "v = merge_waiter x (waiter_for q now p)"
      by (auto simp: enqueue_def)
    then show ?thesis
    proof cases
      case 1
      with adm_invD(4) [OF inv w0] wt q(2) show ?thesis by (simp add: ahead_def)
    next
      case 2
      with head v(2) wt show ?thesis by (simp add: ahead_def)
    next
      case (3 x)
      with lookup_row_unique [OF adm_invD(2) [OF inv] 3(1)] old have "x = w0" by simp
      with 3 wt q(2) show ?thesis by (simp add: ahead_def)
    qed
  qed
  then show ?thesis by (auto simp: earlier_waiters_def count_where_def)
qed

section \<open>Properties\<close>

text \<open>C1. Machine-wide capacity: whatever processes do and however their transactions interleave, a
  resource never has more leases than the largest limit any of them published for it.\<close>

theorem never_over_admits:
  assumes "0 \<le> M" and "\<forall>e\<in>set es. publishes_at_most r M e"
  shows "int (active_leases r (adm_run es empty_db)) \<le> M"
proof -
  have "within_capacity r M (empty_db :: 'a admission_db)"
    using assms(1) by (simp add: within_capacity_def empty_db_def active_leases_def count_where_def limit_lookup_def)
  from capacity_run [OF this assms(2)] show ?thesis by (simp add: within_capacity_def)
qed

definition ex_request :: "string \<Rightarrow> int \<Rightarrow> admission_request" where
  "ex_request owner priority = \<lparr>ar_resource = BUILD, ar_priority = priority, ar_owner = owner,
     ar_ttl_seconds = 100, ar_request_id = None\<rparr>"

definition ex_run :: "unit adm_event list" where
  "ex_run = [Set_Limit BUILD 1 0, Try_Acquire (ex_request ''a'' 10) ''l1'' 1,
     Try_Acquire (ex_request ''b'' 20) ''l2'' 2, Try_Acquire (ex_request ''c'' 10) ''l3'' 3]"

theorem never_over_admits_witness:
  "active_leases BUILD (adm_run ex_run empty_db) = 1 \<and> int (active_leases BUILD (adm_run ex_run empty_db)) \<le> 1"
proof -
  have "\<forall>e\<in>set ex_run. publishes_at_most BUILD 1 e" by (simp add: ex_run_def)
  from never_over_admits [OF _ this] have "int (active_leases BUILD (adm_run ex_run empty_db)) \<le> 1" by simp
  moreover have "active_leases BUILD (adm_run ex_run empty_db) = 1" by code_simp
  ultimately show ?thesis by simp
qed

text \<open>C29. No lost wake-up: whenever a resource has a free slot and somebody is waiting, one of the
  waiters is admitted by its very next poll, whatever the arrival order.\<close>

theorem free_slot_admits_a_waiter:
  assumes "adm_inv db" and "limit_lookup r db = Some limit"
    and "int (active_leases r (prune now db)) < limit"
    and "v \<in> set (db_waiters (prune now db))" and "w_resource v = r"
  shows "\<exists>w\<in>set (db_waiters (prune now db)). w_resource w = r
     \<and> (\<forall>q lid. rkey q = waiter_key w \<and> ar_priority q = w_priority w
           \<and> lid \<notin> al_lease_id ` set (db_leases (prune now db))
         \<longrightarrow> (\<exists>db' l. store_try_acquire q lid now db = Inr (db', Some l) \<and> lease_key l = rkey q))"
proof -
  let ?p = "prune now db"
  obtain w where w: "w \<in> set (db_waiters ?p)" "w_resource w = r"
    and head: "\<forall>u\<in>set (db_waiters ?p). w_resource u = r \<longrightarrow> \<not> ahead u w"
    using head_waiter_exists [of v _ "\<lambda>u. w_resource u = r"] assms(4,5) by metis
  have "\<exists>db' l. store_try_acquire q lid now db = Inr (db', Some l) \<and> lease_key l = rkey q"
    if q: "rkey q = waiter_key w" "ar_priority q = w_priority w"
      and lid: "lid \<notin> al_lease_id ` set (db_leases ?p)" for q lid
  proof (cases "lookup_row lease_key (rkey q) (db_leases ?p)")
    case (Some l)
    then show ?thesis by (auto simp: store_try_acquire_def Let_def dest: lookup_row_SomeD)
  next
    case None
    obtain w' where w': "lookup_row waiter_key (rkey q) (db_waiters (enqueue q now ?p)) = Some w'"
      using enqueue_lookup by blast
    have "earlier_waiters w' (enqueue q now ?p) = 0"
      using head w(2) by (intro enqueue_head [OF adm_inv_prune [OF assms(1)] w(1) _ q w']) simp
    moreover have "ar_resource q = r" using q(1) w(2) by (simp add: waiter_key_def)
    ultimately have "\<exists>db'. store_try_acquire q lid now db = Inr (db', Some (grant q lid now))"
      using assms(2,3) by (intro try_acquire_grants [OF None w' _ _ lid]) auto
    then show ?thesis by auto
  qed
  with w show ?thesis by blast
qed

definition ex_waiting :: "unit admission_db" where
  "ex_waiting = adm_run (ex_run @ [Release ''l1'']) empty_db"

theorem free_slot_admits_a_waiter_witness:
  "\<exists>w\<in>set (db_waiters (prune 4 ex_waiting)). w_resource w = BUILD
     \<and> (\<forall>q lid. rkey q = waiter_key w \<and> ar_priority q = w_priority w
           \<and> lid \<notin> al_lease_id ` set (db_leases (prune 4 ex_waiting))
         \<longrightarrow> (\<exists>db' l. store_try_acquire q lid 4 ex_waiting = Inr (db', Some l) \<and> lease_key l = rkey q))"
proof -
  have inv: "adm_inv ex_waiting" unfolding ex_waiting_def by (rule adm_inv_run) simp
  have lim: "limit_lookup BUILD ex_waiting = Some 1"
    and act: "int (active_leases BUILD (prune 4 ex_waiting)) < 1"
    and ws: "map w_resource (db_waiters (prune 4 ex_waiting)) = [BUILD, BUILD]"
    by code_simp+
  from ws obtain v where v: "v \<in> set (db_waiters (prune 4 ex_waiting))" "w_resource v = BUILD"
    by (cases "db_waiters (prune 4 ex_waiting)") auto
  show ?thesis by (rule free_slot_admits_a_waiter [OF inv lim act v])
qed

text \<open>Idempotent acquisition: a request that holds an unexpired lease gets that same lease back on
  every further attempt, and never a second slot.\<close>

theorem reacquire_is_idempotent:
  assumes "adm_inv db" and "store_try_acquire q lid now db = Inr (db', Some l)" and "now' < al_expires_at l"
  shows "store_try_acquire q lid' now' db' = Inr (prune now' db', Some l)"
proof -
  have inv: "adm_inv db'" by (rule adm_inv_try_acquire [OF assms(1,2)])
  have l: "l \<in> set (db_leases db') \<and> lease_key l = rkey q"
    using assms(2) by (cases rule: try_acquire_cases) (auto dest: lookup_row_SomeD)
  then have "l \<in> set (db_leases (prune now' db'))" using assms(3) by (simp add: prune_def)
  then have "lookup_row lease_key (rkey q) (db_leases (prune now' db')) = Some l"
    using l adm_invD(6) [OF adm_inv_prune [OF inv]] by (simp add: lookup_row_Some_iff)
  then show ?thesis by (simp add: store_try_acquire_def Let_def)
qed

theorem reacquire_is_idempotent_witness:
  "\<exists>db' l. store_try_acquire (ex_request ''c'' 10) ''l9'' 4 ex_waiting = Inr (db', Some l)
     \<and> store_try_acquire (ex_request ''c'' 10) ''l9'' 50 db' = Inr (prune 50 db', Some l)"
proof -
  have inv: "adm_inv ex_waiting" unfolding ex_waiting_def by (rule adm_inv_run) simp
  have "map_option al_expires_at (case store_try_acquire (ex_request ''c'' 10) ''l9'' 4 ex_waiting
          of Inl _ \<Rightarrow> None | Inr (_, l) \<Rightarrow> l) = Some 104" by code_simp
  then obtain db' l where *: "store_try_acquire (ex_request ''c'' 10) ''l9'' 4 ex_waiting = Inr (db', Some l)"
    "al_expires_at l = 104" by (auto split: sum.splits)
  then have "store_try_acquire (ex_request ''c'' 10) ''l9'' 50 db' = Inr (prune 50 db', Some l)"
    by (intro reacquire_is_idempotent [OF inv]) auto
  with * show ?thesis by blast
qed

fun event_time :: "'p adm_event \<Rightarrow> time option" where
  "event_time (Try_Acquire q lid now) = Some now"
| "event_time (Heartbeat lid ttl now) = Some now"
| "event_time (Snapshot r now) = Some now"
| "event_time e = None"

lemma heartbeat_leases:
  assumes "store_heartbeat lid ttl now db = Inr (db', r)"
  shows "db_leases db' = db_leases (prune now db) \<or>
    (\<exists>t. db_leases db' = update_where (\<lambda>l. al_lease_id l = lid)
       (\<lambda>l. l\<lparr>al_heartbeat_at := now, al_expires_at := now + t, al_ttl_seconds := t\<rparr>) (db_leases (prune now db)))"
  using assms by (auto simp: store_heartbeat_def Let_def split: option.splits if_splits)

lemma prune_keeps: "l \<in> set (db_leases db) \<Longrightarrow> now < al_expires_at l \<Longrightarrow> l \<in> set (db_leases (prune now db))"
  by (simp add: prune_def)

text \<open>C30. A lease is never revoked: while it has not expired, no transaction of any process removes it
  other than its own release; in particular no change of a limit does.\<close>

theorem live_lease_is_never_revoked:
  assumes "l \<in> set (db_leases db)" and "e \<noteq> Release (al_lease_id l)"
    and "\<And>now. event_time e = Some now \<Longrightarrow> now < al_expires_at l"
  shows "\<exists>l'\<in>set (db_leases (adm_apply e db)). al_lease_id l' = al_lease_id l \<and> lease_key l' = lease_key l"
proof (cases e)
  case (Try_Acquire q lid now)
  with assms(1,3) have "l \<in> set (db_leases (prune now db))" by (simp add: prune_keeps)
  then have "l \<in> set (db_leases db')" if ta: "store_try_acquire q lid now db = Inr (db', r)" for db' r
    by (cases rule: try_acquire_cases [OF ta]) auto
  with Try_Acquire assms(1) show ?thesis
    by (fastforce simp: committed_def split: sum.splits prod.splits)
next
  case (Heartbeat lid ttl now)
  with assms(1,3) have "l \<in> set (db_leases (prune now db))" by (simp add: prune_keeps)
  then have "\<exists>l'\<in>set (db_leases db'). al_lease_id l' = al_lease_id l \<and> lease_key l' = lease_key l"
    if hb: "store_heartbeat lid ttl now db = Inr (db', r)" for db' r
  proof -
    let ?f = "\<lambda>t l. l\<lparr>al_heartbeat_at := now, al_expires_at := now + t, al_ttl_seconds := t\<rparr>"
    from heartbeat_leases [OF hb]
    have "l \<in> set (db_leases db') \<or> (\<exists>t. (if al_lease_id l = lid then ?f t l else l) \<in> set (db_leases db'))"
    proof
      assume "db_leases db' = db_leases (prune now db)"
      with \<open>l \<in> set (db_leases (prune now db))\<close> show ?thesis by simp
    next
      assume "\<exists>t. db_leases db' = update_where (\<lambda>l. al_lease_id l = lid) (?f t) (db_leases (prune now db))"
      then obtain t where t: "db_leases db' = update_where (\<lambda>l. al_lease_id l = lid) (?f t) (db_leases (prune now db))"
        by blast
      have "(if al_lease_id l = lid then ?f t l else l) \<in> set (db_leases db')"
        unfolding t by (rule update_where_mem [OF \<open>l \<in> set (db_leases (prune now db))\<close>])
      then show ?thesis by blast
    qed
    moreover have "al_lease_id (if al_lease_id l = lid then ?f t l else l) = al_lease_id l
        \<and> lease_key (if al_lease_id l = lid then ?f t l else l) = lease_key l" for t
      by (simp add: lease_key_def)
    ultimately show ?thesis by blast
  qed
  with Heartbeat assms(1) show ?thesis
    by (fastforce simp: committed_def split: sum.splits prod.splits)
next
  case (Ensure_Limit r n now)
  with assms(1) show ?thesis
    by (auto simp: committed_def ensure_limit_cases(1) split: sum.splits prod.splits)
next
  case (Sync_Limits r k p limits now)
  with assms(1) show ?thesis
    by (auto simp: committed_def sync_limits_if_state_changed_def Let_def split: sum.splits if_splits)
next
  case (Snapshot r now)
  with assms(1,3) show ?thesis by (auto simp: store_snapshot_def Let_def prune_keeps)
qed (use assms(1,2) in \<open>auto simp: committed_def store_set_limit_def store_set_state_def
      store_update_state_def store_release_def store_cancel_def Let_def split: sum.splits if_splits\<close>)

theorem live_lease_is_never_revoked_witness:
  "\<exists>l\<in>set (db_leases (adm_run ex_run empty_db)).
     \<exists>l'\<in>set (db_leases (adm_apply (Set_Limit BUILD 0 9) (adm_run ex_run empty_db))).
       al_lease_id l' = al_lease_id l \<and> lease_key l' = lease_key l"
proof -
  have "db_leases (adm_run ex_run empty_db) \<noteq> []" by code_simp
  then obtain l where l: "l \<in> set (db_leases (adm_run ex_run empty_db))" by (meson last_in_set)
  from live_lease_is_never_revoked [OF l, of "Set_Limit BUILD 0 9"] l show ?thesis by auto
qed

text \<open>A resolved configuration is published exactly once: a second
  \<open>sync_limits_if_state_changed\<close> with the same payload commits nothing, so an adaptive limit
  set in between survives.\<close>

theorem sync_publishes_once:
  assumes "sync_limits_if_state_changed r k p limits now db = Inr (db1, b)"
    and "sync_limits_if_state_changed r k p limits now' (write_limit s n t db1) = res"
  shows "res = Inr (write_limit s n t db1, False)"
proof -
  have nonneg: "\<not> (\<exists>l\<in>set limits. snd l < 0)"
  proof
    assume neg: "\<exists>l\<in>set limits. snd l < 0"
    from assms(1) show False unfolding sync_limits_if_state_changed_def if_P [OF neg] by simp
  qed
  have "map_option cs_payload (lookup_row controller_key (r, k) (db_controller db1)) = Some (JsonText Compact p)"
  proof (cases "map_option cs_payload (lookup_row controller_key (r, k) (db_controller db)) = Some (JsonText Compact p)")
    case True
    with assms(1) nonneg show ?thesis by (simp add: sync_limits_if_state_changed_def Let_def)
  next
    case False
    with assms(1) nonneg have "db1 = write_state r k (JsonText Compact p) now
        (fold (\<lambda>(resource, limit). write_limit resource limit now) limits db)"
      unfolding sync_limits_if_state_changed_def if_not_P [OF nonneg] Let_def if_not_P [OF False] by simp
    then show ?thesis by (simp only: lookup_write_state refl if_True)
  qed
  with nonneg show ?thesis using assms(2) by (simp add: sync_limits_if_state_changed_def Let_def)
qed

theorem sync_publishes_once_witness:
  "\<exists>db1. sync_limits_if_state_changed AI ''machine'' ''v1'' [(AI, 4)] 0 empty_db = Inr (db1, True)
     \<and> sync_limits_if_state_changed AI ''machine'' ''v1'' [(AI, 4)] 9 (write_limit AI 2 5 db1)
       = Inr (write_limit AI 2 5 db1, False)"
proof -
  have "\<exists>db1. sync_limits_if_state_changed AI ''machine'' ''v1'' [(AI, 4)] 0 empty_db = Inr (db1, True)"
    by (simp add: sync_limits_if_state_changed_def Let_def empty_db_def)
  then obtain db1 where *: "sync_limits_if_state_changed AI ''machine'' ''v1'' [(AI, 4)] 0 empty_db = Inr (db1, True)"
    by blast
  from sync_publishes_once [OF * refl] * show ?thesis by blast
qed

end
