(* ===== verification/Admission_Controller.thy ===== *)
theory Admission_Controller
  imports Admission
begin

text \<open>
  The resource-specific facade \<^verbatim>\<open>AdmissionController\<close> of \<^verbatim>\<open>concurrency/admission.py\<close>. A controller is
  the store plus its resource; an operation is an \<open>op\<close> on the database. \<open>acquire\<close> polls: between two
  polls any other process may run its transactions, so one poll is given by what the others did, the
  two clock readings and the fresh lease id. The loop runs over the polls that take place; while none
  of them ends it, the caller is still waiting (\<open>None\<close>).
\<close>

section \<open>The facade\<close>

definition controller_init :: "resource_kind \<Rightarrow> int \<Rightarrow> time \<Rightarrow> ('p admission_db, int) op" where
  "controller_init resource provided now = txn (ensure_limit resource provided now)"

definition controller_limit :: "resource_kind \<Rightarrow> ('p admission_db, int) op" where
  "controller_limit resource = readS (store_limit resource)"

definition controller_set_limit :: "resource_kind \<Rightarrow> int \<Rightarrow> time \<Rightarrow> ('p admission_db, int) op" where
  "controller_set_limit resource limit now = txn (store_set_limit resource limit now)"

definition controller_refresh_limit :: "resource_kind \<Rightarrow> int \<Rightarrow> time \<Rightarrow> ('p admission_db, int) op" where
  "controller_refresh_limit resource provided now = controller_set_limit resource provided now"

definition controller_try_acquire ::
    "resource_kind \<Rightarrow> admission_request \<Rightarrow> string \<Rightarrow> time \<Rightarrow> ('p admission_db, admission_lease option) op" where
  "controller_try_acquire resource request lease_id now =
     (if ar_resource request \<noteq> resource then raiseS (ValueError ''request is for another resource'')
      else txn (store_try_acquire request lease_id now))"

definition controller_heartbeat ::
    "resource_kind \<Rightarrow> admission_lease \<Rightarrow> time option \<Rightarrow> time \<Rightarrow> ('p admission_db, admission_lease option) op" where
  "controller_heartbeat resource lease ttl_seconds now =
     (if al_resource lease \<noteq> resource
      then raiseS (ValueError ''lease belongs to a different resource controller'')
      else txn (store_heartbeat (al_lease_id lease) ttl_seconds now))"

definition controller_release :: "resource_kind \<Rightarrow> admission_lease \<Rightarrow> ('p admission_db, bool) op" where
  "controller_release resource lease =
     (if al_resource lease \<noteq> resource
      then raiseS (ValueError ''lease belongs to a different resource controller'')
      else modifyS (store_release (al_lease_id lease)))"

definition controller_snapshot :: "resource_kind \<Rightarrow> time \<Rightarrow> ('p admission_db, admission_snapshot) op" where
  "controller_snapshot resource now db = store_snapshot resource now db"

record 'p poll =
  poll_others :: "'p admission_db \<Rightarrow> 'p admission_db"
  poll_now :: time
  poll_monotonic :: time
  poll_lease_id :: string

text \<open>\<open>try_acquire\<close> is the method of the receiver: the subclasses override it. \<open>deadline\<close> is
  \<open>None\<close> without a timeout.\<close>

definition past_deadline :: "time option \<Rightarrow> time \<Rightarrow> bool" where
  "past_deadline deadline monotonic = (case deadline of None \<Rightarrow> False | Some d \<Rightarrow> d \<le> monotonic)"

lemma past_deadline_iff: "past_deadline deadline monotonic \<longleftrightarrow> (\<exists>d. deadline = Some d \<and> d \<le> monotonic)"
  by (auto simp: past_deadline_def split: option.splits)

fun acquire ::
    "(admission_request \<Rightarrow> string \<Rightarrow> time \<Rightarrow> ('p admission_db, admission_lease option) op)
     \<Rightarrow> admission_request \<Rightarrow> time option \<Rightarrow> 'p poll list \<Rightarrow> ('p admission_db, admission_lease option) op" where
  "acquire attempt request deadline [] db = (db, Inr None)"
| "acquire attempt request deadline (p # ps) db =
     (case attempt request (poll_lease_id p) (poll_now p) (poll_others p db) of
        (db', Inl e) \<Rightarrow> (db', Inl e)
      | (db', Inr (Some lease)) \<Rightarrow> (db', Inr (Some lease))
      | (db', Inr None) \<Rightarrow>
          (if past_deadline deadline (poll_monotonic p)
           then (fst (store_cancel request db'), Inl (TimeoutError ''timed out waiting for admission''))
           else acquire attempt request deadline ps db'))"

definition deadline_for :: "time option \<Rightarrow> time \<Rightarrow> time option" where
  "deadline_for timeout monotonic = map_option (\<lambda>t. monotonic + t) timeout"

text \<open>The period of the daemon thread that keeps the lease of a \<open>with controller.lease(...)\<close> block.\<close>

definition heartbeat_interval :: "time \<Rightarrow> time" where
  "heartbeat_interval ttl = max (5/1000) (min 30 (ttl / 4))"

text \<open>The \<open>maintain\<close> thread: one heartbeat per wake-up until the lease is gone or the block stops it.
  The wake-ups carry what the other processes did since the last one.\<close>

fun maintain ::
    "resource_kind \<Rightarrow> admission_lease \<Rightarrow> (('p admission_db \<Rightarrow> 'p admission_db) \<times> time) list
     \<Rightarrow> ('p admission_db, bool) op" where
  "maintain resource lease [] db = (db, Inr True)"
| "maintain resource lease ((others, now) # wakeups) db =
     (case controller_heartbeat resource lease None now (others db) of
        (db', Inl e) \<Rightarrow> (db', Inl e)
      | (db', Inr None) \<Rightarrow> (db', Inr False)
      | (db', Inr (Some _)) \<Rightarrow> maintain resource lease wakeups db')"

section \<open>Lemmas\<close>

lemma controller_try_acquire_Inr:
  "controller_try_acquire r q lid now db = (db', Inr x) \<longleftrightarrow>
     ar_resource q = r \<and> store_try_acquire q lid now db = Inr (db', x)"
  by (auto simp: controller_try_acquire_def txn_Inr_iff)

lemma store_cancel_removes:
  "w \<in> set (db_waiters (fst (store_cancel q db))) \<Longrightarrow> waiter_key w \<noteq> rkey q"
  by (auto simp: store_cancel_def Let_def)

lemma store_cancel_frame [simp]:
  "db_leases (fst (store_cancel q db)) = db_leases db" "db_limits (fst (store_cancel q db)) = db_limits db"
  "db_controller (fst (store_cancel q db)) = db_controller db"
  by (simp_all add: store_cancel_def Let_def)

lemma granted_lease_is_stored:
  assumes "store_try_acquire q lid now db = Inr (db', Some l)"
  shows "l \<in> set (db_leases db') \<and> lease_key l = rkey q"
  using assms by (cases rule: try_acquire_cases) (auto dest: lookup_row_SomeD)

text \<open>A heartbeat of a stored, unexpired lease succeeds and moves its expiry.\<close>

lemma heartbeat_renews:
  assumes "adm_inv db" and l: "l \<in> set (db_leases db)" and "now < al_expires_at l" and "0 < al_ttl_seconds l"
  shows "\<exists>db' l'. store_heartbeat (al_lease_id l) None now db = Inr (db', Some l') \<and> adm_inv db'
     \<and> l' \<in> set (db_leases db') \<and> al_lease_id l' = al_lease_id l \<and> al_resource l' = al_resource l
     \<and> al_expires_at l' = now + al_ttl_seconds l \<and> al_ttl_seconds l' = al_ttl_seconds l"
proof -
  let ?p = "prune now db"
  let ?f = "\<lambda>m. m\<lparr>al_heartbeat_at := now, al_expires_at := now + al_ttl_seconds l, al_ttl_seconds := al_ttl_seconds l\<rparr>"
  let ?db = "?p\<lparr>db_leases := update_where (\<lambda>m. al_lease_id m = al_lease_id l) ?f (db_leases ?p)\<rparr>"
  have inv: "adm_inv ?p" using assms(1) by (rule adm_inv_prune)
  have lp: "l \<in> set (db_leases ?p)" using l assms(3) by (simp add: prune_def)
  then have look: "lookup_row al_lease_id (al_lease_id l) (db_leases ?p) = Some l"
    using adm_invD(5) [OF inv] by (simp add: lookup_row_Some_iff)
  have "?f l \<in> set (db_leases ?db)"
    using update_where_mem [OF lp, of "\<lambda>m. al_lease_id m = al_lease_id l" ?f] by simp
  moreover have "unique_on al_lease_id (db_leases ?db)"
    using adm_invD(5) [OF inv] by (simp add: unique_on_update_where)
  ultimately have look': "lookup_row al_lease_id (al_lease_id l) (db_leases ?db) = Some (?f l)"
    by (simp add: lookup_row_Some_iff)
  have res: "store_heartbeat (al_lease_id l) None now db = Inr (?db, Some (?f l))"
    using look look' assms(4) by (simp add: store_heartbeat_def Let_def effective_ttl_def)
  moreover have "adm_inv ?db" using adm_inv_heartbeat [OF assms(1) res] .
  ultimately show ?thesis using \<open>?f l \<in> set (db_leases ?db)\<close> by fastforce
qed

fun punctual :: "time \<Rightarrow> time \<Rightarrow> ('d \<times> time) list \<Rightarrow> bool" where
  "punctual period prev [] = True"
| "punctual period prev ((_, now) # ws) = (prev \<le> now \<and> now \<le> prev + period \<and> punctual period now ws)"

text \<open>What the other processes may do between two wake-ups: anything that keeps the lease while it has
  not expired.\<close>

definition spares :: "string \<Rightarrow> ('p admission_db \<Rightarrow> 'p admission_db) \<Rightarrow> time \<Rightarrow> bool" where
  "spares lid others now \<longleftrightarrow> (\<forall>db. adm_inv db \<longrightarrow> adm_inv (others db)
     \<and> (\<forall>l\<in>set (db_leases db). al_lease_id l = lid \<and> now < al_expires_at l \<longrightarrow> l \<in> set (db_leases (others db))))"

lemma maintain_punctual:
  assumes "adm_inv db" and "l \<in> set (db_leases db)" and "al_lease_id l = al_lease_id lease"
    and "al_ttl_seconds l = ttl" and "al_expires_at l = prev + ttl" and "0 < ttl" and "period < ttl"
    and "punctual period prev wakeups" and "\<forall>(others, now)\<in>set wakeups. spares (al_lease_id lease) others now"
  shows "snd (maintain (al_resource lease) lease wakeups db) = Inr True"
  using assms
proof (induction wakeups arbitrary: db l prev)
  case Nil
  then show ?case by simp
next
  case (Cons w ws)
  obtain others now where w: "w = (others, now)" by (cases w)
  have now: "now < al_expires_at l" and "spares (al_lease_id lease) others now"
    using Cons.prems(5,7,8,9) by (auto simp: w)
  with Cons.prems(1-3) have "adm_inv (others db)" "l \<in> set (db_leases (others db))"
    by (auto simp: spares_def)
  from heartbeat_renews [OF this now] Cons.prems(4,6) obtain db' l'
    where hb: "store_heartbeat (al_lease_id l) None now (others db) = Inr (db', Some l')"
      and l': "adm_inv db'" "l' \<in> set (db_leases db')" "al_lease_id l' = al_lease_id l"
        "al_expires_at l' = now + ttl" "al_ttl_seconds l' = ttl" by auto
  have "snd (maintain (al_resource lease) lease ws db') = Inr True"
    by (rule Cons.IH [of db' l' now]) (use l' Cons.prems in \<open>auto simp: w\<close>)
  with hb Cons.prems(3) show ?case by (simp add: w controller_heartbeat_def)
qed

section \<open>Properties\<close>



text \<open>\<open>acquire\<close> ends in one of three ways: it returns a lease that is in the store under the request's
  key; it raises \<open>TimeoutError\<close> with no waiter of the request left in the queue; or no poll has reached
  the deadline yet. (Other exceptions are those of \<open>try_acquire\<close>.)\<close>

theorem acquire_outcome:
  assumes "acquire (controller_try_acquire r) q deadline polls db = (db', res)"
  shows "case res of
      Inr (Some lease) \<Rightarrow> lease \<in> set (db_leases db') \<and> lease_key lease = rkey q
    | Inr None \<Rightarrow> (\<forall>p\<in>set polls. \<forall>d. deadline = Some d \<longrightarrow> poll_monotonic p < d)
    | Inl (TimeoutError _) \<Rightarrow> (\<exists>p\<in>set polls. \<exists>d. deadline = Some d \<and> d \<le> poll_monotonic p)
         \<and> (\<forall>w\<in>set (db_waiters db'). waiter_key w \<noteq> rkey q)
    | Inl _ \<Rightarrow> True"
  using assms
proof (induction polls arbitrary: db)
  case Nil
  then show ?case by auto
next
  case (Cons p ps)
  obtain db1 a where step: "controller_try_acquire r q (poll_lease_id p) (poll_now p) (poll_others p db) = (db1, a)"
    by fastforce
  show ?case
  proof (cases a)
    case (Inl e)
    have "\<not> (\<exists>m. e = TimeoutError m)"
      using step Inl by (auto simp: controller_try_acquire_def txn_def store_try_acquire_def Let_def insert_row_def bindE_def
          split: if_splits sum.splits option.splits)
    with Cons.prems step Inl show ?thesis by (cases e) auto
  next
    case (Inr l)
    show ?thesis
    proof (cases l)
      case (Some lease)
      then have "lease \<in> set (db_leases db1) \<and> lease_key lease = rkey q"
        using step Inr by (auto simp: controller_try_acquire_Inr intro!: granted_lease_is_stored)
      with Cons.prems step Inr Some show ?thesis by auto
    next
      case None
      show ?thesis
      proof (cases "\<exists>d. deadline = Some d \<and> d \<le> poll_monotonic p")
        case True
        with Cons.prems step Inr None show ?thesis by (auto simp: past_deadline_iff dest: store_cancel_removes)
      next
        case False
        with Cons.prems step Inr None have "acquire (controller_try_acquire r) q deadline ps db1 = (db', res)" by (auto simp: past_deadline_iff)
        from Cons.IH [OF this] False show ?thesis by (auto split: sum.splits option.splits py_error.splits)
      qed
    qed
  qed
qed

definition ex_poll :: "time \<Rightarrow> unit poll" where
  "ex_poll t = \<lparr>poll_others = (\<lambda>db. db), poll_now = t, poll_monotonic = t, poll_lease_id = ''l''\<rparr>"

theorem acquire_outcome_witness:
  "\<exists>db' m. acquire (controller_try_acquire LEAN)
       \<lparr>ar_resource = LEAN, ar_priority = 10, ar_owner = ''w'', ar_ttl_seconds = 100, ar_request_id = None\<rparr>
       (Some 2) [ex_poll 1, ex_poll 2, ex_poll 3] (write_limit LEAN 0 0 empty_db) = (db', Inl (TimeoutError m))
     \<and> (\<forall>w\<in>set (db_waiters db'). waiter_key w \<noteq> (LEAN, ''w''))"
proof -
  let ?q = "\<lparr>ar_resource = LEAN, ar_priority = 10, ar_owner = ''w'', ar_ttl_seconds = 100, ar_request_id = None\<rparr>"
  let ?r = "acquire (controller_try_acquire LEAN) ?q (Some 2) [ex_poll 1, ex_poll 2, ex_poll 3] (write_limit LEAN 0 0 empty_db)"
  have "(case snd ?r of Inl (TimeoutError m) \<Rightarrow> True | _ \<Rightarrow> False)" by code_simp
  then obtain db' m where r: "?r = (db', Inl (TimeoutError m))"
    by (cases ?r) (auto split: sum.splits option.splits py_error.splits)
  with acquire_outcome [OF r] show ?thesis by (auto simp: request_key_def)
qed

end
