(* ===== verification/Adaptive_Limits.thy ===== *)
theory Adaptive_Limits
  imports Admission_Controller
begin

text \<open>
  What the adaptive controllers of \<^verbatim>\<open>concurrency/ai.py\<close>, \<^verbatim>\<open>lean.py\<close> and \<^verbatim>\<open>build.py\<close> share: the JSON objects
  they keep in \<open>controller_state\<close>, the normalisation of mode names, and the contract of a controller
  that resizes its pool within bounds. A field of a JSON object is an option: \<open>None\<close> stands for a
  missing key (or a null), so \<open>state.get(key, default)\<close> is a case on it.
\<close>

section \<open>Controller state\<close>

record adaptive_state =
  ad_backoff_until :: "time option"
  ad_backoff_stage :: "int option"
  ad_throttles :: "int option"
  ad_transient_failures :: "int option"
  ad_stable_successes :: "int option"
  ad_outcomes :: "bool list option"
  ad_latencies :: "time list option"
  ad_last_increase_at :: "time option"

definition no_adaptive_state :: adaptive_state where
  "no_adaptive_state = \<lparr>ad_backoff_until = None, ad_backoff_stage = None, ad_throttles = None,
     ad_transient_failures = None, ad_stable_successes = None, ad_outcomes = None, ad_latencies = None,
     ad_last_increase_at = None\<rparr>"

record pressure_state =
  ps_state :: string
  ps_paused :: bool
  ps_observed_at :: time

record calibration_state =
  cal_paused :: bool
  cal_owner :: string
  cal_expires_at :: time

text \<open>The payloads of the three keys, and the resolved machine configuration (its encoded text) that
  \<open>runtime.py\<close> publishes with \<open>sync_limits_if_state_changed\<close>.\<close>

datatype controller_payload =
    Adaptive adaptive_state
  | Pressure pressure_state
  | Calibration calibration_state
  | Machine_Config string

type_synonym controller_db = "controller_payload admission_db"

fun adaptive_payload :: "controller_payload option \<Rightarrow> adaptive_state" where
  "adaptive_payload (Some (Adaptive s)) = s"
| "adaptive_payload _ = no_adaptive_state"

fun pressure_payload :: "controller_payload option \<Rightarrow> pressure_state option" where
  "pressure_payload (Some (Pressure p)) = Some p"
| "pressure_payload _ = None"

fun calibration_payload :: "controller_payload option \<Rightarrow> calibration_state option" where
  "calibration_payload (Some (Calibration c)) = Some c"
| "calibration_payload _ = None"

section \<open>Modes and pressure names\<close>

text \<open>Enum members are given by their \<open>value\<close>.\<close>

definition enum_text :: "string \<Rightarrow> string" where
  "enum_text v = dash_to_underscore (py_casefold v)"

definition ai_fixed_mode :: "string \<Rightarrow> bool" where
  "ai_fixed_mode mode \<longleftrightarrow> enum_text mode \<in> {''fixed'', ''manual''}"

definition pressure_name :: "string \<Rightarrow> string" where
  "pressure_name pressure = py_casefold pressure"

definition fixed_mode :: "string \<Rightarrow> bool" where
  "fixed_mode mode \<longleftrightarrow> py_casefold mode \<in> {''fixed'', ''manual''}"

section \<open>The contract of a bounded pool\<close>

text \<open>
  \<open>step e (c, db)\<close> is one operation of a controller: it changes the controller's fields and the
  database. The contract: the limit of the controller's own resource stays within the controller's
  bounds, no other resource's limit is touched, and no running lease is revoked by a resize.
\<close>

locale bounded_pool =
  fixes resource :: resource_kind
    and lower :: "'c \<Rightarrow> int" and upper :: "'c \<Rightarrow> int"
    and step :: "'e \<Rightarrow> 'c \<times> controller_db \<Rightarrow> 'c \<times> controller_db"
  assumes step_within:
      "limit_lookup resource db = Some n \<Longrightarrow> lower c \<le> n \<Longrightarrow> n \<le> upper c \<Longrightarrow> 0 \<le> lower c \<Longrightarrow>
       step e (c, db) = (c', db') \<Longrightarrow>
       \<exists>n'. limit_lookup resource db' = Some n' \<and> lower c' \<le> n' \<and> n' \<le> upper c' \<and> 0 \<le> lower c'"
    and step_frame: "r \<noteq> resource \<Longrightarrow> step e (c, db) = (c', db') \<Longrightarrow> limit_lookup r db' = limit_lookup r db"
    and step_leases: "step e (c, db) = (c', db') \<Longrightarrow> db_leases db' = db_leases db"
begin

definition in_bounds :: "'c \<times> controller_db \<Rightarrow> bool" where
  "in_bounds s \<longleftrightarrow> 0 \<le> lower (fst s) \<and>
     (\<exists>n. limit_lookup resource (snd s) = Some n \<and> lower (fst s) \<le> n \<and> n \<le> upper (fst s))"

lemma in_bounds_step: "in_bounds s \<Longrightarrow> in_bounds (step e s)"
  by (cases s; cases "step e s") (auto simp: in_bounds_def dest: step_within)

lemma in_bounds_run: "in_bounds s \<Longrightarrow> in_bounds (fold step es s)"
  by (induction es arbitrary: s) (simp_all add: in_bounds_step del: split_paired_All)

lemma frame_step: "r \<noteq> resource \<Longrightarrow> limit_lookup r (snd (step e s)) = limit_lookup r (snd s)"
  by (cases s; cases "step e s") (auto dest: step_frame)

lemma frame_run: "r \<noteq> resource \<Longrightarrow> limit_lookup r (snd (fold step es s)) = limit_lookup r (snd s)"
  by (induction es arbitrary: s) (simp_all add: frame_step)

lemma leases_run: "db_leases (snd (fold step es s)) = db_leases (snd s)"
proof (induction es arbitrary: s)
  case (Cons e es)
  have "db_leases (snd (step e s)) = db_leases (snd s)"
    by (cases s; cases "step e s") (auto dest: step_leases)
  with Cons show ?case by simp
qed simp

lemma bounded_run:
  assumes "limit_lookup resource db = Some n" "0 \<le> lower c" "lower c \<le> n" "n \<le> upper c"
    and "fold step es (c, db) = (c', db')"
  shows "(\<exists>n'. limit_lookup resource db' = Some n' \<and> lower c' \<le> n' \<and> n' \<le> upper c')
    \<and> (\<forall>r. r \<noteq> resource \<longrightarrow> limit_lookup r db' = limit_lookup r db) \<and> db_leases db' = db_leases db"
  using in_bounds_run [of "(c, db)" es] frame_run [of _ es "(c, db)"] leases_run [of es "(c, db)"] assms
  by (auto simp: in_bounds_def)

end

section \<open>Limits and states on the store\<close>

lemma write_state_frame [simp]:
  "db_leases (write_state r k p now db) = db_leases db" "db_waiters (write_state r k p now db) = db_waiters db"
  "db_limits (write_state r k p now db) = db_limits db"
  "limit_lookup s (write_state r k p now db) = limit_lookup s db"
  by (simp_all add: write_state_def limit_lookup_def)

lemma store_limit_Inr: "store_limit r db = Inr n \<longleftrightarrow> limit_lookup r db = Some n"
  by (simp add: store_limit_def split: option.splits)

lemma get_state_write_limit [simp]: "store_get_state r k (write_limit s n now db) = store_get_state r k db"
  by (simp add: store_get_state_def)

lemma set_state_simps [simp]:
  "db_leases (store_set_state r k p now db) = db_leases db" "db_waiters (store_set_state r k p now db) = db_waiters db"
  "limit_lookup s (store_set_state r k p now db) = limit_lookup s db"
  by (simp_all add: store_set_state_def)

lemma get_state_set_state:
  "store_get_state r k (store_set_state s j p now db) = (if (r, k) = (s, j) then Some p else store_get_state r k db)"
  by (simp add: store_set_state_def get_write_state)

lemma update_state_simps [simp]:
  "db_leases (fst (store_update_state z r k f now db)) = db_leases db"
  "db_waiters (fst (store_update_state z r k f now db)) = db_waiters db"
  "limit_lookup s (fst (store_update_state z r k f now db)) = limit_lookup s db"
  by (simp_all add: store_update_state_def Let_def)

lemma get_state_update_state:
  "store_get_state r k (fst (store_update_state z s j f now db)) =
     (if (r, k) = (s, j) then Some (f (case store_get_state s j db of None \<Rightarrow> z | Some p \<Rightarrow> p)) else store_get_state r k db)"
  by (simp add: store_update_state_def Let_def get_write_state split: option.splits)

lemma set_limit_run: "0 \<le> n \<Longrightarrow> controller_set_limit r n now db = (write_limit r n now db, Inr n)"
  by (simp add: controller_set_limit_def txn_def store_set_limit_def)

lemma limit_run: "controller_limit r db = (db, store_limit r db)"
  by (simp add: controller_limit_def)

end
