(* ===== verification/AI_Controller.thy ===== *)
theory AI_Controller
  imports Adaptive_Limits
begin

text \<open>
  \<^verbatim>\<open>concurrency/ai.py\<close>: the machine-wide AI budget with additive increase, multiplicative decrease and
  backoff. A controller is a record of its constructor arguments; its history lives in the store under
  the key \<open>adaptive\<close>. One operation reads the clock once (\<open>now\<close>). The jitter is an argument, and the
  \<open>Retry-After\<close> value comes as what \<open>float()\<close> or \<open>parsedate_to_datetime\<close> read from it.
\<close>

section \<open>Task classes\<close>

datatype ai_task_class = CLARIFICATION | DIAGNOSTIC | PROOF | SKETCH | MAINTENANCE | REVIEW | DUPLICATE_PROOF | REPORTING

fun task_class_text :: "ai_task_class \<Rightarrow> string" where
  "task_class_text CLARIFICATION = ''clarification''"
| "task_class_text DIAGNOSTIC = ''diagnostic''"
| "task_class_text PROOF = ''proof''"
| "task_class_text SKETCH = ''sketch''"
| "task_class_text MAINTENANCE = ''maintenance''"
| "task_class_text REVIEW = ''review''"
| "task_class_text DUPLICATE_PROOF = ''duplicate_proof''"
| "task_class_text REPORTING = ''reporting''"

fun TASK_PRIORITIES :: "ai_task_class \<Rightarrow> int" where
  "TASK_PRIORITIES CLARIFICATION = 0"
| "TASK_PRIORITIES DIAGNOSTIC = 0"
| "TASK_PRIORITIES PROOF = 10"
| "TASK_PRIORITIES SKETCH = 10"
| "TASK_PRIORITIES MAINTENANCE = 15"
| "TASK_PRIORITIES REVIEW = 20"
| "TASK_PRIORITIES DUPLICATE_PROOF = 30"
| "TASK_PRIORITIES REPORTING = 40"

definition task_class_of_text :: "string \<Rightarrow> ai_task_class option" where
  "task_class_of_text t = find (\<lambda>k. task_class_text k = t)
     [CLARIFICATION, DIAGNOSTIC, PROOF, SKETCH, MAINTENANCE, REVIEW, DUPLICATE_PROOF, REPORTING]"

section \<open>The controller\<close>

record ai_controller =
  ai_minimum :: int
  ai_ceiling :: int
  ai_mode :: string
  ai_budget_policy :: string
  ai_success_window :: int
  ai_increase_after_successes :: "int option"
  ai_increase_cooldown_seconds :: time
  ai_throttle_multiplier :: time

definition BACKOFF_SECONDS :: "time list" where
  "BACKOFF_SECONDS = [30, 60, 120, 240, 300]"

text \<open>\<open>BACKOFF_SECONDS[stage]\<close>, with Python's reading of a negative index.\<close>

definition backoff_seconds :: "int \<Rightarrow> time" where
  "backoff_seconds stage = BACKOFF_SECONDS ! nat (if stage < 0 then stage + 5 else stage)"

definition initial_adaptive_state :: adaptive_state where
  "initial_adaptive_state = \<lparr>ad_backoff_until = Some 0, ad_backoff_stage = Some 0, ad_throttles = Some 0,
     ad_transient_failures = Some 0, ad_stable_successes = Some 0, ad_outcomes = Some [], ad_latencies = Some [],
     ad_last_increase_at = None\<rparr>"

definition get_default :: "'a option \<Rightarrow> 'a \<Rightarrow> 'a" where
  "get_default v d = (case v of None \<Rightarrow> d | Some x \<Rightarrow> x)"

lemma get_default_simps [simp]: "get_default None d = d" "get_default (Some x) d = x"
  by (simp_all add: get_default_def)

definition ai_state :: "controller_db \<Rightarrow> adaptive_state" where
  "ai_state db = adaptive_payload (store_get_state AI ''adaptive'' db)"

definition ai_update_state ::
    "(adaptive_state \<Rightarrow> adaptive_state) \<Rightarrow> time \<Rightarrow> controller_db \<Rightarrow> controller_db" where
  "ai_update_state f now db = fst (store_update_state (Adaptive no_adaptive_state) AI ''adaptive''
     (\<lambda>p. Adaptive (f (adaptive_payload (Some p)))) now db)"

definition ai_is_fixed :: "ai_controller \<Rightarrow> bool" where
  "ai_is_fixed c = ai_fixed_mode (ai_mode c)"

definition ai_init :: "ai_controller \<Rightarrow> int \<Rightarrow> time \<Rightarrow> (controller_db, ai_controller) op" where
  "ai_init c initial now =
     (if \<not> (1 \<le> ai_minimum c \<and> ai_minimum c \<le> initial \<and> initial \<le> ai_ceiling c)
      then raiseS (ValueError ''AI limits must satisfy 1 <= minimum <= initial <= ceiling'')
      else if (case ai_increase_after_successes c of None \<Rightarrow> False | Some n \<Rightarrow> n < 1)
      then raiseS (ValueError ''AI increase threshold must be positive'')
      else if ai_increase_cooldown_seconds c < 0
      then raiseS (ValueError ''AI increase cooldown must not be negative'')
      else if \<not> (0 < ai_throttle_multiplier c \<and> ai_throttle_multiplier c < 1)
      then raiseS (ValueError ''AI throttle multiplier must be between zero and one'')
      else bindS (controller_init AI initial now) (\<lambda>_.
           modifyS (\<lambda>db. (if store_get_state AI ''adaptive'' db = None
                          then ai_update_state (\<lambda>_. initial_adaptive_state) now db else db, c))))"

definition ai_request ::
    "string \<Rightarrow> string \<Rightarrow> time \<Rightarrow> string option \<Rightarrow> admission_request result" where
  "ai_request owner task_class ttl_seconds request_id =
     (case task_class_of_text (enum_text task_class) of
        None \<Rightarrow> Inl (ValueError ''not a valid AITaskClass'')
      | Some kind \<Rightarrow> make_request AI (TASK_PRIORITIES kind) owner ttl_seconds request_id)"

definition ai_backoff_until :: "controller_db \<Rightarrow> time" where
  "ai_backoff_until db = get_default (ad_backoff_until (ai_state db)) 0"

definition ai_in_backoff :: "time \<Rightarrow> controller_db \<Rightarrow> bool" where
  "ai_in_backoff now db \<longleftrightarrow> now < ai_backoff_until db"

definition ai_try_acquire ::
    "admission_request \<Rightarrow> string \<Rightarrow> time \<Rightarrow> (controller_db, admission_lease option) op" where
  "ai_try_acquire request lease_id now db =
     (if ai_in_backoff now db then (db, Inr None) else controller_try_acquire AI request lease_id now db)"

definition ai_increase_threshold :: "ai_controller \<Rightarrow> int" where
  "ai_increase_threshold c =
     (case ai_increase_after_successes c of
        Some n \<Rightarrow> n
      | None \<Rightarrow> (let policy = enum_text (ai_budget_policy c)
                 in if policy = ''economy'' then 12 else if policy = ''throughput'' then 4 else 8))"

section \<open>Outcomes of AI turns\<close>

definition cooldown_ready :: "ai_controller \<Rightarrow> time \<Rightarrow> adaptive_state \<Rightarrow> bool" where
  "cooldown_ready c now s = (case ad_last_increase_at s of
     None \<Rightarrow> True | Some t \<Rightarrow> now - t \<ge> ai_increase_cooldown_seconds c)"

text \<open>The conjuncts of \<open>increase_due\<close> before \<open>self.limit\<close>, which raises when no limit is configured.\<close>

definition increase_eligible :: "ai_controller \<Rightarrow> bool \<Rightarrow> time \<Rightarrow> adaptive_state \<Rightarrow> bool" where
  "increase_eligible c queued now s \<longleftrightarrow>
     \<not> ai_is_fixed c \<and> get_default (ad_backoff_until s) 0 \<le> now \<and> queued
     \<and> ai_increase_threshold c \<le> get_default (ad_stable_successes s) 0 + 1"

definition success_update ::
    "ai_controller \<Rightarrow> time \<Rightarrow> bool \<Rightarrow> time \<Rightarrow> adaptive_state \<Rightarrow> adaptive_state" where
  "success_update c latency due now s =
     (let s1 = s\<lparr>ad_outcomes := Some (py_last (ai_success_window c) (get_default (ad_outcomes s) [] @ [True])),
                 ad_latencies := Some (py_last (ai_success_window c) (get_default (ad_latencies s) [] @ [latency]))\<rparr>;
          s2 = (if get_default (ad_backoff_until s) 0 \<le> now
                then s1\<lparr>ad_backoff_until := Some 0, ad_transient_failures := Some 0\<rparr> else s1)
      in if due then s2\<lparr>ad_last_increase_at := Some now, ad_backoff_stage := Some 0, ad_stable_successes := Some 0\<rparr>
         else s2\<lparr>ad_stable_successes := Some (get_default (ad_stable_successes s) 0 + 1)\<rparr>)"

definition ai_record_success :: "ai_controller \<Rightarrow> time \<Rightarrow> bool \<Rightarrow> time \<Rightarrow> (controller_db, int) op" where
  "ai_record_success c latency queued now db =
     (if latency < 0 then (db, Inl (ValueError ''latency must not be negative''))
      else let s = ai_state db; eligible = increase_eligible c queued now s
           in case (if eligible then store_limit AI db else Inr 0) of
                Inl e \<Rightarrow> (db, Inl e)
              | Inr limit \<Rightarrow>
                  let due = (eligible \<and> limit < ai_ceiling c \<and> cooldown_ready c now s);
                      db1 = ai_update_state (success_update c latency due now) now db
                  in bindS (if due then bindS (controller_limit AI) (\<lambda>n.
                                if n < ai_ceiling c then controller_set_limit AI (n + 1) now else returnS n)
                            else returnS 0)
                       (\<lambda>_. controller_limit AI) db1)"

datatype retry_after = No_Retry_After | Retry_Seconds time | Retry_Date time | Retry_Unreadable

fun retry_after_seconds :: "retry_after \<Rightarrow> time \<Rightarrow> time option" where
  "retry_after_seconds No_Retry_After now = None"
| "retry_after_seconds (Retry_Seconds s) now = Some (max 0 s)"
| "retry_after_seconds (Retry_Date t) now = Some (max 0 (t - now))"
| "retry_after_seconds Retry_Unreadable now = None"

definition backoff_stage :: "adaptive_state \<Rightarrow> int" where
  "backoff_stage s = min (get_default (ad_backoff_stage s) 0) (int (length BACKOFF_SECONDS) - 1)"

definition throttle_delay :: "retry_after \<Rightarrow> (time \<Rightarrow> time) \<Rightarrow> time \<Rightarrow> adaptive_state \<Rightarrow> time" where
  "throttle_delay retry jitter now s = (case retry_after_seconds retry now of
     Some explicit \<Rightarrow> explicit | None \<Rightarrow> jitter (backoff_seconds (backoff_stage s)))"

definition throttle_update :: "ai_controller \<Rightarrow> time \<Rightarrow> time \<Rightarrow> adaptive_state \<Rightarrow> adaptive_state" where
  "throttle_update c delay now s =
     s\<lparr>ad_outcomes := Some (py_last (ai_success_window c) (get_default (ad_outcomes s) [] @ [False])),
       ad_stable_successes := Some 0,
       ad_backoff_until := Some (max (get_default (ad_backoff_until s) 0) (now + delay)),
       ad_backoff_stage := Some (min (backoff_stage s + 1) (int (length BACKOFF_SECONDS) - 1)),
       ad_throttles := Some (get_default (ad_throttles s) 0 + 1)\<rparr>"

text \<open>Python's \<open>int()\<close> of a float.\<close>

definition py_trunc :: "time \<Rightarrow> int" where
  "py_trunc q = (if q < 0 then \<lceil>q\<rceil> else \<lfloor>q\<rfloor>)"

definition ai_record_throttle ::
    "ai_controller \<Rightarrow> retry_after \<Rightarrow> (time \<Rightarrow> time) \<Rightarrow> time \<Rightarrow> (controller_db, time) op" where
  "ai_record_throttle c retry jitter now db =
     (let delay = throttle_delay retry jitter now (ai_state db);
          db1 = ai_update_state (throttle_update c delay now) now db
      in bindS (if ai_is_fixed c then returnS 0
                else bindS (controller_limit AI) (\<lambda>n.
                  controller_set_limit AI (max (ai_minimum c) (py_trunc (of_int n * ai_throttle_multiplier c))) now))
           (\<lambda>_. returnS delay) db1)"

definition transient_update :: "ai_controller \<Rightarrow> time \<Rightarrow> time \<Rightarrow> adaptive_state \<Rightarrow> adaptive_state" where
  "transient_update c delay now s =
     s\<lparr>ad_outcomes := Some (py_last (ai_success_window c) (get_default (ad_outcomes s) [] @ [False])),
       ad_stable_successes := Some 0,
       ad_transient_failures := Some (get_default (ad_transient_failures s) 0 + 1),
       ad_backoff_stage := Some (min (backoff_stage s + 1) (int (length BACKOFF_SECONDS) - 1)),
       ad_backoff_until := Some (max (get_default (ad_backoff_until s) 0) (now + delay))\<rparr>"

definition ai_record_transient_failure ::
    "ai_controller \<Rightarrow> (time \<Rightarrow> time) \<Rightarrow> time \<Rightarrow> (controller_db, time) op" where
  "ai_record_transient_failure c jitter now db =
     (let s = ai_state db; failures = get_default (ad_transient_failures s) 0 + 1;
          delay = jitter (backoff_seconds (backoff_stage s));
          db1 = ai_update_state (transient_update c delay now) now db
      in bindS (if \<not> ai_is_fixed c \<and> failures \<ge> 2
                then bindS (controller_limit AI) (\<lambda>n. controller_set_limit AI (max (ai_minimum c) (n - 1)) now)
                else returnS 0)
           (\<lambda>_. returnS delay) db1)"

section \<open>Bounds, reset and status\<close>

text \<open>\<open>set_bounds\<close> assigns the fields before it reads the limit.\<close>

definition ai_set_bounds :: "int \<Rightarrow> int \<Rightarrow> time \<Rightarrow> (ai_controller \<times> controller_db, int) op" where
  "ai_set_bounds minimum cap now s =
     (if minimum < 1 \<or> cap < minimum then (s, Inl (ValueError ''invalid AI concurrency bounds''))
      else case bindS (controller_limit AI) (\<lambda>n.
                  controller_set_limit AI (min cap (max minimum n)) now) (snd s) of
             (db', r) \<Rightarrow> (((fst s)\<lparr>ai_minimum := minimum, ai_ceiling := cap\<rparr>, db'), r))"

definition ai_reset_adaptive_history :: "time \<Rightarrow> controller_db \<Rightarrow> controller_db" where
  "ai_reset_adaptive_history now db = store_set_state AI ''adaptive'' (Adaptive initial_adaptive_state) now db"

record ai_controller_status =
  ais_current_limit :: int
  ais_minimum :: int
  ais_ceiling :: int
  ais_active :: nat
  ais_queued :: nat
  ais_rolling_latency_seconds :: time
  ais_rolling_success_rate :: time
  ais_throttles :: int
  ais_transient_failures :: int
  ais_backoff_until :: time
  ais_backoff_stage :: int

definition ai_status :: "ai_controller \<Rightarrow> time \<Rightarrow> (controller_db, ai_controller_status) op" where
  "ai_status c now = bindS (controller_snapshot AI now) (\<lambda>snapshot db.
     let s = ai_state db; latencies = get_default (ad_latencies s) []; outcomes = get_default (ad_outcomes s) []
     in (db, Inr \<lparr>ais_current_limit = as_limit snapshot, ais_minimum = ai_minimum c, ais_ceiling = ai_ceiling c,
           ais_active = as_active snapshot, ais_queued = as_queued snapshot,
           ais_rolling_latency_seconds =
             (if latencies = [] then 0 else sum_list latencies / of_nat (length latencies)),
           ais_rolling_success_rate =
             (if outcomes = [] then 1 else of_nat (count_where (\<lambda>b. b) outcomes) / of_nat (length outcomes)),
           ais_throttles = get_default (ad_throttles s) 0,
           ais_transient_failures = get_default (ad_transient_failures s) 0,
           ais_backoff_until = get_default (ad_backoff_until s) 0,
           ais_backoff_stage = get_default (ad_backoff_stage s) 0\<rparr>))"

section \<open>The controller as a bounded pool\<close>

datatype ai_event =
    AI_Success time bool time
  | AI_Throttle retry_after "time \<Rightarrow> time" time
  | AI_Transient_Failure "time \<Rightarrow> time" time
  | AI_Set_Bounds int int time
  | AI_Reset_History time

fun ai_step :: "ai_event \<Rightarrow> ai_controller \<times> controller_db \<Rightarrow> ai_controller \<times> controller_db" where
  "ai_step (AI_Success latency queued now) (c, db) = (c, fst (ai_record_success c latency queued now db))"
| "ai_step (AI_Throttle retry jitter now) (c, db) = (c, fst (ai_record_throttle c retry jitter now db))"
| "ai_step (AI_Transient_Failure jitter now) (c, db) = (c, fst (ai_record_transient_failure c jitter now db))"
| "ai_step (AI_Set_Bounds minimum cap now) s = fst (ai_set_bounds minimum cap now s)"
| "ai_step (AI_Reset_History now) (c, db) = (c, ai_reset_adaptive_history now db)"

lemma ai_update_state_simps [simp]:
  "db_leases (ai_update_state f now db) = db_leases db" "db_waiters (ai_update_state f now db) = db_waiters db"
  "limit_lookup r (ai_update_state f now db) = limit_lookup r db"
  "store_limit r (ai_update_state f now db) = store_limit r db"
  "ai_state (ai_update_state f now db) = f (ai_state db)"
  by (simp_all add: ai_update_state_def ai_state_def store_limit_def get_state_update_state split: option.splits)

lemma ai_state_write_limit [simp]: "ai_state (write_limit r n now db) = ai_state db"
  by (simp add: ai_state_def)

text \<open>A change of the limit through \<open>self.limit\<close> and \<open>self.set_limit\<close>.\<close>

definition adjust_limit :: "resource_kind \<Rightarrow> (int \<Rightarrow> int) \<Rightarrow> time \<Rightarrow> (controller_db, int) op" where
  "adjust_limit r f now = bindS (controller_limit r) (\<lambda>n. controller_set_limit r (f n) now)"

lemma adjust_limit_run:
  "adjust_limit r f now db = (case limit_lookup r db of
     None \<Rightarrow> (db, Inl (RuntimeError ''no admission limit configured''))
   | Some n \<Rightarrow> if f n < 0 then (db, Inl (ValueError ''admission limit must not be negative''))
               else (write_limit r (f n) now db, Inr (f n)))"
  by (auto simp: adjust_limit_def bindS_def controller_limit_def store_limit_def controller_set_limit_def
      store_set_limit_def txn_def split: option.splits)

lemma record_throttle_run:
  "ai_record_throttle c retry jitter now db =
     (let delay = throttle_delay retry jitter now (ai_state db);
          db1 = ai_update_state (throttle_update c delay now) now db
      in if ai_is_fixed c then (db1, Inr delay)
         else bindS (adjust_limit AI (\<lambda>n. max (ai_minimum c) (py_trunc (of_int n * ai_throttle_multiplier c))) now)
                (\<lambda>_. returnS delay) db1)"
  by (auto simp: ai_record_throttle_def adjust_limit_def Let_def bindS_def split: prod.splits sum.splits)

lemma record_transient_run:
  "ai_record_transient_failure c jitter now db =
     (let s = ai_state db; delay = jitter (backoff_seconds (backoff_stage s));
          db1 = ai_update_state (transient_update c delay now) now db
      in if \<not> ai_is_fixed c \<and> get_default (ad_transient_failures s) 0 + 1 \<ge> 2
         then bindS (adjust_limit AI (\<lambda>n. max (ai_minimum c) (n - 1)) now) (\<lambda>_. returnS delay) db1
         else (db1, Inr delay))"
  by (auto simp: ai_record_transient_failure_def adjust_limit_def Let_def bindS_def split: prod.splits sum.splits)

text \<open>On a store with a limit, a success either leaves the limit or adds one below the ceiling.\<close>

definition success_grows :: "ai_controller \<Rightarrow> bool \<Rightarrow> time \<Rightarrow> controller_db \<Rightarrow> int \<Rightarrow> bool" where
  "success_grows c queued now db n \<longleftrightarrow>
     increase_eligible c queued now (ai_state db) \<and> n < ai_ceiling c \<and> cooldown_ready c now (ai_state db)"

lemma record_success_run:
  assumes "limit_lookup AI db = Some n" and "0 \<le> latency" and "0 \<le> n"
  shows "ai_record_success c latency queued now db =
     (let due = success_grows c queued now db n;
          db1 = ai_update_state (success_update c latency due now) now db
      in if due then (write_limit AI (n + 1) now db1, Inr (n + 1)) else (db1, Inr n))"
proof -
  have lim: "store_limit AI db = Inr n" using assms(1) by (simp add: store_limit_Inr)
  have lim': "store_limit AI (write_limit AI (n + 1) now db') = Inr (n + 1)" for db' :: controller_db
    by (simp add: store_limit_Inr limit_lookup_write_limit)
  show ?thesis
    using assms(2,3) lim
    by (auto simp: ai_record_success_def success_grows_def Let_def bindS_def limit_run set_limit_run lim')
qed

lemma record_success_no_limit:
  "limit_lookup AI db = None \<Longrightarrow> limit_lookup r (fst (ai_record_success c latency queued now db)) = limit_lookup r db"
  by (auto simp: ai_record_success_def Let_def bindS_def limit_run store_limit_def split: option.splits if_splits)

lemma ai_pool_frame:
  "r \<noteq> AI \<Longrightarrow> limit_lookup r (fst (ai_record_throttle c retry jitter now db)) = limit_lookup r db"
  "r \<noteq> AI \<Longrightarrow> limit_lookup r (fst (ai_record_transient_failure c jitter now db)) = limit_lookup r db"
  "db_leases (fst (ai_record_throttle c retry jitter now db)) = db_leases db"
  "db_leases (fst (ai_record_transient_failure c jitter now db)) = db_leases db"
  by (auto simp: record_throttle_run record_transient_run adjust_limit_run Let_def bindS_def limit_lookup_write_limit
      split: option.splits)

lemma record_success_frame:
  "r \<noteq> AI \<Longrightarrow> limit_lookup r (fst (ai_record_success c latency queued now db)) = limit_lookup r db"
  "db_leases (fst (ai_record_success c latency queued now db)) = db_leases db"
  by (auto simp: ai_record_success_def Let_def bindS_def limit_run store_limit_def controller_set_limit_def
      store_set_limit_def txn_def limit_lookup_write_limit split: option.splits if_splits)

lemma set_bounds_run:
  "ai_set_bounds minimum cap now (c, db) =
     (if minimum < 1 \<or> cap < minimum then ((c, db), Inl (ValueError ''invalid AI concurrency bounds''))
      else case adjust_limit AI (\<lambda>n. min cap (max minimum n)) now db of
             (db', r) \<Rightarrow> ((c\<lparr>ai_minimum := minimum, ai_ceiling := cap\<rparr>, db'), r))"
  by (simp add: ai_set_bounds_def adjust_limit_def)

lemma reset_history_simps [simp]:
  "limit_lookup r (ai_reset_adaptive_history now db) = limit_lookup r db"
  "db_leases (ai_reset_adaptive_history now db) = db_leases db"
  "ai_state (ai_reset_adaptive_history now db) = initial_adaptive_state"
  by (simp_all add: ai_reset_adaptive_history_def ai_state_def get_state_set_state)

lemma py_trunc_le: "0 \<le> n \<Longrightarrow> 0 \<le> m \<Longrightarrow> m \<le> 1 \<Longrightarrow> py_trunc (of_int n * m) \<le> n"
proof -
  assume "0 \<le> n" "0 \<le> m" "m \<le> 1"
  then have "of_int n * m \<le> of_int n" "0 \<le> of_int n * m" by (simp_all add: mult_left_le)
  then show ?thesis by (simp add: py_trunc_def) linarith
qed

lemma throttle_limit:
  assumes "limit_lookup AI db = Some n" and "0 \<le> ai_minimum c" and "\<not> ai_is_fixed c"
  shows "limit_lookup AI (fst (ai_record_throttle c retry jitter now db))
     = Some (max (ai_minimum c) (py_trunc (of_int n * ai_throttle_multiplier c)))"
  using assms by (auto simp: record_throttle_run adjust_limit_run Let_def bindS_def limit_lookup_write_limit)

definition multiplier_ok :: "ai_controller \<Rightarrow> bool" where
  "multiplier_ok c \<longleftrightarrow> 0 < ai_throttle_multiplier c \<and> ai_throttle_multiplier c < 1"

text \<open>The lower bound carries the check of the constructor on the multiplier.\<close>

definition ai_lower :: "ai_controller \<Rightarrow> int" where
  "ai_lower c = (if multiplier_ok c then ai_minimum c else - 1)"

lemma ai_step_within:
  assumes "limit_lookup AI db = Some n" "ai_lower c \<le> n" "n \<le> ai_ceiling c" "0 \<le> ai_lower c"
    and step: "ai_step e (c, db) = (c', db')"
  shows "\<exists>n'. limit_lookup AI db' = Some n' \<and> ai_lower c' \<le> n' \<and> n' \<le> ai_ceiling c' \<and> 0 \<le> ai_lower c'"
proof -
  have ok: "multiplier_ok c" and m: "ai_lower c = ai_minimum c" "0 \<le> ai_minimum c" "0 \<le> n"
    using assms(2,4) by (auto simp: ai_lower_def split: if_splits)
  show ?thesis
  proof (cases e)
    case (AI_Success latency queued now)
    show ?thesis
    proof (cases "0 \<le> latency")
      case True
      with AI_Success step assms m record_success_run [OF assms(1) True m(3), of c queued now]
      show ?thesis
        by (auto simp: Let_def limit_lookup_write_limit success_grows_def split: if_splits)
    next
      case False
      with AI_Success step assms show ?thesis by (auto simp: ai_record_success_def)
    qed
  next
    case (AI_Throttle retry jitter now)
    have "py_trunc (of_int n * ai_throttle_multiplier c) \<le> n"
      using ok m(3) by (intro py_trunc_le) (auto simp: multiplier_ok_def)
    moreover have "limit_lookup AI (fst (ai_record_throttle c retry jitter now db)) \<in>
        {Some n, Some (max (ai_minimum c) (py_trunc (of_int n * ai_throttle_multiplier c)))}"
      using throttle_limit [OF assms(1) m(2)] assms(1)
      by (cases "ai_is_fixed c") (simp_all add: record_throttle_run Let_def)
    ultimately show ?thesis using AI_Throttle step assms m by auto
  next
    case (AI_Transient_Failure jitter now)
    with step assms m show ?thesis
      by (auto simp: record_transient_run adjust_limit_run Let_def bindS_def limit_lookup_write_limit split: if_splits)
  next
    case (AI_Set_Bounds minimum cap now)
    with step assms ok m show ?thesis
      by (auto simp: set_bounds_run adjust_limit_run limit_lookup_write_limit ai_lower_def multiplier_ok_def split: if_splits)
  next
    case (AI_Reset_History now)
    with step assms show ?thesis by auto
  qed
qed

lemma ai_step_frame:
  assumes "ai_step e (c, db) = (c', db')"
  shows "r \<noteq> AI \<Longrightarrow> limit_lookup r db' = limit_lookup r db" and "db_leases db' = db_leases db"
  using assms
  by (cases e; auto simp: ai_pool_frame record_success_frame set_bounds_run adjust_limit_run limit_lookup_write_limit
      split: if_splits option.splits)+

interpretation ai_pool: bounded_pool AI ai_lower ai_ceiling ai_step
  by unfold_locales (erule (4) ai_step_within, erule (1) ai_step_frame, erule ai_step_frame(2))

section \<open>Properties\<close>

text \<open>C37. The AI budget adapts within its bounds: after any sequence of recorded outcomes, changes of the
  bounds and resets, the published AI limit lies between the controller's minimum and ceiling, the Lean
  and build limits are untouched, and no running lease was revoked.\<close>

theorem ai_limit_stays_in_bounds:
  assumes "limit_lookup AI db = Some n" and "0 \<le> ai_minimum c" "ai_minimum c \<le> n" "n \<le> ai_ceiling c"
    and "0 < ai_throttle_multiplier c" "ai_throttle_multiplier c < 1"
    and "fold ai_step es (c, db) = (c', db')"
  shows "(\<exists>n'. limit_lookup AI db' = Some n' \<and> ai_minimum c' \<le> n' \<and> n' \<le> ai_ceiling c')
    \<and> (\<forall>r. r \<noteq> AI \<longrightarrow> limit_lookup r db' = limit_lookup r db) \<and> db_leases db' = db_leases db"
proof -
  have low: "ai_lower c = ai_minimum c" using assms(5,6) by (simp add: ai_lower_def multiplier_ok_def)
  have mult: "ai_throttle_multiplier (fst (fold ai_step es s)) = ai_throttle_multiplier (fst s)" for s
  proof (induction es arbitrary: s)
    case (Cons e es)
    have "ai_throttle_multiplier (fst (ai_step e s)) = ai_throttle_multiplier (fst s)"
      by (cases s; cases e) (auto simp: set_bounds_run split: prod.splits)
    with Cons show ?case by simp
  qed simp
  have "ai_lower c' = ai_minimum c'"
    using mult [of "(c, db)"] assms(5-7) by (simp add: ai_lower_def multiplier_ok_def)
  with ai_pool.bounded_run [OF assms(1), of c es c' db'] low assms show ?thesis by auto
qed

definition ex_ai :: ai_controller where
  "ex_ai = \<lparr>ai_minimum = 1, ai_ceiling = 8, ai_mode = ''adaptive'', ai_budget_policy = ''balanced'',
     ai_success_window = 32, ai_increase_after_successes = Some 2, ai_increase_cooldown_seconds = 0,
     ai_throttle_multiplier = 1/2\<rparr>"

definition ex_ai_db :: controller_db where
  "ex_ai_db = fst (ai_init ex_ai 5 0 empty_db)"

lemma ex_ai_db_limit [simp]: "limit_lookup AI ex_ai_db = Some 5"
  by code_simp

theorem ai_limit_stays_in_bounds_witness:
  "\<exists>c' db' n'. fold ai_step [AI_Throttle No_Retry_After id 10, AI_Set_Bounds 3 4 11, AI_Transient_Failure id 12]
      (ex_ai, ex_ai_db) = (c', db') \<and> limit_lookup AI db' = Some n' \<and> ai_minimum c' \<le> n' \<and> n' \<le> ai_ceiling c'"
proof -
  obtain c' db' where run: "fold ai_step [AI_Throttle No_Retry_After id 10, AI_Set_Bounds 3 4 11, AI_Transient_Failure id 12]
      (ex_ai, ex_ai_db) = (c', db')" by fastforce
  from ai_limit_stays_in_bounds [OF ex_ai_db_limit _ _ _ _ _ run] run show ?thesis by (auto simp: ex_ai_def)
qed



lemma throttle_decreases:
  assumes "multiplier_ok c" and "0 \<le> ai_minimum c" and "ai_minimum c \<le> n"
  shows "nat (max (ai_minimum c) (py_trunc (of_int n * ai_throttle_multiplier c)) - ai_minimum c) \<le> nat (n - ai_minimum c) - 1"
proof (cases "n = 0")
  case True
  with assms(2,3) show ?thesis by (simp add: py_trunc_def)
next
  case False
  with assms have "of_int n * ai_throttle_multiplier c < of_int n" "0 \<le> of_int n * ai_throttle_multiplier c"
    by (auto simp: multiplier_ok_def)
  then have "py_trunc (of_int n * ai_throttle_multiplier c) \<le> n - 1" by (simp add: py_trunc_def) linarith
  with assms(3) show ?thesis by auto
qed

lemma throttles_converge:
  assumes "multiplier_ok c" and "0 \<le> ai_minimum c" and "\<not> ai_is_fixed c"
    and "limit_lookup AI db = Some n" and "ai_minimum c \<le> n"
    and "\<forall>e\<in>set es. \<exists>retry jitter now. e = AI_Throttle retry jitter now" and "nat (n - ai_minimum c) \<le> length es"
  shows "limit_lookup AI (snd (fold ai_step es (c, db))) = Some (ai_minimum c)"
  using assms(4-7)
proof (induction es arbitrary: db n)
  case Nil
  then show ?case by auto
next
  case (Cons e es)
  let ?n = "max (ai_minimum c) (py_trunc (of_int n * ai_throttle_multiplier c))"
  obtain retry jitter now where e: "e = AI_Throttle retry jitter now" using Cons.prems(3) by auto
  have "limit_lookup AI (fst (ai_record_throttle c retry jitter now db)) = Some ?n"
    by (rule throttle_limit [OF Cons.prems(1) assms(2,3)])
  moreover have "nat (?n - ai_minimum c) \<le> length es"
    using throttle_decreases [OF assms(1,2) Cons.prems(2)] Cons.prems(4) by auto
  ultimately have "limit_lookup AI (snd (fold ai_step es (c, fst (ai_record_throttle c retry jitter now db)))) = Some (ai_minimum c)"
    using Cons.IH [of "fst (ai_record_throttle c retry jitter now db)" ?n] Cons.prems(3) by simp
  then show ?case by (simp add: e)
qed

text \<open>Multiplicative decrease converges: under a run of throttles longer than the distance to the
  minimum an adaptive controller ends exactly at its minimum, never below it.\<close>

theorem throttles_reach_minimum:
  assumes "0 < ai_throttle_multiplier c" "ai_throttle_multiplier c < 1" and "0 \<le> ai_minimum c" and "\<not> ai_is_fixed c"
    and "limit_lookup AI db = Some n" and "ai_minimum c \<le> n"
    and "\<forall>e\<in>set es. \<exists>retry jitter now. e = AI_Throttle retry jitter now" and "n - ai_minimum c \<le> int (length es)"
  shows "limit_lookup AI (snd (fold ai_step es (c, db))) = Some (ai_minimum c)"
  using throttles_converge [of c db n es] assms by (simp add: multiplier_ok_def)

theorem throttles_reach_minimum_witness:
  "limit_lookup AI (snd (fold ai_step (map (\<lambda>t. AI_Throttle No_Retry_After id t) [1, 2, 3, 4]) (ex_ai, ex_ai_db))) = Some 1"
proof -
  have "\<not> ai_is_fixed ex_ai" by code_simp
  from throttles_reach_minimum [OF _ _ _ this ex_ai_db_limit, of "map (\<lambda>t. AI_Throttle No_Retry_After id t) [1, 2, 3, 4]"]
  show ?thesis by (simp add: ex_ai_def)
qed

lemma successes_grow:
  assumes "\<not> ai_is_fixed c" and "n < ai_ceiling c" and "0 \<le> n"
    and "limit_lookup AI db = Some n" and "get_default (ad_backoff_until (ai_state db)) 0 \<le> 0"
    and "ad_last_increase_at (ai_state db) = None" and "get_default (ad_stable_successes (ai_state db)) 0 = k"
    and "\<forall>(latency, now)\<in>set obs. 0 \<le> latency \<and> 0 \<le> now"
    and "k < ai_increase_threshold c" and "k + int (length obs) \<le> ai_increase_threshold c"
  shows "limit_lookup AI (snd (fold ai_step (map (\<lambda>(latency, now). AI_Success latency True now) obs) (c, db)))
    = Some (if k + int (length obs) = ai_increase_threshold c then n + 1 else n)"
  using assms(4-10)
proof (induction obs arbitrary: db k)
  case Nil
  then show ?case by simp
next
  case (Cons o1 obs)
  obtain latency now where o1: "o1 = (latency, now)" by (cases o1)
  let ?s = "ai_state db" and ?db1 = "\<lambda>due. ai_update_state (success_update c latency due now) now db"
  have pre: "0 \<le> latency" "0 \<le> now" "get_default (ad_backoff_until ?s) 0 \<le> now"
    using Cons.prems(2,5) by (auto simp: o1)
  have due: "success_grows c True now db n \<longleftrightarrow> k + 1 = ai_increase_threshold c"
    using assms(1,2) pre Cons.prems(3,4,6) by (auto simp: success_grows_def increase_eligible_def cooldown_ready_def)
  note run = record_success_run [OF Cons.prems(1) pre(1) assms(3), of c True now, unfolded due Let_def]
  show ?case
  proof (cases "k + 1 = ai_increase_threshold c")
    case True
    with Cons.prems(7) have "obs = []" by (cases obs) auto
    with True run show ?thesis by (simp add: o1 limit_lookup_write_limit)
  next
    case False
    have "limit_lookup AI (snd (fold ai_step (map (\<lambda>(latency, now). AI_Success latency True now) obs) (c, ?db1 False)))
      = Some (if k + 1 + int (length obs) = ai_increase_threshold c then n + 1 else n)"
      by (rule Cons.IH) (use Cons.prems False pre in \<open>auto simp: success_update_def Let_def\<close>)
    with False run show ?thesis by (simp add: o1 algebra_simps)
  qed
qed

text \<open>Additive increase: from a cleared history, the limit of an adaptive controller below its ceiling
  grows by exactly one, and only at the success that completes the threshold of queued successes.\<close>

theorem successes_grow_limit_by_one:
  assumes "\<not> ai_is_fixed c" and "limit_lookup AI db = Some n" and "0 \<le> n" and "n < ai_ceiling c"
    and "1 \<le> ai_increase_threshold c" and "int (length obs) \<le> ai_increase_threshold c"
    and "\<forall>(latency, now)\<in>set obs. 0 \<le> latency \<and> 0 \<le> now"
  shows "limit_lookup AI (snd (fold ai_step (AI_Reset_History t # map (\<lambda>(latency, now). AI_Success latency True now) obs) (c, db)))
    = Some (if int (length obs) = ai_increase_threshold c then n + 1 else n)"
  using successes_grow [OF assms(1,4,3), of "ai_reset_adaptive_history t db" 0 obs] assms
  by (simp add: initial_adaptive_state_def)

theorem successes_grow_limit_by_one_witness:
  "limit_lookup AI (snd (fold ai_step (AI_Reset_History 5 # map (\<lambda>(latency, now). AI_Success latency True now) [(1, 6), (2, 7)])
     (ex_ai, ex_ai_db))) = Some 6"
proof -
  have "\<not> ai_is_fixed ex_ai" by code_simp
  from successes_grow_limit_by_one [OF this ex_ai_db_limit, of "[(1, 6), (2, 7)]" 5]
  show ?thesis by (simp add: ex_ai_def ai_increase_threshold_def)
qed

end
