(* ===== verification/Pool_Controllers.thy ===== *)
theory Pool_Controllers
  imports Adaptive_Limits
begin

text \<open>
  \<^verbatim>\<open>concurrency/lean.py\<close> and \<^verbatim>\<open>concurrency/build.py\<close>: the pressure-aware Lean and build pools. Both classes
  carry the same resize and hysteresis code over the same fields, so it is written once over the record
  \<open>pool\<close>; the build pool adds its hard ceiling. The fields of a controller are process-local, the
  observed pressure is shared through the store.
\<close>

section \<open>Resize with hysteresis\<close>

record pool =
  p_minimum :: int
  p_maximum :: int
  p_mode :: string
  p_resize_interval_seconds :: time
  p_hysteresis_samples :: int
  p_last_resize_at :: "time option"
  p_grow_samples :: int
  p_shrink_samples :: int
  p_pressure :: string
  p_paused :: bool

type_synonym 'x pool_state = "'x pool_scheme \<times> controller_db"

definition pool_is_fixed :: "'x pool_scheme \<Rightarrow> bool" where
  "pool_is_fixed c = fixed_mode (p_mode c)"

definition pool_resize_allowed :: "'x pool_scheme \<Rightarrow> time \<Rightarrow> bool" where
  "pool_resize_allowed c now = (case p_last_resize_at c of
     None \<Rightarrow> True | Some t \<Rightarrow> p_resize_interval_seconds c \<le> now - t)"

definition pool_limit :: "resource_kind \<Rightarrow> ('x pool_state, int) op" where
  "pool_limit r s = (s, store_limit r (snd s))"

definition pool_resize :: "resource_kind \<Rightarrow> int \<Rightarrow> time \<Rightarrow> ('x pool_state, int) op" where
  "pool_resize r limit now s =
     (let c = fst s; db = snd s; bounded = max (p_minimum c) (min (p_maximum c) limit);
          settled = (\<lambda>c. c\<lparr>p_grow_samples := 0, p_shrink_samples := 0\<rparr>)
      in case store_limit r db of
           Inl e \<Rightarrow> (s, Inl e)
         | Inr current \<Rightarrow>
             if bounded \<noteq> current
             then (case controller_set_limit r bounded now db of
                     (db', Inl e) \<Rightarrow> ((c, db'), Inl e)
                   | (db', Inr _) \<Rightarrow> pool_limit r (settled (c\<lparr>p_last_resize_at := Some now\<rparr>), db'))
             else pool_limit r (settled c, db))"

text \<open>The tail of \<open>observe\<close>: count the sample, and resize by one once enough samples agree and the last
  resize is old enough.\<close>

definition pool_hysteresis :: "resource_kind \<Rightarrow> bool \<Rightarrow> bool \<Rightarrow> time \<Rightarrow> ('x pool_state, int) op" where
  "pool_hysteresis r shrink grow now s =
     (let c = fst s; db = snd s
      in if shrink then
           let c1 = c\<lparr>p_shrink_samples := p_shrink_samples c + 1, p_grow_samples := 0\<rparr>
           in if p_hysteresis_samples c1 \<le> p_shrink_samples c1 \<and> pool_resize_allowed c1 now
              then bindS (pool_limit r) (\<lambda>n. pool_resize r (n - 1) now) (c1, db)
              else pool_limit r (c1, db)
         else if grow then
           let c1 = c\<lparr>p_grow_samples := p_grow_samples c + 1, p_shrink_samples := 0\<rparr>
           in if p_hysteresis_samples c1 \<le> p_grow_samples c1 \<and> pool_resize_allowed c1 now
              then bindS (pool_limit r) (\<lambda>n. pool_resize r (n + 1) now) (c1, db)
              else pool_limit r (c1, db)
         else pool_limit r (c\<lparr>p_grow_samples := 0, p_shrink_samples := 0\<rparr>, db))"

definition pool_restore_adaptive :: "'x pool_scheme \<Rightarrow> 'x pool_scheme" where
  "pool_restore_adaptive c = c\<lparr>p_mode := ''adaptive''\<rparr>"

definition pool_reset_history :: "resource_kind \<Rightarrow> time \<Rightarrow> 'x pool_state \<Rightarrow> 'x pool_state" where
  "pool_reset_history r now s =
     ((fst s)\<lparr>p_last_resize_at := None, p_grow_samples := 0, p_shrink_samples := 0, p_pressure := ''green'',
        p_paused := False\<rparr>,
      store_set_state r ''pressure'' (Pressure \<lparr>ps_state = ''green'', ps_paused = False, ps_observed_at = now\<rparr>) now (snd s))"

definition shared_pressure :: "resource_kind \<Rightarrow> controller_db \<Rightarrow> pressure_state option" where
  "shared_pressure r db = pressure_payload (store_get_state r ''pressure'' db)"

text \<open>\<open>str(shared.get("state"))\<close> while the observation is at most 20 seconds old, else the local one. With
  nothing stored the age is that of \<open>observed_at = 0.0\<close> and the text is \<open>"None"\<close>.\<close>

definition effective_pressure :: "resource_kind \<Rightarrow> time \<Rightarrow> 'x pool_scheme \<Rightarrow> controller_db \<Rightarrow> string" where
  "effective_pressure r now c db = (case shared_pressure r db of
     None \<Rightarrow> if now \<le> 20 then ''None'' else p_pressure c
   | Some p \<Rightarrow> if now - ps_observed_at p \<le> 20 then ps_state p else p_pressure c)"

definition publish_pressure :: "resource_kind \<Rightarrow> string \<Rightarrow> bool \<Rightarrow> time \<Rightarrow> 'x pool_state \<Rightarrow> 'x pool_state" where
  "publish_pressure r state paused now s =
     ((fst s)\<lparr>p_pressure := state, p_paused := paused\<rparr>,
      store_set_state r ''pressure'' (Pressure \<lparr>ps_state = state, ps_paused = paused, ps_observed_at = now\<rparr>) now (snd s))"

section \<open>The Lean pool\<close>

definition lean_init :: "pool \<Rightarrow> int \<Rightarrow> time \<Rightarrow> (controller_db, pool) op" where
  "lean_init c initial now =
     (if \<not> (0 \<le> p_minimum c \<and> p_minimum c \<le> initial \<and> initial \<le> p_maximum c)
      then raiseS (ValueError ''invalid Lean concurrency bounds'')
      else if p_resize_interval_seconds c < 0 \<or> p_hysteresis_samples c < 1
      then raiseS (ValueError ''invalid Lean adaptation timing'')
      else bindS (controller_init LEAN initial now) (\<lambda>_. returnS (c\<lparr>p_last_resize_at := None,
             p_grow_samples := 0, p_shrink_samples := 0, p_pressure := ''green'', p_paused := False\<rparr>)))"

definition lean_request :: "string \<Rightarrow> int \<Rightarrow> time \<Rightarrow> string option \<Rightarrow> admission_request result" where
  "lean_request owner priority ttl_seconds request_id = make_request LEAN priority owner ttl_seconds request_id"

definition calibration_active :: "time \<Rightarrow> controller_db \<Rightarrow> bool" where
  "calibration_active now db = (case calibration_payload (store_get_state LEAN ''calibration'' db) of
     None \<Rightarrow> False | Some c \<Rightarrow> cal_paused c \<and> cal_expires_at c > now)"

definition calibration_owner :: "controller_db \<Rightarrow> string option" where
  "calibration_owner db = map_option cal_owner (calibration_payload (store_get_state LEAN ''calibration'' db))"

definition lean_try_acquire ::
    "pool \<Rightarrow> admission_request \<Rightarrow> string \<Rightarrow> time \<Rightarrow> (controller_db, admission_lease option) op" where
  "lean_try_acquire c request lease_id now db =
     (let shared_pause = (case shared_pressure LEAN db of
            None \<Rightarrow> False | Some p \<Rightarrow> ps_paused p \<and> now - ps_observed_at p \<le> 20)
      in if calibration_active now db \<and> calibration_owner db \<noteq> Some (ar_owner request) then (db, Inr None)
         else if p_paused c \<or> shared_pause then (db, Inr None)
         else controller_try_acquire LEAN request lease_id now db)"

definition lean_observe :: "string \<Rightarrow> int \<Rightarrow> time \<Rightarrow> bool \<Rightarrow> time \<Rightarrow> (pool \<times> controller_db, int) op" where
  "lean_observe pressure queue_depth cpu_percent throughput_improved now s =
     (if queue_depth < 0 \<or> \<not> (0 \<le> cpu_percent \<and> cpu_percent \<le> 100)
      then (s, Inl (ValueError ''invalid Lean telemetry''))
      else let state = pressure_name pressure;
               s1 = publish_pressure LEAN state (state \<in> {''red'', ''emergency''}) now s
           in if pool_is_fixed (fst s1) then pool_limit LEAN s1
              else if state = ''emergency'' then pool_resize LEAN (p_minimum (fst s1)) now s1
              else pool_hysteresis LEAN
                     (state = ''red'' \<or> (cpu_percent > 92 \<and> \<not> throughput_improved))
                     (state = ''green'' \<and> queue_depth > 0 \<and> cpu_percent < 75) now s1)"

definition lean_apply_manual_limit :: "int \<Rightarrow> time \<Rightarrow> (pool \<times> controller_db, int) op" where
  "lean_apply_manual_limit limit now s =
     (if \<not> (p_minimum (fst s) \<le> limit \<and> limit \<le> p_maximum (fst s))
      then (s, Inl (ValueError ''manual Lean limit is outside configured bounds''))
      else case controller_set_limit LEAN limit now (snd s) of
             (db', r) \<Rightarrow> (((fst s)\<lparr>p_mode := ''fixed''\<rparr>, db'), r))"

record pool_status =
  st_current_limit :: int
  st_minimum :: int
  st_maximum :: int
  st_active :: nat
  st_queued :: nat
  st_pressure :: string
  st_admission_paused :: bool
  st_last_resize_at :: "time option"

definition lean_status :: "pool \<Rightarrow> time \<Rightarrow> (controller_db, pool_status) op" where
  "lean_status c now = bindS (controller_snapshot LEAN now) (\<lambda>snapshot db.
     let pressure = effective_pressure LEAN now c db
     in (db, Inr \<lparr>st_current_limit = as_limit snapshot, st_minimum = p_minimum c, st_maximum = p_maximum c,
           st_active = as_active snapshot, st_queued = as_queued snapshot, st_pressure = pressure,
           st_admission_paused = (pressure \<in> {''red'', ''emergency''}), st_last_resize_at = p_last_resize_at c\<rparr>))"

section \<open>Exclusive calibration\<close>

definition set_calibration :: "bool \<Rightarrow> string \<Rightarrow> time \<Rightarrow> time \<Rightarrow> controller_db \<Rightarrow> controller_db" where
  "set_calibration paused owner expires_at now db =
     store_set_state LEAN ''calibration'' (Calibration \<lparr>cal_paused = paused, cal_owner = owner, cal_expires_at = expires_at\<rparr>) now db"

definition require_idle :: "string \<Rightarrow> time \<Rightarrow> (controller_db, unit) op" where
  "require_idle message now = bindS (controller_snapshot LEAN now) (\<lambda>snapshot.
     if as_active snapshot \<noteq> 0 \<or> as_queued snapshot \<noteq> 0 then raiseS (RuntimeError message) else returnS ())"

text \<open>
  The body of \<open>exclusive_calibration_lease\<close> between taking and dropping the file lock. \<open>others\<close> is what
  the other processes do between the pause and the second look at the queue, \<open>polls\<close> the polls of the
  lease's \<open>acquire\<close> and \<open>body\<close> what happens inside the \<open>with\<close> block; the \<open>finally\<close> clause runs on
  every way out. A call that is still polling has the result \<open>None\<close>.
\<close>

definition lean_calibration_lease ::
    "pool \<Rightarrow> string \<Rightarrow> time \<Rightarrow> time \<Rightarrow> bool \<Rightarrow> time \<Rightarrow> time \<Rightarrow> (controller_db \<Rightarrow> controller_db)
     \<Rightarrow> controller_payload poll list \<Rightarrow> (admission_lease \<Rightarrow> controller_db \<Rightarrow> controller_db)
     \<Rightarrow> (controller_db, admission_lease option) op" where
  "lean_calibration_lease c owner timeout ttl_seconds lock_free now monotonic others polls body db =
     (if py_strip owner = [] \<or> timeout \<le> 0 \<or> ttl_seconds \<le> 0
      then (db, Inl (ValueError ''Lean calibration lease bounds must be positive''))
      else if \<not> lock_free then (db, Inl (RuntimeError ''Another Lean calibration is already active''))
      else
        let entered = bindS (require_idle ''Lean calibration requires an idle Lean admission queue'' now) (\<lambda>_.
              bindS (modifyS (\<lambda>db. (others (set_calibration True owner (now + ttl_seconds) now db), ()))) (\<lambda>_.
              bindS (require_idle ''Lean work arrived while calibration was entering; retry when idle'' now) (\<lambda>_.
              bindS (readS (\<lambda>_. lean_request owner (-100) ttl_seconds (Some owner))) (\<lambda>request.
              acquire (lean_try_acquire c) request (deadline_for (Some timeout) monotonic) polls)))) db
        in case entered of
             (db', Inl e) \<Rightarrow> (set_calibration False owner 0 now db', Inl e)
           | (db', Inr None) \<Rightarrow> (db', Inr None)
           | (db', Inr (Some lease)) \<Rightarrow>
               (case controller_release LEAN lease (body lease db') of
                  (db'', _) \<Rightarrow> (set_calibration False owner 0 now db'', Inr (Some lease))))"

section \<open>The build pool\<close>

record build_pool = pool +
  p_hard_maximum :: int

definition build_init :: "build_pool \<Rightarrow> int \<Rightarrow> int option \<Rightarrow> time \<Rightarrow> (controller_db, build_pool) op" where
  "build_init c initial maximum now =
     (let c1 = c\<lparr>p_maximum := (case maximum of None \<Rightarrow> p_hard_maximum c | Some m \<Rightarrow> m)\<rparr>
      in if \<not> (0 \<le> p_minimum c1 \<and> p_minimum c1 \<le> initial \<and> initial \<le> p_maximum c1 \<and> p_maximum c1 \<le> p_hard_maximum c1)
         then raiseS (ValueError ''invalid build concurrency bounds'')
         else if p_resize_interval_seconds c1 < 0 \<or> p_hysteresis_samples c1 < 1
         then raiseS (ValueError ''invalid build adaptation timing'')
         else bindS (controller_init BUILD initial now) (\<lambda>_. returnS (c1\<lparr>p_last_resize_at := None,
                p_grow_samples := 0, p_shrink_samples := 0, p_pressure := ''green'', p_paused := False\<rparr>)))"

definition build_request :: "string \<Rightarrow> bool \<Rightarrow> time \<Rightarrow> string option \<Rightarrow> admission_request result" where
  "build_request owner full_build ttl_seconds request_id =
     make_request BUILD (if full_build then 20 else 10) owner ttl_seconds request_id"

text \<open>Under yellow pressure the snapshot and the attempt run inside the file lock.\<close>

definition build_try_acquire ::
    "build_pool \<Rightarrow> admission_request \<Rightarrow> string \<Rightarrow> time \<Rightarrow> (controller_db, admission_lease option) op" where
  "build_try_acquire c request lease_id now db =
     (let state = effective_pressure BUILD now c db
      in if state \<in> {''red'', ''emergency''} then (db, Inr None)
         else if state = ''yellow'' \<and> ar_priority request \<ge> 20
         then bindS (controller_snapshot BUILD now) (\<lambda>snapshot.
                if as_active snapshot \<ge> 1 then returnS None
                else controller_try_acquire BUILD request lease_id now) db
         else controller_try_acquire BUILD request lease_id now db)"

definition build_observe :: "string \<Rightarrow> int \<Rightarrow> bool \<Rightarrow> bool \<Rightarrow> time \<Rightarrow> (build_pool \<times> controller_db, int) op" where
  "build_observe pressure queue_depth io_pressure throughput_improved now s =
     (if queue_depth < 0 then (s, Inl (ValueError ''build queue depth must not be negative''))
      else let state = pressure_name pressure;
               s1 = publish_pressure BUILD state (state \<in> {''yellow'', ''red'', ''emergency''}) now s
           in if pool_is_fixed (fst s1) then pool_limit BUILD s1
              else if state = ''emergency'' then pool_resize BUILD (p_minimum (fst s1)) now s1
              else pool_hysteresis BUILD
                     (state = ''red'' \<or> io_pressure)
                     (state = ''green'' \<and> \<not> io_pressure \<and> queue_depth > 0 \<and> throughput_improved) now s1)"

definition build_apply_manual_limit :: "int \<Rightarrow> bool \<Rightarrow> time \<Rightarrow> (build_pool \<times> controller_db, int) op" where
  "build_apply_manual_limit limit allow_above_hard_maximum now s =
     (let c = fst s
      in if limit < p_minimum c then (s, Inl (ValueError ''manual build limit is below the configured minimum''))
         else if limit > p_hard_maximum c \<and> \<not> allow_above_hard_maximum
         then (s, Inl (ValueError ''manual build limit exceeds the hard safety ceiling''))
         else if \<not> (allow_above_hard_maximum \<and> limit > p_hard_maximum c) \<and> limit > p_maximum c
         then (s, Inl (ValueError ''manual build limit is outside configured bounds''))
         else let c1 = (if allow_above_hard_maximum \<and> limit > p_hard_maximum c
                        then c\<lparr>p_hard_maximum := limit, p_maximum := limit\<rparr> else c)
              in case controller_set_limit BUILD limit now (snd s) of
                   (db', r) \<Rightarrow> ((c1\<lparr>p_mode := ''fixed''\<rparr>, db'), r))"

record build_status_record = pool_status +
  st_hard_maximum :: int

definition build_status :: "build_pool \<Rightarrow> time \<Rightarrow> (controller_db, build_status_record) op" where
  "build_status c now = bindS (controller_snapshot BUILD now) (\<lambda>snapshot db.
     let pressure = effective_pressure BUILD now c db
     in (db, Inr \<lparr>st_current_limit = as_limit snapshot, st_minimum = p_minimum c, st_maximum = p_maximum c,
           st_active = as_active snapshot, st_queued = as_queued snapshot, st_pressure = pressure,
           st_admission_paused = (pressure \<in> {''red'', ''emergency''} \<or> (pressure = ''yellow'' \<and> as_active snapshot \<ge> 1)),
           st_last_resize_at = p_last_resize_at c, st_hard_maximum = p_hard_maximum c\<rparr>))"

section \<open>What a resize does\<close>

text \<open>The bounds and the database outside the pool's own limit and pressure are left alone.\<close>

definition pool_frame :: "resource_kind \<Rightarrow> 'x pool_state \<Rightarrow> 'x pool_state \<Rightarrow> bool" where
  "pool_frame r s s' \<longleftrightarrow> p_minimum (fst s') = p_minimum (fst s) \<and> p_maximum (fst s') = p_maximum (fst s)
     \<and> db_leases (snd s') = db_leases (snd s) \<and> (\<forall>r'. r' \<noteq> r \<longrightarrow> limit_lookup r' (snd s') = limit_lookup r' (snd s))"

lemma pool_resize_run:
  assumes "limit_lookup r db = Some n" and "0 \<le> p_minimum c"
  shows "pool_resize r limit now (c, db) =
    (let b = max (p_minimum c) (min (p_maximum c) limit)
     in if b \<noteq> n then ((c\<lparr>p_last_resize_at := Some now, p_grow_samples := 0, p_shrink_samples := 0\<rparr>, write_limit r b now db), Inr b)
        else ((c\<lparr>p_grow_samples := 0, p_shrink_samples := 0\<rparr>, db), Inr n))"
proof -
  have "0 \<le> max (p_minimum c) (min (p_maximum c) limit)" using assms(2) by simp
  then show ?thesis
    using assms(1) by (simp add: pool_resize_def Let_def store_limit_def set_limit_run pool_limit_def limit_lookup_write_limit)
qed

lemma pool_resize_no_limit: "limit_lookup r db = None \<Longrightarrow> fst (pool_resize r limit now (c, db)) = (c, db)"
  by (simp add: pool_resize_def store_limit_def Let_def)

lemma pool_resize_frame: "pool_frame r s (fst (pool_resize r limit now s))"
  by (auto simp: pool_frame_def pool_resize_def Let_def store_limit_def pool_limit_def controller_set_limit_def
      store_set_limit_def txn_def limit_lookup_write_limit split: option.splits)

lemma pool_limit_state [simp]: "fst (pool_limit r s) = s"
  by (simp add: pool_limit_def)

lemma pool_frame_refl [simp]: "pool_frame r s s"
  by (simp add: pool_frame_def)

lemma pool_frame_trans: "pool_frame r s t \<Longrightarrow> pool_frame r t u \<Longrightarrow> pool_frame r s u"
  by (simp add: pool_frame_def)

lemma publish_pressure_frame [simp]: "pool_frame r s (publish_pressure r state paused now s)"
  by (simp add: pool_frame_def publish_pressure_def)

lemma publish_pressure_simps [simp]:
  "limit_lookup r' (snd (publish_pressure r state paused now s)) = limit_lookup r' (snd s)"
  "db_leases (snd (publish_pressure r state paused now s)) = db_leases (snd s)"
  "p_minimum (fst (publish_pressure r state paused now s)) = p_minimum (fst s)"
  "p_maximum (fst (publish_pressure r state paused now s)) = p_maximum (fst s)"
  "p_mode (fst (publish_pressure r state paused now s)) = p_mode (fst s)"
  "p_last_resize_at (fst (publish_pressure r state paused now s)) = p_last_resize_at (fst s)"
  "p_resize_interval_seconds (fst (publish_pressure r state paused now s)) = p_resize_interval_seconds (fst s)"
  by (simp_all add: publish_pressure_def)

text \<open>The three ways a sample can end, for any controller with this code.\<close>

lemma pool_hysteresis_cases:
  obtains (counted) c' where "pool_hysteresis r shrink grow now s = pool_limit r (c', snd s)"
      "pool_frame r s (c', snd s)" "p_last_resize_at c' = p_last_resize_at (fst s)"
  | (resized) c' d where "pool_hysteresis r shrink grow now s = bindS (pool_limit r) (\<lambda>n. pool_resize r (n + d) now) (c', snd s)"
      "pool_frame r s (c', snd s)" "pool_resize_allowed (fst s) now" "d = 1 \<or> d = - 1"
      "p_last_resize_at c' = p_last_resize_at (fst s)" "d = 1 \<longrightarrow> grow \<and> \<not> shrink" "d = - 1 \<longrightarrow> shrink"
proof -
  let ?c = "fst s"
  let ?shrunk = "?c\<lparr>p_shrink_samples := p_shrink_samples ?c + 1, p_grow_samples := 0\<rparr>"
  let ?grown = "?c\<lparr>p_grow_samples := p_grow_samples ?c + 1, p_shrink_samples := 0\<rparr>"
  have allowed: "pool_resize_allowed ?shrunk now = pool_resize_allowed ?c now"
    "pool_resize_allowed ?grown now = pool_resize_allowed ?c now" by (simp_all add: pool_resize_allowed_def split: option.splits)
  consider "shrink" "p_hysteresis_samples ?c \<le> p_shrink_samples ?c + 1 \<and> pool_resize_allowed ?c now"
    | "shrink" "\<not> (p_hysteresis_samples ?c \<le> p_shrink_samples ?c + 1 \<and> pool_resize_allowed ?c now)"
    | "\<not> shrink" "grow" "p_hysteresis_samples ?c \<le> p_grow_samples ?c + 1 \<and> pool_resize_allowed ?c now"
    | "\<not> shrink" "grow" "\<not> (p_hysteresis_samples ?c \<le> p_grow_samples ?c + 1 \<and> pool_resize_allowed ?c now)"
    | "\<not> shrink" "\<not> grow" by blast
  then show ?thesis
  proof cases
    case 1
    then show ?thesis
      by (intro resized [of "- 1" ?shrunk]) (simp_all add: pool_hysteresis_def Let_def allowed pool_frame_def)
  next
    case 2
    then show ?thesis
      by (intro counted [of ?shrunk]) (auto simp: pool_hysteresis_def Let_def allowed pool_frame_def)
  next
    case 3
    then show ?thesis
      by (intro resized [of 1 ?grown]) (simp_all add: pool_hysteresis_def Let_def allowed pool_frame_def)
  next
    case 4
    then show ?thesis
      by (intro counted [of ?grown]) (auto simp: pool_hysteresis_def Let_def allowed pool_frame_def)
  next
    case 5
    then show ?thesis
      by (intro counted [of "?c\<lparr>p_grow_samples := 0, p_shrink_samples := 0\<rparr>"])
         (simp_all add: pool_hysteresis_def Let_def pool_frame_def)
  qed
qed

lemma pool_hysteresis_frame: "pool_frame r s (fst (pool_hysteresis r shrink grow now s))"
proof (cases rule: pool_hysteresis_cases [of r shrink grow now s])
  case (resized c' d)
  have "pool_frame r (c', snd s) (fst (bindS (pool_limit r) (\<lambda>n. pool_resize r (n + d) now) (c', snd s)))"
    using pool_resize_frame [of r "(c', snd s)"]
    by (auto simp: bindS_def pool_limit_def split: prod.splits sum.splits)
  with resized show ?thesis by (metis pool_frame_trans)
qed simp

lemma pool_hysteresis_within:
  assumes "limit_lookup r (snd s) = Some n" "0 \<le> p_minimum (fst s)" "p_minimum (fst s) \<le> n" "n \<le> p_maximum (fst s)"
  shows "\<exists>n'. limit_lookup r (snd (fst (pool_hysteresis r shrink grow now s))) = Some n'
    \<and> p_minimum (fst s) \<le> n' \<and> n' \<le> p_maximum (fst s) \<and> \<bar>n' - n\<bar> \<le> 1
    \<and> (n' \<noteq> n \<longrightarrow> pool_resize_allowed (fst s) now
         \<and> p_last_resize_at (fst (fst (pool_hysteresis r shrink grow now s))) = Some now)
    \<and> (n' < n \<longrightarrow> shrink) \<and> (n < n' \<longrightarrow> grow \<and> \<not> shrink)"
proof (cases rule: pool_hysteresis_cases [of r shrink grow now s])
  case (counted c')
  with assms show ?thesis by auto
next
  case (resized c' d)
  have lim: "pool_limit r (c', snd s) = ((c', snd s), Inr n)"
    using assms(1) by (simp add: pool_limit_def store_limit_Inr)
  have c': "p_minimum c' = p_minimum (fst s)" "p_maximum c' = p_maximum (fst s)"
    using resized(2) by (simp_all add: pool_frame_def)
  have run: "pool_hysteresis r shrink grow now s = pool_resize r (n + d) now (c', snd s)"
    using resized(1) lim by simp
  show ?thesis
    unfolding run using assms resized(3,4,6,7) c'
    by (auto simp: pool_resize_run [OF assms(1)] Let_def limit_lookup_write_limit)
qed

lemma pool_resize_within:
  assumes "limit_lookup r (snd s) = Some n" "0 \<le> p_minimum (fst s)" "p_minimum (fst s) \<le> n" "n \<le> p_maximum (fst s)"
  shows "limit_lookup r (snd (fst (pool_resize r limit now s)))
    = Some (max (p_minimum (fst s)) (min (p_maximum (fst s)) limit))"
  using assms by (cases s) (auto simp: pool_resize_run Let_def limit_lookup_write_limit)

section \<open>The pools as bounded pools\<close>

datatype lean_event =
    Lean_Observe string int time bool time
  | Lean_Manual_Limit int time
  | Lean_Restore_Adaptive
  | Lean_Reset_History time

fun lean_step :: "lean_event \<Rightarrow> pool \<times> controller_db \<Rightarrow> pool \<times> controller_db" where
  "lean_step (Lean_Observe pressure depth cpu improved now) s = fst (lean_observe pressure depth cpu improved now s)"
| "lean_step (Lean_Manual_Limit limit now) s = fst (lean_apply_manual_limit limit now s)"
| "lean_step Lean_Restore_Adaptive s = (pool_restore_adaptive (fst s), snd s)"
| "lean_step (Lean_Reset_History now) s = pool_reset_history LEAN now s"

datatype build_event =
    Build_Observe string int bool bool time
  | Build_Manual_Limit int bool time
  | Build_Restore_Adaptive
  | Build_Reset_History time

fun build_step :: "build_event \<Rightarrow> build_pool \<times> controller_db \<Rightarrow> build_pool \<times> controller_db" where
  "build_step (Build_Observe pressure depth io improved now) s = fst (build_observe pressure depth io improved now s)"
| "build_step (Build_Manual_Limit limit over now) s = fst (build_apply_manual_limit limit over now s)"
| "build_step Build_Restore_Adaptive s = (pool_restore_adaptive (fst s), snd s)"
| "build_step (Build_Reset_History now) s = pool_reset_history BUILD now s"

lemma pool_frame_publish:
  "pool_frame r (publish_pressure r state paused now s) s' \<Longrightarrow> pool_frame r s s'"
  by (erule pool_frame_trans [OF publish_pressure_frame])

lemma lean_observe_frame: "pool_frame LEAN s (fst (lean_observe pressure depth cpu improved now s))"
  by (auto simp: lean_observe_def Let_def intro: pool_frame_publish pool_hysteresis_frame pool_resize_frame)

lemma build_observe_frame: "pool_frame BUILD s (fst (build_observe pressure depth io improved now s))"
  by (auto simp: build_observe_def Let_def intro: pool_frame_publish pool_hysteresis_frame pool_resize_frame)

text \<open>What one observation does to the limit: it stays within the bounds, and outside an emergency it moves
  by at most one, only when the last resize is old enough, down only on a shrink signal and up only on a
  grow signal.\<close>

definition observed_limit ::
    "resource_kind \<Rightarrow> bool \<Rightarrow> bool \<Rightarrow> bool \<Rightarrow> time \<Rightarrow> int \<Rightarrow> 'x pool_state \<Rightarrow> 'x pool_state \<Rightarrow> bool" where
  "observed_limit r emergency shrink grow now n s s' \<longleftrightarrow>
     (\<exists>n'. limit_lookup r (snd s') = Some n' \<and> p_minimum (fst s) \<le> n' \<and> n' \<le> p_maximum (fst s)
       \<and> (n' = n \<or> emergency \<and> n' = p_minimum (fst s)
          \<or> \<bar>n' - n\<bar> = 1 \<and> pool_resize_allowed (fst s) now \<and> p_last_resize_at (fst s') = Some now
            \<and> (n' < n \<longrightarrow> shrink) \<and> (n < n' \<longrightarrow> grow \<and> \<not> shrink)))"

lemma hysteresis_observed:
  assumes "limit_lookup r (snd s) = Some n" "0 \<le> p_minimum (fst s)" "p_minimum (fst s) \<le> n" "n \<le> p_maximum (fst s)"
  shows "observed_limit r em shrink grow now n s
    (fst (pool_hysteresis r shrink grow now (publish_pressure r state paused now s)))"
  using pool_hysteresis_within [of r "publish_pressure r state paused now s" n shrink grow now] assms
  by (auto simp: observed_limit_def pool_resize_allowed_def split: option.splits)

lemma resize_observed:
  assumes "limit_lookup r (snd s) = Some n" "0 \<le> p_minimum (fst s)" "p_minimum (fst s) \<le> n" "n \<le> p_maximum (fst s)"
  shows "observed_limit r True shrink grow now n s
    (fst (pool_resize r (p_minimum (fst s)) now (publish_pressure r state paused now s)))"
  using pool_resize_within [of r "publish_pressure r state paused now s" n "p_minimum (fst s)" now] assms
  by (auto simp: observed_limit_def)

lemma unchanged_observed:
  assumes "limit_lookup r (snd s) = Some n" "p_minimum (fst s) \<le> n" "n \<le> p_maximum (fst s)" "snd s' = snd s \<or> limit_lookup r (snd s') = limit_lookup r (snd s)"
  shows "observed_limit r em shrink grow now n s s'"
  using assms by (auto simp: observed_limit_def)

lemma lean_observe_limit:
  assumes "limit_lookup LEAN (snd s) = Some n" "0 \<le> p_minimum (fst s)" "p_minimum (fst s) \<le> n" "n \<le> p_maximum (fst s)"
  shows "observed_limit LEAN (pressure_name pressure = ''emergency'')
    (pressure_name pressure = ''red'' \<or> cpu > 92 \<and> \<not> improved)
    (pressure_name pressure = ''green'' \<and> depth > 0 \<and> cpu < 75) now n s
    (fst (lean_observe pressure depth cpu improved now s))"
  using resize_observed [OF assms] hysteresis_observed [OF assms] unchanged_observed [OF assms(1,3,4)]
  by (simp add: lean_observe_def Let_def)

lemma build_observe_limit:
  assumes "limit_lookup BUILD (snd s) = Some n" "0 \<le> p_minimum (fst s)" "p_minimum (fst s) \<le> n" "n \<le> p_maximum (fst s)"
  shows "observed_limit BUILD (pressure_name pressure = ''emergency'')
    (pressure_name pressure = ''red'' \<or> io)
    (pressure_name pressure = ''green'' \<and> \<not> io \<and> depth > 0 \<and> improved) now n s
    (fst (build_observe pressure depth io improved now s))"
  using resize_observed [OF assms] hysteresis_observed [OF assms] unchanged_observed [OF assms(1,3,4)]
  by (simp add: build_observe_def Let_def)

lemma lean_step_within:
  assumes "limit_lookup LEAN db = Some n" "p_minimum c \<le> n" "n \<le> p_maximum c" "0 \<le> p_minimum c"
    and step: "lean_step e (c, db) = (c', db')"
  shows "\<exists>n'. limit_lookup LEAN db' = Some n' \<and> p_minimum c' \<le> n' \<and> n' \<le> p_maximum c' \<and> 0 \<le> p_minimum c'"
proof (cases e)
  case (Lean_Observe pressure depth cpu improved now)
  with step assms lean_observe_limit [of "(c, db)" n pressure cpu improved depth now]
    lean_observe_frame [of "(c, db)" pressure depth cpu improved now]
  show ?thesis by (auto simp: observed_limit_def pool_frame_def)
next
  case (Lean_Manual_Limit limit now)
  with step assms show ?thesis
    by (auto simp: lean_apply_manual_limit_def set_limit_run limit_lookup_write_limit split: if_splits)
qed (use step assms in \<open>auto simp: pool_restore_adaptive_def pool_reset_history_def\<close>)

lemma lean_step_frame:
  assumes "lean_step e (c, db) = (c', db')"
  shows "r \<noteq> LEAN \<Longrightarrow> limit_lookup r db' = limit_lookup r db" and "db_leases db' = db_leases db"
proof -
  have "pool_frame LEAN (c, db) (c', db') \<or> (\<exists>limit now. e = Lean_Manual_Limit limit now)"
    using assms
    by (cases e) (auto simp: pool_restore_adaptive_def pool_reset_history_def
        dest!: sym [of "fst _"] intro: lean_observe_frame, auto simp: pool_frame_def)
  then show "r \<noteq> LEAN \<Longrightarrow> limit_lookup r db' = limit_lookup r db" "db_leases db' = db_leases db"
    using assms by (auto simp: pool_frame_def lean_apply_manual_limit_def controller_set_limit_def store_set_limit_def
        txn_def limit_lookup_write_limit split: if_splits)
qed

interpretation lean_pool: bounded_pool LEAN p_minimum p_maximum lean_step
  by unfold_locales (erule (4) lean_step_within, erule (1) lean_step_frame, erule lean_step_frame(2))

lemma build_step_within:
  assumes "limit_lookup BUILD db = Some n" "p_minimum c \<le> n" "n \<le> p_maximum c" "0 \<le> p_minimum c"
    and step: "build_step e (c, db) = (c', db')"
  shows "\<exists>n'. limit_lookup BUILD db' = Some n' \<and> p_minimum c' \<le> n' \<and> n' \<le> p_maximum c' \<and> 0 \<le> p_minimum c'"
proof (cases e)
  case (Build_Observe pressure depth io improved now)
  with step assms build_observe_limit [of "(c, db)" n pressure io depth improved now]
    build_observe_frame [of "(c, db)" pressure depth io improved now]
  show ?thesis by (auto simp: observed_limit_def pool_frame_def)
next
  case (Build_Manual_Limit limit over now)
  with step assms show ?thesis
    by (auto simp: build_apply_manual_limit_def Let_def set_limit_run limit_lookup_write_limit split: if_splits)
qed (use step assms in \<open>auto simp: pool_restore_adaptive_def pool_reset_history_def\<close>)

lemma build_step_frame:
  assumes "build_step e (c, db) = (c', db')"
  shows "r \<noteq> BUILD \<Longrightarrow> limit_lookup r db' = limit_lookup r db" and "db_leases db' = db_leases db"
proof -
  have "pool_frame BUILD (c, db) (c', db') \<or> (\<exists>limit over now. e = Build_Manual_Limit limit over now)"
    using assms
    by (cases e) (auto simp: pool_restore_adaptive_def pool_reset_history_def
        dest!: sym [of "fst _"] intro: build_observe_frame, auto simp: pool_frame_def)
  then show "r \<noteq> BUILD \<Longrightarrow> limit_lookup r db' = limit_lookup r db" "db_leases db' = db_leases db"
    using assms by (auto simp: pool_frame_def build_apply_manual_limit_def Let_def controller_set_limit_def
        store_set_limit_def txn_def limit_lookup_write_limit split: if_splits)
qed

interpretation build_limits: bounded_pool BUILD p_minimum p_maximum build_step
  by unfold_locales (erule (4) build_step_within, erule (1) build_step_frame, erule build_step_frame(2))

section \<open>Properties\<close>

definition ex_pool :: pool where
  "ex_pool = \<lparr>p_minimum = 1, p_maximum = 4, p_mode = ''adaptive'', p_resize_interval_seconds = 45,
     p_hysteresis_samples = 2, p_last_resize_at = None, p_grow_samples = 0, p_shrink_samples = 0,
     p_pressure = ''green'', p_paused = False\<rparr>"

definition ex_build :: build_pool where
  "ex_build = \<lparr>p_minimum = 1, p_maximum = 8, p_mode = ''adaptive'', p_resize_interval_seconds = 60,
     p_hysteresis_samples = 2, p_last_resize_at = None, p_grow_samples = 0, p_shrink_samples = 0,
     p_pressure = ''green'', p_paused = False, p_hard_maximum = 8\<rparr>"

definition ex_pool_db :: controller_db where
  "ex_pool_db = write_limit LEAN 2 0 (write_limit BUILD 2 0 empty_db)"

lemma ex_pool_db_limits [simp]: "limit_lookup LEAN ex_pool_db = Some 2" "limit_lookup BUILD ex_pool_db = Some 2"
  by (simp_all add: ex_pool_db_def limit_lookup_write_limit)

text \<open>C39. The Lean pool adapts gradually: an observation keeps the limit within the bounds; outside an
  emergency it moves it by at most one, only when the last resize is at least the resize interval old,
  never up while the sample asks to shrink. An emergency drops it to the minimum or (fixed mode) leaves it.\<close>

theorem lean_pool_adapts_gradually:
  assumes "limit_lookup LEAN db = Some n" "0 \<le> p_minimum c" "p_minimum c \<le> n" "n \<le> p_maximum c"
    and "lean_observe pressure depth cpu improved now (c, db) = ((c', db'), res)"
  shows "\<exists>n'. limit_lookup LEAN db' = Some n' \<and> p_minimum c \<le> n' \<and> n' \<le> p_maximum c
    \<and> (n' = n \<or> pressure_name pressure = ''emergency'' \<and> n' = p_minimum c
       \<or> \<bar>n' - n\<bar> = 1 \<and> pool_resize_allowed c now \<and> p_last_resize_at c' = Some now
         \<and> (n' < n \<longrightarrow> pressure_name pressure = ''red'' \<or> cpu > 92 \<and> \<not> improved)
         \<and> (n < n' \<longrightarrow> pressure_name pressure = ''green'' \<and> depth > 0 \<and> cpu < 75))"
  using lean_observe_limit [of "(c, db)" n pressure cpu improved depth now] assms
  by (auto simp: observed_limit_def)

theorem lean_pool_adapts_gradually_witness:
  "\<exists>c' db' n'. fst (lean_observe ''Green'' 3 50 True 100 (fst (lean_observe ''green'' 3 50 True 50 (ex_pool, ex_pool_db)))) = (c', db')
     \<and> limit_lookup LEAN db' = Some n' \<and> n' = 3"
proof -
  let ?s = "fst (lean_observe ''green'' 3 50 True 50 (ex_pool, ex_pool_db))"
  obtain c db where s: "?s = (c, db)" by fastforce
  have lim: "limit_lookup LEAN (snd ?s) = Some 2" and b: "p_minimum (fst ?s) = 1" "p_maximum (fst ?s) = 4"
    by code_simp+
  obtain c' db' res where o: "lean_observe ''Green'' 3 50 True 100 (c, db) = ((c', db'), res)" by (metis surj_pair)
  have "limit_lookup LEAN (snd (fst (lean_observe ''Green'' 3 50 True 100 ?s))) = Some 3" by code_simp
  then have three: "limit_lookup LEAN db' = Some 3" using s o by simp
  have "\<exists>n'. limit_lookup LEAN db' = Some n' \<and> n' \<le> p_maximum c"
    using lean_pool_adapts_gradually [OF _ _ _ _ o] lim b s by fastforce
  with three s o show ?thesis by auto
qed

text \<open>The build pool stays between its minimum and its maximum through any sequence of observations,
  manual limits (also those above the hard ceiling, which raise it), mode changes and resets; it never
  touches the AI or Lean limits and revokes no lease.\<close>

theorem build_limit_stays_in_bounds:
  assumes "limit_lookup BUILD db = Some n" "0 \<le> p_minimum c" "p_minimum c \<le> n" "n \<le> p_maximum c"
    and "fold build_step es (c, db) = (c', db')"
  shows "(\<exists>n'. limit_lookup BUILD db' = Some n' \<and> p_minimum c' \<le> n' \<and> n' \<le> p_maximum c')
    \<and> (\<forall>r. r \<noteq> BUILD \<longrightarrow> limit_lookup r db' = limit_lookup r db) \<and> db_leases db' = db_leases db"
  by (rule build_limits.bounded_run [OF assms])

theorem build_limit_stays_in_bounds_witness:
  "\<exists>n'. limit_lookup BUILD (snd (fold build_step
       [Build_Observe ''green'' 4 False True 10, Build_Manual_Limit 12 True 20, Build_Observe ''emergency'' 0 True False 30,
        Build_Restore_Adaptive, Build_Observe ''emergency'' 0 True False 40] (ex_build, ex_pool_db))) = Some n' \<and> n' = 1
     \<and> n' \<le> p_maximum (fst (fold build_step [Build_Manual_Limit 12 True 20] (ex_build, ex_pool_db)))"
proof -
  obtain c' db' where run: "fold build_step [Build_Manual_Limit 12 True 20] (ex_build, ex_pool_db) = (c', db')" by fastforce
  from build_limit_stays_in_bounds [OF ex_pool_db_limits(2) _ _ _ run]
  have "\<exists>n'. limit_lookup BUILD db' = Some n' \<and> n' \<le> p_maximum c'" by (auto simp: ex_build_def)
  moreover have "limit_lookup BUILD (snd (fold build_step [Build_Manual_Limit 12 True 20] (ex_build, ex_pool_db))) = Some 12"
    "limit_lookup BUILD (snd (fold build_step
       [Build_Observe ''green'' 4 False True 10, Build_Manual_Limit 12 True 20, Build_Observe ''emergency'' 0 True False 30,
        Build_Restore_Adaptive, Build_Observe ''emergency'' 0 True False 40] (ex_build, ex_pool_db))) = Some 1"
    by code_simp+
  ultimately show ?thesis using run by auto
qed

text \<open>Calibration is left unpaused: however an exclusive calibration that got the file lock ends
  (refused because Lean work is active or queued, timed out, or completed) no later request is refused
  on its account.\<close>

theorem calibration_always_unpauses:
  assumes "lean_calibration_lease c owner timeout ttl True now monotonic others polls body db = (db', res)"
    and "res \<noteq> Inr None" and "py_strip owner \<noteq> []" "0 < timeout" "0 < ttl"
  shows "\<not> calibration_active t db'"
proof -
  have unpaused: "\<not> calibration_active t (set_calibration False owner 0 now d)" for d
    by (simp add: calibration_active_def set_calibration_def get_state_set_state)
  show ?thesis
    using assms unpaused
    by (auto simp: lean_calibration_lease_def Let_def not_le split: prod.splits sum.splits option.splits)
qed

theorem calibration_always_unpauses_witness:
  "\<exists>db' e. lean_calibration_lease ex_pool ''cal'' 60 3600 True 0 0
       (\<lambda>db. fst (controller_try_acquire LEAN
          \<lparr>ar_resource = LEAN, ar_priority = 10, ar_owner = ''w'', ar_ttl_seconds = 100, ar_request_id = None\<rparr> ''l'' 1 db))
       [] (\<lambda>_ db. db) ex_pool_db = (db', Inl e) \<and> \<not> calibration_active 5 db'"
proof -
  let ?r = "lean_calibration_lease ex_pool ''cal'' 60 3600 True 0 0
       (\<lambda>db. fst (controller_try_acquire LEAN
          \<lparr>ar_resource = LEAN, ar_priority = 10, ar_owner = ''w'', ar_ttl_seconds = 100, ar_request_id = None\<rparr> ''l'' 1 db))
       [] (\<lambda>_ db. db) ex_pool_db"
  have "\<not> isl (snd ?r) \<longrightarrow> False" by code_simp
  then obtain db' e where r: "?r = (db', Inl e)" by (cases ?r; cases "snd ?r") auto
  from calibration_always_unpauses [OF r, of 5] r show ?thesis by (auto simp: py_strip_def py_is_space_def)
qed

text \<open>Calibration is exclusive: while a calibration pause is in force, every attempt of any controller
  in any process for another owner is refused and leaves the database as it is.\<close>

theorem calibration_excludes_others:
  assumes "calibration_payload (store_get_state LEAN ''calibration'' db)
      = Some \<lparr>cal_paused = True, cal_owner = owner, cal_expires_at = expiry\<rparr>"
    and "\<forall>(c, q, lid, now)\<in>set attempts. ar_owner q \<noteq> owner \<and> now < expiry"
  shows "fold (\<lambda>(c, q, lid, now) db. fst (lean_try_acquire c q lid now db)) attempts db = db
    \<and> (\<forall>(c, q, lid, now)\<in>set attempts. snd (lean_try_acquire c q lid now db) = Inr None)"
proof -
  have refused: "lean_try_acquire c q lid now db = (db, Inr None)" if "ar_owner q \<noteq> owner" "now < expiry" for c q lid now
    using assms(1) that by (simp add: lean_try_acquire_def calibration_active_def calibration_owner_def Let_def)
  have "fold (\<lambda>(c, q, lid, now) db. fst (lean_try_acquire c q lid now db)) attempts db = db"
    by (rule fold_invariant_on [where I = "\<lambda>d. d = db"]) (use assms(2) refused in auto)
  with assms(2) refused show ?thesis by auto
qed

theorem calibration_excludes_others_witness:
  "snd (lean_try_acquire ex_pool \<lparr>ar_resource = LEAN, ar_priority = 0, ar_owner = ''w'', ar_ttl_seconds = 9, ar_request_id = None\<rparr>
     ''l'' 99 (set_calibration True ''cal'' 100 0 ex_pool_db)) = Inr None"
proof -
  have "calibration_payload (store_get_state LEAN ''calibration'' (set_calibration True ''cal'' 100 0 ex_pool_db))
      = Some \<lparr>cal_paused = True, cal_owner = ''cal'', cal_expires_at = 100\<rparr>"
    by (simp add: set_calibration_def get_state_set_state)
  from calibration_excludes_others [OF this, of "[(ex_pool, \<lparr>ar_resource = LEAN, ar_priority = 0, ar_owner = ''w'',
      ar_ttl_seconds = 9, ar_request_id = None\<rparr>, ''l'', 99)]"]
  show ?thesis by simp
qed

text \<open>Memory pressure gates builds across processes: while a fresh observation is published, red or
  emergency pressure admits nothing, and yellow pressure admits a full build only when no build lease is
  live, so that it is then the only one.\<close>

theorem pressure_gates_builds:
  assumes "shared_pressure BUILD db = Some p" and "now - ps_observed_at p \<le> 20"
    and "build_try_acquire c q lid now db = (db', Inr (Some l))"
  shows "ps_state p \<noteq> ''red'' \<and> ps_state p \<noteq> ''emergency''
    \<and> (ps_state p = ''yellow'' \<and> 20 \<le> ar_priority q \<longrightarrow>
         active_leases BUILD (prune now db) = 0 \<and> active_leases BUILD db' = 1)"
proof -
  have st: "effective_pressure BUILD now c db = ps_state p" using assms(1,2) by (simp add: effective_pressure_def)
  have "active_leases BUILD (prune now db) = 0 \<and> active_leases BUILD db' = 1"
    if y: "ps_state p = ''yellow''" "20 \<le> ar_priority q"
  proof -
    from assms(3) st y obtain snap where snap: "snd (store_snapshot BUILD now db) = Inr snap" "as_active snap = 0"
      and ta: "controller_try_acquire BUILD q lid now (prune now db) = (db', Inr (Some l))"
      by (auto simp: build_try_acquire_def Let_def bindS_def controller_snapshot_def store_snapshot_def
          split: if_splits option.splits)
    then have idle: "active_leases BUILD (prune now db) = 0"
      by (auto simp: store_snapshot_def Let_def split: option.splits)
    then have none: "\<forall>m\<in>set (db_leases (prune now db)). al_resource m \<noteq> BUILD"
      by (auto simp: active_leases_def count_where_def filter_empty_conv)
    have twice: "prune now (prune now db) = prune now db" by (simp add: prune_def delete_where_def)
    from ta have q: "ar_resource q = BUILD" and sta: "store_try_acquire q lid now (prune now db) = Inr (db', Some l)"
      by (auto simp: controller_try_acquire_Inr)
    from sta have "active_leases BUILD db' = 1"
    proof (cases rule: try_acquire_cases)
      case (existing m)
      then show ?thesis using none q twice by (auto simp: lease_key_def dest!: lookup_row_SomeD)
    next
      case (granted w limit)
      then show ?thesis using idle q twice by (simp add: active_leases_def count_where_def)
    qed simp
    with idle show ?thesis by blast
  qed
  moreover have "ps_state p \<noteq> ''red'' \<and> ps_state p \<noteq> ''emergency''"
    using assms(3) st by (auto simp: build_try_acquire_def Let_def split: if_splits)
  ultimately show ?thesis by blast
qed

theorem pressure_gates_builds_witness:
  "\<exists>db' l. build_try_acquire ex_build \<lparr>ar_resource = BUILD, ar_priority = 20, ar_owner = ''w'', ar_ttl_seconds = 9, ar_request_id = None\<rparr>
      ''l'' 15 (snd (publish_pressure BUILD ''yellow'' True 10 (ex_build, ex_pool_db))) = (db', Inr (Some l))
    \<and> active_leases BUILD db' = 1"
proof -
  let ?q = "\<lparr>ar_resource = BUILD, ar_priority = 20, ar_owner = ''w'', ar_ttl_seconds = 9, ar_request_id = None\<rparr>"
  let ?db = "snd (publish_pressure BUILD ''yellow'' True 10 (ex_build, ex_pool_db))"
  have p: "shared_pressure BUILD ?db = Some \<lparr>ps_state = ''yellow'', ps_paused = True, ps_observed_at = 10\<rparr>"
    by (simp add: publish_pressure_def shared_pressure_def get_state_set_state)
  have "(case snd (build_try_acquire ex_build ?q ''l'' 15 ?db) of Inr (Some l) \<Rightarrow> True | _ \<Rightarrow> False)" by code_simp
  then obtain db' l where r: "build_try_acquire ex_build ?q ''l'' 15 ?db = (db', Inr (Some l))"
    by (cases "build_try_acquire ex_build ?q ''l'' 15 ?db") (auto split: sum.splits option.splits)
  from pressure_gates_builds [OF p _ r] r show ?thesis by auto
qed

end
