(* ===== verification/Distributed_Leases.thy ===== *)
theory Distributed_Leases
  imports AI_Controller Pool_Controllers "HOL-Library.Sublist"
begin

text \<open>
  \<^verbatim>\<open>concurrency/distributed_leases.py\<close>: the coordinator hands AI leases to distributed workers, and every
  node gets its own Lean and build controllers. The file name derived from the hash of the node id is
  I/O: a node's store is a database of its own.
\<close>

record distributed_ai_request =
  dr_worker_id :: string
  dr_task_id :: string
  dr_task_class :: ai_task_class
  dr_ttl_seconds :: time
  dr_priority :: "int option"

definition worker_prefix :: "string \<Rightarrow> string" where
  "worker_prefix worker_id = worker_id @ '':''"

definition dr_owner :: "distributed_ai_request \<Rightarrow> string" where
  "dr_owner request = worker_prefix (dr_worker_id request) @ dr_task_id request"

text \<open>A request given by its priority is an \<open>AdmissionRequest\<close> whose constructor checks run as well.\<close>

definition coordinator_request ::
    "distributed_ai_request \<Rightarrow> string \<Rightarrow> time \<Rightarrow> (controller_db, admission_lease option) op" where
  "coordinator_request request lease_id now =
     (if dr_worker_id request = [] \<or> dr_task_id request = []
      then raiseS (ValueError ''distributed AI request needs worker and task identifiers'')
      else bindS (readS (\<lambda>_. case dr_priority request of
               None \<Rightarrow> ai_request (dr_owner request) (task_class_text (dr_task_class request)) (dr_ttl_seconds request)
                         (Some (dr_owner request))
             | Some priority \<Rightarrow> make_request AI priority (dr_owner request) (dr_ttl_seconds request) (Some (dr_owner request))))
           (\<lambda>admission. ai_try_acquire admission lease_id now))"

definition assert_worker :: "string \<Rightarrow> admission_lease \<Rightarrow> unit result" where
  "assert_worker worker_id lease =
     (if prefix (worker_prefix worker_id) (al_owner lease) then Inr ()
      else Inl (PermissionError ''AI lease belongs to a different worker''))"

definition coordinator_heartbeat ::
    "string \<Rightarrow> admission_lease \<Rightarrow> time option \<Rightarrow> time \<Rightarrow> (controller_db, admission_lease option) op" where
  "coordinator_heartbeat worker_id lease ttl_seconds now =
     bindS (readS (\<lambda>_. assert_worker worker_id lease)) (\<lambda>_. controller_heartbeat AI lease ttl_seconds now)"

definition coordinator_release :: "string \<Rightarrow> admission_lease \<Rightarrow> (controller_db, bool) op" where
  "coordinator_release worker_id lease =
     bindS (readS (\<lambda>_. assert_worker worker_id lease)) (\<lambda>_. controller_release AI lease)"

definition coordinator_active :: "time \<Rightarrow> (controller_db, nat) op" where
  "coordinator_active now = bindS (controller_snapshot AI now) (\<lambda>snapshot. returnS (as_active snapshot))"

record node_controllers =
  node_id :: string
  node_lean :: pool
  node_build :: build_pool

definition fixed_pool :: "int \<Rightarrow> time \<Rightarrow> pool" where
  "fixed_pool maximum interval = \<lparr>p_minimum = 1, p_maximum = maximum, p_mode = ''fixed'',
     p_resize_interval_seconds = interval, p_hysteresis_samples = 2, p_last_resize_at = None, p_grow_samples = 0,
     p_shrink_samples = 0, p_pressure = ''green'', p_paused = False\<rparr>"

definition create_node :: "string \<Rightarrow> int \<Rightarrow> int \<Rightarrow> time \<Rightarrow> (controller_db, node_controllers) op" where
  "create_node nid lean_limit build_limit now =
     (if nid = [] then raiseS (ValueError ''node identifier must not be empty'')
      else bindS (lean_init (fixed_pool (max lean_limit 1) 45) lean_limit now) (\<lambda>lean.
           bindS (build_init (pool.extend (fixed_pool (max build_limit 1) 60) \<lparr>p_hard_maximum = max 8 build_limit\<rparr>)
                    build_limit (Some (max build_limit 1)) now) (\<lambda>build.
           returnS \<lparr>node_id = nid, node_lean = lean, node_build = build\<rparr>)))"

lemma make_request_owner: "make_request r prio owner ttl rid = Inr q \<Longrightarrow> ar_owner q = owner"
  by (auto simp: make_request_def split: if_splits)

lemma ai_request_owner: "ai_request owner k ttl rid = Inr q \<Longrightarrow> ar_owner q = owner"
  by (auto simp: ai_request_def split: option.splits dest: make_request_owner)

lemma coordinator_request_acquires:
  assumes "coordinator_request request lid now db = (db', Inr (Some lease))"
  shows "\<exists>q. ar_owner q = dr_owner request \<and> store_try_acquire q lid now db = Inr (db', Some lease)"
proof -
  let ?adm = "case dr_priority request of
      None \<Rightarrow> ai_request (dr_owner request) (task_class_text (dr_task_class request)) (dr_ttl_seconds request) (Some (dr_owner request))
    | Some priority \<Rightarrow> make_request AI priority (dr_owner request) (dr_ttl_seconds request) (Some (dr_owner request))"
  from assms have "bindS (readS (\<lambda>_. ?adm)) (\<lambda>admission. ai_try_acquire admission lid now) db = (db', Inr (Some lease))"
    by (simp add: coordinator_request_def split: if_splits)
  then obtain q where q: "?adm = Inr q" "ai_try_acquire q lid now db = (db', Inr (Some lease))"
    by (auto simp: bindS_Inr_iff)
  from q(1) have "ar_owner q = dr_owner request"
    by (cases "dr_priority request") (auto dest: make_request_owner ai_request_owner)
  moreover from q(2) have "store_try_acquire q lid now db = Inr (db', Some lease)"
    by (simp add: ai_try_acquire_def controller_try_acquire_Inr split: if_splits)
  ultimately show ?thesis by blast
qed

lemma up_to_colon: "CHR '':'' \<notin> set a \<Longrightarrow> takeWhile (\<lambda>c. c \<noteq> CHR '':'') (worker_prefix a @ t) = a"
  by (induction a) (auto simp: worker_prefix_def)

lemma prefix_worker_inject:
  assumes "CHR '':'' \<notin> set a" "CHR '':'' \<notin> set b"
  shows "prefix (worker_prefix a) (worker_prefix b @ t) \<longleftrightarrow> a = b"
proof
  assume "prefix (worker_prefix a) (worker_prefix b @ t)"
  then obtain zs where "worker_prefix b @ t = worker_prefix a @ zs" by (auto simp: prefix_def)
  then show "a = b" using up_to_colon [OF assms(1), of zs] up_to_colon [OF assms(2), of t] by metis
qed simp

section \<open>Properties\<close>

text \<open>Worker isolation: when worker ids contain no colon, a granted lease can be renewed or released only
  by the worker that requested it; any other worker gets \<open>PermissionError\<close> and the store is unchanged.\<close>

theorem workers_are_isolated:
  assumes "coordinator_request request lid now db = (db', Inr (Some lease))" and "al_lease_id lease = lid"
    and "lid \<notin> al_lease_id ` set (db_leases db)"
    and "CHR '':'' \<notin> set (dr_worker_id request)" and "CHR '':'' \<notin> set other" and "other \<noteq> dr_worker_id request"
  shows "coordinator_release other lease s = (s, Inl (PermissionError ''AI lease belongs to a different worker''))
    \<and> coordinator_heartbeat other lease ttl t s = (s, Inl (PermissionError ''AI lease belongs to a different worker''))
    \<and> assert_worker (dr_worker_id request) lease = Inr ()"
proof -
  obtain q where owner: "ar_owner q = dr_owner request" and "store_try_acquire q lid now db = Inr (db', Some lease)"
    using coordinator_request_acquires [OF assms(1)] by blast
  from this(2) have "al_owner lease = dr_owner request"
  proof (cases rule: try_acquire_cases)
    case (existing l)
    then show ?thesis using assms(2,3) by (auto simp: prune_def dest!: lookup_row_SomeD)
  next
    case (granted w limit)
    then show ?thesis using owner by (simp add: grant_def)
  qed simp
  then show ?thesis
    using assms(4-6) prefix_worker_inject [of other "dr_worker_id request" "dr_task_id request"]
    by (simp add: coordinator_release_def coordinator_heartbeat_def assert_worker_def bindS_def dr_owner_def)
qed

theorem workers_are_isolated_witness:
  "\<exists>db' lease. coordinator_request \<lparr>dr_worker_id = ''w1'', dr_task_id = ''t'', dr_task_class = PROOF, dr_ttl_seconds = 60,
       dr_priority = None\<rparr> ''l'' 0 ex_ai_db = (db', Inr (Some lease))
    \<and> coordinator_release ''w2'' lease db' = (db', Inl (PermissionError ''AI lease belongs to a different worker''))"
proof -
  let ?q = "\<lparr>dr_worker_id = ''w1'', dr_task_id = ''t'', dr_task_class = PROOF, dr_ttl_seconds = 60, dr_priority = None\<rparr>"
  have "map_sum id (map_option al_lease_id) (snd (coordinator_request ?q ''l'' 0 ex_ai_db)) = Inr (Some ''l'')"
    by code_simp
  then obtain db' lease where r: "coordinator_request ?q ''l'' 0 ex_ai_db = (db', Inr (Some lease))" "al_lease_id lease = ''l''"
    by (cases "coordinator_request ?q ''l'' 0 ex_ai_db"; cases "snd (coordinator_request ?q ''l'' 0 ex_ai_db)") auto
  have "db_leases ex_ai_db = []" by code_simp
  with workers_are_isolated [OF r, of "''w2''" db'] r show ?thesis by auto
qed

text \<open>The colon matters: the check is a prefix test on \<open>worker:task\<close>, so a worker whose id is a prefix of
  another worker's id up to a colon passes the check for that other worker's leases.\<close>

theorem colon_defeats_isolation:
  "assert_worker ''a'' ((grant \<lparr>ar_resource = AI, ar_priority = 10,
       ar_owner = dr_owner \<lparr>dr_worker_id = ''a:b'', dr_task_id = t, dr_task_class = PROOF, dr_ttl_seconds = 60, dr_priority = None\<rparr>,
       ar_ttl_seconds = 60, ar_request_id = None\<rparr> lid now)) = Inr ()"
  by (simp add: assert_worker_def worker_prefix_def dr_owner_def grant_def)

end
