(* ===== verification/Scheduler.thy ===== *)
theory Scheduler
  imports AI_Controller "HOL-Library.Multiset"
begin

text \<open>
  \<^verbatim>\<open>concurrency/scheduler.py\<close>: how many agents a target gets, and the ranking of ready claims by the
  number of requested claims they unblock. A mapping is an association list in insertion order. The
  deque of the traversal is seeded from a Python set, whose iteration order is not defined: the order is
  an argument \<open>order\<close> (any enumeration of a finite set), and the score does not depend on it.
\<close>

section \<open>Agents per target\<close>

record escalation_policy =
  esc_budget_policy :: string
  esc_maximum_agents :: int
  esc_enabled :: bool

definition make_escalation_policy :: "string \<Rightarrow> int \<Rightarrow> bool \<Rightarrow> escalation_policy result" where
  "make_escalation_policy budget_policy maximum_agents enabled =
     (if maximum_agents < 1 then Inl (ValueError ''maximum agents per target must be positive'')
      else Inr \<lparr>esc_budget_policy = budget_policy, esc_maximum_agents = maximum_agents, esc_enabled = enabled\<rparr>)"

definition policy_name :: "string \<Rightarrow> string" where
  "policy_name policy = dash_to_underscore (py_casefold policy)"

definition desired_agents :: "string \<Rightarrow> int \<Rightarrow> int" where
  "desired_agents policy failed_attempts =
     (if policy = ''economy'' then (if failed_attempts \<ge> 3 then 2 else 1)
      else if policy = ''throughput''
      then 1 + of_bool (failed_attempts \<ge> 1) + of_bool (failed_attempts \<ge> 3) + of_bool (failed_attempts \<ge> 5)
      else 1 + of_bool (failed_attempts \<ge> 2) + of_bool (failed_attempts \<ge> 4) + of_bool (failed_attempts \<ge> 6))"

definition agents_for_target :: "escalation_policy \<Rightarrow> int \<Rightarrow> bool \<Rightarrow> bool \<Rightarrow> int result" where
  "agents_for_target p failed_attempts repair_attempted independent_attempt_useful =
     (if failed_attempts < 0 then Inl (ValueError ''failed attempts must not be negative'')
      else if \<not> esc_enabled p \<or> failed_attempts = 0 \<or> \<not> repair_attempted \<or> \<not> independent_attempt_useful
      then Inr 1
      else Inr (min (esc_maximum_agents p) (desired_agents (policy_name (esc_budget_policy p)) failed_attempts)))"

section \<open>Unlock scores\<close>

type_synonym dependency_map = "(string \<times> string list) list"

text \<open>\<open>reverse[prerequisite]\<close>: the claims that list \<open>prerequisite\<close>.\<close>

definition reverse_deps :: "dependency_map \<Rightarrow> string \<Rightarrow> string set" where
  "reverse_deps dependencies prerequisite =
     set (map fst (filter (\<lambda>(dependent, prerequisites). prerequisite \<in> set prerequisites) dependencies))"

text \<open>Iterating over a Python set: \<open>order\<close> gives the order, an enumeration of the set; a function that is
  not one for this set is not a possible order, the sorted one stands in.\<close>

definition in_order :: "(string set \<Rightarrow> string list) \<Rightarrow> string set \<Rightarrow> string list" where
  "in_order order s = (if set (order s) = s then order s else sorted_list_of_set s)"

lemma set_in_order [simp]: "finite s \<Longrightarrow> set (in_order order s) = s"
  by (simp add: in_order_def)

definition dependents :: "dependency_map \<Rightarrow> string set" where
  "dependents dependencies = fst ` set dependencies"

lemma reverse_deps_dependents: "reverse_deps dependencies p \<subseteq> dependents dependencies"
  by (auto simp: reverse_deps_def dependents_def)

lemma finite_dependents [simp]: "finite (dependents dependencies)"
  by (simp add: dependents_def)

lemma finite_reverse_deps [simp]: "finite (reverse_deps dependencies p)"
  by (simp add: reverse_deps_def)

text \<open>The \<open>while queue\<close> loop. A round drops a seen claim from the queue or expands a new one; only the
  claims of the map enter the queue, so the loop ends.\<close>

function unlock_walk ::
    "(string set \<Rightarrow> string list) \<Rightarrow> dependency_map \<Rightarrow> (string \<Rightarrow> bool) \<Rightarrow> string list
     \<Rightarrow> string set \<Rightarrow> string set \<Rightarrow> string set" where
  "unlock_walk order dependencies counts [] seen descendants = descendants"
| "unlock_walk order dependencies counts (current # queue) seen descendants =
     (if current \<in> seen then unlock_walk order dependencies counts queue seen descendants
      else unlock_walk order dependencies counts
             (queue @ in_order order (reverse_deps dependencies current))
             (insert current seen) (if counts current then insert current descendants else descendants))"
  by pat_completeness auto
termination
proof (relation "measures [\<lambda>(_, deps, _, queue, seen, _). card ((dependents deps \<union> set queue) - seen),
                           \<lambda>(_, _, _, queue, _, _). length queue]", goal_cases)
  case 1
  then show ?case by simp
next
  case (2 order dependencies counts current queue seen descendants)
  have "card (dependents dependencies \<union> set queue - seen) \<le> card (dependents dependencies \<union> set (current # queue) - seen)"
    by (rule card_mono) auto
  then show ?case by auto
next
  case (3 order dependencies counts current queue seen descendants)
  have "card (dependents dependencies \<union> set (queue @ in_order order (reverse_deps dependencies current)) - insert current seen)
      < card (dependents dependencies \<union> set (current # queue) - seen)"
    by (rule psubset_card_mono) (use 3 reverse_deps_dependents [of dependencies current] in auto)
  then show ?case by simp
qed

definition unlock_score ::
    "(string set \<Rightarrow> string list) \<Rightarrow> string set \<Rightarrow> string set option \<Rightarrow> dependency_map \<Rightarrow> string \<Rightarrow> nat" where
  "unlock_score order requested blocked dependencies claim =
     (let blocked_set = (case blocked of None \<Rightarrow> requested | Some b \<Rightarrow> b)
      in card (unlock_walk order dependencies (\<lambda>c. c \<in> requested \<and> c \<in> blocked_set)
                 (in_order order (reverse_deps dependencies claim)) {claim} {}))"

text \<open>\<open>unlock_scores\<close> is a dict by claim: the score of a claim does not depend on the others.\<close>

definition unlock_scores ::
    "(string set \<Rightarrow> string list) \<Rightarrow> string list \<Rightarrow> string set \<Rightarrow> string set option \<Rightarrow> dependency_map
     \<Rightarrow> string \<Rightarrow> nat option" where
  "unlock_scores order claims requested blocked dependencies =
     fold (\<lambda>claim scores. scores(claim \<mapsto> unlock_score order requested blocked dependencies claim)) claims (\<lambda>_. None)"

section \<open>Priorities\<close>

record scheduled_task =
  sched_claim_id :: string
  sched_task_class :: ai_task_class
  sched_ready_order :: int

definition task_rank :: "(string \<Rightarrow> nat option) \<Rightarrow> scheduled_task \<Rightarrow> int \<times> int \<times> int \<times> string" where
  "task_rank scores task = (TASK_PRIORITIES (sched_task_class task),
     - int (get_default (scores (sched_claim_id task)) 0), sched_ready_order task, sched_claim_id task)"

definition prioritize ::
    "(string set \<Rightarrow> string list) \<Rightarrow> scheduled_task list \<Rightarrow> string set \<Rightarrow> string set option \<Rightarrow> dependency_map
     \<Rightarrow> scheduled_task list" where
  "prioritize order tasks requested blocked dependencies =
     (let scores = unlock_scores order (map sched_claim_id tasks) requested blocked dependencies
      in sort_key (task_rank scores) tasks)"

section \<open>The walk computes reachability\<close>

definition unlocks :: "dependency_map \<Rightarrow> (string \<times> string) set" where
  "unlocks dependencies = {(p, d). d \<in> reverse_deps dependencies p}"

lemma unlocks_iff: "(p, d) \<in> unlocks dependencies \<longleftrightarrow> (\<exists>ps. (d, ps) \<in> set dependencies \<and> p \<in> set ps)"
  by (auto simp: unlocks_def reverse_deps_def image_iff)

text \<open>Everything below \<open>seen\<close> is seen already or still in the queue.\<close>

definition walk_closed :: "dependency_map \<Rightarrow> string list \<Rightarrow> string set \<Rightarrow> bool" where
  "walk_closed dependencies queue seen \<longleftrightarrow> (\<forall>x\<in>seen. \<forall>y. (x, y) \<in> unlocks dependencies \<longrightarrow> y \<in> seen \<or> y \<in> set queue)"

lemma unlock_walk_exact:
  assumes "walk_closed dependencies queue seen"
  shows "unlock_walk order dependencies counts queue seen descendants =
    descendants \<union> {y. counts y \<and> y \<notin> seen \<and> (\<exists>x\<in>set queue. (x, y) \<in> (unlocks dependencies)\<^sup>*)}"
  using assms
proof (induction order dependencies counts queue seen descendants rule: unlock_walk.induct)
  case (1 order dependencies counts seen descendants)
  then show ?case by simp
next
  case (2 order dependencies counts current queue seen descendants)
  let ?R = "unlocks dependencies"
  show ?case
  proof (cases "current \<in> seen")
    case True
    have closed: "walk_closed dependencies queue seen" using 2(3) True by (auto simp: walk_closed_def)
    have queued: "\<exists>x\<in>set queue. (x, y) \<in> ?R\<^sup>*" if "(current, y) \<in> ?R\<^sup>*" "y \<notin> seen" for y
    proof -
      have "y \<in> seen \<or> (\<exists>x\<in>set queue. (x, y) \<in> ?R\<^sup>*)"
        using that(1)
      proof (induction rule: rtrancl_induct)
        case base
        then show ?case using True by simp
      next
        case (step y z)
        then show ?case using closed by (meson rtrancl.rtrancl_refl rtrancl.rtrancl_into_rtrancl walk_closed_def)
      qed
      with that(2) show ?thesis by blast
    qed
    from True 2(1) [OF True closed] queued show ?thesis by auto
  next
    case False
    let ?below = "reverse_deps dependencies current"
    have closed: "walk_closed dependencies (queue @ in_order order ?below) (insert current seen)"
      using 2(3) by (auto simp: walk_closed_def unlocks_def)
    have from_current: "(current, y) \<in> ?R\<^sup>* \<longleftrightarrow> y = current \<or> (\<exists>x\<in>?below. (x, y) \<in> ?R\<^sup>*)" for y
      by (metis (no_types, lifting) converse_rtranclE converse_rtrancl_into_rtrancl mem_Collect_eq rtrancl.rtrancl_refl unlocks_def split_conv)
    from False 2(2) [OF False closed] from_current show ?thesis by auto
  qed
qed

lemma scores_lookup:
  "unlock_scores order claims requested blocked dependencies c =
     (if c \<in> set claims then Some (unlock_score order requested blocked dependencies c) else None)"
proof -
  have "fold (\<lambda>claim scores. scores(claim \<mapsto> unlock_score order requested blocked dependencies claim)) claims m c =
     (if c \<in> set claims then Some (unlock_score order requested blocked dependencies c) else m c)" for m
    by (induction claims arbitrary: m) auto
  then show ?thesis by (simp add: unlock_scores_def)
qed

lemma unlock_score_reachable:
  "unlock_score order requested blocked dependencies claim =
     card {y. y \<noteq> claim \<and> y \<in> requested \<and> (\<forall>b. blocked = Some b \<longrightarrow> y \<in> b) \<and> (claim, y) \<in> (unlocks dependencies)\<^sup>+}"
proof -
  let ?R = "unlocks dependencies" and ?below = "reverse_deps dependencies claim"
  have "walk_closed dependencies (in_order order ?below) {claim}"
    by (simp add: walk_closed_def unlocks_def)
  note walk = unlock_walk_exact [OF this]
  have "(claim, y) \<in> ?R\<^sup>+ \<longleftrightarrow> (\<exists>x\<in>?below. (x, y) \<in> ?R\<^sup>*)" for y
    by (auto simp: trancl_unfold_left unlocks_def)
  then show ?thesis
    by (auto simp: unlock_score_def walk Let_def split: option.splits intro!: arg_cong [of _ _ card])
qed

section \<open>Properties\<close>

text \<open>The unlock score of a claim is the number of other requested and blocked claims that transitively
  depend on it, in cyclic manuscripts too, whatever order Python iterates its sets in.\<close>

theorem unlock_scores_exact:
  assumes "claim \<in> set claims"
  shows "unlock_scores order claims requested blocked dependencies claim =
    Some (card {y. y \<noteq> claim \<and> y \<in> requested \<and> (\<forall>b. blocked = Some b \<longrightarrow> y \<in> b)
                 \<and> (claim, y) \<in> {(p, d). \<exists>ps. (d, ps) \<in> set dependencies \<and> p \<in> set ps}\<^sup>+})"
proof -
  have "unlocks dependencies = {(p, d). \<exists>ps. (d, ps) \<in> set dependencies \<and> p \<in> set ps}"
    by (auto simp: unlocks_iff)
  then show ?thesis using assms by (simp add: scores_lookup unlock_score_reachable)
qed

definition ex_deps :: dependency_map where
  "ex_deps = [(''b'', [''a'']), (''c'', [''b'']), (''a'', [''c''])]"

theorem unlock_scores_exact_witness:
  "unlock_scores sorted_list_of_set [''a''] {''b'', ''c''} (Some {''b''}) ex_deps ''a'' =
    Some (card {y. y \<noteq> ''a'' \<and> y \<in> {''b'', ''c''} \<and> y \<in> {''b''}
      \<and> (''a'', y) \<in> {(p, d). \<exists>ps. (d, ps) \<in> set ex_deps \<and> p \<in> set ps}\<^sup>+})"
  using unlock_scores_exact [of "''a''" "[''a'']" sorted_list_of_set "{''b'', ''c''}" "Some {''b''}" ex_deps]
  by (simp only: list.set(2) insertI1 option.inject simp_thms all_simps True_implies_equals)

text \<open>\<open>prioritize\<close> only reorders the tasks, and orders them by task class, then by how many requested
  claims they unblock (most first), then by readiness and claim id: of two tasks in the result, the
  earlier one has the smaller class, or the same class and at least the unlock score.\<close>

theorem prioritize_orders_by_unlock:
  assumes "i < j" and "j < length tasks" and "ranked = prioritize order tasks requested blocked dependencies"
    and "score = (\<lambda>t. unlock_score order requested blocked dependencies (sched_claim_id t))"
  shows "mset ranked = mset tasks
    \<and> (TASK_PRIORITIES (sched_task_class (ranked ! i)) < TASK_PRIORITIES (sched_task_class (ranked ! j))
       \<or> TASK_PRIORITIES (sched_task_class (ranked ! i)) = TASK_PRIORITIES (sched_task_class (ranked ! j))
         \<and> score (ranked ! i) \<ge> score (ranked ! j))"
proof -
  let ?rank = "task_rank (unlock_scores order (map sched_claim_id tasks) requested blocked dependencies)"
  have r: "ranked = sort_key ?rank tasks" by (simp add: assms(3) prioritize_def)
  have "sorted (map ?rank ranked)" unfolding r by (rule sorted_sort_key)
  then have le: "?rank (ranked ! i) \<le> ?rank (ranked ! j)"
    using assms(1,2) r by (simp add: sorted_iff_nth_mono)
  have in_tasks: "ranked ! k \<in> set tasks" if "k < length tasks" for k
    using that nth_mem [of k ranked] by (simp add: r)
  have "sched_claim_id (ranked ! k) \<in> sched_claim_id ` set tasks" if "k < length tasks" for k
    using in_tasks [OF that] by blast
  with assms(1,2) have "?rank (ranked ! k) = (TASK_PRIORITIES (sched_task_class (ranked ! k)), - int (score (ranked ! k)),
      sched_ready_order (ranked ! k), sched_claim_id (ranked ! k))" if "k \<in> {i, j}" for k
    using that by (auto simp: task_rank_def scores_lookup assms(4))
  with le show ?thesis by (auto simp: r less_eq_prod_simp)
qed

definition ex_tasks :: "scheduled_task list" where
  "ex_tasks = [\<lparr>sched_claim_id = ''leaf'', sched_task_class = PROOF, sched_ready_order = 0\<rparr>,
     \<lparr>sched_claim_id = ''root'', sched_task_class = PROOF, sched_ready_order = 1\<rparr>]"

theorem prioritize_orders_by_unlock_witness:
  "let ranked = prioritize sorted_list_of_set ex_tasks {''leaf''} None [(''leaf'', [''root''])];
       score = (\<lambda>t. unlock_score sorted_list_of_set {''leaf''} None [(''leaf'', [''root''])] (sched_claim_id t))
   in mset ranked = mset ex_tasks
    \<and> (TASK_PRIORITIES (sched_task_class (ranked ! 0)) < TASK_PRIORITIES (sched_task_class (ranked ! 1))
       \<or> TASK_PRIORITIES (sched_task_class (ranked ! 0)) = TASK_PRIORITIES (sched_task_class (ranked ! 1))
         \<and> score (ranked ! 0) \<ge> score (ranked ! 1))"
  unfolding Let_def by (rule prioritize_orders_by_unlock [OF _ _ refl refl]) (simp_all add: ex_tasks_def)

text \<open>Agents per target are a ceiling: a target always gets at least one agent and never more than the
  configured maximum, the first attempt gets exactly one, and more failures never mean fewer agents.\<close>

theorem agents_are_bounded:
  assumes "make_escalation_policy policy m enabled = Inr p" and "0 \<le> a" and "a \<le> b"
  shows "\<exists>n n'. agents_for_target p a repaired useful = Inr n \<and> agents_for_target p b repaired useful = Inr n'
    \<and> 1 \<le> n \<and> n \<le> n' \<and> n' \<le> m \<and> agents_for_target p 0 repaired useful = Inr 1"
proof -
  have p: "esc_maximum_agents p = m" "1 \<le> m"
    using assms(1) by (auto simp: make_escalation_policy_def split: if_splits)
  have mono: "desired_agents q a \<le> desired_agents q b" "1 \<le> desired_agents q a" "1 \<le> desired_agents q b" for q
    using assms(3) by (auto simp: desired_agents_def)
  show ?thesis
    using assms(2,3) p mono [of "policy_name (esc_budget_policy p)"]
    by (auto simp: agents_for_target_def min_le_iff_disj)
qed

theorem agents_are_bounded_witness:
  "\<exists>p n n'. make_escalation_policy ''throughput'' 3 True = Inr p \<and> agents_for_target p 2 True True = Inr n
    \<and> agents_for_target p 6 True True = Inr n' \<and> 1 \<le> n \<and> n \<le> n' \<and> n' \<le> 3"
proof -
  obtain p where p: "make_escalation_policy ''throughput'' 3 True = Inr p" by (simp add: make_escalation_policy_def)
  from agents_are_bounded [OF p, of 2 6 True True] p show ?thesis by auto
qed

end
