(* ===== verification/Memory_Pressure.thy ===== *)
theory Memory_Pressure
  imports Prelude
begin

text \<open>
  \<^verbatim>\<open>concurrency/memory_pressure.py\<close>: classification of one memory sample and the hysteresis over
  samples. The classifier's fields are a record; a policy that passed its constructor check satisfies
  \<open>policy_ok\<close>. The texts of \<open>reasons\<close> are numbers formatted for display and are not modelled.
\<close>

section \<open>Data\<close>

datatype pressure_level = GREEN | YELLOW | RED | EMERGENCY

fun pressure_text :: "pressure_level \<Rightarrow> string" where
  "pressure_text GREEN = ''green''"
| "pressure_text YELLOW = ''yellow''"
| "pressure_text RED = ''red''"
| "pressure_text EMERGENCY = ''emergency''"

fun SEVERITY :: "pressure_level \<Rightarrow> nat" where
  "SEVERITY GREEN = 0"
| "SEVERITY YELLOW = 1"
| "SEVERITY RED = 2"
| "SEVERITY EMERGENCY = 3"

instantiation pressure_level :: linorder
begin

definition less_eq_pressure_level :: "pressure_level \<Rightarrow> pressure_level \<Rightarrow> bool" where
  "less_eq_pressure_level a b \<longleftrightarrow> SEVERITY a \<le> SEVERITY b"

definition less_pressure_level :: "pressure_level \<Rightarrow> pressure_level \<Rightarrow> bool" where
  "less_pressure_level a b \<longleftrightarrow> SEVERITY a < SEVERITY b"

instance
proof
  fix a b :: pressure_level
  show "a \<le> b \<Longrightarrow> b \<le> a \<Longrightarrow> a = b" by (cases a; cases b) (simp_all add: less_eq_pressure_level_def)
qed (auto simp: less_eq_pressure_level_def less_pressure_level_def)

end

definition more_severe :: "pressure_level \<Rightarrow> pressure_level \<Rightarrow> pressure_level" where
  "more_severe left right = (if SEVERITY left \<ge> SEVERITY right then left else right)"

datatype pressure_source = MACOS_NATIVE | MACOS_FALLBACK | LINUX_PSI | LINUX_FALLBACK | PORTABLE_FALLBACK

record pressure_policy =
  macos_yellow_ratio :: rat
  macos_red_ratio :: rat
  macos_emergency_ratio :: rat
  portable_yellow_ratio :: rat
  portable_red_ratio :: rat
  portable_emergency_ratio :: rat
  swap_out_memory_fraction_per_second :: rat
  swap_out_minimum_bytes_per_second :: rat
  swap_out_maximum_bytes_per_second :: rat
  worsening_samples :: int
  recovery_samples :: int

definition MIB :: rat where
  "MIB = 1024 ^ 2"

definition default_pressure_policy :: pressure_policy where
  "default_pressure_policy = \<lparr>macos_yellow_ratio = 20/100, macos_red_ratio = 12/100, macos_emergency_ratio = 6/100,
     portable_yellow_ratio = 30/100, portable_red_ratio = 15/100, portable_emergency_ratio = 8/100,
     swap_out_memory_fraction_per_second = 1/1000, swap_out_minimum_bytes_per_second = 16 * MIB,
     swap_out_maximum_bytes_per_second = 128 * MIB, worsening_samples = 2, recovery_samples = 4\<rparr>"

definition policy_ratios :: "pressure_policy \<Rightarrow> rat list" where
  "policy_ratios p = [macos_emergency_ratio p, macos_red_ratio p, macos_yellow_ratio p,
     portable_emergency_ratio p, portable_red_ratio p, portable_yellow_ratio p]"

definition check_policy :: "pressure_policy \<Rightarrow> pressure_policy result" where
  "check_policy p =
     (if \<not> (\<forall>v\<in>set (policy_ratios p). 0 < v \<and> v < 1)
      then Inl (ValueError ''memory-pressure ratios must be between zero and one'')
      else if \<not> (macos_emergency_ratio p < macos_red_ratio p \<and> macos_red_ratio p < macos_yellow_ratio p)
      then Inl (ValueError ''invalid macOS memory-pressure thresholds'')
      else if \<not> (portable_emergency_ratio p < portable_red_ratio p \<and> portable_red_ratio p < portable_yellow_ratio p)
      then Inl (ValueError ''invalid portable memory-pressure thresholds'')
      else if swap_out_memory_fraction_per_second p \<le> 0 \<or> swap_out_minimum_bytes_per_second p \<le> 0
        \<or> swap_out_maximum_bytes_per_second p < swap_out_minimum_bytes_per_second p
        \<or> worsening_samples p < 1 \<or> recovery_samples p < 1
      then Inl (ValueError ''invalid memory-pressure hysteresis policy'')
      else Inr p)"

definition swap_out_threshold :: "pressure_policy \<Rightarrow> int \<Rightarrow> rat" where
  "swap_out_threshold p total_memory_bytes =
     max (swap_out_minimum_bytes_per_second p)
       (min (swap_out_maximum_bytes_per_second p) (of_int total_memory_bytes * swap_out_memory_fraction_per_second p))"

record pressure_decision =
  pd_pressure :: pressure_level
  pd_candidate :: pressure_level
  pd_source :: pressure_source
  pd_active_swap_out :: bool
  pd_swap_out_threshold :: rat

record classifier =
  cl_os_name :: string
  cl_policy :: pressure_policy
  cl_pressure :: "pressure_level option"
  cl_worsening_samples :: int
  cl_recovery_samples :: int
  cl_high_swap_out_samples :: int

definition new_classifier :: "string \<Rightarrow> pressure_policy option \<Rightarrow> classifier" where
  "new_classifier os_name policy = \<lparr>cl_os_name = os_name,
     cl_policy = (case policy of None \<Rightarrow> default_pressure_policy | Some p \<Rightarrow> p),
     cl_pressure = None, cl_worsening_samples = 0, cl_recovery_samples = 0, cl_high_swap_out_samples = 0\<rparr>"

section \<open>Classification\<close>

definition available_candidate :: "classifier \<Rightarrow> rat \<Rightarrow> pressure_level" where
  "available_candidate c ratio =
     (let darwin = (cl_os_name c = ''Darwin''); p = cl_policy c;
          emergency = (if darwin then macos_emergency_ratio p else portable_emergency_ratio p);
          red = (if darwin then macos_red_ratio p else portable_red_ratio p);
          yellow = (if darwin then macos_yellow_ratio p else portable_yellow_ratio p)
      in if ratio \<le> emergency then EMERGENCY else if ratio \<le> red then RED
         else if ratio \<le> yellow then YELLOW else GREEN)"

definition sample_source :: "classifier \<Rightarrow> int option \<Rightarrow> bool \<Rightarrow> pressure_source" where
  "sample_source c native psi =
     (if cl_os_name c = ''Darwin'' then (if native \<noteq> None then MACOS_NATIVE else MACOS_FALLBACK)
      else if cl_os_name c = ''Linux'' then (if psi then LINUX_PSI else LINUX_FALLBACK)
      else PORTABLE_FALLBACK)"

definition stabilize :: "pressure_level \<Rightarrow> bool \<Rightarrow> classifier \<Rightarrow> classifier \<times> pressure_level" where
  "stabilize candidate immediate c =
     (case cl_pressure c of
        None \<Rightarrow> (c\<lparr>cl_pressure := Some candidate\<rparr>, candidate)
      | Some current \<Rightarrow>
          if SEVERITY candidate > SEVERITY current then
            let c1 = c\<lparr>cl_recovery_samples := 0, cl_worsening_samples := cl_worsening_samples c + 1\<rparr>
            in if immediate \<or> cl_worsening_samples c1 \<ge> worsening_samples (cl_policy c)
               then (c1\<lparr>cl_pressure := Some candidate, cl_worsening_samples := 0\<rparr>, candidate)
               else (c1, current)
          else if SEVERITY candidate < SEVERITY current then
            let c1 = c\<lparr>cl_worsening_samples := 0, cl_recovery_samples := cl_recovery_samples c + 1\<rparr>
            in if cl_recovery_samples c1 \<ge> recovery_samples (cl_policy c)
               then (c1\<lparr>cl_pressure := Some candidate, cl_recovery_samples := 0\<rparr>, candidate)
               else (c1, current)
          else (c\<lparr>cl_worsening_samples := 0, cl_recovery_samples := 0\<rparr>, current))"

record memory_sample =
  ms_available_memory_ratio :: rat
  ms_total_memory_bytes :: int
  ms_swap_out_rate :: "rat option"
  ms_native_level :: "int option"
  ms_memory_psi_available :: bool

definition swapping :: "classifier \<Rightarrow> memory_sample \<Rightarrow> bool" where
  "swapping c s = (case ms_swap_out_rate s of
     None \<Rightarrow> False | Some rate \<Rightarrow> rate \<ge> swap_out_threshold (cl_policy c) (ms_total_memory_bytes s))"

text \<open>The level the sample asks for, before hysteresis; \<open>swaps\<close> counts the swap samples in a row.\<close>

definition native_floor :: "classifier \<Rightarrow> int option \<Rightarrow> pressure_level \<Rightarrow> pressure_level" where
  "native_floor c native candidate = (case native of
     None \<Rightarrow> candidate
   | Some level \<Rightarrow>
       if cl_os_name c \<noteq> ''Darwin'' then candidate
       else if level \<in> {1, 2} then more_severe candidate YELLOW
       else if level = 3 then more_severe candidate RED else candidate)"

definition sample_candidate :: "classifier \<Rightarrow> memory_sample \<Rightarrow> int \<Rightarrow> pressure_level" where
  "sample_candidate c s swaps =
     (let ratio = max 0 (min 1 (ms_available_memory_ratio s));
          available = available_candidate c ratio;
          paged = (if swapping c s
                   then more_severe available (if cl_os_name c = ''Linux'' \<and> swaps \<ge> 2 then RED else YELLOW)
                   else available)
      in native_floor c (ms_native_level s) paged)"

definition is_immediate :: "classifier \<Rightarrow> memory_sample \<Rightarrow> pressure_level \<Rightarrow> bool" where
  "is_immediate c s candidate \<longleftrightarrow>
     candidate = EMERGENCY \<or> (cl_os_name c = ''Darwin'' \<and> ms_native_level s = Some 3)"

definition classify :: "memory_sample \<Rightarrow> classifier \<Rightarrow> classifier \<times> pressure_decision" where
  "classify s c =
     (let swap = swapping c s;
          c1 = c\<lparr>cl_high_swap_out_samples := (if swap then cl_high_swap_out_samples c + 1 else 0)\<rparr>;
          candidate = sample_candidate c1 s (cl_high_swap_out_samples c1)
      in case stabilize candidate (is_immediate c1 s candidate) c1 of
           (c2, pressure) \<Rightarrow>
             (c2, \<lparr>pd_pressure = pressure, pd_candidate = candidate,
                   pd_source = sample_source c (ms_native_level s) (ms_memory_psi_available s),
                   pd_active_swap_out = swap,
                   pd_swap_out_threshold = swap_out_threshold (cl_policy c) (ms_total_memory_bytes s)\<rparr>))"

fun classify_all :: "memory_sample list \<Rightarrow> classifier \<Rightarrow> classifier \<times> pressure_decision list" where
  "classify_all [] c = (c, [])"
| "classify_all (s # ss) c =
     (let (c1, d) = classify s c; (c2, ds) = classify_all ss c1 in (c2, d # ds))"

section \<open>Lemmas\<close>

lemma severity_inject: "SEVERITY a = SEVERITY b \<longleftrightarrow> a = b"
  by (cases a; cases b) simp_all

lemma more_severe_max: "more_severe a b = max a b"
  using severity_inject [of a b]
  by (auto simp: more_severe_def max_def less_eq_pressure_level_def)

lemma stabilize_pressure: "stabilize cand imm c = (c', p) \<Longrightarrow> cl_pressure c' = Some p"
  by (auto simp: stabilize_def Let_def split: option.splits if_splits)

lemma stabilize_policy: "stabilize cand imm c = (c', p) \<Longrightarrow> cl_policy c' = cl_policy c \<and> cl_os_name c' = cl_os_name c"
  by (auto simp: stabilize_def Let_def split: option.splits if_splits)

lemma stabilize_level:
  "stabilize cand imm c = (c', p) \<Longrightarrow> p = cand \<or> (cl_pressure c = Some p)"
  by (auto simp: stabilize_def Let_def split: option.splits if_splits)

lemma stabilize_immediate:
  "stabilize cand True c = (c', p) \<Longrightarrow> cand \<le> p"
  by (auto simp: stabilize_def Let_def less_eq_pressure_level_def split: option.splits if_splits)

text \<open>The recovery counter: it grows by one with every sample asking for a better level than the current
  one and is cleared by any other sample, so the level only improves at the end of a long enough row.\<close>

lemma stabilize_recovery:
  assumes "cl_pressure c = Some cur" and "stabilize cand imm c = (c', p)"
  shows "p < cur \<longrightarrow> recovery_samples (cl_policy c) \<le> cl_recovery_samples c + 1 \<and> cand = p \<and> cl_recovery_samples c' = 0"
    and "cand < cur \<longrightarrow> cl_recovery_samples c' \<le> cl_recovery_samples c + 1 \<or> p < cur"
    and "\<not> cand < cur \<longrightarrow> cl_recovery_samples c' = 0 \<and> cur \<le> p"
    and "cand < cur \<and> \<not> p < cur \<longrightarrow> cl_recovery_samples c' = cl_recovery_samples c + 1 \<and> p = cur"
  using assms
  by (auto simp: stabilize_def Let_def less_pressure_level_def less_eq_pressure_level_def split: if_splits)

lemma classify_stabilize:
  assumes "classify s c = (c', d)"
  obtains c1 where "stabilize (pd_candidate d) (is_immediate c1 s (pd_candidate d)) c1 = (c', pd_pressure d)"
    "cl_pressure c1 = cl_pressure c" "cl_policy c1 = cl_policy c" "cl_os_name c1 = cl_os_name c"
    "cl_recovery_samples c1 = cl_recovery_samples c" "cl_worsening_samples c1 = cl_worsening_samples c"
proof -
  let ?c1 = "c\<lparr>cl_high_swap_out_samples := (if swapping c s then cl_high_swap_out_samples c + 1 else 0)\<rparr>"
  from assms have "stabilize (pd_candidate d) (is_immediate ?c1 s (pd_candidate d)) ?c1 = (c', pd_pressure d)"
    by (auto simp: classify_def Let_def split: prod.splits)
  then show ?thesis by (intro that [of ?c1]) auto
qed

text \<open>A row of samples that never recovers fully: the level can only improve after \<open>recovery_samples\<close>
  consecutive samples that all asked for something better.\<close>

lemma no_early_recovery:
  assumes "classify_all ss c = (c', ds)" and "cl_pressure c = Some cur" and "0 \<le> cl_recovery_samples c"
    and "cl_recovery_samples c + int (length ss) < recovery_samples (cl_policy c)" and "d \<in> set ds"
  shows "cur \<le> pd_pressure d"
  using assms
proof (induction ss arbitrary: c cur ds)
  case Nil
  then show ?case by simp
next
  case (Cons s ss)
  from Cons.prems(1) obtain c1 d1 ds1 where step: "classify s c = (c1, d1)" "classify_all ss c1 = (c', ds1)" "ds = d1 # ds1"
    by (auto split: prod.splits)
  obtain c0 where st: "stabilize (pd_candidate d1) (is_immediate c0 s (pd_candidate d1)) c0 = (c1, pd_pressure d1)"
      and c0: "cl_pressure c0 = Some cur" "cl_policy c0 = cl_policy c" "cl_recovery_samples c0 = cl_recovery_samples c"
    using classify_stabilize [OF step(1)] Cons.prems(2) by metis
  note rec = stabilize_recovery [OF c0(1) st]
  have le: "cur \<le> pd_pressure d1" using rec(1) Cons.prems(4) c0(2,3) by (auto simp: not_less [symmetric])
  have pol: "cl_policy c1 = cl_policy c" using stabilize_policy [OF st] c0(2) by simp
  have cnt: "cl_recovery_samples c1 \<le> cl_recovery_samples c + 1 \<and> 0 \<le> cl_recovery_samples c1"
    using rec(3,4) le Cons.prems(3) c0(3) by (cases "pd_candidate d1 < cur") auto
  show ?case
  proof (cases "d = d1")
    case True
    with le show ?thesis by simp
  next
    case False
    then have "d \<in> set ds1" using Cons.prems(5) step(3) by simp
    moreover have "cl_recovery_samples c1 + int (length ss) < recovery_samples (cl_policy c1)"
      using Cons.prems(4) cnt pol by simp
    ultimately have "pd_pressure d1 \<le> pd_pressure d"
      using Cons.IH [OF step(2) stabilize_pressure [OF st]] cnt by blast
    with le show ?thesis by (rule order_trans)
  qed
qed

section \<open>Properties\<close>

text \<open>The candidate level is monotone in the available memory: for the same classifier and otherwise the
  same sample, more available memory never yields a more severe candidate.\<close>

theorem candidate_monotone_in_memory:
  assumes "check_policy (cl_policy c) = Inr p" and "a \<le> b"
  shows "sample_candidate c (s\<lparr>ms_available_memory_ratio := b\<rparr>) swaps
    \<le> sample_candidate c (s\<lparr>ms_available_memory_ratio := a\<rparr>) swaps"
proof -
  have sorted: "macos_emergency_ratio (cl_policy c) < macos_red_ratio (cl_policy c)"
    "macos_red_ratio (cl_policy c) < macos_yellow_ratio (cl_policy c)"
    "portable_emergency_ratio (cl_policy c) < portable_red_ratio (cl_policy c)"
    "portable_red_ratio (cl_policy c) < portable_yellow_ratio (cl_policy c)"
    using assms(1) by (auto simp: check_policy_def split: if_splits)
  have "available_candidate c y \<le> available_candidate c x" if "x \<le> y" for x y
    using that sorted by (auto simp: available_candidate_def Let_def less_eq_pressure_level_def)
  moreover have "max 0 (min 1 a) \<le> max 0 (min 1 b)" using assms(2) by auto
  ultimately have avail: "available_candidate c (max 0 (min 1 b)) \<le> available_candidate c (max 0 (min 1 a))"
    by blast
  have native: "native_floor c n x \<le> native_floor c n y" if "x \<le> y" for n x y
    using that by (auto simp: native_floor_def more_severe_max max_def split: option.splits)
  have "swapping c (s\<lparr>ms_available_memory_ratio := x\<rparr>) = swapping c s" for x
    by (simp add: swapping_def split: option.splits)
  then show ?thesis
    using avail by (auto simp: sample_candidate_def Let_def more_severe_max intro!: native max.mono)
qed

definition ex_sample :: "rat \<Rightarrow> memory_sample" where
  "ex_sample r = \<lparr>ms_available_memory_ratio = r, ms_total_memory_bytes = 16000000000, ms_swap_out_rate = None,
     ms_native_level = None, ms_memory_psi_available = True\<rparr>"

theorem candidate_monotone_in_memory_witness:
  "sample_candidate (new_classifier ''Linux'' None) (ex_sample (1/2)) 0
     \<le> sample_candidate (new_classifier ''Linux'' None) (ex_sample (1/10)) 0"
proof -
  have "check_policy (cl_policy (new_classifier ''Linux'' None)) = Inr default_pressure_policy" by code_simp
  from candidate_monotone_in_memory [OF this, of "1/10" "1/2" "ex_sample 0" 0]
  show ?thesis by (simp add: ex_sample_def)
qed

text \<open>Recovery is slow: from a given level, fewer samples than the policy's \<open>recovery_samples\<close> never bring
  the reported pressure below it, whatever they measure.\<close>

theorem pressure_recovers_slowly:
  assumes "classify s c = (c0, d0)" and "cl_recovery_samples c0 = 0"
    and "classify_all ss c0 = (c', ds)" and "int (length ss) < recovery_samples (cl_policy c0)" and "d \<in> set ds"
  shows "pd_pressure d0 \<le> pd_pressure d"
proof -
  obtain c1 where "stabilize (pd_candidate d0) (is_immediate c1 s (pd_candidate d0)) c1 = (c0, pd_pressure d0)"
    using classify_stabilize [OF assms(1)] by metis
  from no_early_recovery [OF assms(3) stabilize_pressure [OF this]] assms(2,4,5) show ?thesis by simp
qed

theorem pressure_recovers_slowly_witness:
  "EMERGENCY \<le> pd_pressure (last (snd (classify_all [ex_sample (9/10), ex_sample 1, ex_sample 1]
        (fst (classify (ex_sample (1/100)) (new_classifier ''Linux'' None))))))"
proof -
  let ?r = "classify (ex_sample (1/100)) (new_classifier ''Linux'' None)"
  let ?ss = "[ex_sample (9/10), ex_sample 1, ex_sample 1]"
  have f: "pd_pressure (snd ?r) = EMERGENCY" "cl_recovery_samples (fst ?r) = 0" "recovery_samples (cl_policy (fst ?r)) = 4"
    "snd (classify_all ?ss (fst ?r)) \<noteq> []"
    by code_simp+
  show ?thesis
    using pressure_recovers_slowly [of "ex_sample (1/100)" _ "fst ?r" "snd ?r" ?ss
        "fst (classify_all ?ss (fst ?r))" "snd (classify_all ?ss (fst ?r))" "last (snd (classify_all ?ss (fst ?r)))"] f
    by simp
qed

text \<open>Emergencies are reported at once: whatever the history, a sample whose candidate is EMERGENCY (or, on
  macOS, whose native level is critical) is reported at least as severe as its candidate, and the
  reported level is always the candidate or the level held before.\<close>

theorem emergency_is_immediate:
  assumes "classify s c = (c', d)"
  shows "(pd_candidate d = EMERGENCY \<or> cl_os_name c = ''Darwin'' \<and> ms_native_level s = Some 3 \<longrightarrow> pd_candidate d \<le> pd_pressure d)
    \<and> (pd_pressure d = pd_candidate d \<or> cl_pressure c = Some (pd_pressure d))"
proof -
  obtain c1 where st: "stabilize (pd_candidate d) (is_immediate c1 s (pd_candidate d)) c1 = (c', pd_pressure d)"
    "cl_pressure c1 = cl_pressure c" "cl_os_name c1 = cl_os_name c" using classify_stabilize [OF assms] by metis
  have "pd_candidate d \<le> pd_pressure d" if "is_immediate c1 s (pd_candidate d)"
    using stabilize_immediate st(1) that by simp
  then show ?thesis using stabilize_level [OF st(1)] st(2,3) by (auto simp: is_immediate_def)
qed

theorem emergency_is_immediate_witness:
  "pd_pressure (snd (classify (ex_sample (1/100)) (fst (classify (ex_sample 1) (new_classifier ''Linux'' None))))) = EMERGENCY"
proof -
  let ?c = "fst (classify (ex_sample 1) (new_classifier ''Linux'' None))"
  have "pd_candidate (snd (classify (ex_sample (1/100)) ?c)) = EMERGENCY" by code_simp
  with emergency_is_immediate [of "ex_sample (1/100)" ?c "fst (classify (ex_sample (1/100)) ?c)" "snd (classify (ex_sample (1/100)) ?c)"]
  show ?thesis
    by (cases "pd_pressure (snd (classify (ex_sample (1/100)) ?c))") (simp_all add: less_eq_pressure_level_def)
qed

end
