(* ===== verification/Store_Tables.thy ===== *)
theory Store_Tables
  imports Models
begin

text \<open>
  The tables of \<^verbatim>\<open>incremental/store.py\<close> (\<open>SCHEMA_SQL\<close> and the two migrations) as records of rows, with
  their keys and the indexes that constrain them. A JSON column holds the value its text encodes. The
  \<open>status\<close> of a claim is written from a \<open>ClaimState\<close> everywhere, so it has that type. Integer flags are
  booleans; an AUTOINCREMENT key is a counter in the database record. Times are the strings the callers
  pass.
\<close>

section \<open>Rows\<close>

record metadata_row =
  md_key :: string
  md_value :: string

record run_row =
  r_run_id :: int
  r_command :: string
  r_status :: string
  r_outcome :: "string option"
  r_started_at :: string
  r_completed_at :: "string option"
  r_snapshot_commit :: "string option"
  r_previous_snapshot_commit :: "string option"
  r_task_sha256 :: "string option"
  r_mode :: "string option"
  r_environment_hash :: "string option"
  r_detail :: "string option"

record snapshot_row =
  sr_snapshot_commit :: string
  sr_tree_hash :: string
  sr_previous_commit :: "string option"
  sr_source_root :: string
  sr_task_sha256 :: string
  sr_created_at :: string
  sr_manifest :: "string \<times> string \<times> source_file_info list"

record source_file_row =
  fr_snapshot_commit :: string
  fr_file :: source_file_info

record claim_row =
  c_claim_id :: string
  c_kind :: string
  c_source_file :: string
  c_environment :: string
  c_label :: "string option"
  c_ordinal :: int
  c_current_statement_hash :: string
  c_current_proof_hash :: string
  c_normalized_statement_hash :: string
  c_current_snapshot :: string
  c_status :: claim_state
  c_lean_declaration :: "string option"
  c_last_changed_run :: "int option"
  c_retired :: bool

text \<open>The columns of \<open>claim_versions\<close> after the snapshot are the fields of a \<open>SourceObject\<close>.\<close>

record version_row =
  v_snapshot_commit :: string
  v_object :: source_object

record edge_row =
  er_src :: string
  er_dst :: string
  er_edge_kind :: string
  er_provenance :: string
  er_approved :: bool
  er_first_seen_snapshot :: string
  er_last_seen_snapshot :: string
  er_active :: bool

record lean_declaration_row =
  lr_name :: string
  lr_kind :: string
  lr_type_hash :: string
  lr_value_hash :: "string option"
  lr_axioms :: "string list"
  lr_last_seen_run :: int

record lean_edge_row =
  le_src :: string
  le_dst :: string
  le_last_seen_run :: int

record correspondence_row =
  co_claim_id :: string
  co_lean_declaration :: string
  co_status :: string
  co_provenance :: string
  co_approved :: bool
  co_last_updated_run :: int

record certificate_row =
  ct_claim_id :: string
  ct_status :: string
  ct_manuscript_snapshot :: string
  ct_statement_hash :: string
  ct_formal_type_hash :: string
  ct_lean_declaration :: string
  ct_lean_value_hash :: "string option"
  ct_dependencies :: "string list"
  ct_lean_dependencies :: "string list"
  ct_axioms :: "string list"
  ct_environment_hash :: string
  ct_lean_version :: string
  ct_mathlib_revision :: "string option"
  ct_last_verified_run :: int

record question_row =
  q_question_id :: string
  q_claim_id :: string
  q_snapshot_commit :: string
  q_category :: string
  q_passage :: string
  q_problem :: string
  q_resolutions :: "string list"
  q_blocking_claims :: "string list"
  q_status :: string
  q_created_run :: int
  q_resolved_run :: "int option"
  q_resolution :: "string option"
  q_origin :: string

record analysis_row =
  an_analysis_id :: int
  an_question_id :: string
  an_evidence_sha256 :: string
  an_status :: string
  an_analysis :: string

record run_claim_row =
  rc_run_id :: int
  rc_claim_id :: string
  rc_action :: string
  rc_state_before :: "claim_state option"
  rc_state_after :: "claim_state option"
  rc_reason :: "string option"
  rc_reused :: bool

record diagnostic_row =
  dg_diagnostic_id :: int
  dg_run_id :: int
  dg_claim_id :: "string option"
  dg_category :: string
  dg_message :: string
  dg_details :: string

record scope_row =
  sc_run_id :: int
  sc_claim_id :: string
  sc_role :: string
  sc_ordinal :: nat

record run_edge_row =
  re_run_id :: int
  re_edge :: manuscript_edge

record claim_node_row =
  cn_run_id :: int
  cn_claim_id :: string
  cn_kind :: string
  cn_source_file :: string
  cn_statement_start :: int
  cn_statement_end :: int
  cn_state :: claim_state

record incident_row =
  fi_failure_id :: int
  fi_run_id :: int
  fi_scope :: string
  fi_failure_kind :: string
  fi_phase :: string
  fi_category :: string
  fi_message :: string
  fi_detail :: "string option"
  fi_provenance :: string
  fi_batch_index :: "int option"
  fi_retryable :: bool

record incident_claim_row =
  ic_failure_id :: int
  ic_claim_id :: string
  ic_ordinal :: nat

record artifact_row =
  ar_failure_id :: int
  ar_ordinal :: nat
  ar_path :: string
  ar_label :: string
  ar_sha256 :: "string option"
  ar_command :: "string list"
  ar_exit_code :: "int option"
  ar_timed_out :: bool

record concurrency_row =
  cc_run_id :: int
  cc_configured :: string
  cc_initial_effective :: string
  cc_final_effective :: "string option"
  cc_telemetry :: string

section \<open>The database\<close>

record store_db =
  t_metadata :: "metadata_row list"
  t_runs :: "run_row list"
  t_next_run_id :: int
  t_snapshots :: "snapshot_row list"
  t_source_files :: "source_file_row list"
  t_claims :: "claim_row list"
  t_claim_versions :: "version_row list"
  t_manuscript_edges :: "edge_row list"
  t_lean_declarations :: "lean_declaration_row list"
  t_lean_edges :: "lean_edge_row list"
  t_correspondence :: "correspondence_row list"
  t_certificates :: "certificate_row list"
  t_clarifications :: "question_row list"
  t_analyses :: "analysis_row list"
  t_next_analysis_id :: int
  t_run_claims :: "run_claim_row list"
  t_diagnostics :: "diagnostic_row list"
  t_next_diagnostic_id :: int
  t_run_scope :: "scope_row list"
  t_run_dependency_edges :: "run_edge_row list"
  t_run_claim_nodes :: "claim_node_row list"
  t_failure_incidents :: "incident_row list"
  t_next_failure_id :: int
  t_failure_incident_claims :: "incident_claim_row list"
  t_failure_artifacts :: "artifact_row list"
  t_run_concurrency :: "concurrency_row list"

definition empty_store :: store_db where
  "empty_store = \<lparr>t_metadata = [\<lparr>md_key = ''schema_version'', md_value = ''5''\<rparr>], t_runs = [], t_next_run_id = 1,
     t_snapshots = [], t_source_files = [], t_claims = [], t_claim_versions = [], t_manuscript_edges = [],
     t_lean_declarations = [], t_lean_edges = [], t_correspondence = [], t_certificates = [], t_clarifications = [],
     t_analyses = [], t_next_analysis_id = 1, t_run_claims = [], t_diagnostics = [], t_next_diagnostic_id = 1,
     t_run_scope = [], t_run_dependency_edges = [], t_run_claim_nodes = [], t_failure_incidents = [],
     t_next_failure_id = 1, t_failure_incident_claims = [], t_failure_artifacts = [], t_run_concurrency = []\<rparr>"

section \<open>Keys and unique indexes\<close>

definition version_key :: "version_row \<Rightarrow> string \<times> string" where
  "version_key v = (v_snapshot_commit v, so_claim_id (v_object v))"

definition edge_key :: "edge_row \<Rightarrow> string \<times> string \<times> string" where
  "edge_key e = (er_src e, er_dst e, er_edge_kind e)"

definition lean_edge_key :: "lean_edge_row \<Rightarrow> string \<times> string" where
  "lean_edge_key e = (le_src e, le_dst e)"

definition source_file_key :: "source_file_row \<Rightarrow> string \<times> string" where
  "source_file_key f = (fr_snapshot_commit f, sf_path (fr_file f))"

definition run_claim_key :: "run_claim_row \<Rightarrow> int \<times> string \<times> string" where
  "run_claim_key r = (rc_run_id r, rc_claim_id r, rc_action r)"

definition scope_key :: "scope_row \<Rightarrow> int \<times> string \<times> string" where
  "scope_key s = (sc_run_id s, sc_role s, sc_claim_id s)"

definition scope_ordinal_key :: "scope_row \<Rightarrow> int \<times> string \<times> nat" where
  "scope_ordinal_key s = (sc_run_id s, sc_role s, sc_ordinal s)"

definition run_edge_key :: "run_edge_row \<Rightarrow> int \<times> string \<times> string \<times> string" where
  "run_edge_key r = (re_run_id r, e_src (re_edge r), e_dst (re_edge r), e_kind (re_edge r))"

definition node_key :: "claim_node_row \<Rightarrow> int \<times> string" where
  "node_key n = (cn_run_id n, cn_claim_id n)"

definition incident_claim_key :: "incident_claim_row \<Rightarrow> int \<times> string" where
  "incident_claim_key i = (ic_failure_id i, ic_claim_id i)"

definition incident_ordinal_key :: "incident_claim_row \<Rightarrow> int \<times> nat" where
  "incident_ordinal_key i = (ic_failure_id i, ic_ordinal i)"

definition artifact_key :: "artifact_row \<Rightarrow> int \<times> nat" where
  "artifact_key a = (ar_failure_id a, ar_ordinal a)"

definition analysis_key :: "analysis_row \<Rightarrow> string \<times> string" where
  "analysis_key a = (an_question_id a, an_evidence_sha256 a)"

text \<open>The partial indexes \<open>claims_label_unique\<close> and \<open>one_open_question_per_claim\<close>.\<close>

definition labelled :: "claim_row \<Rightarrow> bool" where
  "labelled r \<longleftrightarrow> c_label r \<noteq> None \<and> \<not> c_retired r"

definition labels_unique :: "claim_row list \<Rightarrow> bool" where
  "labels_unique tbl = unique_on c_label (filter labelled tbl)"

definition is_open :: "question_row \<Rightarrow> bool" where
  "is_open q = (q_status q = ''OPEN'')"

definition open_unique :: "question_row list \<Rightarrow> bool" where
  "open_unique tbl = unique_on q_claim_id (filter is_open tbl)"

text \<open>A statement that would break an index raises and changes nothing.\<close>

definition guarded :: "('r list \<Rightarrow> bool) \<Rightarrow> 'r list \<Rightarrow> 'r list result" where
  "guarded index_ok tbl = (if index_ok tbl then Inr tbl else Inl (IntegrityError ''UNIQUE constraint failed''))"

lemma guarded_Inr [simp]: "guarded ok tbl = Inr tbl' \<longleftrightarrow> ok tbl \<and> tbl' = tbl"
  by (auto simp: guarded_def)

text \<open>\<open>executemany\<close> of a plain \<open>INSERT\<close> into a table with one more unique index.\<close>

definition insert_all :: "('r \<Rightarrow> 'k) \<Rightarrow> 'r list \<Rightarrow> 'r list \<Rightarrow> 'r list result" where
  "insert_all key rows tbl = foldE (insert_row key) rows tbl"

lemma insert_all_fresh:
  assumes "unique_on key rows" and "\<forall>r\<in>set rows. key r \<notin> key ` set tbl"
  shows "insert_all key rows tbl = Inr (tbl @ rows)"
  using assms
proof (induction rows arbitrary: tbl)
  case Nil
  then show ?case by (simp add: insert_all_def)
next
  case (Cons r rows)
  have "insert_all key rows (tbl @ [r]) = Inr ((tbl @ [r]) @ rows)"
    by (rule Cons.IH) (use Cons.prems in \<open>auto simp: unique_on_def image_iff\<close>)
  with Cons.prems show ?case by (simp add: insert_all_def insert_row_def)
qed

lemma insert_all_Inr:
  "insert_all key rows tbl = Inr tbl' \<Longrightarrow> tbl' = tbl @ rows"
proof (induction rows arbitrary: tbl)
  case Nil
  then show ?case by (simp add: insert_all_def)
next
  case (Cons r rows)
  then obtain t1 where "insert_row key r tbl = Inr t1" "insert_all key rows t1 = Inr tbl'"
    by (auto simp: insert_all_def bindE_Inr_iff)
  with Cons.IH [OF this(2)] show ?case by (auto simp: insert_row_def split: if_splits)
qed

lemma insert_all_unique:
  "insert_all key rows tbl = Inr tbl' \<Longrightarrow> unique_on key tbl \<Longrightarrow> unique_on key tbl'"
  unfolding insert_all_def
  by (erule (1) foldE_invariant) (rule insert_row_unique)

lemma insert_all_distinct:
  "insert_all key rows tbl = Inr tbl' \<Longrightarrow> distinct (map key rows) \<and> key ` set rows \<inter> key ` set tbl = {}"
proof (induction rows arbitrary: tbl)
  case (Cons r rows)
  then obtain t1 where t1: "insert_row key r tbl = Inr t1" "insert_all key rows t1 = Inr tbl'"
    by (auto simp: insert_all_def bindE_Inr_iff)
  have "t1 = tbl @ [r] \<and> key r \<notin> key ` set tbl" using t1(1) by (auto simp: insert_row_def split: if_splits)
  with Cons.IH [OF t1(2)] show ?case by auto
qed simp

lemma insert_all_raises:
  assumes "unique_on key tbl" and "\<not> unique_on key (tbl @ rows)"
  shows "\<exists>e. insert_all key rows tbl = Inl e"
proof (cases "insert_all key rows tbl")
  case (Inr t)
  with insert_all_Inr [OF Inr] insert_all_unique [OF Inr assms(1)] assms(2) show ?thesis by simp
qed simp

section \<open>The schema invariant\<close>

definition store_inv :: "store_db \<Rightarrow> bool" where
  "store_inv db \<longleftrightarrow>
     unique_on md_key (t_metadata db)
     \<and> unique_on r_run_id (t_runs db) \<and> (\<forall>r\<in>set (t_runs db). r_run_id r < t_next_run_id db)
     \<and> unique_on sr_snapshot_commit (t_snapshots db) \<and> unique_on source_file_key (t_source_files db)
     \<and> unique_on c_claim_id (t_claims db) \<and> labels_unique (t_claims db)
     \<and> unique_on version_key (t_claim_versions db) \<and> unique_on edge_key (t_manuscript_edges db)
     \<and> unique_on lr_name (t_lean_declarations db) \<and> unique_on lean_edge_key (t_lean_edges db)
     \<and> unique_on co_claim_id (t_correspondence db) \<and> unique_on ct_claim_id (t_certificates db)
     \<and> unique_on q_question_id (t_clarifications db) \<and> open_unique (t_clarifications db)
     \<and> unique_on analysis_key (t_analyses db) \<and> unique_on run_claim_key (t_run_claims db)
     \<and> unique_on scope_key (t_run_scope db) \<and> unique_on scope_ordinal_key (t_run_scope db)
     \<and> unique_on run_edge_key (t_run_dependency_edges db) \<and> unique_on node_key (t_run_claim_nodes db)
     \<and> unique_on fi_failure_id (t_failure_incidents db)
     \<and> (\<forall>i\<in>set (t_failure_incidents db). fi_failure_id i < t_next_failure_id db)
     \<and> (\<forall>i\<in>set (t_failure_incident_claims db). ic_failure_id i < t_next_failure_id db)
     \<and> (\<forall>a\<in>set (t_failure_artifacts db). ar_failure_id a < t_next_failure_id db)
     \<and> unique_on incident_claim_key (t_failure_incident_claims db)
     \<and> unique_on artifact_key (t_failure_artifacts db) \<and> unique_on cc_run_id (t_run_concurrency db)"

lemma store_inv_empty [simp]: "store_inv empty_store"
  by (simp add: store_inv_def empty_store_def unique_on_def labels_unique_def open_unique_def)

lemma store_invD:
  assumes "store_inv db"
  shows "unique_on md_key (t_metadata db)" "unique_on r_run_id (t_runs db)"
    "r \<in> set (t_runs db) \<Longrightarrow> r_run_id r < t_next_run_id db"
    "unique_on c_claim_id (t_claims db)" "labels_unique (t_claims db)" "unique_on version_key (t_claim_versions db)"
    "unique_on edge_key (t_manuscript_edges db)" "unique_on q_question_id (t_clarifications db)"
    "open_unique (t_clarifications db)" "unique_on run_claim_key (t_run_claims db)"
    "unique_on scope_key (t_run_scope db)" "unique_on scope_ordinal_key (t_run_scope db)"
    "unique_on run_edge_key (t_run_dependency_edges db)" "unique_on node_key (t_run_claim_nodes db)"
    "unique_on fi_failure_id (t_failure_incidents db)"
    "i \<in> set (t_failure_incidents db) \<Longrightarrow> fi_failure_id i < t_next_failure_id db"
    "j \<in> set (t_failure_incident_claims db) \<Longrightarrow> ic_failure_id j < t_next_failure_id db"
    "a \<in> set (t_failure_artifacts db) \<Longrightarrow> ar_failure_id a < t_next_failure_id db"
    "unique_on incident_claim_key (t_failure_incident_claims db)" "unique_on artifact_key (t_failure_artifacts db)"
    "unique_on cc_run_id (t_run_concurrency db)" "unique_on ct_claim_id (t_certificates db)"
    "unique_on co_claim_id (t_correspondence db)"
  using assms by (simp_all add: store_inv_def)

section \<open>Metadata\<close>

definition set_metadata_default :: "string \<Rightarrow> string \<Rightarrow> store_db \<Rightarrow> store_db" where
  "set_metadata_default key value db =
     db\<lparr>t_metadata := insert_or_ignore md_key \<lparr>md_key = key, md_value = value\<rparr> (t_metadata db)\<rparr>"

definition get_metadata :: "string \<Rightarrow> store_db \<Rightarrow> string option" where
  "get_metadata key db = map_option md_value (lookup_row md_key key (t_metadata db))"

definition merge_metadata :: "metadata_row \<Rightarrow> metadata_row \<Rightarrow> metadata_row" where
  "merge_metadata old new = old\<lparr>md_value := md_value new\<rparr>"

definition set_metadata :: "string \<Rightarrow> string \<Rightarrow> store_db \<Rightarrow> store_db" where
  "set_metadata key value db =
     db\<lparr>t_metadata := upsert_row md_key merge_metadata \<lparr>md_key = key, md_value = value\<rparr> (t_metadata db)\<rparr>"

interpretation metadata_table: upsert_table md_key merge_metadata
  by unfold_locales (simp add: merge_metadata_def)

lemma get_set_metadata:
  "get_metadata k (set_metadata key value db) = (if k = key then Some value else get_metadata k db)"
  using metadata_table.upsert_lookup_same [of "\<lparr>md_key = key, md_value = value\<rparr>" "t_metadata db"]
    metadata_table.upsert_lookup_other [of k "\<lparr>md_key = key, md_value = value\<rparr>" "t_metadata db"]
  by (auto simp: get_metadata_def set_metadata_def merge_metadata_def split: option.splits)

end
