(* ===== verification/Decimal.thy ===== *)
theory Decimal
  imports Prelude
begin

text \<open>
  Decimal text of natural numbers: \<open>str(n)\<close>, the format \<open>{n:06d}\<close>, \<open>int(s)\<close> on such texts and SQLite's
  \<open>CAST(s AS INTEGER)\<close>, with the round trips the identifiers of the store rely on.
\<close>

definition digit_char :: "nat \<Rightarrow> char" where
  "digit_char d = char_of (48 + d)"

definition digit_value :: "char \<Rightarrow> nat" where
  "digit_value c = of_char c - 48"

definition is_digit :: "char \<Rightarrow> bool" where
  "is_digit c \<longleftrightarrow> 48 \<le> (of_char c :: nat) \<and> (of_char c :: nat) \<le> 57"

fun digits :: "nat \<Rightarrow> string" where
  "digits n = (if n < 10 then [digit_char n] else digits (n div 10) @ [digit_char (n mod 10)])"

declare digits.simps [simp del]

definition zero_pad :: "nat \<Rightarrow> string \<Rightarrow> string" where
  "zero_pad w s = replicate (w - length s) CHR ''0'' @ s"

definition read_digits :: "string \<Rightarrow> nat" where
  "read_digits s = foldl (\<lambda>acc c. acc * 10 + digit_value c) 0 s"

text \<open>\<open>CAST(text AS INTEGER)\<close> reads the longest decimal prefix after white space and a sign; a text
  without one is 0.\<close>

definition sql_cast_integer :: "string \<Rightarrow> int" where
  "sql_cast_integer s =
     (case dropWhile py_is_space s of
        [] \<Rightarrow> 0
      | c # cs \<Rightarrow>
          if c = CHR ''-'' then - int (read_digits (takeWhile is_digit cs))
          else if c = CHR ''+'' then int (read_digits (takeWhile is_digit cs))
          else int (read_digits (takeWhile is_digit (c # cs))))"

lemma of_digit_char: "d < 10 \<Longrightarrow> (of_char (digit_char d) :: nat) = 48 + d"
  by (simp add: digit_char_def)

lemma is_digit_char [simp]: "d < 10 \<Longrightarrow> is_digit (digit_char d)"
  by (simp add: is_digit_def of_digit_char)

lemma digit_value_char [simp]: "d < 10 \<Longrightarrow> digit_value (digit_char d) = d"
  by (simp add: digit_value_def of_digit_char)

lemma digit_zero: "CHR ''0'' = digit_char 0"
  by code_simp

lemma digits_all: "list_all is_digit (digits n)"
proof (induction n rule: digits.induct)
  case (1 n)
  then show ?case by (subst digits.simps) simp
qed

lemma digits_not_Nil [simp]: "digits n \<noteq> []"
  by (subst digits.simps) simp

lemma read_digits_snoc: "read_digits (s @ [c]) = read_digits s * 10 + digit_value c"
  by (simp add: read_digits_def)

lemma read_digits_digits [simp]: "read_digits (digits n) = n"
proof (induction n rule: digits.induct)
  case (1 n)
  then show ?case by (subst digits.simps) (auto simp: read_digits_snoc, simp add: read_digits_def)
qed

lemma read_digits_zeros: "read_digits (replicate k CHR ''0'' @ s) = read_digits s"
  by (induction k) (auto simp: read_digits_def digit_zero)

lemma read_zero_pad [simp]: "read_digits (zero_pad w (digits n)) = n"
  by (simp add: zero_pad_def read_digits_zeros)

lemma zero_pad_all: "list_all is_digit (zero_pad w (digits n))"
  using digits_all [of n] by (auto simp: zero_pad_def list_all_iff digit_zero)

lemma digits_inject: "digits m = digits n \<longleftrightarrow> m = n"
  by (metis read_digits_digits)

lemma zero_pad_inject: "zero_pad w (digits m) = zero_pad w (digits n) \<longleftrightarrow> m = n"
  by (metis read_zero_pad)

lemma digit_not_space_sign: "is_digit c \<Longrightarrow> \<not> py_is_space c \<and> c \<noteq> CHR ''-'' \<and> c \<noteq> CHR ''+''"
  by (auto simp: is_digit_def py_is_space_def)

lemma sql_cast_all_digits:
  assumes "list_all is_digit s" and "s \<noteq> []"
  shows "sql_cast_integer s = int (read_digits s)"
proof (cases s)
  case (Cons c cs)
  with assms have c: "is_digit c" and cs: "takeWhile is_digit (c # cs) = c # cs"
    by (auto simp: list_all_iff intro: takeWhile_eq_all_conv [THEN iffD2])
  have tw: "takeWhile is_digit cs = cs" using cs c by simp
  show ?thesis using Cons c digit_not_space_sign [OF c] by (simp add: sql_cast_integer_def tw)
qed (use assms in simp)

lemma sql_cast_zero_pad [simp]: "sql_cast_integer (zero_pad w (digits n)) = int n"
proof -
  have "zero_pad w (digits n) \<noteq> []" by (simp add: zero_pad_def)
  then show ?thesis by (simp add: sql_cast_all_digits [OF zero_pad_all])
qed

text \<open>\<open>int(text)\<close> on a decimal text with an optional sign; other texts raise. (Underscores between digits
  and non-ASCII digits are not modelled; no text the code stores has them.)\<close>

definition py_int :: "string \<Rightarrow> int result" where
  "py_int s =
     (let t = py_strip s;
          negative = (case t of [] \<Rightarrow> False | c # _ \<Rightarrow> c = CHR ''-'');
          body = (case t of [] \<Rightarrow> [] | c # cs \<Rightarrow> if c = CHR ''-'' \<or> c = CHR ''+'' then cs else t)
      in if body = [] \<or> \<not> list_all is_digit body then Inl (ValueError ''invalid literal for int()'')
         else Inr (if negative then - int (read_digits body) else int (read_digits body)))"

lemma py_strip_digits: "list_all is_digit s \<Longrightarrow> py_strip s = s"
proof -
  have drop: "dropWhile py_is_space t = t" if "list_all is_digit t" for t
    using that digit_not_space_sign by (cases t) auto
  assume "list_all is_digit s"
  then show ?thesis using drop [of s] drop [of "rev s"] by (simp add: py_strip_def)
qed

lemma py_int_digits [simp]: "py_int (digits n) = Inr (int n)"
proof -
  obtain c cs where d: "digits n = c # cs" by (cases "digits n") auto
  then have "is_digit c" using digits_all [of n] by simp
  note c = digit_not_space_sign [OF this]
  have strip: "py_strip (digits n) = c # cs" using py_strip_digits [OF digits_all, of n] by (simp add: d)
  have all: "list_all is_digit (c # cs)" using digits_all [of n] by (simp add: d)
  have "read_digits (c # cs) = n" using read_digits_digits [of n] by (simp only: d)
  with c all show ?thesis by (simp add: py_int_def Let_def strip)
qed

text \<open>\<open>str(i)\<close> of an integer.\<close>

definition int_text :: "int \<Rightarrow> string" where
  "int_text i = (if i < 0 then CHR ''-'' # digits (nat (- i)) else digits (nat i))"

text \<open>\<open>f"{n:04d}"\<close>: the sign counts for the width.\<close>

definition format_padded :: "nat \<Rightarrow> int \<Rightarrow> string" where
  "format_padded w n = (if n < 0 then CHR ''-'' # zero_pad (w - 1) (digits (nat (- n))) else zero_pad w (digits (nat n)))"

lemma sql_cast_format [simp]: "sql_cast_integer (format_padded w n) = n"
proof (cases "n < 0")
  case True
  have tw: "takeWhile is_digit (zero_pad v (digits m)) = zero_pad v (digits m)" for v m
    using zero_pad_all [of v m] by (simp only: takeWhile_eq_all_conv list_all_iff)
  from True show ?thesis by (simp add: format_padded_def sql_cast_integer_def py_is_space_def tw)
qed (simp add: format_padded_def)

end
