(* ===== verification/Store_Runs.thy ===== *)
theory Store_Runs
  imports Store_Tables Decimal
begin

text \<open>
  The run life cycle of \<open>StateStore\<close>: allocation of claim ids and runs, recovery after an interrupted
  writer, and what is frozen for a run (scope, dependency edges, claim nodes, concurrency). A method
  that runs one transaction, or one statement, maps the database to the one it commits; raising commits
  nothing.
\<close>

section \<open>Identifiers\<close>

definition allocate_claim_id :: "string \<Rightarrow> store_db \<Rightarrow> (store_db \<times> string) result" where
  "allocate_claim_id kind db =
     (let stored = (case get_metadata ''next_generated_claim_id'' db of
                      None \<Rightarrow> ''1'' | Some v \<Rightarrow> if v = [] then ''1'' else v)
      in bindE (py_int stored) (\<lambda>current. Inr
           (set_metadata ''next_generated_claim_id'' (int_text (current + 1)) db,
            kind @ '':auto-'' @ format_padded 6 current)))"

section \<open>In-flight claims and recovery\<close>

definition in_flight :: "int \<Rightarrow> claim_row \<Rightarrow> bool" where
  "in_flight run_id c \<longleftrightarrow> c_status c = PROVING \<and> c_last_changed_run c = Some run_id \<and> \<not> c_retired c"

definition reset_claim :: "int \<Rightarrow> string \<Rightarrow> string \<Rightarrow> string \<Rightarrow> store_db \<Rightarrow> store_db" where
  "reset_claim run_id action reason claim_id db =
     db\<lparr>t_claims := update_where (\<lambda>c. c_claim_id c = claim_id)
           (\<lambda>c. c\<lparr>c_status := INVALIDATED, c_last_changed_run := Some run_id\<rparr>) (t_claims db),
        t_run_claims := insert_or_replace run_claim_key
           \<lparr>rc_run_id = run_id, rc_claim_id = claim_id, rc_action = action, rc_state_before = Some PROVING,
            rc_state_after = Some INVALIDATED, rc_reason = Some reason, rc_reused = False\<rparr> (t_run_claims db)\<rparr>"

definition in_flight_ids :: "int \<Rightarrow> store_db \<Rightarrow> string list" where
  "in_flight_ids run_id db = sort (map c_claim_id (filter (in_flight run_id) (t_claims db)))"

definition reset_in_flight_claims :: "int \<Rightarrow> string \<Rightarrow> string \<Rightarrow> store_db \<Rightarrow> store_db \<times> string list" where
  "reset_in_flight_claims run_id action reason db =
     (let claim_ids = in_flight_ids run_id db
      in (fold (reset_claim run_id action reason) claim_ids db, claim_ids))"

definition proving_run_ids :: "store_db \<Rightarrow> int set" where
  "proving_run_ids db = set (concat (map (\<lambda>c. case c_last_changed_run c of None \<Rightarrow> [] | Some r \<Rightarrow> [r])
     (filter (\<lambda>c. c_status c = PROVING \<and> \<not> c_retired c) (t_claims db))))"

definition recover_interrupted_runs :: "string \<Rightarrow> store_db \<Rightarrow> store_db \<times> nat" where
  "recover_interrupted_runs now db =
     (let running = map r_run_id (filter (\<lambda>r. r_status r = ''RUNNING'') (t_runs db));
          db1 = fold (\<lambda>run_id db. fst (reset_in_flight_claims run_id
                  (if run_id \<in> set running then ''recover_interrupted'' else ''recover_orphaned_proving'')
                  (if run_id \<in> set running then ''Recovered after process interruption; proof must be retried''
                   else ''Recovered stale in-flight state; proof must be retried'') db))
                (sorted_list_of_set (proving_run_ids db)) db;
          db2 = db1\<lparr>t_claims := update_where
                  (\<lambda>c. c_status c = PROVING \<and> \<not> c_retired c \<and> c_last_changed_run c = None)
                  (\<lambda>c. c\<lparr>c_status := INVALIDATED\<rparr>) (t_claims db1)\<rparr>
      in (db2\<lparr>t_runs := update_where (\<lambda>r. r_status r = ''RUNNING'')
                 (\<lambda>r. r\<lparr>r_status := ''INTERRUPTED'', r_outcome := Some ''interrupted'', r_completed_at := Some now,
                        r_detail := Some ''Recovered after process interruption''\<rparr>) (t_runs db2)\<rparr>,
          count_where (\<lambda>r. r_status r = ''RUNNING'') (t_runs db2)))"

section \<open>Runs\<close>

definition begin_run ::
    "string \<Rightarrow> string \<Rightarrow> string option \<Rightarrow> string option \<Rightarrow> string option \<Rightarrow> string option \<Rightarrow> string option
     \<Rightarrow> store_db \<Rightarrow> store_db \<times> int" where
  "begin_run command started_at snapshot previous task_sha256 mode environment_hash db =
     (let run_id = t_next_run_id db
      in (db\<lparr>t_runs := t_runs db @ [\<lparr>r_run_id = run_id, r_command = command, r_status = ''RUNNING'', r_outcome = None,
               r_started_at = started_at, r_completed_at = None, r_snapshot_commit = snapshot,
               r_previous_snapshot_commit = previous, r_task_sha256 = task_sha256, r_mode = mode,
               r_environment_hash = environment_hash, r_detail = None\<rparr>],
             t_next_run_id := run_id + 1\<rparr>, run_id))"

definition update_run_snapshot :: "int \<Rightarrow> string \<Rightarrow> string option \<Rightarrow> store_db \<Rightarrow> store_db" where
  "update_run_snapshot run_id snapshot previous db =
     db\<lparr>t_runs := update_where (\<lambda>r. r_run_id r = run_id)
          (\<lambda>r. r\<lparr>r_snapshot_commit := Some snapshot, r_previous_snapshot_commit := previous\<rparr>) (t_runs db)\<rparr>"

definition finish_run :: "int \<Rightarrow> string \<Rightarrow> string \<Rightarrow> string \<Rightarrow> string \<Rightarrow> store_db \<Rightarrow> store_db" where
  "finish_run run_id status outcome completed_at detail db =
     db\<lparr>t_runs := update_where (\<lambda>r. r_run_id r = run_id)
          (\<lambda>r. r\<lparr>r_status := status, r_outcome := Some outcome, r_completed_at := Some completed_at, r_detail := Some detail\<rparr>)
          (t_runs db)\<rparr>"

text \<open>\<open>SELECT ... ORDER BY run_id DESC LIMIT 1\<close>.\<close>

definition latest_where :: "(run_row \<Rightarrow> bool) \<Rightarrow> store_db \<Rightarrow> run_row option" where
  "latest_where P db = (case rev (sort_key r_run_id (filter P (t_runs db))) of [] \<Rightarrow> None | r # _ \<Rightarrow> Some r)"

definition latest_run :: "store_db \<Rightarrow> run_row option" where
  "latest_run db = latest_where (\<lambda>_. True) db"

definition run_row_of :: "int \<Rightarrow> store_db \<Rightarrow> run_row option" where
  "run_row_of run_id db = lookup_row r_run_id run_id (t_runs db)"

section \<open>Concurrency provenance\<close>

definition merge_concurrency :: "concurrency_row \<Rightarrow> concurrency_row \<Rightarrow> concurrency_row" where
  "merge_concurrency old new = old\<lparr>cc_configured := cc_configured new,
     cc_initial_effective := cc_initial_effective new, cc_telemetry := cc_telemetry new\<rparr>"

text \<open>The row references \<open>runs\<close>, and \<open>PRAGMA foreign_keys\<close> is on.\<close>

definition record_run_concurrency :: "int \<Rightarrow> string \<Rightarrow> string \<Rightarrow> string \<Rightarrow> store_db \<Rightarrow> store_db result" where
  "record_run_concurrency run_id configured initial_effective telemetry db =
     (if run_row_of run_id db = None then Inl (IntegrityError ''FOREIGN KEY constraint failed'')
      else Inr (db\<lparr>t_run_concurrency := upsert_row cc_run_id merge_concurrency
             \<lparr>cc_run_id = run_id, cc_configured = configured, cc_initial_effective = initial_effective,
              cc_final_effective = None, cc_telemetry = telemetry\<rparr> (t_run_concurrency db)\<rparr>))"

definition finish_run_concurrency :: "int \<Rightarrow> string \<Rightarrow> string \<Rightarrow> store_db \<Rightarrow> store_db" where
  "finish_run_concurrency run_id final_effective telemetry db =
     db\<lparr>t_run_concurrency := update_where (\<lambda>r. cc_run_id r = run_id)
          (\<lambda>r. r\<lparr>cc_final_effective := Some final_effective, cc_telemetry := telemetry\<rparr>) (t_run_concurrency db)\<rparr>"

definition run_concurrency :: "int \<Rightarrow> store_db \<Rightarrow> (string \<times> string \<times> string option \<times> string) option" where
  "run_concurrency run_id db = map_option
     (\<lambda>r. (cc_configured r, cc_initial_effective r, cc_final_effective r, cc_telemetry r))
     (lookup_row cc_run_id run_id (t_run_concurrency db))"

interpretation concurrency_table: upsert_table cc_run_id merge_concurrency
  by unfold_locales (simp add: merge_concurrency_def)

section \<open>What is frozen for a run\<close>

definition scope_rows :: "int \<Rightarrow> string \<Rightarrow> string list \<Rightarrow> scope_row list" where
  "scope_rows run_id role values =
     map (\<lambda>(ordinal, claim_id). \<lparr>sc_run_id = run_id, sc_claim_id = claim_id, sc_role = role, sc_ordinal = ordinal\<rparr>)
       (enumerate 0 (sorted_list_of_set (set values)))"

definition record_run_scope :: "int \<Rightarrow> string list \<Rightarrow> string list \<Rightarrow> store_db \<Rightarrow> store_db result" where
  "record_run_scope run_id targets selected db =
     (let kept = delete_where (\<lambda>s. sc_run_id s = run_id) (t_run_scope db);
          rows = scope_rows run_id ''TARGET'' targets @ scope_rows run_id ''SELECTED'' selected
      in bindE (insert_all scope_key rows kept) (\<lambda>tbl.
         bindE (guarded (unique_on scope_ordinal_key) tbl) (\<lambda>tbl. Inr (db\<lparr>t_run_scope := tbl\<rparr>))))"

definition run_scope_rows :: "int \<Rightarrow> string \<Rightarrow> store_db \<Rightarrow> scope_row list result" where
  "run_scope_rows run_id role db =
     (if role \<notin> {''TARGET'', ''SELECTED''} then Inl (ValueError ''Invalid run-scope role'')
      else Inr (sort_key (\<lambda>s. (sc_ordinal s, sc_claim_id s))
             (filter (\<lambda>s. sc_run_id s = run_id \<and> sc_role s = role) (t_run_scope db))))"

definition edge_order :: "manuscript_edge \<Rightarrow> string \<times> string \<times> string" where
  "edge_order e = (e_src e, e_dst e, e_kind e)"

definition replace_run_dependency_edges :: "int \<Rightarrow> manuscript_edge list \<Rightarrow> store_db \<Rightarrow> store_db result" where
  "replace_run_dependency_edges run_id edges db =
     (let kept = delete_where (\<lambda>r. re_run_id r = run_id) (t_run_dependency_edges db)
      in bindE (insert_all run_edge_key (map (\<lambda>e. \<lparr>re_run_id = run_id, re_edge = e\<rparr>) (sort_key edge_order edges)) kept)
           (\<lambda>tbl. Inr (db\<lparr>t_run_dependency_edges := tbl\<rparr>)))"

definition run_dependency_edge_rows :: "int \<Rightarrow> store_db \<Rightarrow> run_edge_row list" where
  "run_dependency_edge_rows run_id db =
     sort_key (\<lambda>r. edge_order (re_edge r)) (filter (\<lambda>r. re_run_id r = run_id) (t_run_dependency_edges db))"

text \<open>The common table expression \<open>included\<close> and the joins of the \<open>INSERT ... SELECT\<close>. A run without a
  snapshot joins with no version.\<close>

definition included_claims :: "int \<Rightarrow> store_db \<Rightarrow> string set" where
  "included_claims run_id db =
     sc_claim_id ` {s \<in> set (t_run_scope db). sc_run_id s = run_id}
     \<union> ic_claim_id ` {i \<in> set (t_failure_incident_claims db).
           \<exists>f\<in>set (t_failure_incidents db). fi_failure_id f = ic_failure_id i \<and> fi_run_id f = run_id}
     \<union> (\<lambda>r. e_src (re_edge r)) ` {r \<in> set (t_run_dependency_edges db). re_run_id r = run_id}
     \<union> (\<lambda>r. e_dst (re_edge r)) ` {r \<in> set (t_run_dependency_edges db). re_run_id r = run_id}"

definition joined_nodes :: "int \<Rightarrow> store_db \<Rightarrow> claim_node_row list" where
  "joined_nodes run_id db =
     concat (map (\<lambda>c. concat (map (\<lambda>r. map (\<lambda>v.
         \<lparr>cn_run_id = run_id, cn_claim_id = c_claim_id c, cn_kind = so_kind (v_object v),
          cn_source_file = so_source_file (v_object v), cn_statement_start = so_statement_start (v_object v),
          cn_statement_end = so_statement_end (v_object v), cn_state = c_status c\<rparr>)
         (filter (\<lambda>v. so_claim_id (v_object v) = c_claim_id c \<and> r_snapshot_commit r = Some (v_snapshot_commit v))
            (t_claim_versions db)))
         (filter (\<lambda>r. r_run_id r = run_id) (t_runs db))))
       (sort_key c_claim_id (filter (\<lambda>c. c_claim_id c \<in> included_claims run_id db \<and> \<not> c_retired c) (t_claims db))))"

definition record_run_claim_nodes :: "int \<Rightarrow> store_db \<Rightarrow> store_db result" where
  "record_run_claim_nodes run_id db =
     (let kept = delete_where (\<lambda>n. cn_run_id n = run_id) (t_run_claim_nodes db)
      in bindE (insert_all node_key (joined_nodes run_id db) kept)
           (\<lambda>tbl. Inr (db\<lparr>t_run_claim_nodes := tbl\<rparr>)))"

definition run_claim_node_rows :: "int \<Rightarrow> store_db \<Rightarrow> claim_node_row list" where
  "run_claim_node_rows run_id db =
     sort_key cn_claim_id (filter (\<lambda>n. cn_run_id n = run_id) (t_run_claim_nodes db))"

section \<open>Lemmas\<close>

lemma reset_fold_claims:
  "t_claims (fold (reset_claim run_id action reason) ids db) =
     map (\<lambda>c. if c_claim_id c \<in> set ids then c\<lparr>c_status := INVALIDATED, c_last_changed_run := Some run_id\<rparr> else c) (t_claims db)"
  by (induction ids arbitrary: db) (auto simp: reset_claim_def update_where_def)

lemma reset_fold_frame:
  "t_runs (fold (reset_claim run_id action reason) ids db) = t_runs db"
  "t_certificates (fold (reset_claim run_id action reason) ids db) = t_certificates db"
  "t_metadata (fold (reset_claim run_id action reason) ids db) = t_metadata db"
  by (induction ids arbitrary: db) (auto simp: reset_claim_def)

lemma reset_fold_log:
  "lookup_row run_claim_key (r, cid, a) (t_run_claims (fold (reset_claim run_id action reason) ids db)) =
     (if r = run_id \<and> a = action \<and> cid \<in> set ids
      then Some \<lparr>rc_run_id = run_id, rc_claim_id = cid, rc_action = action, rc_state_before = Some PROVING,
            rc_state_after = Some INVALIDATED, rc_reason = Some reason, rc_reused = False\<rparr>
      else lookup_row run_claim_key (r, cid, a) (t_run_claims db))"
  by (induction ids arbitrary: db) (auto simp: reset_claim_def lookup_insert_or_replace run_claim_key_def)

lemma in_flight_ids_iff:
  assumes "unique_on c_claim_id (t_claims db)" and "c \<in> set (t_claims db)"
  shows "c_claim_id c \<in> set (in_flight_ids run_id db) \<longleftrightarrow> in_flight run_id c"
  using assms lookup_row_unique [OF assms(1)]
  by (auto simp: in_flight_ids_def) (metis option.inject)

lemma reset_in_flight_claims_effect:
  assumes "unique_on c_claim_id (t_claims db)"
  shows "t_claims (fst (reset_in_flight_claims run_id action reason db)) =
    map (\<lambda>c. if in_flight run_id c then c\<lparr>c_status := INVALIDATED\<rparr> else c) (t_claims db)"
proof -
  have "(if c_claim_id c \<in> set (in_flight_ids run_id db)
          then c\<lparr>c_status := INVALIDATED, c_last_changed_run := Some run_id\<rparr> else c)
      = (if in_flight run_id c then c\<lparr>c_status := INVALIDATED\<rparr> else c)" if "c \<in> set (t_claims db)" for c
    using in_flight_ids_iff [OF assms that] by (cases c) (auto simp: in_flight_def)
  then show ?thesis by (simp add: reset_in_flight_claims_def reset_fold_claims Let_def)
qed

lemma recover_fold:
  fixes act why :: "int \<Rightarrow> string"
  assumes "unique_on c_claim_id (t_claims db)" and "distinct run_ids"
    and "after = fold (\<lambda>r db. fst (reset_in_flight_claims r (act r) (why r) db)) run_ids db"
  shows "t_claims after = map (\<lambda>c. if \<exists>r\<in>set run_ids. in_flight r c then c\<lparr>c_status := INVALIDATED\<rparr> else c) (t_claims db)
    \<and> t_runs after = t_runs db \<and> t_certificates after = t_certificates db
    \<and> (\<forall>c\<in>set (t_claims db). \<forall>r\<in>set run_ids. in_flight r c \<longrightarrow>
         (\<exists>row. lookup_row run_claim_key (r, c_claim_id c, act r) (t_run_claims after) = Some row
           \<and> rc_state_before row = Some PROVING \<and> rc_state_after row = Some INVALIDATED))"
  using assms(1,2) unfolding assms(3)
proof (induction run_ids arbitrary: db)
  case Nil
  then show ?case by simp
next
  case (Cons r rs)
  let ?db1 = "fst (reset_in_flight_claims r (act r) (why r) db)"
  let ?after = "fold (\<lambda>r db. fst (reset_in_flight_claims r (act r) (why r) db)) rs ?db1"
  have claims1: "t_claims ?db1 = map (\<lambda>c. if in_flight r c then c\<lparr>c_status := INVALIDATED\<rparr> else c) (t_claims db)"
    by (rule reset_in_flight_claims_effect [OF Cons.prems(1)])
  have uniq1: "unique_on c_claim_id (t_claims ?db1)"
    using Cons.prems(1) unfolding claims1 unique_on_def by (simp add: comp_def if_distrib cong: if_cong)
  note IH = Cons.IH [OF uniq1 distinct.simps(2) [THEN iffD1, THEN conjunct2, OF Cons.prems(2)]]
  have frame1: "t_runs ?db1 = t_runs db" "t_certificates ?db1 = t_certificates db"
    by (simp_all add: reset_in_flight_claims_def Let_def reset_fold_frame)
  have keep: "lookup_row run_claim_key (r, cid, act r) (t_run_claims (fold (\<lambda>r db. fst (reset_in_flight_claims r (act r) (why r) db)) qs d))
      = lookup_row run_claim_key (r, cid, act r) (t_run_claims d)" if "r \<notin> set qs" for qs d cid
    using that by (induction qs arbitrary: d) (auto simp: reset_in_flight_claims_def Let_def reset_fold_log)
  have flight: "in_flight q (if in_flight r c then c\<lparr>c_status := INVALIDATED\<rparr> else c) \<longleftrightarrow> in_flight q c \<and> q \<noteq> r" for q c
    by (auto simp: in_flight_def)
  have log: "\<exists>row. lookup_row run_claim_key (q, c_claim_id c, act q) (t_run_claims ?after) = Some row
           \<and> rc_state_before row = Some PROVING \<and> rc_state_after row = Some INVALIDATED"
    if c: "c \<in> set (t_claims db)" "q \<in> set (r # rs)" "in_flight q c" for c q
  proof (cases "q = r")
    case True
    have "c_claim_id c \<in> set (in_flight_ids r db)" using in_flight_ids_iff [OF Cons.prems(1) c(1)] c(3) True by simp
    then show ?thesis
      using True Cons.prems(2) keep [of rs] by (simp add: reset_in_flight_claims_def Let_def reset_fold_log)
  next
    case False
    let ?c = "if in_flight r c then c\<lparr>c_status := INVALIDATED\<rparr> else c"
    have q: "q \<in> set rs" "in_flight q ?c" and cid: "c_claim_id ?c = c_claim_id c"
      using c flight False by auto
    have mem: "?c \<in> set (t_claims ?db1)"
      using c(1) unfolding claims1 by simp
    show ?thesis
      using bspec [OF bspec [OF IH [THEN conjunct2, THEN conjunct2, THEN conjunct2] mem] q(1), THEN mp, OF q(2)]
      unfolding cid .
  qed
  have "t_claims ?after = map (\<lambda>c. if \<exists>q\<in>set (r # rs). in_flight q c then c\<lparr>c_status := INVALIDATED\<rparr> else c) (t_claims db)"
    using IH flight by (auto simp: claims1)
  with IH frame1 log show ?case by simp
qed

lemma scope_rows_fields:
  "map sc_claim_id (scope_rows run_id role values) = sorted_list_of_set (set values)"
  "s \<in> set (scope_rows run_id role values) \<Longrightarrow> sc_run_id s = run_id \<and> sc_role s = role"
proof -
  have "map sc_claim_id (scope_rows run_id role values) = map snd (enumerate 0 (sorted_list_of_set (set values)))"
    by (simp add: scope_rows_def comp_def case_prod_beta)
  then show "map sc_claim_id (scope_rows run_id role values) = sorted_list_of_set (set values)" by simp
  show "s \<in> set (scope_rows run_id role values) \<Longrightarrow> sc_run_id s = run_id \<and> sc_role s = role"
    by (auto simp: scope_rows_def)
qed

lemma scope_rows_keys:
  "map scope_key (scope_rows run_id role values) = map (\<lambda>c. (run_id, role, c)) (sorted_list_of_set (set values))"
  "map scope_ordinal_key (scope_rows run_id role values)
    = map (\<lambda>i. (run_id, role, i)) [0..<length (sorted_list_of_set (set values))]"
proof -
  have "map scope_key (scope_rows run_id role values)
      = map (\<lambda>c. (run_id, role, c)) (map snd (enumerate 0 (sorted_list_of_set (set values))))"
    by (simp add: scope_rows_def scope_key_def comp_def case_prod_beta del: map_snd_enumerate)
  then show "map scope_key (scope_rows run_id role values) = map (\<lambda>c. (run_id, role, c)) (sorted_list_of_set (set values))"
    by simp
  have "map scope_ordinal_key (scope_rows run_id role values)
      = map (\<lambda>i. (run_id, role, i)) (map fst (enumerate 0 (sorted_list_of_set (set values))))"
    by (simp add: scope_rows_def scope_ordinal_key_def comp_def case_prod_beta del: map_fst_enumerate)
  then show "map scope_ordinal_key (scope_rows run_id role values)
      = map (\<lambda>i. (run_id, role, i)) [0..<length (sorted_list_of_set (set values))]" by simp
qed

lemma scope_rows_unique:
  "unique_on scope_key (scope_rows run_id role values)" "unique_on scope_ordinal_key (scope_rows run_id role values)"
  unfolding unique_on_def scope_rows_keys by (simp_all add: distinct_map inj_on_def)

lemma sorted_scope_rows: "sorted (map (\<lambda>s. (sc_ordinal s, sc_claim_id s)) (scope_rows run_id role values))"
proof -
  let ?xs = "enumerate 0 (sorted_list_of_set (set values))"
  have "sorted_wrt (\<lambda>a b. fst a < fst b) ?xs"
    by (simp add: sorted_wrt_iff_nth_less nth_enumerate_eq)
  then have "sorted ?xs"
    by (rule sorted_wrt_mono_rel [rotated]) (auto simp: less_eq_prod_def)
  then show ?thesis by (simp add: scope_rows_def comp_def case_prod_beta)
qed

lemma record_run_scope_runs:
  assumes "unique_on scope_key (t_run_scope db)" "unique_on scope_ordinal_key (t_run_scope db)"
  shows "record_run_scope run_id targets selected db = Inr (db\<lparr>t_run_scope :=
    delete_where (\<lambda>s. sc_run_id s = run_id) (t_run_scope db)
      @ scope_rows run_id ''TARGET'' targets @ scope_rows run_id ''SELECTED'' selected\<rparr>)"
proof -
  let ?kept = "delete_where (\<lambda>s. sc_run_id s = run_id) (t_run_scope db)"
  let ?rows = "scope_rows run_id ''TARGET'' targets @ scope_rows run_id ''SELECTED'' selected"
  have u: "unique_on scope_key ?rows" "unique_on scope_ordinal_key ?rows"
    unfolding unique_on_def map_append scope_rows_keys by (auto simp: distinct_map inj_on_def)
  have k: "unique_on scope_key ?kept" "unique_on scope_ordinal_key ?kept" using assms by auto
  have run: "\<forall>s\<in>set ?rows. sc_run_id s = run_id" "\<forall>s\<in>set ?kept. sc_run_id s \<noteq> run_id"
    using scope_rows_fields(2) by (auto simp: delete_where_def)
  have ne: "scope_key a \<noteq> scope_key b \<and> scope_ordinal_key a \<noteq> scope_ordinal_key b"
    if "a \<in> set ?rows" "b \<in> set ?kept" for a b
    using bspec [OF run(1) that(1)] bspec [OF run(2) that(2)] by (auto simp: scope_key_def scope_ordinal_key_def)
  have fresh: "scope_key ` set ?rows \<inter> scope_key ` set ?kept = {}"
    "scope_ordinal_key ` set ?rows \<inter> scope_ordinal_key ` set ?kept = {}"
    using ne by blast+
  have "insert_all scope_key ?rows ?kept = Inr (?kept @ ?rows)"
    by (rule insert_all_fresh [OF u(1)]) (use fresh(1) in blast)
  moreover have "unique_on scope_ordinal_key (?kept @ ?rows)"
    using k(2) u(2) fresh(2) unfolding unique_on_def by auto
  ultimately show ?thesis by (simp add: record_run_scope_def Let_def guarded_def)
qed

lemma sort_key_of_sorted: "sorted (map f xs) \<Longrightarrow> sort_key f xs = xs"
  by (induction xs) (auto simp: insort_is_Cons)

section \<open>Properties\<close>

text \<open>Recovery strands nothing: it turns exactly the unretired PROVING claims into INVALIDATED and leaves
  every other claim and every certificate as it was, logs each reset claim under the run that left it,
  and leaves no run RUNNING.\<close>

theorem recovery_resets_exactly_in_flight:
  assumes "store_inv db" and "recover_interrupted_runs now db = (db', n)"
  shows "t_claims db' = map (\<lambda>c. if c_status c = PROVING \<and> \<not> c_retired c then c\<lparr>c_status := INVALIDATED\<rparr> else c) (t_claims db)
    \<and> t_certificates db' = t_certificates db
    \<and> (\<forall>c\<in>set (t_claims db). \<forall>r. in_flight r c \<longrightarrow>
         (\<exists>row action. lookup_row run_claim_key (r, c_claim_id c, action) (t_run_claims db') = Some row
            \<and> rc_state_before row = Some PROVING \<and> rc_state_after row = Some INVALIDATED))
    \<and> (\<forall>r\<in>set (t_runs db'). r_status r \<noteq> ''RUNNING'')
    \<and> n = length (filter (\<lambda>r. r_status r = ''RUNNING'') (t_runs db))"
proof -
  let ?running = "map r_run_id (filter (\<lambda>r. r_status r = ''RUNNING'') (t_runs db))"
  let ?act = "\<lambda>r. if r \<in> set ?running then ''recover_interrupted'' else ''recover_orphaned_proving''"
  let ?why = "\<lambda>r. if r \<in> set ?running then ''Recovered after process interruption; proof must be retried''
                   else ''Recovered stale in-flight state; proof must be retried''"
  let ?db1 = "fold (\<lambda>r db. fst (reset_in_flight_claims r (?act r) (?why r) db)) (sorted_list_of_set (proving_run_ids db)) db"
  obtain d1 where d1: "d1 = ?db1" by blast
  have fin: "finite (proving_run_ids db)" unfolding proving_run_ids_def by (rule List.finite_set)
  have ids: "r \<in> proving_run_ids db" if "c \<in> set (t_claims db)" "in_flight r c" for c r
    using that by (auto simp: proving_run_ids_def in_flight_def intro!: bexI [of _ c])
  have R: "t_claims d1 = map (\<lambda>c. if \<exists>r\<in>proving_run_ids db. in_flight r c then c\<lparr>c_status := INVALIDATED\<rparr> else c) (t_claims db)"
      "t_runs d1 = t_runs db" "t_certificates d1 = t_certificates db"
      "\<forall>c\<in>set (t_claims db). \<forall>r\<in>proving_run_ids db. in_flight r c \<longrightarrow>
         (\<exists>row. lookup_row run_claim_key (r, c_claim_id c, ?act r) (t_run_claims d1) = Some row
           \<and> rc_state_before row = Some PROVING \<and> rc_state_after row = Some INVALIDATED)"
    using recover_fold [OF store_invD(4) [OF assms(1)] distinct_sorted_list_of_set d1]
    unfolding set_sorted_list_of_set [OF fin] by blast+
  have flight: "(\<exists>r\<in>proving_run_ids db. in_flight r c) \<longleftrightarrow> c_status c = PROVING \<and> \<not> c_retired c \<and> c_last_changed_run c \<noteq> None"
    if "c \<in> set (t_claims db)" for c
    using ids [OF that] by (auto simp: in_flight_def)
  have db': "db' = d1\<lparr>t_claims := update_where (\<lambda>c. c_status c = PROVING \<and> \<not> c_retired c \<and> c_last_changed_run c = None)
                  (\<lambda>c. c\<lparr>c_status := INVALIDATED\<rparr>) (t_claims d1),
                t_runs := update_where (\<lambda>r. r_status r = ''RUNNING'')
                 (\<lambda>r. r\<lparr>r_status := ''INTERRUPTED'', r_outcome := Some ''interrupted'', r_completed_at := Some now,
                        r_detail := Some ''Recovered after process interruption''\<rparr>) (t_runs d1)\<rparr>"
    and n: "n = count_where (\<lambda>r. r_status r = ''RUNNING'') (t_runs d1)"
    using assms(2) unfolding d1 by (simp_all add: recover_interrupted_runs_def Let_def)
  have "t_claims db' = map (\<lambda>c. if c_status c = PROVING \<and> \<not> c_retired c then c\<lparr>c_status := INVALIDATED\<rparr> else c) (t_claims db)"
    using flight by (auto simp: db' R(1) update_where_def)
  moreover have "\<forall>r\<in>set (t_runs db'). r_status r \<noteq> ''RUNNING''"
    by (auto simp: db' update_where_def)
  moreover have "t_certificates db' = t_certificates db" by (simp add: db' R(3))
  moreover have "\<forall>c\<in>set (t_claims db). \<forall>r. in_flight r c \<longrightarrow>
         (\<exists>row action. lookup_row run_claim_key (r, c_claim_id c, action) (t_run_claims db') = Some row
            \<and> rc_state_before row = Some PROVING \<and> rc_state_after row = Some INVALIDATED)"
    using R(4) ids by (simp add: db') blast
  ultimately show ?thesis by (simp add: n R(2) count_where_def)
qed

definition ex_claim :: "string \<Rightarrow> claim_state \<Rightarrow> int option \<Rightarrow> claim_row" where
  "ex_claim cid state run = \<lparr>c_claim_id = cid, c_kind = ''theorem'', c_source_file = ''a.tex'', c_environment = ''theorem'',
     c_label = Some cid, c_ordinal = 1, c_current_statement_hash = ''h'', c_current_proof_hash = ''p'',
     c_normalized_statement_hash = ''h'', c_current_snapshot = ''s1'', c_status = state, c_lean_declaration = None,
     c_last_changed_run = run, c_retired = False\<rparr>"

definition ex_store :: store_db where
  "ex_store = (fst (begin_run ''verify'' ''t0'' (Some ''s1'') None None None None empty_store))
     \<lparr>t_claims := [ex_claim ''a'' PROVING (Some 1), ex_claim ''b'' CERTIFIED (Some 1), ex_claim ''c'' PROVING None]\<rparr>"

lemma ex_store_inv [simp]: "store_inv ex_store"
  by (auto simp: store_inv_def ex_store_def begin_run_def Let_def empty_store_def unique_on_def labels_unique_def
      open_unique_def ex_claim_def labelled_def)

theorem recovery_resets_exactly_in_flight_witness:
  "\<exists>db' n. recover_interrupted_runs ''t1'' ex_store = (db', n) \<and> n = 1
     \<and> map c_status (t_claims db') = [INVALIDATED, CERTIFIED, INVALIDATED]"
proof -
  obtain db' n where r: "recover_interrupted_runs ''t1'' ex_store = (db', n)" by fastforce
  from recovery_resets_exactly_in_flight [OF ex_store_inv r] r show ?thesis
    by (auto simp: ex_store_def begin_run_def Let_def empty_store_def ex_claim_def)
qed

text \<open>The frozen scope reads back: recording a run's scope never raises, what is read back per role is the
  sorted list of the distinct claim ids with their positions, and other runs' scopes are untouched.\<close>

theorem run_scope_roundtrip:
  assumes "store_inv db"
  shows "\<exists>db'. record_run_scope run_id targets selected db = Inr db'
    \<and> map_sum id (map sc_claim_id) (run_scope_rows run_id ''TARGET'' db') = Inr (sorted_list_of_set (set targets))
    \<and> map_sum id (map sc_claim_id) (run_scope_rows run_id ''SELECTED'' db') = Inr (sorted_list_of_set (set selected))
    \<and> (\<forall>r role. r \<noteq> run_id \<longrightarrow> run_scope_rows r role db' = run_scope_rows r role db)"
proof -
  let ?db' = "db\<lparr>t_run_scope := delete_where (\<lambda>s. sc_run_id s = run_id) (t_run_scope db)
      @ scope_rows run_id ''TARGET'' targets @ scope_rows run_id ''SELECTED'' selected\<rparr>"
  have rec: "record_run_scope run_id targets selected db = Inr ?db'"
    by (rule record_run_scope_runs [OF store_invD(11,12) [OF assms]])
  have gone: "filter (\<lambda>s. sc_run_id s = run_id \<and> sc_role s = role) (delete_where (\<lambda>s. sc_run_id s = run_id) (t_run_scope db)) = []" for role
    by (auto simp: delete_where_def filter_empty_conv)
  have pick: "filter (\<lambda>s. sc_run_id s = r \<and> sc_role s = role) (scope_rows run_id role' values)
      = (if r = run_id \<and> role = role' then scope_rows run_id role' values else [])" for r role role' "values"
    by (auto intro!: filter_True filter_False dest: scope_rows_fields(2))
  have other: "filter (\<lambda>s. sc_run_id s = r \<and> sc_role s = role) (delete_where (\<lambda>s. sc_run_id s = run_id) (t_run_scope db))
      = filter (\<lambda>s. sc_run_id s = r \<and> sc_role s = role) (t_run_scope db)" if "r \<noteq> run_id" for r role
    using that by (auto simp: delete_where_def intro: filter_cong)
  show ?thesis
    by (rule exI [of _ ?db'])
       (simp add: rec run_scope_rows_def gone pick other sort_key_of_sorted sorted_scope_rows scope_rows_fields(1))
qed

theorem run_scope_roundtrip_witness:
  "\<exists>db'. record_run_scope 1 [''b'', ''a'', ''b''] [''a''] ex_store = Inr db'
    \<and> map_sum id (map sc_claim_id) (run_scope_rows 1 ''TARGET'' db') = Inr (sorted_list_of_set {''a'', ''b''})"
  using run_scope_roundtrip [OF ex_store_inv, of 1 "[''b'', ''a'', ''b'']" "[''a'']"] by (auto simp: insert_commute)

text \<open>A run's dependency graph is frozen exactly: the edges read back are the recorded ones in canonical
  order; two edges with the same source, target and kind make it raise instead, and nothing changes.\<close>

theorem run_dependency_edges_roundtrip:
  assumes "store_inv db"
  shows "(distinct (map edge_order edges) \<longrightarrow> (\<exists>db'. replace_run_dependency_edges run_id edges db = Inr db'
       \<and> map re_edge (run_dependency_edge_rows run_id db') = sort_key edge_order edges
       \<and> (\<forall>r. r \<noteq> run_id \<longrightarrow> run_dependency_edge_rows r db' = run_dependency_edge_rows r db)))
    \<and> (\<not> distinct (map edge_order edges) \<longrightarrow> (\<exists>e. replace_run_dependency_edges run_id edges db = Inl e))"
proof -
  let ?kept = "delete_where (\<lambda>r. re_run_id r = run_id) (t_run_dependency_edges db)"
  let ?rows = "map (\<lambda>e. \<lparr>re_run_id = run_id, re_edge = e\<rparr>) (sort_key edge_order edges)"
  have key: "map run_edge_key ?rows = map (Pair run_id) (map edge_order (sort_key edge_order edges))"
    by (simp add: run_edge_key_def edge_order_def comp_def)
  have dist: "unique_on run_edge_key ?rows \<longleftrightarrow> distinct (map edge_order edges)"
    unfolding unique_on_def key by (simp add: distinct_map inj_on_def) 
  have fresh: "\<forall>r\<in>set ?rows. run_edge_key r \<notin> run_edge_key ` set ?kept"
    by (auto simp: run_edge_key_def delete_where_def)
  have kept: "unique_on run_edge_key ?kept" using store_invD(13) [OF assms] by auto
  show ?thesis
  proof (cases "distinct (map edge_order edges)")
    case True
    let ?db' = "db\<lparr>t_run_dependency_edges := ?kept @ ?rows\<rparr>"
    have rec: "replace_run_dependency_edges run_id edges db = Inr ?db'"
      using insert_all_fresh [OF _ fresh] dist True by (simp add: replace_run_dependency_edges_def Let_def)
    have "filter (\<lambda>r. re_run_id r = run_id) (?kept @ ?rows) = ?rows"
      by (auto simp: delete_where_def filter_empty_conv)
    moreover have "sorted (map (\<lambda>r. edge_order (re_edge r)) ?rows)" by (simp add: comp_def)
    ultimately have "run_dependency_edge_rows run_id ?db' = ?rows"
      by (simp add: run_dependency_edge_rows_def sort_key_of_sorted)
    moreover have "run_dependency_edge_rows r ?db' = run_dependency_edge_rows r db" if "r \<noteq> run_id" for r
      using that by (auto simp: run_dependency_edge_rows_def delete_where_def filter_empty_conv intro!: arg_cong [of _ _ "sort_key _"] filter_cong)
    ultimately show ?thesis using True rec by (auto simp: comp_def)
  next
    case False
    with dist have "\<not> unique_on run_edge_key (?kept @ ?rows)" by (auto simp: unique_on_def)
    from insert_all_raises [OF kept this] False show ?thesis
      by (auto simp: replace_run_dependency_edges_def Let_def)
  qed
qed

definition ex_edge :: "string \<Rightarrow> string \<Rightarrow> manuscript_edge" where
  "ex_edge a b = \<lparr>e_src = a, e_dst = b, e_kind = ''uses'', e_provenance = ''ref'', e_approved = True\<rparr>"

theorem run_dependency_edges_roundtrip_witness:
  "\<exists>db'. replace_run_dependency_edges 1 [ex_edge ''b'' ''a'', ex_edge ''a'' ''c''] ex_store = Inr db'
     \<and> map re_edge (run_dependency_edge_rows 1 db') = sort_key edge_order [ex_edge ''b'' ''a'', ex_edge ''a'' ''c'']"
  using run_dependency_edges_roundtrip [OF ex_store_inv, of "[ex_edge ''b'' ''a'', ex_edge ''a'' ''c'']" 1]
  by (auto simp: edge_order_def ex_edge_def)

end
