(* ===== verification/Store_Failures.thy ===== *)
theory Store_Failures
  imports Store_Runs "HOL-Library.Multiset"
begin

text \<open>
  Failure incidents of \<^verbatim>\<open>incremental/store.py\<close>: appending one structured observation with its claims and
  artifacts, reading it back, and the latest run that failed. An artifact comes as a dict, given by the
  values of its keys (\<open>None\<close>: the key is missing or null).
\<close>

definition FAILURE_SCOPES :: "string set" where
  "FAILURE_SCOPES = {''RUN'', ''BATCH'', ''CLAIM'', ''COMPONENT''}"

definition FAILURE_KINDS :: "string set" where
  "FAILURE_KINDS = {''CLAIM_TECHNICAL'', ''BATCH_TECHNICAL'', ''PROVIDER'', ''INFRASTRUCTURE'',
     ''SOURCE_INTEGRITY'', ''DEPENDENCY_CYCLE'', ''UNKNOWN''}"

record artifact_payload =
  ap_path :: "string option"
  ap_label :: "string option"
  ap_sha256 :: "string option"
  ap_command :: "string list option"
  ap_exit_code :: "int option"
  ap_timed_out :: "bool option"

text \<open>\<open>value or default\<close> for a string and for a sequence: the empty one is falsy too, and an empty command
  gives the empty tuple either way.\<close>

definition text_or :: "string option \<Rightarrow> string \<Rightarrow> string" where
  "text_or v d = (case v of None \<Rightarrow> d | Some t \<Rightarrow> if t = [] then d else t)"

definition artifact_of :: "int \<Rightarrow> nat \<times> artifact_payload \<Rightarrow> artifact_row result" where
  "artifact_of failure_id entry =
     (case entry of (ordinal, a) \<Rightarrow>
        (case ap_path a of
           None \<Rightarrow> Inl (KeyError ''path'')
         | Some path \<Rightarrow> Inr \<lparr>ar_failure_id = failure_id, ar_ordinal = ordinal, ar_path = path,
             ar_label = text_or (ap_label a) ''Failure artifact'', ar_sha256 = ap_sha256 a,
             ar_command = (case ap_command a of None \<Rightarrow> [] | Some c \<Rightarrow> c), ar_exit_code = ap_exit_code a,
             ar_timed_out = (ap_timed_out a = Some True)\<rparr>))"

fun mapE :: "('a \<Rightarrow> 'b result) \<Rightarrow> 'a list \<Rightarrow> 'b list result" where
  "mapE f [] = Inr []"
| "mapE f (x # xs) = bindE (f x) (\<lambda>y. bindE (mapE f xs) (\<lambda>ys. Inr (y # ys)))"

definition claim_row_of :: "string \<Rightarrow> store_db \<Rightarrow> claim_row option" where
  "claim_row_of claim_id db = lookup_row c_claim_id claim_id (t_claims db)"

definition selected_claims :: "int \<Rightarrow> store_db \<Rightarrow> string set" where
  "selected_claims run_id db = (case run_scope_rows run_id ''SELECTED'' db of
     Inl _ \<Rightarrow> {} | Inr rows \<Rightarrow> sc_claim_id ` set rows)"

definition incident_claims :: "int \<Rightarrow> string list \<Rightarrow> incident_claim_row list" where
  "incident_claims failure_id claim_ids =
     map (\<lambda>(ordinal, claim_id). \<lparr>ic_failure_id = failure_id, ic_claim_id = claim_id, ic_ordinal = ordinal\<rparr>)
       (enumerate 0 (sorted_list_of_set (set claim_ids)))"

definition add_failure_incident ::
    "int \<Rightarrow> string \<Rightarrow> string \<Rightarrow> string \<Rightarrow> string \<Rightarrow> string \<Rightarrow> string \<Rightarrow> string list \<Rightarrow> string option \<Rightarrow> int option
     \<Rightarrow> bool \<Rightarrow> artifact_payload list \<Rightarrow> store_db \<Rightarrow> (store_db \<times> int) result" where
  "add_failure_incident run_id scope failure_kind phase category message provenance claim_ids detail batch_index
     retryable artifacts db =
     (if scope \<notin> FAILURE_SCOPES then Inl (ValueError ''Invalid failure scope'')
      else if failure_kind \<notin> FAILURE_KINDS then Inl (ValueError ''Invalid failure kind'')
      else if phase = [] \<or> category = [] \<or> message = [] \<or> provenance = []
      then Inl (ValueError ''Failure phase, category, message, and provenance must be non-empty'')
      else if \<exists>c\<in>set claim_ids. claim_row_of c db = None
      then Inl (ValueError ''Failure incident identifies unknown claims'')
      else if selected_claims run_id db \<noteq> {} \<and> \<not> set claim_ids \<subseteq> selected_claims run_id db
      then Inl (ValueError ''Failure incident identifies claims outside this run's selected scope'')
      else
        let failure_id = t_next_failure_id db;
            row = \<lparr>fi_failure_id = failure_id, fi_run_id = run_id, fi_scope = scope, fi_failure_kind = failure_kind,
                   fi_phase = phase, fi_category = category, fi_message = message, fi_detail = detail,
                   fi_provenance = provenance, fi_batch_index = batch_index, fi_retryable = retryable\<rparr>
        in bindE (insert_all incident_claim_key (incident_claims failure_id claim_ids) (t_failure_incident_claims db)) (\<lambda>claims.
           bindE (mapE (artifact_of failure_id) (enumerate 0 artifacts)) (\<lambda>rows.
           bindE (insert_all artifact_key rows (t_failure_artifacts db)) (\<lambda>arts.
           Inr (db\<lparr>t_failure_incidents := t_failure_incidents db @ [row], t_next_failure_id := failure_id + 1,
                   t_failure_incident_claims := claims, t_failure_artifacts := arts\<rparr>, failure_id)))))"

definition failure_incident_rows :: "int \<Rightarrow> store_db \<Rightarrow> incident_row list" where
  "failure_incident_rows run_id db =
     sort_key fi_failure_id (filter (\<lambda>f. fi_run_id f = run_id) (t_failure_incidents db))"

definition failure_claim_rows :: "int \<Rightarrow> store_db \<Rightarrow> incident_claim_row list" where
  "failure_claim_rows failure_id db =
     sort_key (\<lambda>i. (ic_ordinal i, ic_claim_id i)) (filter (\<lambda>i. ic_failure_id i = failure_id) (t_failure_incident_claims db))"

definition failure_artifact_rows :: "int \<Rightarrow> store_db \<Rightarrow> artifact_row list" where
  "failure_artifact_rows failure_id db =
     sort_key ar_ordinal (filter (\<lambda>a. ar_failure_id a = failure_id) (t_failure_artifacts db))"

definition latest_failure_run :: "store_db \<Rightarrow> run_row option" where
  "latest_failure_run db = latest_where (\<lambda>r.
     (\<exists>f\<in>set (t_failure_incidents db). fi_run_id f = r_run_id r)
     \<or> (\<exists>c\<in>set (t_run_claims db). rc_run_id c = r_run_id r \<and> rc_state_after c = Some FAILED_TECHNICAL)
     \<or> r_outcome r \<in> {Some ''provider_failure'', Some ''lean_infrastructure_failure'', Some ''setup_failure''}) db"

section \<open>Lemmas\<close>

lemma sort_key_snoc:
  assumes "\<forall>y\<in>set xs. f y < f x"
  shows "sort_key f (xs @ [x]) = sort_key f xs @ [x]"
proof (rule properties_for_sort_key)
  have stable: "filter (\<lambda>y. f k = f y) (sort_key f xs) = filter (\<lambda>y. f k = f y) xs" for k
    using sort_key_stable [of f "f k" xs] by (simp only: eq_commute [of "f k"])
  show "sorted (map f (sort_key f xs @ [x]))" using assms by (auto simp: sorted_append less_imp_le)
  show "filter (\<lambda>y. f k = f y) (sort_key f xs @ [x]) = filter (\<lambda>y. f k = f y) (xs @ [x])" for k
    by (simp add: stable)
qed simp

lemma mapE_Inr_iff: "mapE f xs = Inr ys \<longleftrightarrow> list_all2 (\<lambda>x y. f x = Inr y) xs ys"
proof (induction xs arbitrary: ys)
  case Nil
  then show ?case by auto
next
  case (Cons x xs)
  then show ?case by (cases ys) (auto simp: bindE_Inr_iff)
qed

lemma artifact_of_fields:
  "artifact_of fid (n, a) = Inr row \<Longrightarrow> ar_failure_id row = fid \<and> ar_ordinal row = n \<and> Some (ar_path row) = ap_path a"
  by (auto simp: artifact_of_def split: option.splits)

lemma artifact_rows_fields:
  assumes "mapE (artifact_of fid) (enumerate k artifacts) = Inr rows"
  shows "(\<forall>r\<in>set rows. ar_failure_id r = fid) \<and> map ar_ordinal rows = [k..<k + length artifacts]
    \<and> map (Some \<circ> ar_path) rows = map ap_path artifacts"
  using assms
proof (induction artifacts arbitrary: k rows)
  case Nil
  then show ?case by simp
next
  case (Cons a artifacts)
  from Cons.prems obtain row rest where "artifact_of fid (k, a) = Inr row"
      and rest: "mapE (artifact_of fid) (enumerate (Suc k) artifacts) = Inr rest" and rows: "rows = row # rest"
    by (auto simp: bindE_Inr_iff)
  with artifact_of_fields [OF this(1)] Cons.IH [OF rest] show ?case
    by (simp add: upt_conv_Cons del: upt_Suc)
qed

lemma incident_claims_fields:
  "map ic_claim_id (incident_claims fid cs) = sorted_list_of_set (set cs)"
  "i \<in> set (incident_claims fid cs) \<Longrightarrow> ic_failure_id i = fid"
proof -
  have "map ic_claim_id (incident_claims fid cs) = map snd (enumerate 0 (sorted_list_of_set (set cs)))"
    by (simp add: incident_claims_def comp_def case_prod_beta)
  then show "map ic_claim_id (incident_claims fid cs) = sorted_list_of_set (set cs)" by simp
  show "i \<in> set (incident_claims fid cs) \<Longrightarrow> ic_failure_id i = fid"
    by (auto simp: incident_claims_def)
qed

lemma incident_claims_unique: "unique_on incident_claim_key (incident_claims fid cs)"
proof -
  have "map snd (map incident_claim_key (incident_claims fid cs)) = sorted_list_of_set (set cs)"
    using incident_claims_fields(1) [of fid cs] by (simp add: incident_claim_key_def comp_def)
  then have "distinct (map snd (map incident_claim_key (incident_claims fid cs)))" by simp
  then show ?thesis unfolding unique_on_def by (metis distinct_map)
qed

lemma sorted_incident_claims: "sorted (map (\<lambda>i. (ic_ordinal i, ic_claim_id i)) (incident_claims fid cs))"
proof -
  let ?xs = "enumerate 0 (sorted_list_of_set (set cs))"
  have "sorted_wrt (\<lambda>a b. fst a < fst b) ?xs" by (simp add: sorted_wrt_iff_nth_less nth_enumerate_eq)
  then have "sorted ?xs" by (rule sorted_wrt_mono_rel [rotated]) (auto simp: less_eq_prod_def)
  then show ?thesis by (simp add: incident_claims_def comp_def case_prod_beta)
qed

text \<open>What a successful call committed.\<close>

lemma add_failure_incident_cases:
  assumes "add_failure_incident run_id scope kind phase category message provenance claim_ids detail batch retryable artifacts db
    = Inr (db', fid)"
  obtains row rows where "fid = t_next_failure_id db" "fi_failure_id row = fid" "fi_run_id row = run_id" "fi_scope row = scope"
    "fi_failure_kind row = kind" "fi_message row = message" "scope \<in> FAILURE_SCOPES" "kind \<in> FAILURE_KINDS"
    "\<forall>c\<in>set claim_ids. claim_row_of c db \<noteq> None"
    "selected_claims run_id db = {} \<or> set claim_ids \<subseteq> selected_claims run_id db"
    "mapE (artifact_of fid) (enumerate 0 artifacts) = Inr rows"
    "t_failure_incidents db' = t_failure_incidents db @ [row]" "t_next_failure_id db' = fid + 1"
    "t_failure_incident_claims db' = t_failure_incident_claims db @ incident_claims fid claim_ids"
    "t_failure_artifacts db' = t_failure_artifacts db @ rows"
    "t_claims db' = t_claims db" "t_runs db' = t_runs db"
    "db' = db\<lparr>t_failure_incidents := t_failure_incidents db', t_next_failure_id := t_next_failure_id db',
       t_failure_incident_claims := t_failure_incident_claims db', t_failure_artifacts := t_failure_artifacts db'\<rparr>"
    "insert_all artifact_key rows (t_failure_artifacts db) = Inr (t_failure_artifacts db')"
    "insert_all incident_claim_key (incident_claims fid claim_ids) (t_failure_incident_claims db) = Inr (t_failure_incident_claims db')"
proof -
  let ?ok = "scope \<in> FAILURE_SCOPES \<and> kind \<in> FAILURE_KINDS
    \<and> \<not> (phase = [] \<or> category = [] \<or> message = [] \<or> provenance = [])
    \<and> \<not> (\<exists>c\<in>set claim_ids. claim_row_of c db = None)
    \<and> \<not> (selected_claims run_id db \<noteq> {} \<and> \<not> set claim_ids \<subseteq> selected_claims run_id db)"
  have ok: ?ok
  proof (rule ccontr)
    assume "\<not> ?ok"
    then have "isl (add_failure_incident run_id scope kind phase category message provenance claim_ids detail batch retryable artifacts db)"
      unfolding add_failure_incident_def by (simp only: if_split de_Morgan_conj not_not sum.disc) argo
    with assms show False by simp
  qed
  obtain claims rows arts where
    ins: "insert_all incident_claim_key (incident_claims (t_next_failure_id db) claim_ids) (t_failure_incident_claims db) = Inr claims"
      "mapE (artifact_of (t_next_failure_id db)) (enumerate 0 artifacts) = Inr rows"
      "insert_all artifact_key rows (t_failure_artifacts db) = Inr arts" and fid: "fid = t_next_failure_id db" and
    db': "db' = db\<lparr>t_failure_incidents := t_failure_incidents db @ [\<lparr>fi_failure_id = fid, fi_run_id = run_id, fi_scope = scope,
        fi_failure_kind = kind, fi_phase = phase, fi_category = category, fi_message = message, fi_detail = detail,
        fi_provenance = provenance, fi_batch_index = batch, fi_retryable = retryable\<rparr>],
        t_next_failure_id := fid + 1, t_failure_incident_claims := claims, t_failure_artifacts := arts\<rparr>"
    using assms ok unfolding add_failure_incident_def
    by (simp only: if_True if_False simp_thms Let_def bindE_Inr_iff) blast
  show ?thesis
    by (rule that [OF fid, of "\<lparr>fi_failure_id = fid, fi_run_id = run_id, fi_scope = scope,
        fi_failure_kind = kind, fi_phase = phase, fi_category = category, fi_message = message, fi_detail = detail,
        fi_provenance = provenance, fi_batch_index = batch, fi_retryable = retryable\<rparr>" rows])
       (use ok ins insert_all_Inr [OF ins(1)] insert_all_Inr [OF ins(3)] in \<open>auto simp: db' fid\<close>)
qed

lemma newest_incident:
  assumes "t_failure_incidents db' = t_failure_incidents db @ [row]" and "fi_run_id row = run_id"
    and "\<forall>f\<in>set (t_failure_incidents db). fi_failure_id f < fi_failure_id row"
  shows "failure_incident_rows run_id db' = failure_incident_rows run_id db @ [row]"
proof -
  let ?old = "filter (\<lambda>f. fi_run_id f = run_id) (t_failure_incidents db)"
  have "sort_key fi_failure_id (?old @ [row]) = sort_key fi_failure_id ?old @ [row]"
    using assms(3) by (intro sort_key_snoc) auto
  then show ?thesis using assms(2) by (simp add: failure_incident_rows_def assms(1))
qed

section \<open>Properties\<close>

text \<open>A recorded incident reads back: it is the newest incident of its run, its claims are the sorted
  distinct claim ids it was given, all of them known and inside the run's selected scope, its artifacts
  keep their order and paths, and no other incident's claims or artifacts change.\<close>

theorem failure_incident_roundtrip:
  assumes "store_inv db"
    and "add_failure_incident run_id scope kind phase category message provenance claim_ids detail batch retryable artifacts db
      = Inr (db', fid)"
  shows "(\<exists>row. failure_incident_rows run_id db' = failure_incident_rows run_id db @ [row]
        \<and> fi_failure_id row = fid \<and> fi_scope row = scope \<and> fi_failure_kind row = kind \<and> fi_message row = message)
    \<and> map ic_claim_id (failure_claim_rows fid db') = sorted_list_of_set (set claim_ids)
    \<and> map (Some \<circ> ar_path) (failure_artifact_rows fid db') = map ap_path artifacts
    \<and> (\<forall>f. f \<noteq> fid \<longrightarrow> failure_claim_rows f db' = failure_claim_rows f db \<and> failure_artifact_rows f db' = failure_artifact_rows f db)
    \<and> (\<forall>c\<in>set claim_ids. \<exists>r\<in>set (t_claims db). c_claim_id r = c)
    \<and> (selected_claims run_id db = {} \<or> set claim_ids \<subseteq> selected_claims run_id db)"
proof -
  from assms(2) obtain row rows where fid: "fid = t_next_failure_id db"
      and row: "fi_failure_id row = fid" "fi_run_id row = run_id" "fi_scope row = scope" "fi_failure_kind row = kind" "fi_message row = message"
      and known: "\<forall>c\<in>set claim_ids. claim_row_of c db \<noteq> None"
      and sel: "selected_claims run_id db = {} \<or> set claim_ids \<subseteq> selected_claims run_id db"
      and rows: "mapE (artifact_of fid) (enumerate 0 artifacts) = Inr rows"
      and db': "t_failure_incidents db' = t_failure_incidents db @ [row]"
        "t_failure_incident_claims db' = t_failure_incident_claims db @ incident_claims fid claim_ids"
        "t_failure_artifacts db' = t_failure_artifacts db @ rows"
    by (rule add_failure_incident_cases)
  note inv = assms(1)
  have old: "\<forall>f\<in>set (t_failure_incidents db). fi_failure_id f < fid" "\<forall>i\<in>set (t_failure_incident_claims db). ic_failure_id i \<noteq> fid"
    "\<forall>a\<in>set (t_failure_artifacts db). ar_failure_id a \<noteq> fid"
    using store_invD(16) [OF inv] store_invD(17) [OF inv] store_invD(18) [OF inv] unfolding fid
    by (blast, metis less_irrefl, metis less_irrefl)
  note arts = artifact_rows_fields [OF rows, simplified]
  have claims: "filter (\<lambda>i. ic_failure_id i = f) (t_failure_incident_claims db') =
      (if f = fid then incident_claims fid claim_ids else filter (\<lambda>i. ic_failure_id i = f) (t_failure_incident_claims db))" for f
    using old(2) incident_claims_fields(2) [of _ fid claim_ids]
    by (auto simp: db'(2) filter_empty_conv intro!: filter_True)
  have artifacts': "filter (\<lambda>a. ar_failure_id a = f) (t_failure_artifacts db') =
      (if f = fid then rows else filter (\<lambda>a. ar_failure_id a = f) (t_failure_artifacts db))" for f
    using old(3) arts by (auto simp: db'(3) filter_empty_conv intro!: filter_True)
  have "failure_incident_rows run_id db' = failure_incident_rows run_id db @ [row]"
    using old(1) row(1,2) by (intro newest_incident [OF db'(1)]) auto
  moreover have "map ic_claim_id (failure_claim_rows fid db') = sorted_list_of_set (set claim_ids)"
    by (simp add: failure_claim_rows_def claims sort_key_of_sorted sorted_incident_claims incident_claims_fields(1))
  moreover have "map (Some \<circ> ar_path) (failure_artifact_rows fid db') = map ap_path artifacts"
    using arts by (simp add: failure_artifact_rows_def artifacts' sort_key_of_sorted)
  moreover have "\<forall>c\<in>set claim_ids. \<exists>r\<in>set (t_claims db). c_claim_id r = c"
    using known by (auto simp: claim_row_of_def lookup_row_None_iff image_iff dest!: bspec)
  ultimately show ?thesis
    using row sel by (simp add: failure_claim_rows_def failure_artifact_rows_def claims artifacts')
qed

definition ex_artifact :: artifact_payload where
  "ex_artifact = \<lparr>ap_path = Some ''log.txt'', ap_label = None, ap_sha256 = None, ap_command = None, ap_exit_code = Some 1,
     ap_timed_out = None\<rparr>"

theorem failure_incident_roundtrip_witness:
  "\<exists>db' fid. add_failure_incident 1 ''CLAIM'' ''UNKNOWN'' ''prove'' ''lean'' ''failed'' ''host'' [''b'', ''a'', ''b''] None None False
       [ex_artifact] ex_store = Inr (db', fid)
     \<and> map ic_claim_id (failure_claim_rows fid db') = sorted_list_of_set {''a'', ''b''}"
proof -
  let ?r = "add_failure_incident 1 ''CLAIM'' ''UNKNOWN'' ''prove'' ''lean'' ''failed'' ''host'' [''b'', ''a'', ''b''] None None False
       [ex_artifact] ex_store"
  have "\<not> isl ?r" by code_simp
  then obtain db' fid where r: "?r = Inr (db', fid)" by (cases ?r) auto
  from failure_incident_roundtrip [OF ex_store_inv r] r show ?thesis by (auto simp: insert_commute)
qed

end
