(* ===== verification/Store_Claims.thy ===== *)
theory Store_Claims
  imports Store_Failures
begin

text \<open>
  Snapshots, claims and their versions, the manuscript and Lean graphs, correspondence and certificates
  of \<^verbatim>\<open>incremental/store.py\<close>.
\<close>

section \<open>Snapshots\<close>

definition manifest_of :: "snapshot_info \<Rightarrow> string \<times> string \<times> source_file_info list" where
  "manifest_of snapshot = (sn_commit snapshot, sn_tree snapshot, sn_files snapshot)"

definition record_snapshot :: "snapshot_info \<Rightarrow> string \<Rightarrow> string \<Rightarrow> string \<Rightarrow> store_db \<Rightarrow> store_db" where
  "record_snapshot snapshot source_root task_sha256 created_at db =
     db\<lparr>t_snapshots := insert_or_ignore sr_snapshot_commit
          \<lparr>sr_snapshot_commit = sn_commit snapshot, sr_tree_hash = sn_tree snapshot,
           sr_previous_commit = sn_previous_commit snapshot, sr_source_root = source_root,
           sr_task_sha256 = task_sha256, sr_created_at = created_at, sr_manifest = manifest_of snapshot\<rparr> (t_snapshots db),
        t_source_files := fold (\<lambda>f. insert_or_ignore source_file_key \<lparr>fr_snapshot_commit = sn_commit snapshot, fr_file = f\<rparr>)
          (sn_files snapshot) (t_source_files db)\<rparr>"

definition previous_snapshot :: "store_db \<Rightarrow> string option" where
  "previous_snapshot db = get_metadata ''current_snapshot'' db"

definition snapshot_row_of :: "string \<Rightarrow> store_db \<Rightarrow> snapshot_row option" where
  "snapshot_row_of snapshot db = lookup_row sr_snapshot_commit snapshot (t_snapshots db)"

definition source_file_rows :: "string \<Rightarrow> store_db \<Rightarrow> source_file_row list" where
  "source_file_rows snapshot db =
     sort_key (\<lambda>f. sf_path (fr_file f)) (filter (\<lambda>f. fr_snapshot_commit f = snapshot) (t_source_files db))"

section \<open>Claims\<close>

definition current_claim_rows :: "bool \<Rightarrow> store_db \<Rightarrow> claim_row list" where
  "current_claim_rows include_retired db =
     sort_key (\<lambda>c. (c_source_file c, c_ordinal c, c_claim_id c))
       (filter (\<lambda>c. include_retired \<or> \<not> c_retired c) (t_claims db))"

definition claim_version :: "string \<Rightarrow> string \<Rightarrow> store_db \<Rightarrow> source_object option" where
  "claim_version snapshot claim_id db = map_option v_object (lookup_row version_key (snapshot, claim_id) (t_claim_versions db))"

definition claim_versions :: "string \<Rightarrow> store_db \<Rightarrow> source_object list" where
  "claim_versions snapshot db =
     sort_key (\<lambda>o1. (so_source_file o1, so_ordinal o1, so_claim_id o1))
       (map v_object (filter (\<lambda>v. v_snapshot_commit v = snapshot) (t_claim_versions db)))"

text \<open>The row \<open>replace_current_claims\<close> writes for an object, given the row it finds.\<close>

definition claim_for :: "string \<Rightarrow> int \<Rightarrow> (string \<Rightarrow> claim_state option) \<Rightarrow> source_object \<Rightarrow> claim_row option \<Rightarrow> claim_row" where
  "claim_for snapshot run_id state_updates item prior =
     \<lparr>c_claim_id = so_claim_id item, c_kind = so_kind item, c_source_file = so_source_file item,
      c_environment = so_environment item, c_label = so_label item, c_ordinal = so_ordinal item,
      c_current_statement_hash = so_statement_hash item, c_current_proof_hash = so_proof_hash item,
      c_normalized_statement_hash = so_normalized_statement_hash item, c_current_snapshot = snapshot,
      c_status = (case state_updates (so_claim_id item) of
         Some s \<Rightarrow> s | None \<Rightarrow> (case prior of None \<Rightarrow> DISCOVERED | Some p \<Rightarrow> c_status p)),
      c_lean_declaration = (case prior of None \<Rightarrow> None | Some p \<Rightarrow> c_lean_declaration p),
      c_last_changed_run = Some run_id, c_retired = False\<rparr>"

definition merge_claim :: "claim_row \<Rightarrow> claim_row \<Rightarrow> claim_row" where
  "merge_claim old new = new\<lparr>c_claim_id := c_claim_id old,
     c_lean_declaration := (case c_lean_declaration old of None \<Rightarrow> c_lean_declaration new | Some d \<Rightarrow> Some d),
     c_retired := False\<rparr>"

definition upsert_claim ::
    "string \<Rightarrow> int \<Rightarrow> (string \<Rightarrow> claim_state option) \<Rightarrow> source_object \<Rightarrow> store_db \<Rightarrow> store_db result" where
  "upsert_claim snapshot run_id state_updates item db =
     (let new = claim_for snapshot run_id state_updates item (claim_row_of (so_claim_id item) db)
      in bindE (guarded labels_unique (upsert_row c_claim_id merge_claim new (t_claims db))) (\<lambda>tbl.
         Inr (db\<lparr>t_claims := tbl,
                 t_claim_versions := insert_or_replace version_key
                   \<lparr>v_snapshot_commit = snapshot, v_object = item\<rparr> (t_claim_versions db)\<rparr>)))"

definition replace_current_claims ::
    "string \<Rightarrow> source_object list \<Rightarrow> int \<Rightarrow> (string \<Rightarrow> claim_state option) \<Rightarrow> store_db \<Rightarrow> store_db result" where
  "replace_current_claims snapshot objects run_id state_updates db =
     (let retired = db\<lparr>t_claims := update_where (\<lambda>_. True) (\<lambda>c. c\<lparr>c_retired := True\<rparr>) (t_claims db)\<rparr>
      in bindE (foldE (upsert_claim snapshot run_id state_updates) objects retired) (\<lambda>db1.
         let db2 = (if objects = [] then db1
                    else db1\<lparr>t_claims := update_where (\<lambda>c. c_claim_id c \<notin> so_claim_id ` set objects)
                               (\<lambda>c. c\<lparr>c_retired := True\<rparr>) (t_claims db1)\<rparr>)
         in Inr (set_metadata ''current_snapshot'' snapshot db2)))"

definition set_claim_state ::
    "string \<Rightarrow> claim_state \<Rightarrow> int \<Rightarrow> string \<Rightarrow> string \<Rightarrow> bool \<Rightarrow> store_db \<Rightarrow> store_db" where
  "set_claim_state claim_id state run_id action reason reused db =
     (let before = map_option c_status (claim_row_of claim_id db)
      in db\<lparr>t_claims := update_where (\<lambda>c. c_claim_id c = claim_id)
              (\<lambda>c. c\<lparr>c_status := state, c_last_changed_run := Some run_id\<rparr>) (t_claims db),
            t_run_claims := insert_or_replace run_claim_key
              \<lparr>rc_run_id = run_id, rc_claim_id = claim_id, rc_action = action, rc_state_before = before,
               rc_state_after = Some state, rc_reason = Some reason, rc_reused = reused\<rparr> (t_run_claims db)\<rparr>)"

definition run_claim_rows :: "int \<Rightarrow> store_db \<Rightarrow> run_claim_row list" where
  "run_claim_rows run_id db =
     sort_key (\<lambda>r. (rc_claim_id r, rc_action r)) (filter (\<lambda>r. rc_run_id r = run_id) (t_run_claims db))"

text \<open>\<open>GROUP BY status\<close> over the unretired claims, as a finite map.\<close>

definition summary_counts :: "store_db \<Rightarrow> claim_state \<Rightarrow> nat option" where
  "summary_counts db state =
     (let n = count_where (\<lambda>c. \<not> c_retired c \<and> c_status c = state) (t_claims db)
      in if n = 0 then None else Some n)"

section \<open>The manuscript graph\<close>

definition edge_row_for :: "string \<Rightarrow> manuscript_edge \<Rightarrow> edge_row" where
  "edge_row_for snapshot edge = \<lparr>er_src = e_src edge, er_dst = e_dst edge, er_edge_kind = e_kind edge,
     er_provenance = e_provenance edge, er_approved = e_approved edge, er_first_seen_snapshot = snapshot,
     er_last_seen_snapshot = snapshot, er_active = True\<rparr>"

definition merge_edge :: "edge_row \<Rightarrow> edge_row \<Rightarrow> edge_row" where
  "merge_edge old new = old\<lparr>er_provenance := er_provenance new, er_approved := er_approved new,
     er_last_seen_snapshot := er_last_seen_snapshot new, er_active := True\<rparr>"

definition add_manuscript_edge :: "string \<Rightarrow> manuscript_edge \<Rightarrow> store_db \<Rightarrow> store_db" where
  "add_manuscript_edge snapshot edge db =
     db\<lparr>t_manuscript_edges := upsert_row edge_key merge_edge (edge_row_for snapshot edge) (t_manuscript_edges db)\<rparr>"

definition replace_manuscript_edges :: "string \<Rightarrow> manuscript_edge list \<Rightarrow> store_db \<Rightarrow> store_db" where
  "replace_manuscript_edges snapshot edges db =
     fold (add_manuscript_edge snapshot) edges
       (db\<lparr>t_manuscript_edges := update_where (\<lambda>_. True) (\<lambda>e. e\<lparr>er_active := False\<rparr>) (t_manuscript_edges db)\<rparr>)"

definition manuscript_edges :: "bool \<Rightarrow> store_db \<Rightarrow> edge_row list" where
  "manuscript_edges active_only db =
     sort_key edge_key (filter (\<lambda>e. \<not> active_only \<or> er_active e) (t_manuscript_edges db))"

section \<open>The Lean graph\<close>

definition merge_lean_declaration :: "lean_declaration_row \<Rightarrow> lean_declaration_row \<Rightarrow> lean_declaration_row" where
  "merge_lean_declaration old new = old\<lparr>lr_kind := lr_kind new, lr_type_hash := lr_type_hash new,
     lr_value_hash := lr_value_hash new, lr_axioms := lr_axioms new, lr_last_seen_run := lr_last_seen_run new\<rparr>"

definition store_declaration :: "int \<Rightarrow> lean_declaration \<Rightarrow> store_db \<Rightarrow> store_db" where
  "store_declaration run_id declaration db =
     db\<lparr>t_lean_declarations := upsert_row lr_name merge_lean_declaration
          \<lparr>lr_name = ld_name declaration, lr_kind = ld_kind declaration, lr_type_hash = ld_type_hash declaration,
           lr_value_hash = ld_value_hash declaration, lr_axioms = ld_axioms declaration, lr_last_seen_run = run_id\<rparr>
          (t_lean_declarations db),
        t_lean_edges := fold (\<lambda>dependency. insert_or_replace lean_edge_key
            \<lparr>le_src = ld_name declaration, le_dst = dependency, le_last_seen_run = run_id\<rparr>)
          (ld_direct_dependencies declaration)
          (delete_where (\<lambda>e. le_src e = ld_name declaration) (t_lean_edges db))\<rparr>"

definition replace_lean_graph :: "lean_declaration list \<Rightarrow> int \<Rightarrow> store_db \<Rightarrow> store_db" where
  "replace_lean_graph declarations run_id db =
     (let db1 = fold (store_declaration run_id) declarations db
      in if declarations = [] then db1
         else db1\<lparr>t_lean_edges := delete_where (\<lambda>e. le_src e \<notin> ld_name ` set declarations) (t_lean_edges db1)\<rparr>)"

definition lean_declaration_of :: "string \<Rightarrow> store_db \<Rightarrow> lean_declaration_row option" where
  "lean_declaration_of name db = lookup_row lr_name name (t_lean_declarations db)"

definition lean_dependencies :: "string \<Rightarrow> store_db \<Rightarrow> string list" where
  "lean_dependencies name db = sort (map le_dst (filter (\<lambda>e. le_src e = name) (t_lean_edges db)))"

section \<open>Correspondence and certificates\<close>

definition merge_correspondence :: "correspondence_row \<Rightarrow> correspondence_row \<Rightarrow> correspondence_row" where
  "merge_correspondence old new = old\<lparr>co_lean_declaration := co_lean_declaration new, co_status := co_status new,
     co_provenance := co_provenance new, co_approved := co_approved new, co_last_updated_run := co_last_updated_run new\<rparr>"

definition set_correspondence ::
    "string \<Rightarrow> string \<Rightarrow> int \<Rightarrow> string \<Rightarrow> string \<Rightarrow> bool \<Rightarrow> store_db \<Rightarrow> store_db result" where
  "set_correspondence claim_id declaration run_id status provenance approved db =
     (if claim_row_of claim_id db = None then Inl (KeyError ''Unknown claim'')
      else Inr (db\<lparr>t_correspondence := upsert_row co_claim_id merge_correspondence
                     \<lparr>co_claim_id = claim_id, co_lean_declaration = declaration, co_status = status,
                      co_provenance = provenance, co_approved = approved, co_last_updated_run = run_id\<rparr> (t_correspondence db),
                   t_claims := update_where (\<lambda>c. c_claim_id c = claim_id)
                     (\<lambda>c. c\<lparr>c_lean_declaration := Some declaration\<rparr>) (t_claims db)\<rparr>))"

definition correspondence_rows :: "store_db \<Rightarrow> correspondence_row list" where
  "correspondence_rows db = sort_key co_claim_id (t_correspondence db)"

definition certificate :: "string \<Rightarrow> store_db \<Rightarrow> certificate_row option" where
  "certificate claim_id db = lookup_row ct_claim_id claim_id (t_certificates db)"

text \<open>The \<open>SET\<close> list of the upsert names every column but the key.\<close>

definition merge_certificate :: "certificate_row \<Rightarrow> certificate_row \<Rightarrow> certificate_row" where
  "merge_certificate old new = new\<lparr>ct_claim_id := ct_claim_id old\<rparr>"

definition upsert_certificate :: "certificate_row \<Rightarrow> store_db \<Rightarrow> store_db" where
  "upsert_certificate payload db =
     db\<lparr>t_certificates := upsert_row ct_claim_id merge_certificate payload (t_certificates db)\<rparr>"

definition certificate_rows :: "store_db \<Rightarrow> certificate_row list" where
  "certificate_rows db = sort_key ct_claim_id (t_certificates db)"

definition discard_certificate_for_reproof :: "string \<Rightarrow> int \<Rightarrow> store_db \<Rightarrow> store_db" where
  "discard_certificate_for_reproof claim_id run_id db =
     db\<lparr>t_certificates := delete_where (\<lambda>c. ct_claim_id c = claim_id) (t_certificates db),
        t_correspondence := update_where (\<lambda>c. co_claim_id c = claim_id)
          (\<lambda>c. c\<lparr>co_status := ''stale_reproof_requested'', co_approved := False, co_last_updated_run := run_id\<rparr>)
          (t_correspondence db)\<rparr>"

section \<open>The upserted tables\<close>

interpretation claim_table: upsert_table c_claim_id merge_claim
  by unfold_locales (simp add: merge_claim_def)

interpretation edge_table: upsert_table edge_key merge_edge
  by unfold_locales (simp add: merge_edge_def edge_key_def)

interpretation declaration_table: upsert_table lr_name merge_lean_declaration
  by unfold_locales (simp add: merge_lean_declaration_def)

interpretation correspondence_table: upsert_table co_claim_id merge_correspondence
  by unfold_locales (simp add: merge_correspondence_def)

interpretation certificate_table: upsert_table ct_claim_id merge_certificate
  by unfold_locales (simp add: merge_certificate_def)

section \<open>Replacing the claims\<close>

text \<open>A fresh upsert of the row \<open>claim_for\<close> computes from the row it finds leaves exactly that row.\<close>

lemma merge_claim_for:
  "claim_row_of (so_claim_id item) db = Some old \<Longrightarrow>
   merge_claim old (claim_for snapshot run_id updates item (Some old)) = claim_for snapshot run_id updates item (Some old)"
  by (auto simp: merge_claim_def claim_for_def claim_row_of_def dest!: lookup_row_SomeD split: option.splits)

lemma upsert_claim_lookup:
  assumes "upsert_claim snapshot run_id updates item db = Inr db'"
  shows "claim_row_of cid db' = (if cid = so_claim_id item
      then Some (claim_for snapshot run_id updates item (claim_row_of cid db)) else claim_row_of cid db)"
proof -
  let ?new = "claim_for snapshot run_id updates item (claim_row_of (so_claim_id item) db)"
  have key: "c_claim_id ?new = so_claim_id item" by (simp add: claim_for_def)
  have tbl: "t_claims db' = upsert_row c_claim_id merge_claim ?new (t_claims db)"
    using assms by (auto simp: upsert_claim_def Let_def bindE_Inr_iff)
  show ?thesis
  proof (cases "cid = so_claim_id item")
    case True
    with claim_table.upsert_lookup_same [of ?new "t_claims db"] merge_claim_for [of item db] key tbl
    show ?thesis by (auto simp: claim_row_of_def split: option.splits)
  next
    case False
    with claim_table.upsert_lookup_other [of cid ?new "t_claims db"] key tbl
    show ?thesis by (simp add: claim_row_of_def)
  qed
qed

lemma upsert_claim_frame:
  assumes "upsert_claim snapshot run_id updates item db = Inr db'"
  shows "t_certificates db' = t_certificates db" "t_metadata db' = t_metadata db"
    "labels_unique (t_claims db')"
    "claim_version s cid db' = (if s = snapshot \<and> cid = so_claim_id item then Some item else claim_version s cid db)"
  using assms
  by (auto simp: upsert_claim_def Let_def bindE_Inr_iff claim_version_def lookup_insert_or_replace version_key_def)

lemma upsert_claim_unique:
  assumes "upsert_claim snapshot run_id updates item db = Inr db'" and "unique_on c_claim_id (t_claims db)"
  shows "unique_on c_claim_id (t_claims db')"
  using assms by (auto simp: upsert_claim_def Let_def bindE_Inr_iff intro: claim_table.upsert_unique)

lemma upsert_claims_lookup:
  assumes "foldE (upsert_claim snapshot run_id updates) items db = Inr db'" and "distinct (map so_claim_id items)"
  shows "claim_row_of cid db' = (case find (\<lambda>i. so_claim_id i = cid) items of
      Some i \<Rightarrow> Some (claim_for snapshot run_id updates i (claim_row_of cid db)) | None \<Rightarrow> claim_row_of cid db)"
    and "claim_version s cid db' = (if s = snapshot then (case find (\<lambda>i. so_claim_id i = cid) items of
      Some i \<Rightarrow> Some i | None \<Rightarrow> claim_version s cid db) else claim_version s cid db)"
  using assms
proof (induction items arbitrary: db)
  case Nil
  case 1 then show ?case by simp
  case 2 then show ?case by simp
next
  case (Cons i items)
  have none: "find (\<lambda>j. so_claim_id j = so_claim_id i) items = None" if "so_claim_id i \<notin> so_claim_id ` set items"
    using that by (auto simp: find_None_iff_all image_iff)
  {
    case 1
    then obtain d where d: "upsert_claim snapshot run_id updates i db = Inr d" "foldE (upsert_claim snapshot run_id updates) items d = Inr db'"
      by (auto simp: bindE_Inr_iff)
    from Cons.IH(1) [OF d(2)] upsert_claim_lookup [OF d(1)] none 1 show ?case
      by (auto split: option.splits)
  next
    case 2
    then obtain d where d: "upsert_claim snapshot run_id updates i db = Inr d" "foldE (upsert_claim snapshot run_id updates) items d = Inr db'"
      by (auto simp: bindE_Inr_iff)
    from Cons.IH(2) [OF d(2)] upsert_claim_frame(4) [OF d(1)] none 2 show ?case
      by (auto split: option.splits)
  }
qed

lemma upsert_claims_frame:
  assumes "foldE (upsert_claim snapshot run_id updates) items db = Inr db'"
  shows "t_certificates db' = t_certificates db \<and> t_metadata db' = t_metadata db
    \<and> (unique_on c_claim_id (t_claims db) \<longrightarrow> unique_on c_claim_id (t_claims db'))
    \<and> (labels_unique (t_claims db) \<longrightarrow> labels_unique (t_claims db'))"
  by (rule foldE_invariant [where I = "\<lambda>d. t_certificates d = t_certificates db \<and> t_metadata d = t_metadata db
        \<and> (unique_on c_claim_id (t_claims db) \<longrightarrow> unique_on c_claim_id (t_claims d))
        \<and> (labels_unique (t_claims db) \<longrightarrow> labels_unique (t_claims d))", OF assms])
     (auto simp: upsert_claim_frame dest: upsert_claim_unique)

text \<open>\<open>labels_unique\<close> over the lookups of a table whose ids are unique.\<close>

lemma labels_unique_lookup:
  assumes "unique_on c_claim_id tbl"
  shows "labels_unique tbl \<longleftrightarrow> (\<forall>a b r r'. lookup_row c_claim_id a tbl = Some r \<longrightarrow> lookup_row c_claim_id b tbl = Some r' \<longrightarrow>
     labelled r \<longrightarrow> labelled r' \<longrightarrow> c_label r = c_label r' \<longrightarrow> a = b)"
proof -
  have dist: "distinct tbl" using assms by (simp add: unique_on_def distinct_map)
  have id: "c_claim_id r = c_claim_id r' \<longleftrightarrow> r = r'" if "r \<in> set tbl" "r' \<in> set tbl" for r r'
    using assms that by (auto simp: unique_on_def distinct_map inj_on_def)
  have "labels_unique tbl \<longleftrightarrow> inj_on c_label {r \<in> set tbl. labelled r}"
    using dist by (auto simp: labels_unique_def unique_on_def distinct_map)
  also have "\<dots> \<longleftrightarrow> (\<forall>r\<in>set tbl. \<forall>r'\<in>set tbl. labelled r \<longrightarrow> labelled r' \<longrightarrow> c_label r = c_label r' \<longrightarrow> c_claim_id r = c_claim_id r')"
    using id by (auto simp: inj_on_def)
  finally have inj: "labels_unique tbl \<longleftrightarrow>
    (\<forall>r\<in>set tbl. \<forall>r'\<in>set tbl. labelled r \<longrightarrow> labelled r' \<longrightarrow> c_label r = c_label r' \<longrightarrow> c_claim_id r = c_claim_id r')" .
  show ?thesis
    unfolding inj
  proof (intro iffI allI ballI impI)
    fix a b r r'
    assume *: "\<forall>r\<in>set tbl. \<forall>r'\<in>set tbl. labelled r \<longrightarrow> labelled r' \<longrightarrow> c_label r = c_label r' \<longrightarrow> c_claim_id r = c_claim_id r'"
      "labelled r" "labelled r'" "c_label r = c_label r'"
      and look: "lookup_row c_claim_id a tbl = Some r" "lookup_row c_claim_id b tbl = Some r'"
    from look [THEN lookup_row_SomeD] * show "a = b" by blast
  next
    fix r r'
    assume *: "\<forall>a b r r'. lookup_row c_claim_id a tbl = Some r \<longrightarrow> lookup_row c_claim_id b tbl = Some r' \<longrightarrow>
        labelled r \<longrightarrow> labelled r' \<longrightarrow> c_label r = c_label r' \<longrightarrow> a = b"
      "labelled r" "labelled r'" "c_label r = c_label r'" and "r \<in> set tbl" "r' \<in> set tbl"
    from lookup_row_unique [OF assms this(5)] lookup_row_unique [OF assms this(6)] * show "c_claim_id r = c_claim_id r'"
      by blast
  qed
qed

text \<open>Which objects are unretired in the table, while the loop runs.\<close>

definition tracks :: "store_db \<Rightarrow> source_object list \<Rightarrow> bool" where
  "tracks db seen \<longleftrightarrow> unique_on c_claim_id (t_claims db)
     \<and> (\<forall>j\<in>set seen. \<exists>r. claim_row_of (so_claim_id j) db = Some r \<and> \<not> c_retired r \<and> c_label r = so_label j)
     \<and> (\<forall>cid r. claim_row_of cid db = Some r \<longrightarrow> \<not> c_retired r \<longrightarrow> cid \<in> so_claim_id ` set seen)"

definition labels_clash :: "source_object list \<Rightarrow> bool" where
  "labels_clash objects \<longleftrightarrow> (\<exists>j\<in>set objects. \<exists>k\<in>set objects.
     so_claim_id j \<noteq> so_claim_id k \<and> so_label j \<noteq> None \<and> so_label j = so_label k)"

lemma tracks_labels_unique:
  assumes "tracks db seen"
  shows "labels_unique (t_claims db) \<longleftrightarrow> \<not> labels_clash seen"
proof -
  have u: "unique_on c_claim_id (t_claims db)" using assms by (simp add: tracks_def)
  note iff = labels_unique_lookup [OF u, folded claim_row_of_def]
  show ?thesis
  proof
    assume lu: "labels_unique (t_claims db)"
    show "\<not> labels_clash seen"
    proof
      assume "labels_clash seen"
      then obtain j k where jk: "j \<in> set seen" "k \<in> set seen" "so_claim_id j \<noteq> so_claim_id k"
          "so_label j \<noteq> None" "so_label j = so_label k" unfolding labels_clash_def by blast
      obtain r r' where "claim_row_of (so_claim_id j) db = Some r" "labelled r" "c_label r = so_label j"
          "claim_row_of (so_claim_id k) db = Some r'" "labelled r'" "c_label r' = so_label k"
        using assms jk by (auto simp: tracks_def labelled_def) (metis jk(4) not_None_eq)
      with lu iff jk show False by metis
    qed
  next
    assume no: "\<not> labels_clash seen"
    show "labels_unique (t_claims db)"
      unfolding iff
    proof (intro allI impI)
      fix a b r r'
      assume rows: "claim_row_of a db = Some r" "claim_row_of b db = Some r'" "labelled r" "labelled r'" "c_label r = c_label r'"
      then obtain j k where jk: "j \<in> set seen" "so_claim_id j = a" "k \<in> set seen" "so_claim_id k = b"
        using assms by (auto simp: tracks_def labelled_def image_iff) metis
      have "c_label r = so_label j" "c_label r' = so_label k"
        using assms jk rows by (auto simp: tracks_def)
      then have "so_label j \<noteq> None" "so_label j = so_label k" using rows(3,5) by (simp_all add: labelled_def)
      with no jk show "a = b" unfolding labels_clash_def by blast
    qed
  qed
qed

lemma tracks_step:
  assumes "tracks db seen" and "so_claim_id item \<notin> so_claim_id ` set seen"
    and "t_claims db' = upsert_row c_claim_id merge_claim (claim_for snapshot run_id updates item (claim_row_of (so_claim_id item) db)) (t_claims db)"
  shows "tracks db' (seen @ [item])"
proof -
  let ?new = "claim_for snapshot run_id updates item (claim_row_of (so_claim_id item) db)"
  have key: "c_claim_id ?new = so_claim_id item" by (simp add: claim_for_def)
  have u: "unique_on c_claim_id (t_claims db')"
    using assms(1,3) by (simp add: tracks_def claim_table.upsert_unique)
  have same: "claim_row_of (so_claim_id item) db' = Some ?new"
    using claim_table.upsert_lookup_same [of ?new "t_claims db"] merge_claim_for [of item db] key assms(3)
    by (auto simp: claim_row_of_def split: option.splits)
  have other: "claim_row_of cid db' = claim_row_of cid db" if "cid \<noteq> so_claim_id item" for cid
    using claim_table.upsert_lookup_other [of cid ?new "t_claims db"] that key assms(3) by (simp add: claim_row_of_def)
  have new: "\<not> c_retired ?new" "c_label ?new = so_label item" by (simp_all add: claim_for_def)
  have "\<exists>r. claim_row_of (so_claim_id j) db' = Some r \<and> \<not> c_retired r \<and> c_label r = so_label j"
    if "j \<in> set (seen @ [item])" for j
  proof (cases "j = item")
    case True
    with same new show ?thesis by simp
  next
    case False
    with that have "j \<in> set seen" by simp
    with assms(1,2) other [of "so_claim_id j"] show ?thesis by (force simp: tracks_def)
  qed
  moreover have "cid \<in> so_claim_id ` set (seen @ [item])" if "claim_row_of cid db' = Some r" "\<not> c_retired r" for cid r
    using that other assms(1) by (cases "cid = so_claim_id item") (auto simp: tracks_def)
  ultimately show ?thesis using u by (simp add: tracks_def)
qed

lemma upsert_claims_succeed_iff:
  assumes "tracks db seen" and "distinct (map so_claim_id (seen @ items))" and "\<not> labels_clash seen"
  shows "(\<exists>db'. foldE (upsert_claim snapshot run_id updates) items db = Inr db') \<longleftrightarrow> \<not> labels_clash (seen @ items)"
  using assms
proof (induction items arbitrary: db seen)
  case Nil
  then show ?case by simp
next
  case (Cons item items)
  let ?new = "claim_for snapshot run_id updates item (claim_row_of (so_claim_id item) db)"
  let ?tbl = "upsert_row c_claim_id merge_claim ?new (t_claims db)"
  let ?db = "db\<lparr>t_claims := ?tbl, t_claim_versions := insert_or_replace version_key
      \<lparr>v_snapshot_commit = snapshot, v_object = item\<rparr> (t_claim_versions db)\<rparr>"
  have step: "tracks ?db (seen @ [item])"
    by (rule tracks_step [OF Cons.prems(1)]) (use Cons.prems(2) in auto)
  have ok: "labels_unique ?tbl \<longleftrightarrow> \<not> labels_clash (seen @ [item])"
    using tracks_labels_unique [OF step] by simp
  have run: "upsert_claim snapshot run_id updates item db
      = (if labels_clash (seen @ [item]) then Inl (IntegrityError ''UNIQUE constraint failed'') else Inr ?db)"
    using ok by (simp add: upsert_claim_def Let_def guarded_def)
  show ?case
  proof (cases "labels_clash (seen @ [item])")
    case True
    then have "labels_clash (seen @ item # items)"
      unfolding labels_clash_def set_append list.set by blast
    with True run show ?thesis by simp
  next
    case False
    with Cons.IH [OF step _ False] Cons.prems(2) run show ?thesis by simp
  qed
qed

lemma retire_all_tracks:
  assumes "unique_on c_claim_id (t_claims db)"
  shows "tracks (db\<lparr>t_claims := update_where (\<lambda>_. True) (\<lambda>c. c\<lparr>c_retired := True\<rparr>) (t_claims db)\<rparr>) []"
  using assms by (auto simp: tracks_def unique_on_update_where claim_row_of_def lookup_row_update_where)

lemma no_labels_clash_Nil [simp]: "\<not> labels_clash []"
  by (simp add: labels_clash_def)

lemma find_claim_id:
  assumes "distinct (map so_claim_id objects)" and "item \<in> set objects"
  shows "find (\<lambda>i. so_claim_id i = so_claim_id item) objects = Some item"
  using assms by (induction objects) (auto simp: image_iff)

lemma replace_claims_effect:
  assumes "store_inv db" and "distinct (map so_claim_id objects)"
    and "replace_current_claims snapshot objects run_id updates db = Inr db'"
  shows "(\<forall>item\<in>set objects. \<exists>row. claim_row_of (so_claim_id item) db' = Some row \<and> \<not> c_retired row
        \<and> c_label row = so_label item \<and> c_normalized_statement_hash row = so_normalized_statement_hash item
        \<and> c_status row = (case updates (so_claim_id item) of Some s \<Rightarrow> s | None \<Rightarrow>
             (case claim_row_of (so_claim_id item) db of None \<Rightarrow> DISCOVERED | Some p \<Rightarrow> c_status p))
        \<and> c_lean_declaration row = Option.bind (claim_row_of (so_claim_id item) db) c_lean_declaration
        \<and> claim_version snapshot (so_claim_id item) db' = Some item)
    \<and> (\<forall>cid. cid \<notin> so_claim_id ` set objects \<longrightarrow>
         claim_row_of cid db' = map_option (\<lambda>c. c\<lparr>c_retired := True\<rparr>) (claim_row_of cid db))
    \<and> previous_snapshot db' = Some snapshot \<and> t_certificates db' = t_certificates db"
proof -
  let ?r = "db\<lparr>t_claims := update_where (\<lambda>_. True) (\<lambda>c. c\<lparr>c_retired := True\<rparr>) (t_claims db)\<rparr>"
  obtain d where d: "foldE (upsert_claim snapshot run_id updates) objects ?r = Inr d"
    using assms(3) by (auto simp: replace_current_claims_def Let_def bindE_Inr_iff)
  let ?tbl = "if objects = [] then t_claims d
     else update_where (\<lambda>c. c_claim_id c \<notin> so_claim_id ` set objects) (\<lambda>c. c\<lparr>c_retired := True\<rparr>) (t_claims d)"
  have db': "t_claims db' = ?tbl" "t_claim_versions db' = t_claim_versions d" "t_certificates db' = t_certificates d"
      "get_metadata ''current_snapshot'' db' = Some snapshot"
    using assms(3) d by (auto simp: replace_current_claims_def Let_def set_metadata_def get_set_metadata [unfolded set_metadata_def])
  have ret: "claim_row_of cid ?r = map_option (\<lambda>c. c\<lparr>c_retired := True\<rparr>) (claim_row_of cid db)" for cid
    by (simp add: claim_row_of_def lookup_row_update_where)
  note look = upsert_claims_lookup [OF d assms(2)]
  have rows: "claim_row_of cid db' = map_option (\<lambda>c. if objects \<noteq> [] \<and> cid \<notin> so_claim_id ` set objects
      then c\<lparr>c_retired := True\<rparr> else c) (claim_row_of cid d)" for cid
    by (cases "claim_row_of cid d")
       (auto simp: claim_row_of_def db'(1) lookup_row_update_where dest: lookup_row_SomeD)
  have item: "claim_row_of (so_claim_id item) db' = Some (claim_for snapshot run_id updates item (claim_row_of (so_claim_id item) ?r))"
      "claim_version snapshot (so_claim_id item) db' = Some item" if "item \<in> set objects" for item
    using that look find_claim_id [OF assms(2) that] rows [of "so_claim_id item"]
    by (simp_all add: claim_version_def db'(2))
  have gone: "claim_row_of cid db' = map_option (\<lambda>c. c\<lparr>c_retired := True\<rparr>) (claim_row_of cid db)"
    if "cid \<notin> so_claim_id ` set objects" for cid
  proof -
    have "find (\<lambda>i. so_claim_id i = cid) objects = None" using that by (auto simp: find_None_iff_all)
    with look(1) [of cid] ret rows [of cid] show ?thesis by (cases "claim_row_of cid db") simp_all
  qed
  have "t_certificates d = t_certificates db" using upsert_claims_frame [OF d] by simp
  then show ?thesis
    using item gone db'(3,4) ret
    by (auto simp: claim_for_def previous_snapshot_def Option.bind_def split: option.splits)
qed

section \<open>Properties\<close>

text \<open>A new source snapshot replaces the claims atomically: it raises exactly when two of its objects with
  different claim ids carry the same label (claim ids being distinct), and then nothing changes.\<close>

theorem replace_claims_raises_iff_label_clash:
  assumes "store_inv db" and "distinct (map so_claim_id objects)"
  shows "(\<exists>e. replace_current_claims snapshot objects run_id updates db = Inl e) \<longleftrightarrow> labels_clash objects"
proof -
  let ?r = "db\<lparr>t_claims := update_where (\<lambda>_. True) (\<lambda>c. c\<lparr>c_retired := True\<rparr>) (t_claims db)\<rparr>"
  have "(\<exists>d. foldE (upsert_claim snapshot run_id updates) objects ?r = Inr d) \<longleftrightarrow> \<not> labels_clash ([] @ objects)"
    by (rule upsert_claims_succeed_iff [OF retire_all_tracks [OF store_invD(4) [OF assms(1)]]]) (use assms(2) in simp_all)
  then show ?thesis
    by (cases "foldE (upsert_claim snapshot run_id updates) objects ?r") (auto simp: replace_current_claims_def Let_def)
qed

text \<open>After a replacement the store describes exactly the new snapshot: the unretired claims are the
  objects, each keeps its state (unless the update sets one; new claims start DISCOVERED) and its Lean
  declaration, each version reads back as the object, claims that left the source are kept but retired
  with their state, and no certificate is touched.\<close>

theorem replace_claims_exact:
  assumes "store_inv db" and "distinct (map so_claim_id objects)"
    and "replace_current_claims snapshot objects run_id updates db = Inr db'"
  shows "(\<forall>item\<in>set objects. \<exists>row. claim_row_of (so_claim_id item) db' = Some row \<and> \<not> c_retired row
        \<and> c_label row = so_label item \<and> c_normalized_statement_hash row = so_normalized_statement_hash item
        \<and> c_status row = (case updates (so_claim_id item) of Some s \<Rightarrow> s | None \<Rightarrow>
             (case claim_row_of (so_claim_id item) db of None \<Rightarrow> DISCOVERED | Some p \<Rightarrow> c_status p))
        \<and> c_lean_declaration row = Option.bind (claim_row_of (so_claim_id item) db) c_lean_declaration
        \<and> claim_version snapshot (so_claim_id item) db' = Some item)
    \<and> (\<forall>cid. cid \<notin> so_claim_id ` set objects \<longrightarrow>
         claim_row_of cid db' = map_option (\<lambda>c. c\<lparr>c_retired := True\<rparr>) (claim_row_of cid db))
    \<and> previous_snapshot db' = Some snapshot \<and> t_certificates db' = t_certificates db"
  by (rule replace_claims_effect [OF assms])

definition ex_item :: "string \<Rightarrow> string option \<Rightarrow> source_object" where
  "ex_item cid label = \<lparr>so_claim_id = cid, so_kind = ''lemma'', so_source_file = ''a.tex'', so_environment = ''lemma'',
     so_label = label, so_ordinal = 1, so_statement_start = 1, so_statement_end = 2, so_statement_byte_start = 0,
     so_statement_byte_end = 9, so_proof_start = None, so_proof_end = None, so_proof_byte_start = None,
     so_proof_byte_end = None, so_statement_hash = ''h'', so_proof_hash = ''p'', so_normalized_statement_hash = ''n'',
     so_statement_text = [], so_proof_text = [], so_references = [], so_assistant_context = [], so_assistant_references = []\<rparr>"

theorem replace_claims_raises_iff_label_clash_witness:
  "\<exists>e. replace_current_claims ''s2'' [ex_item ''x'' (Some ''l''), ex_item ''y'' (Some ''l'')] 2 (\<lambda>_. None) ex_store = Inl e"
  using replace_claims_raises_iff_label_clash [OF ex_store_inv, of "[ex_item ''x'' (Some ''l''), ex_item ''y'' (Some ''l'')]" "''s2''" 2 "\<lambda>_. None"]
  by (simp add: labels_clash_def ex_item_def)

theorem replace_claims_exact_witness:
  "\<exists>db' row. replace_current_claims ''s2'' [ex_item ''b'' None] 2 (\<lambda>_. None) ex_store = Inr db'
     \<and> claim_row_of ''b'' db' = Some row \<and> c_status row = CERTIFIED \<and> previous_snapshot db' = Some ''s2''"
proof -
  let ?r = "replace_current_claims ''s2'' [ex_item ''b'' None] 2 (\<lambda>_. None) ex_store"
  have "\<not> isl ?r" by code_simp
  then obtain db' where r: "?r = Inr db'" by (cases ?r) auto
  have "map_option c_status (claim_row_of ''b'' ex_store) = Some CERTIFIED" by code_simp
  with replace_claims_exact [OF ex_store_inv _ r] r show ?thesis by (auto simp: ex_item_def)
qed

lemma add_edge_lookup:
  "lookup_row edge_key k (t_manuscript_edges (add_manuscript_edge snapshot e db)) =
     (if k = edge_order e
      then Some (case lookup_row edge_key k (t_manuscript_edges db) of
             None \<Rightarrow> edge_row_for snapshot e | Some old \<Rightarrow> merge_edge old (edge_row_for snapshot e))
      else lookup_row edge_key k (t_manuscript_edges db))"
proof -
  have key: "edge_key (edge_row_for snapshot e) = edge_order e" by (simp add: edge_key_def edge_row_for_def edge_order_def)
  show ?thesis
    using edge_table.upsert_lookup_same [of "edge_row_for snapshot e" "t_manuscript_edges db"]
      edge_table.upsert_lookup_other [of k "edge_row_for snapshot e" "t_manuscript_edges db"]
    by (auto simp: add_manuscript_edge_def key split: option.splits)
qed

lemma add_edges_lookup:
  assumes "distinct (map edge_order edges)"
  shows "lookup_row edge_key k (t_manuscript_edges (fold (add_manuscript_edge snapshot) edges db)) =
    (case find (\<lambda>e. edge_order e = k) edges of
       Some e \<Rightarrow> Some (case lookup_row edge_key k (t_manuscript_edges db) of
             None \<Rightarrow> edge_row_for snapshot e | Some old \<Rightarrow> merge_edge old (edge_row_for snapshot e))
     | None \<Rightarrow> lookup_row edge_key k (t_manuscript_edges db))"
  using assms
proof (induction edges arbitrary: db)
  case Nil
  then show ?case by simp
next
  case (Cons e edges)
  have "find (\<lambda>x. edge_order x = edge_order e) edges = None"
    using Cons.prems by (auto simp: find_None_iff_all image_iff)
  with Cons show ?case by (auto simp: add_edge_lookup split: option.splits)
qed

lemma add_edges_frame:
  "unique_on edge_key (t_manuscript_edges db) \<Longrightarrow> unique_on edge_key (t_manuscript_edges (fold (add_manuscript_edge snapshot) edges db))"
  by (induction edges arbitrary: db) (simp_all add: add_manuscript_edge_def edge_table.upsert_unique)

text \<open>The manuscript graph is replaced, not rewritten: the active edges are exactly the given ones with
  their provenance and approval, an edge seen before keeps the snapshot it was first seen in, and edges
  that disappeared stay in the table as inactive.\<close>

theorem replace_manuscript_edges_exact:
  assumes "store_inv db" and "distinct (map edge_order edges)"
    and "db' = replace_manuscript_edges snapshot edges db"
  shows "map edge_key (manuscript_edges True db') = sort (map edge_order edges)
    \<and> (\<forall>e\<in>set edges. \<exists>row. lookup_row edge_key (edge_order e) (t_manuscript_edges db') = Some row
         \<and> er_active row \<and> er_provenance row = e_provenance e \<and> er_approved row = e_approved e
         \<and> er_last_seen_snapshot row = snapshot
         \<and> er_first_seen_snapshot row = (case lookup_row edge_key (edge_order e) (t_manuscript_edges db) of
              None \<Rightarrow> snapshot | Some old \<Rightarrow> er_first_seen_snapshot old))
    \<and> (\<forall>k. k \<notin> edge_order ` set edges \<longrightarrow> lookup_row edge_key k (t_manuscript_edges db')
         = map_option (\<lambda>e. e\<lparr>er_active := False\<rparr>) (lookup_row edge_key k (t_manuscript_edges db)))"
proof -
  let ?db0 = "db\<lparr>t_manuscript_edges := update_where (\<lambda>_. True) (\<lambda>e. e\<lparr>er_active := False\<rparr>) (t_manuscript_edges db)\<rparr>"
  have keyf: "edge_key (e\<lparr>er_active := False\<rparr>) = edge_key e" for e by (simp add: edge_key_def)
  have u0: "unique_on edge_key (t_manuscript_edges ?db0)" using store_invD(7) [OF assms(1)] by (simp add: unique_on_update_where keyf)
  have u: "unique_on edge_key (t_manuscript_edges db')"
    unfolding assms(3) replace_manuscript_edges_def by (rule add_edges_frame [OF u0])
  have base: "lookup_row edge_key k (t_manuscript_edges ?db0) = map_option (\<lambda>e. e\<lparr>er_active := False\<rparr>) (lookup_row edge_key k (t_manuscript_edges db))" for k
    by (simp add: lookup_row_update_where keyf)
  note look = add_edges_lookup [OF assms(2), of _ snapshot ?db0, folded replace_manuscript_edges_def assms(3), unfolded base]
  have found: "find (\<lambda>x. edge_order x = edge_order e) edges = Some e" if "e \<in> set edges" for e
    using that assms(2) by (induction edges) (auto simp: image_iff)
  have gone: "lookup_row edge_key k (t_manuscript_edges db') = map_option (\<lambda>e. e\<lparr>er_active := False\<rparr>) (lookup_row edge_key k (t_manuscript_edges db))"
    if "k \<notin> edge_order ` set edges" for k
  proof -
    have "find (\<lambda>e. edge_order e = k) edges = None" using that by (auto simp: find_None_iff_all)
    then show ?thesis by (simp add: look)
  qed
  have kept: "\<exists>row. lookup_row edge_key (edge_order e) (t_manuscript_edges db') = Some row
         \<and> er_active row \<and> er_provenance row = e_provenance e \<and> er_approved row = e_approved e
         \<and> er_last_seen_snapshot row = snapshot
         \<and> er_first_seen_snapshot row = (case lookup_row edge_key (edge_order e) (t_manuscript_edges db) of
              None \<Rightarrow> snapshot | Some old \<Rightarrow> er_first_seen_snapshot old)" if "e \<in> set edges" for e
    by (auto simp: look found [OF that] merge_edge_def edge_row_for_def split: option.splits)
  have "set (map edge_key (filter er_active (t_manuscript_edges db'))) = edge_order ` set edges"
  proof (intro equalityI subsetI)
    fix k assume "k \<in> set (map edge_key (filter er_active (t_manuscript_edges db')))"
    then obtain r where r: "r \<in> set (t_manuscript_edges db')" "er_active r" "k = edge_key r" by auto
    show "k \<in> edge_order ` set edges"
    proof (rule ccontr)
      assume "k \<notin> edge_order ` set edges"
      with gone [of k] lookup_row_unique [OF u r(1)] r(3)
      have "Some r = map_option (\<lambda>e. e\<lparr>er_active := False\<rparr>) (lookup_row edge_key k (t_manuscript_edges db))" by simp
      with r(2) show False by (cases "lookup_row edge_key k (t_manuscript_edges db)") auto
    qed
  next
    fix k assume "k \<in> edge_order ` set edges"
    then show "k \<in> set (map edge_key (filter er_active (t_manuscript_edges db')))"
      using kept lookup_row_SomeD by (fastforce simp: image_iff)
  qed
  then have "map edge_key (manuscript_edges True db') = sort (map edge_order edges)"
    using u assms(2)
    by (intro sorted_distinct_set_unique) (auto simp: manuscript_edges_def distinct_map_sort_key distinct_map_filter unique_on_def)
  with kept gone show ?thesis by blast
qed

theorem replace_manuscript_edges_exact_witness:
  "\<exists>row. lookup_row edge_key (''a'', ''b'', ''uses'') (t_manuscript_edges
      (replace_manuscript_edges ''s2'' [ex_edge ''a'' ''b''] (add_manuscript_edge ''s1'' (ex_edge ''a'' ''b'') ex_store))) = Some row
     \<and> er_first_seen_snapshot row = ''s1'' \<and> er_last_seen_snapshot row = ''s2''"
proof -
  let ?db = "add_manuscript_edge ''s1'' (ex_edge ''a'' ''b'') ex_store"
  have none: "t_manuscript_edges ex_store = []" by (simp add: ex_store_def begin_run_def Let_def empty_store_def)
  have inv: "store_inv ?db"
    using ex_store_inv none by (simp add: store_inv_def add_manuscript_edge_def upsert_row_def unique_on_def)
  have key: "edge_order (ex_edge ''a'' ''b'') = (''a'', ''b'', ''uses'')" by (simp add: edge_order_def ex_edge_def)
  have old: "lookup_row edge_key (''a'', ''b'', ''uses'') (t_manuscript_edges ?db) = Some (edge_row_for ''s1'' (ex_edge ''a'' ''b''))"
    using key by (simp add: add_edge_lookup none)
  from replace_manuscript_edges_exact [OF inv _ refl, of "[ex_edge ''a'' ''b'']" "''s2''"]
  show ?thesis by (auto simp: key old edge_row_for_def)
qed

end
