(* ===== verification/Store_Questions.thy ===== *)
theory Store_Questions
  imports Store_Claims
begin

text \<open>
  Clarification questions, their analyses and the diagnostics of \<^verbatim>\<open>incremental/store.py\<close>. Question ids are
  \<open>Q0001\<close>, \<open>Q0002\<close>, ...: the next one is computed in SQL from the numeric part of the stored ids.
\<close>

definition CLARIFICATION_ORIGINS :: "string set" where
  "CLARIFICATION_ORIGINS = {''HOST_POLICY'', ''PROOF_WORKER'', ''LEGACY_UNKNOWN''}"

definition question_numbers :: "store_db \<Rightarrow> int list" where
  "question_numbers db = map (\<lambda>q. sql_cast_integer (drop 1 (q_question_id q))) (t_clarifications db)"

definition next_question_id :: "store_db \<Rightarrow> string" where
  "next_question_id db =
     (let maximum = (if question_numbers db = [] then 0 else Max (set (question_numbers db)))
      in CHR ''Q'' # format_padded 4 (maximum + 1))"

definition open_question_of :: "string \<Rightarrow> store_db \<Rightarrow> question_row option" where
  "open_question_of claim_id db = find (\<lambda>q. q_claim_id q = claim_id \<and> is_open q) (t_clarifications db)"

definition create_question ::
    "string \<Rightarrow> string \<Rightarrow> string \<Rightarrow> string \<Rightarrow> string \<Rightarrow> string list \<Rightarrow> string list \<Rightarrow> int \<Rightarrow> string
     \<Rightarrow> store_db \<Rightarrow> (store_db \<times> string) result" where
  "create_question claim_id snapshot category passage problem resolutions blocking run_id origin db =
     (if claim_row_of claim_id db = None then Inl (KeyError ''Unknown claim'')
      else if origin \<notin> CLARIFICATION_ORIGINS then Inl (ValueError ''Invalid clarification origin'')
      else case open_question_of claim_id db of
             Some existing \<Rightarrow> Inr (db, q_question_id existing)
           | None \<Rightarrow>
               let question_id = next_question_id db;
                   row = \<lparr>q_question_id = question_id, q_claim_id = claim_id, q_snapshot_commit = snapshot,
                          q_category = category, q_passage = passage, q_problem = problem, q_resolutions = resolutions,
                          q_blocking_claims = blocking, q_status = ''OPEN'', q_created_run = run_id,
                          q_resolved_run = None, q_resolution = None, q_origin = origin\<rparr>
               in bindE (insert_row q_question_id row (t_clarifications db)) (\<lambda>tbl.
                  bindE (guarded open_unique tbl) (\<lambda>tbl.
                  Inr (db\<lparr>t_clarifications := tbl\<rparr>, question_id))))"

definition open_questions :: "store_db \<Rightarrow> question_row list" where
  "open_questions db = sort_key q_question_id (filter is_open (t_clarifications db))"

definition refresh_open_question ::
    "string \<Rightarrow> string \<Rightarrow> string \<Rightarrow> string \<Rightarrow> string \<Rightarrow> string list \<Rightarrow> string list \<Rightarrow> string option
     \<Rightarrow> store_db \<Rightarrow> store_db result" where
  "refresh_open_question claim_id snapshot category passage problem resolutions blocking origin db =
     (if (\<exists>o'\<in>set_option origin. o' \<notin> CLARIFICATION_ORIGINS) then Inl (ValueError ''Invalid clarification origin'')
      else if (case (origin, open_question_of claim_id db) of
                 (Some o', Some existing) \<Rightarrow> q_origin existing \<noteq> ''LEGACY_UNKNOWN'' \<and> q_origin existing \<noteq> o'
               | _ \<Rightarrow> False)
      then Inl (ValueError ''Clarification origin is immutable'')
      else Inr (db\<lparr>t_clarifications := update_where (\<lambda>q. q_claim_id q = claim_id \<and> is_open q)
             (\<lambda>q. q\<lparr>q_snapshot_commit := snapshot, q_category := category, q_passage := passage, q_problem := problem,
                    q_resolutions := resolutions, q_blocking_claims := sorted_list_of_set (set blocking)\<rparr>)
             (t_clarifications db)\<rparr>))"

definition clarification_analysis :: "string \<Rightarrow> string \<Rightarrow> store_db \<Rightarrow> analysis_row option" where
  "clarification_analysis question_id evidence_sha256 db =
     lookup_row analysis_key (question_id, evidence_sha256) (t_analyses db)"

text \<open>\<open>INSERT OR IGNORE\<close>; an AUTOINCREMENT id is taken only by an inserted row.\<close>

definition append_clarification_analysis ::
    "string \<Rightarrow> string \<Rightarrow> string \<Rightarrow> string \<Rightarrow> store_db \<Rightarrow> (store_db \<times> analysis_row) result" where
  "append_clarification_analysis question_id evidence_sha256 status analysis db =
     (let fresh = (clarification_analysis question_id evidence_sha256 db = None);
          row = \<lparr>an_analysis_id = t_next_analysis_id db, an_question_id = question_id,
                 an_evidence_sha256 = evidence_sha256, an_status = status, an_analysis = analysis\<rparr>;
          db' = db\<lparr>t_analyses := insert_or_ignore analysis_key row (t_analyses db),
                   t_next_analysis_id := t_next_analysis_id db + of_bool fresh\<rparr>
      in case clarification_analysis question_id evidence_sha256 db' of
           None \<Rightarrow> Inl (RuntimeError ''Clarification analysis was not persisted'')
         | Some r \<Rightarrow> Inr (db', r))"

definition question_row_of :: "string \<Rightarrow> store_db \<Rightarrow> question_row option" where
  "question_row_of question_id db = lookup_row q_question_id question_id (t_clarifications db)"

definition resolve_question ::
    "string \<Rightarrow> int option \<Rightarrow> string \<Rightarrow> string \<Rightarrow> store_db \<Rightarrow> (store_db \<times> bool) result" where
  "resolve_question question_id run_id resolution status db =
     (if status \<notin> {''RESOLVED'', ''DISMISSED'', ''SUPERSEDED''} then Inl (ValueError ''Invalid question resolution state'')
      else let open_row = (\<lambda>q. q_question_id q = question_id \<and> is_open q)
           in Inr (db\<lparr>t_clarifications := update_where open_row
                        (\<lambda>q. q\<lparr>q_status := status, q_resolved_run := run_id, q_resolution := Some resolution\<rparr>)
                        (t_clarifications db)\<rparr>,
                   count_where open_row (t_clarifications db) = 1))"

definition add_diagnostic :: "int \<Rightarrow> string \<Rightarrow> string \<Rightarrow> string option \<Rightarrow> string \<Rightarrow> store_db \<Rightarrow> store_db" where
  "add_diagnostic run_id category message claim_id details db =
     db\<lparr>t_diagnostics := t_diagnostics db @ [\<lparr>dg_diagnostic_id = t_next_diagnostic_id db, dg_run_id = run_id,
          dg_claim_id = claim_id, dg_category = category, dg_message = message, dg_details = details\<rparr>],
        t_next_diagnostic_id := t_next_diagnostic_id db + 1\<rparr>"

definition diagnostics_for_run :: "int \<Rightarrow> store_db \<Rightarrow> diagnostic_row list" where
  "diagnostics_for_run run_id db =
     sort_key dg_diagnostic_id (filter (\<lambda>d. dg_run_id d = run_id) (t_diagnostics db))"

lemma filter_unique_row:
  "unique_on key tbl \<Longrightarrow> lookup_row key k tbl = Some r \<Longrightarrow> P r \<Longrightarrow> filter (\<lambda>x. key x = k \<and> P x) tbl = [r]"
  by (induction tbl) (auto simp: lookup_row_Cons unique_on_def filter_empty_conv image_iff split: if_splits)

section \<open>Fresh question ids\<close>

lemma next_question_id_fresh: "next_question_id db \<notin> q_question_id ` set (t_clarifications db)"
proof
  assume "next_question_id db \<in> q_question_id ` set (t_clarifications db)"
  then obtain q where q: "q \<in> set (t_clarifications db)" "q_question_id q = next_question_id db" by auto
  let ?ns = "question_numbers db"
  have ne: "?ns \<noteq> []" using q(1) by (auto simp: question_numbers_def)
  then have "next_question_id db = CHR ''Q'' # format_padded 4 (Max (set ?ns) + 1)" by (simp add: next_question_id_def Let_def)
  with q(2) have "sql_cast_integer (drop 1 (q_question_id q)) = Max (set ?ns) + 1" by simp
  moreover have "sql_cast_integer (drop 1 (q_question_id q)) \<in> set ?ns" using q(1) by (simp add: question_numbers_def)
  ultimately have "Max (set ?ns) + 1 \<le> Max (set ?ns)" using Max_ge [of "set ?ns"] by (metis List.finite_set)
  then show False by simp
qed

lemma open_question_of_None: "open_question_of cid db = None \<longleftrightarrow> cid \<notin> q_claim_id ` set (filter is_open (t_clarifications db))"
  by (auto simp: open_question_of_def find_None_iff_all)

lemma create_question_inv:
  "store_inv db \<Longrightarrow> create_question claim_id snapshot category passage problem resolutions blocking run_id origin db = Inr (db', qid)
   \<Longrightarrow> store_inv db'"
  by (auto simp: create_question_def Let_def bindE_Inr_iff insert_row_def store_inv_def unique_on_def split: if_splits option.splits)

lemma resolve_question_effects:
  assumes "store_inv db" and "status \<in> {''RESOLVED'', ''DISMISSED'', ''SUPERSEDED''}"
    and "question_row_of qid db = Some q" and "is_open q"
  shows "\<exists>db'. resolve_question qid run_id resolution status db = Inr (db', True)
    \<and> question_row_of qid db' = Some (q\<lparr>q_status := status, q_resolved_run := run_id, q_resolution := Some resolution\<rparr>)
    \<and> open_question_of (q_claim_id q) db' = None
    \<and> (\<forall>run_b resolution2. \<forall>status2\<in>{''RESOLVED'', ''DISMISSED'', ''SUPERSEDED''}.
         resolve_question qid run_b resolution2 status2 db' = Inr (db', False))"
proof -
  let ?P = "\<lambda>r. q_question_id r = qid \<and> is_open r"
  let ?f = "\<lambda>r. r\<lparr>q_status := status, q_resolved_run := run_id, q_resolution := Some resolution\<rparr>"
  let ?db' = "db\<lparr>t_clarifications := update_where ?P ?f (t_clarifications db)\<rparr>"
  have u: "unique_on q_question_id (t_clarifications db)" by (rule store_invD(8) [OF assms(1)])
  have q: "q \<in> set (t_clarifications db)" "q_question_id q = qid"
    using assms(3) by (auto simp: question_row_of_def dest: lookup_row_SomeD)
  have uniq: "r = q" if "r \<in> set (t_clarifications db)" "?P r" for r
    using lookup_row_unique [OF u that(1)] that(2) assms(3) by (simp add: question_row_of_def)
  have closed: "\<not> is_open (?f r)" for r using assms(2) by (auto simp: is_open_def)
  have "filter ?P (t_clarifications db) = [q]"
    by (rule filter_unique_row [of q_question_id _ qid q is_open, OF u assms(3) [unfolded question_row_of_def] assms(4)])
  then have count: "count_where ?P (t_clarifications db) = 1" by (simp add: count_where_def)
  have count': "count_where ?P (update_where ?P ?f (t_clarifications db)) = 0"
    using closed by (auto simp: count_where_def update_where_def filter_empty_conv)
  have noop: "update_where ?P g (update_where ?P ?f (t_clarifications db)) = update_where ?P ?f (t_clarifications db)" for g
    using closed by (auto simp: update_where_def)
  have "question_row_of qid ?db' = Some (?f q)"
    using lookup_row_update_where [of q_question_id ?f qid ?P "t_clarifications db"] assms(3,4) q(2) by (simp add: question_row_of_def)
  moreover have "open_question_of (q_claim_id q) ?db' = None"
  proof -
    have "r = q" if "r \<in> set (t_clarifications db)" "is_open r" "q_claim_id r = q_claim_id q" for r
      using store_invD(9) [OF assms(1)] that q(1) assms(4) by (auto simp: open_unique_def unique_on_def distinct_map inj_on_def)
    then show ?thesis
      using closed q(2) assms(4) by (auto simp: open_question_of_None update_where_def split: if_splits)
  qed
  ultimately show ?thesis
    using assms(2) by (auto simp: resolve_question_def Let_def count count' noop)
qed

section \<open>Properties\<close>

text \<open>One open question per claim: creating a question for a known claim with a valid origin never fails.
  It returns the claim's open question if there is one, changing nothing, and otherwise adds one open
  question under an id no question has, so that a second call returns the same id.\<close>

theorem create_question_idempotent:
  assumes "store_inv db" and "claim_row_of claim_id db \<noteq> None" and "origin \<in> CLARIFICATION_ORIGINS"
  shows "case create_question claim_id snapshot category passage problem resolutions blocking run_id origin db of
      Inl _ \<Rightarrow> False
    | Inr (db', qid) \<Rightarrow> (\<exists>!q. q \<in> set (t_clarifications db') \<and> q_claim_id q = claim_id \<and> is_open q)
        \<and> (open_question_of claim_id db = None \<longrightarrow> qid \<notin> q_question_id ` set (t_clarifications db))
        \<and> (open_question_of claim_id db \<noteq> None \<longrightarrow> db' = db)
        \<and> create_question claim_id snapshot_b category_b passage_b problem_b resolutions_b blocking_b run_b origin db' = Inr (db', qid)"
proof -
  have open_u: "open_unique (t_clarifications db)" by (rule store_invD(9) [OF assms(1)])
  have one: "q = q'" if "q \<in> set (t_clarifications db)" "q' \<in> set (t_clarifications db)" "is_open q" "is_open q'" "q_claim_id q = q_claim_id q'" for q q'
    using open_u that by (auto simp: open_unique_def unique_on_def distinct_map inj_on_def)
  show ?thesis
  proof (cases "open_question_of claim_id db")
    case (Some existing)
    then have "existing \<in> set (t_clarifications db) \<and> q_claim_id existing = claim_id \<and> is_open existing"
      by (auto simp: open_question_of_def dest: find_SomeD)
    with one have "\<exists>!q. q \<in> set (t_clarifications db) \<and> q_claim_id q = claim_id \<and> is_open q" by blast
    with Some assms(2,3) show ?thesis by (auto simp: create_question_def)
  next
    case None
    let ?row = "\<lparr>q_question_id = next_question_id db, q_claim_id = claim_id, q_snapshot_commit = snapshot,
                          q_category = category, q_passage = passage, q_problem = problem, q_resolutions = resolutions,
                          q_blocking_claims = blocking, q_status = ''OPEN'', q_created_run = run_id,
                          q_resolved_run = None, q_resolution = None, q_origin = origin\<rparr>"
    let ?db' = "db\<lparr>t_clarifications := t_clarifications db @ [?row]\<rparr>"
    have row: "is_open ?row" "q_claim_id ?row = claim_id" by (simp_all add: is_open_def)
    have none: "\<forall>q\<in>set (t_clarifications db). is_open q \<longrightarrow> q_claim_id q \<noteq> claim_id"
      using None by (auto simp: open_question_of_None)
    then have "open_unique (t_clarifications db @ [?row])"
      using open_u row by (auto simp: open_unique_def unique_on_def)
    then have run: "create_question claim_id snapshot category passage problem resolutions blocking run_id origin db = Inr (?db', next_question_id db)"
      using None assms(2,3) next_question_id_fresh [of db]
      by (simp add: create_question_def Let_def insert_row_def guarded_def)
    have "find (\<lambda>q. q_claim_id q = claim_id \<and> is_open q) (t_clarifications db) = None"
      using None by (simp add: open_question_of_def)
    then have again: "open_question_of claim_id ?db' = Some ?row"
      using row by (simp add: open_question_of_def find_append)
    have "create_question claim_id snapshot_b category_b passage_b problem_b resolutions_b blocking_b run_b origin ?db' = Inr (?db', next_question_id db)"
      using assms(2,3) by (simp add: create_question_def again claim_row_of_def)
    moreover have "\<exists>!q. q \<in> set (t_clarifications db @ [r]) \<and> q_claim_id q = claim_id \<and> is_open q"
      if "is_open r" "q_claim_id r = claim_id" for r
      by (rule ex1I [of _ r]) (use that none in auto)
    from this [OF row] have "\<exists>!q. q \<in> set (t_clarifications ?db') \<and> q_claim_id q = claim_id \<and> is_open q" by simp
    ultimately show ?thesis
      unfolding run sum.case prod.case using next_question_id_fresh [of db] None by (intro conjI impI) simp_all
  qed
qed

theorem create_question_idempotent_witness:
  "\<exists>db' qid. create_question ''a'' ''s1'' ''gap'' ''p'' ''q'' [] [] 1 ''HOST_POLICY'' ex_store = Inr (db', qid)
     \<and> create_question ''a'' ''s2'' ''other'' ''p'' ''q'' [] [] 2 ''HOST_POLICY'' db' = Inr (db', qid)"
proof -
  have "claim_row_of ''a'' ex_store \<noteq> None" by code_simp
  from create_question_idempotent [where claim_id = "''a''" and origin = "''HOST_POLICY''" and snapshot = "''s1''" and snapshot_b = "''s2''"
      and category = "''gap''" and category_b = "''other''" and passage = "''p''" and passage_b = "''p''" and problem = "''q''" and problem_b = "''q''"
      and resolutions = "[]" and resolutions_b = "[]" and blocking = "[]" and blocking_b = "[]" and run_id = 1 and run_b = 2, OF ex_store_inv this]
  show ?thesis
    by (cases "create_question ''a'' ''s1'' ''gap'' ''p'' ''q'' [] [] 1 ''HOST_POLICY'' ex_store")
      (auto simp: CLARIFICATION_ORIGINS_def simp del: Ex1_def)
qed

text \<open>Resolution is final: resolving an open question moves it out of OPEN and reports success; resolving
  it again, with any status, reports failure and changes nothing.\<close>

theorem resolve_question_once:
  assumes "store_inv db" and "status \<in> {''RESOLVED'', ''DISMISSED'', ''SUPERSEDED''}" and "status2 \<in> {''RESOLVED'', ''DISMISSED'', ''SUPERSEDED''}"
    and "question_row_of qid db = Some q" and "is_open q"
  shows "\<exists>db'. resolve_question qid run_id resolution status db = Inr (db', True)
    \<and> question_row_of qid db' = Some (q\<lparr>q_status := status, q_resolved_run := run_id, q_resolution := Some resolution\<rparr>)
    \<and> open_question_of (q_claim_id q) db' = None
    \<and> resolve_question qid run_b resolution2 status2 db' = Inr (db', False)"
  using resolve_question_effects [OF assms(1,2,4,5), of run_id resolution] assms(3) by blast

text \<open>A question created in the example store, and resolved.\<close>

definition ex_asked :: store_db where
  "ex_asked = (case create_question ''a'' ''s1'' ''gap'' ''p'' ''q'' [] [] 1 ''HOST_POLICY'' ex_store of
     Inr (db, _) \<Rightarrow> db | Inl _ \<Rightarrow> ex_store)"

theorem resolve_question_once_witness:
  "\<exists>db'. resolve_question ''Q0001'' (Some 2) ''done'' ''RESOLVED'' ex_asked = Inr (db', True)
     \<and> resolve_question ''Q0001'' (Some 3) ''again'' ''DISMISSED'' db' = Inr (db', False)"
proof -
  have "map_option is_open (question_row_of ''Q0001'' ex_asked) = Some True" by code_simp
  then obtain q where q: "question_row_of ''Q0001'' ex_asked = Some q" "is_open q" by auto
  have "store_inv ex_asked"
    using create_question_inv [OF ex_store_inv] by (auto simp: ex_asked_def split: sum.splits)
  from resolve_question_once [OF this _ _ q, of "''RESOLVED''" "''DISMISSED''" "Some 2" "''done''" "Some 3" "''again''"]
  show ?thesis by auto
qed

end
