(* ===== verification/Store_Invariant.thy ===== *)
theory Store_Invariant
  imports Store_Questions
begin

text \<open>
  The state store as a state machine: a step is one operation of \<^verbatim>\<open>StateStore\<close> with any arguments, committed
  when it does not raise. The schema invariant (every primary key, unique index and AUTOINCREMENT bound) holds
  in every store that operations can produce from an empty one.
\<close>

section \<open>Each operation keeps the invariant\<close>

named_theorems keeps_inv "an operation keeps the schema invariant"

lemmas write_defs = store_inv_def unique_on_update_where

lemma set_metadata_inv [keeps_inv]: "store_inv db \<Longrightarrow> store_inv (set_metadata key value db)"
  by (simp add: store_inv_def set_metadata_def metadata_table.upsert_unique)

lemma set_metadata_default_inv [keeps_inv]: "store_inv db \<Longrightarrow> store_inv (set_metadata_default key value db)"
  by (simp add: store_inv_def set_metadata_default_def insert_or_ignore_unique)

lemma allocate_claim_id_inv [keeps_inv]: "store_inv db \<Longrightarrow> allocate_claim_id kind db = Inr (db', cid) \<Longrightarrow> store_inv db'"
  by (auto simp: allocate_claim_id_def Let_def bindE_Inr_iff intro: set_metadata_inv)

lemma partial_index_update_where:
  assumes "\<And>r. key (f r) = key r" and "\<And>r. Q (f r) \<Longrightarrow> Q r" and "unique_on key (filter Q tbl)"
  shows "unique_on key (filter Q (update_where P f tbl))"
proof -
  let ?g = "\<lambda>r. if P r then f r else r"
  have sub: "key ` set (filter Q (map ?g tbl)) \<subseteq> key ` set (filter Q tbl)" for tbl
  proof (induction tbl)
    case (Cons r tbl)
    then show ?case using assms(1,2) [of r] by auto
  qed simp
  have "distinct (map key (filter Q tbl)) \<Longrightarrow> distinct (map key (filter Q (map ?g tbl)))" for tbl
  proof (induction tbl)
    case (Cons r tbl)
    have "key (?g r) = key r" using assms(1) by simp
    moreover have "Q (?g r) \<Longrightarrow> Q r" using assms(2) by (cases "P r") simp_all
    ultimately have "key (?g r) = key r" "Q (?g r) \<Longrightarrow> Q r" .
    with Cons sub [of tbl] show ?case by (auto split: if_splits)
  qed simp
  then show ?thesis using assms(3) by (simp add: unique_on_def update_where_def)
qed

lemma labels_unique_update_where:
  "(\<And>c. c_label (f c) = c_label c) \<Longrightarrow> (\<And>c. c_retired c \<Longrightarrow> c_retired (f c)) \<Longrightarrow> labels_unique tbl
   \<Longrightarrow> labels_unique (update_where P f tbl)"
  unfolding labels_unique_def by (rule partial_index_update_where) (auto simp: labelled_def)

lemma open_unique_update_where:
  "(\<And>q. q_claim_id (f q) = q_claim_id q) \<Longrightarrow> (\<And>q. is_open (f q) \<Longrightarrow> is_open q) \<Longrightarrow> open_unique tbl
   \<Longrightarrow> open_unique (update_where P f tbl)"
  unfolding open_unique_def by (rule partial_index_update_where)

lemma update_claims_inv:
  assumes "store_inv db" and "\<And>c. c_claim_id (f c) = c_claim_id c" and "\<And>c. c_label (f c) = c_label c"
    and "\<And>c. c_retired c \<Longrightarrow> c_retired (f c)"
  shows "store_inv (db\<lparr>t_claims := update_where P f (t_claims db)\<rparr>)"
  using assms by (simp add: store_inv_def unique_on_update_where labels_unique_update_where)

lemma log_run_claim_inv: "store_inv db \<Longrightarrow> store_inv (db\<lparr>t_run_claims := insert_or_replace run_claim_key row (t_run_claims db)\<rparr>)"
  by (simp add: store_inv_def insert_or_replace_unique)

lemma set_claim_state_inv [keeps_inv]: "store_inv db \<Longrightarrow> store_inv (set_claim_state cid state run_id action reason reused db)"
  using update_claims_inv [of db] log_run_claim_inv
  by (fastforce simp: set_claim_state_def Let_def store_inv_def unique_on_update_where labels_unique_update_where insert_or_replace_unique)

lemma reset_claim_inv: "store_inv db \<Longrightarrow> store_inv (reset_claim run_id action reason cid db)"
  by (simp add: reset_claim_def store_inv_def unique_on_update_where labels_unique_update_where insert_or_replace_unique)

lemma reset_in_flight_inv [keeps_inv]: "store_inv db \<Longrightarrow> store_inv (fst (reset_in_flight_claims run_id action reason db))"
  unfolding reset_in_flight_claims_def Let_def fst_conv by (rule fold_invariant_on) (auto intro: reset_claim_inv)

lemma update_runs_inv:
  assumes "store_inv db" and "\<And>r. r_run_id (f r) = r_run_id r"
  shows "store_inv (db\<lparr>t_runs := update_where P f (t_runs db)\<rparr>)"
proof -
  have "\<forall>r\<in>set (update_where P f (t_runs db)). r_run_id r < t_next_run_id db"
    using store_invD(3) [OF assms(1)] assms(2) by (auto simp: update_where_def)
  with assms show ?thesis by (simp add: store_inv_def unique_on_update_where)
qed

lemma recover_inv [keeps_inv]: "store_inv db \<Longrightarrow> store_inv (fst (recover_interrupted_runs now db))"
  unfolding recover_interrupted_runs_def Let_def fst_conv
  by (rule update_runs_inv, rule update_claims_inv, erule fold_invariant_on, erule reset_in_flight_inv) simp_all

lemma begin_run_inv [keeps_inv]: "store_inv db \<Longrightarrow> store_inv (fst (begin_run command t s p h m e db))"
  by (fastforce simp: begin_run_def Let_def store_inv_def unique_on_def)

lemma run_update_inv [keeps_inv]:
  "store_inv db \<Longrightarrow> store_inv (update_run_snapshot run_id snapshot previous db)"
  "store_inv db \<Longrightarrow> store_inv (finish_run run_id status outcome t detail db)"
  unfolding update_run_snapshot_def finish_run_def by (rule update_runs_inv; simp)+

lemma run_concurrency_inv [keeps_inv]:
  "store_inv db \<Longrightarrow> record_run_concurrency run_id a b c db = Inr db' \<Longrightarrow> store_inv db'"
  "store_inv db \<Longrightarrow> store_inv (finish_run_concurrency run_id a c db)"
  by (auto simp: record_run_concurrency_def finish_run_concurrency_def store_inv_def unique_on_update_where
      concurrency_table.upsert_unique split: if_splits)

lemma record_run_scope_inv [keeps_inv]:
  "store_inv db \<Longrightarrow> record_run_scope run_id ts ss db = Inr db' \<Longrightarrow> store_inv db'"
  by (auto simp: record_run_scope_def Let_def bindE_Inr_iff store_inv_def dest!: insert_all_unique)

lemma run_graph_inv [keeps_inv]:
  "store_inv db \<Longrightarrow> replace_run_dependency_edges run_id edges db = Inr db' \<Longrightarrow> store_inv db'"
  "store_inv db \<Longrightarrow> record_run_claim_nodes run_id db = Inr db' \<Longrightarrow> store_inv db'"
  by (auto simp: replace_run_dependency_edges_def record_run_claim_nodes_def Let_def bindE_Inr_iff store_inv_def
      dest!: insert_all_unique)

lemma record_snapshot_inv [keeps_inv]: "store_inv db \<Longrightarrow> store_inv (record_snapshot snapshot src_root task t db)"
proof -
  have "unique_on source_file_key tbl \<Longrightarrow> unique_on source_file_key (fold (\<lambda>f. insert_or_ignore source_file_key (g f)) fs tbl)" for tbl g and fs :: "source_file_info list"
    by (induction fs arbitrary: tbl) (simp_all add: insert_or_ignore_unique)
  then show "store_inv db \<Longrightarrow> ?thesis" by (simp add: record_snapshot_def store_inv_def insert_or_ignore_unique)
qed

lemma upsert_claim_inv: "store_inv db \<Longrightarrow> upsert_claim snapshot run_id updates item db = Inr db' \<Longrightarrow> store_inv db'"
  by (auto simp: upsert_claim_def Let_def bindE_Inr_iff store_inv_def claim_table.upsert_unique insert_or_replace_unique)

lemma replace_current_claims_inv [keeps_inv]:
  assumes "store_inv db" and "replace_current_claims snapshot objects run_id updates db = Inr db'"
  shows "store_inv db'"
proof -
  obtain d where d: "foldE (upsert_claim snapshot run_id updates) objects
      (db\<lparr>t_claims := update_where (\<lambda>_. True) (\<lambda>c. c\<lparr>c_retired := True\<rparr>) (t_claims db)\<rparr>) = Inr d"
    using assms(2) by (auto simp: replace_current_claims_def Let_def bindE_Inr_iff)
  have "store_inv d"
    by (rule foldE_invariant [where I = store_inv, OF d update_claims_inv [OF assms(1)]]) (auto intro: upsert_claim_inv)
  then show ?thesis
    using assms(2) d by (auto simp: replace_current_claims_def Let_def intro!: set_metadata_inv update_claims_inv)
qed

lemma manuscript_edge_inv [keeps_inv]: "store_inv db \<Longrightarrow> store_inv (add_manuscript_edge snapshot e db)"
  by (simp add: add_manuscript_edge_def store_inv_def edge_table.upsert_unique)

lemma replace_manuscript_edges_inv [keeps_inv]: "store_inv db \<Longrightarrow> store_inv (replace_manuscript_edges snapshot edges db)"
  unfolding replace_manuscript_edges_def
proof (rule fold_invariant_on)
  assume "store_inv db"
  then show "store_inv (db\<lparr>t_manuscript_edges := update_where (\<lambda>_. True) (\<lambda>e. e\<lparr>er_active := False\<rparr>) (t_manuscript_edges db)\<rparr>)"
    by (simp add: store_inv_def unique_on_update_where edge_key_def)
qed (rule manuscript_edge_inv)

lemma lean_graph_inv [keeps_inv]: "store_inv db \<Longrightarrow> store_inv (replace_lean_graph declarations run_id db)"
proof -
  have edges: "unique_on lean_edge_key tbl
     \<Longrightarrow> unique_on lean_edge_key (fold (\<lambda>d. insert_or_replace lean_edge_key (g d)) ds tbl)"
    for tbl g and ds :: "string list"
    by (induction ds arbitrary: tbl) (simp_all add: insert_or_replace_unique)
  have "store_inv d \<Longrightarrow> store_inv (store_declaration run_id l d)" for l d
    by (simp add: store_declaration_def store_inv_def declaration_table.upsert_unique edges unique_on_delete_where)
  then have "store_inv d \<Longrightarrow> store_inv (fold (store_declaration run_id) declarations d)" for d
    by (induction declarations arbitrary: d) simp_all
  then show "store_inv db \<Longrightarrow> ?thesis" by (simp add: replace_lean_graph_def Let_def store_inv_def unique_on_delete_where)
qed

lemma correspondence_inv [keeps_inv]:
  "store_inv db \<Longrightarrow> set_correspondence cid decl run_id status provenance approved db = Inr db' \<Longrightarrow> store_inv db'"
  by (auto simp: set_correspondence_def store_inv_def correspondence_table.upsert_unique unique_on_update_where
      labels_unique_update_where split: if_splits)

lemma certificate_inv [keeps_inv]:
  "store_inv db \<Longrightarrow> store_inv (upsert_certificate payload db)"
  "store_inv db \<Longrightarrow> store_inv (discard_certificate_for_reproof cid run_id db)"
  by (simp_all add: upsert_certificate_def discard_certificate_for_reproof_def store_inv_def
      certificate_table.upsert_unique unique_on_update_where unique_on_delete_where)

lemma refresh_question_inv [keeps_inv]:
  assumes "store_inv db" and "refresh_open_question cid snap cat passage problem resolutions blocking origin db = Inr db'"
  shows "store_inv db'"
proof -
  have "db' = db\<lparr>t_clarifications := update_where (\<lambda>q. q_claim_id q = cid \<and> is_open q)
      (\<lambda>q. q\<lparr>q_snapshot_commit := snap, q_category := cat, q_passage := passage, q_problem := problem,
         q_resolutions := resolutions, q_blocking_claims := sorted_list_of_set (set blocking)\<rparr>) (t_clarifications db)\<rparr>"
    using assms(2) unfolding refresh_open_question_def by (simp split: if_splits)
  moreover have "open_unique (update_where P (\<lambda>q. q\<lparr>q_snapshot_commit := snap, q_category := cat, q_passage := passage,
      q_problem := problem, q_resolutions := resolutions, q_blocking_claims := sorted_list_of_set (set blocking)\<rparr>)
      (t_clarifications db))" for P
    by (rule open_unique_update_where [OF _ _ store_invD(9) [OF assms(1)]]) (simp_all add: is_open_def)
  ultimately show ?thesis
    using assms(1) by (simp add: store_inv_def unique_on_update_where)
qed

lemma analysis_inv [keeps_inv]:
  "store_inv db \<Longrightarrow> append_clarification_analysis qid evidence status analysis db = Inr (db', row) \<Longrightarrow> store_inv db'"
  by (auto simp: append_clarification_analysis_def Let_def store_inv_def insert_or_ignore_unique split: option.splits)

lemma resolve_question_inv [keeps_inv]:
  assumes "store_inv db" and "resolve_question qid run resolution status db = Inr (db', found)"
  shows "store_inv db'"
proof -
  have "status \<in> {''RESOLVED'', ''DISMISSED'', ''SUPERSEDED''}"
    using assms(2) by (simp add: resolve_question_def split: if_splits)
  then have "\<not> is_open (q\<lparr>q_status := status, q_resolved_run := run, q_resolution := Some resolution\<rparr>)" for q
    by (auto simp: is_open_def)
  then have "open_unique (update_where P (\<lambda>q. q\<lparr>q_status := status, q_resolved_run := run, q_resolution := Some resolution\<rparr>)
      (t_clarifications db))" for P
    using store_invD(9) [OF assms(1)] by (intro open_unique_update_where) simp_all
  moreover have "db' = db\<lparr>t_clarifications := update_where (\<lambda>q. q_question_id q = qid \<and> is_open q)
      (\<lambda>q. q\<lparr>q_status := status, q_resolved_run := run, q_resolution := Some resolution\<rparr>) (t_clarifications db)\<rparr>"
    using assms(2) unfolding resolve_question_def Let_def by (simp split: if_splits)
  ultimately show ?thesis using assms(1) by (simp add: store_inv_def unique_on_update_where)
qed

lemma diagnostic_inv [keeps_inv]: "store_inv db \<Longrightarrow> store_inv (add_diagnostic run_id cat msg cid details db)"
  by (simp add: add_diagnostic_def store_inv_def)

lemma failure_inv [keeps_inv]:
  assumes inv: "store_inv db"
    and "add_failure_incident run_id scope kind phase cat msg provenance cids detail batch retryable artifacts db = Inr (db', fid)"
  shows "store_inv db'"
proof -
  from assms(2) show ?thesis
  proof (cases rule: add_failure_incident_cases)
    case (1 row rows)
    have rows: "\<forall>a\<in>set rows. ar_failure_id a = fid"
      using artifact_rows_fields [OF 1(11)] by blast
    have "unique_on fi_failure_id (t_failure_incidents db')"
      using store_invD(15,16) [OF inv] 1(1,2,12) by (force simp: unique_on_def)
    moreover have "\<forall>i\<in>set (t_failure_incidents db'). fi_failure_id i < t_next_failure_id db'"
      using store_invD(16) [OF inv] 1(1,2,12,13) by force
    moreover have "\<forall>i\<in>set (t_failure_incident_claims db'). ic_failure_id i < t_next_failure_id db'"
      using store_invD(17) [OF inv] 1(1,13,14) incident_claims_fields(2) by fastforce
    moreover have "\<forall>a\<in>set (t_failure_artifacts db'). ar_failure_id a < t_next_failure_id db'"
      using store_invD(18) [OF inv] 1(1,13,15) rows by fastforce
    moreover have "unique_on incident_claim_key (t_failure_incident_claims db')" "unique_on artifact_key (t_failure_artifacts db')"
      using insert_all_unique 1(19,20) store_invD(19,20) [OF inv] by blast+
    ultimately show ?thesis
      using inv by (subst 1(18)) (simp add: store_inv_def)
  qed
qed

section \<open>The store as a transition system\<close>

text \<open>A transition is one call of a writing method of \<^verbatim>\<open>StateStore\<close>. A call that raises rolls its transaction
  back, so it is no transition; every argument is free.\<close>

inductive store_step :: "store_db \<Rightarrow> store_db \<Rightarrow> bool" where
  metadata: "store_step db (set_metadata key value db)"
| metadata_default: "store_step db (set_metadata_default key value db)"
| claim_id: "store_step db db'" if "allocate_claim_id kind db = Inr (db', cid)"
| begin_run: "store_step db (fst (begin_run command t s p h m e db))"
| run_snapshot: "store_step db (update_run_snapshot run_id snapshot previous db)"
| finish_run: "store_step db (finish_run run_id status outcome t detail db)"
| recover: "store_step db (fst (recover_interrupted_runs t db))"
| reset: "store_step db (fst (reset_in_flight_claims run_id action reason db))"
| concurrency: "store_step db db'" if "record_run_concurrency run_id a b c db = Inr db'"
| finish_concurrency: "store_step db (finish_run_concurrency run_id a b db)"
| scope: "store_step db db'" if "record_run_scope run_id targets selected db = Inr db'"
| run_edges: "store_step db db'" if "replace_run_dependency_edges run_id edges db = Inr db'"
| run_nodes: "store_step db db'" if "record_run_claim_nodes run_id db = Inr db'"
| snapshot: "store_step db (record_snapshot snap src_root task t db)"
| claims: "store_step db db'" if "replace_current_claims snapshot objects run_id updates db = Inr db'"
| claim_state: "store_step db (set_claim_state cid state run_id action reason reused db)"
| edge: "store_step db (add_manuscript_edge snapshot e db)"
| edges: "store_step db (replace_manuscript_edges snapshot edges db)"
| lean_graph: "store_step db (replace_lean_graph declarations run_id db)"
| correspondence: "store_step db db'" if "set_correspondence cid decl run_id status provenance approved db = Inr db'"
| certificate: "store_step db (upsert_certificate payload db)"
| discard: "store_step db (discard_certificate_for_reproof cid run_id db)"
| question: "store_step db db'"
    if "create_question cid snapshot category passage problem resolutions blocking run_id origin db = Inr (db', qid)"
| refresh: "store_step db db'"
    if "refresh_open_question cid snapshot category passage problem resolutions blocking origin' db = Inr db'"
| analysis: "store_step db db'" if "append_clarification_analysis qid evidence status analysis db = Inr (db', row)"
| resolve: "store_step db db'" if "resolve_question qid run resolution status db = Inr (db', found)"
| diagnostic: "store_step db (add_diagnostic run_id category message cid' details db)"
| incident: "store_step db db'"
    if "add_failure_incident run_id scope kind phase category message provenance cids detail' batch retryable artifacts db
        = Inr (db', fid)"

lemma store_step_inv: "store_step db db' \<Longrightarrow> store_inv db \<Longrightarrow> store_inv db'"
  by (induction rule: store_step.induct) (auto intro: keeps_inv create_question_inv)

inductive reachable_store :: "store_db \<Rightarrow> bool" where
  empty: "reachable_store empty_store"
| step: "reachable_store db \<Longrightarrow> store_step db db' \<Longrightarrow> reachable_store db'"

lemma reachable_store_inv: "reachable_store db \<Longrightarrow> store_inv db"
  by (induction rule: reachable_store.induct) (auto intro: store_step_inv)

section \<open>Properties\<close>



end
