(* ===== verification/Certification.thy ===== *)
theory Certification
  imports DepGraph Store_Questions "HOL-Library.Sublist"
begin

text \<open>
  Certification, \<^verbatim>\<open>incremental/certification.py\<close>: the correspondences an agent recorded in this run are
  turned into certificates, counterexamples or rejections, and the certificates of unchanged claims are
  renewed. With the two checks of \<^verbatim>\<open>incremental/lean.py\<close> they rest on: the axioms a proof may use, and the
  dependencies the Lean graph shows and the manuscript does not.
\<close>

section \<open>Checks on the Lean graph\<close>

definition is_sorry_axiom :: "string \<Rightarrow> bool" where
  "is_sorry_axiom name = (name = ''sorryAx'' \<or> suffix ''.sorryAx'' name)"

definition reject_forbidden_axioms :: "lean_declaration \<Rightarrow> string set \<Rightarrow> string list" where
  "reject_forbidden_axioms declaration baseline_project_axioms =
     sorted_list_of_set (set (filter
       (\<lambda>name. is_sorry_axiom name
          \<or> prefix ''ManuscriptVerification.'' name \<and> name \<notin> baseline_project_axioms)
       (ld_axioms declaration)))"

record discrepancy =
  di_claim :: string
  di_lean_declaration :: string
  di_missing_manuscript_dependency :: string
  di_lean_dependency :: string

text \<open>\<open>correspondence\<close> lists the items of the dict, in its order: \<open>reverse\<close> keeps the last claim of a declaration.\<close>

definition correspondence_discrepancies ::
    "(string \<times> string) set \<Rightarrow> lean_declaration list \<Rightarrow> (string \<times> string) list \<Rightarrow> discrepancy list" where
  "correspondence_discrepancies explicit declarations correspondence =
     (let reverse = fold (\<lambda>(claim, declaration) m. m(declaration \<mapsto> claim)) correspondence Map.empty;
          declaration_map = dict_by ld_name declarations
      in concat (map (\<lambda>(claim, declaration_name). case declaration_map declaration_name of
           None \<Rightarrow> []
         | Some declaration \<Rightarrow> concat (map (\<lambda>dependency. case reverse dependency of
             None \<Rightarrow> []
           | Some dependency_claim \<Rightarrow>
               if dependency_claim \<noteq> [] \<and> (claim, dependency_claim) \<notin> explicit
               then [\<lparr>di_claim = claim, di_lean_declaration = declaration_name,
                      di_missing_manuscript_dependency = dependency_claim, di_lean_dependency = dependency\<rparr>]
               else []) (ld_direct_dependencies declaration)))
         (sort correspondence)))"

section \<open>Certifying the correspondences of a run\<close>

text \<open>The arguments of \<open>certify_current_correspondence\<close>.\<close>

record cert_context =
  cx_run_id :: int
  cx_snapshot :: string
  cx_objects :: "source_object list"
  cx_edges :: "manuscript_edge list"
  cx_declarations :: "lean_declaration list"
  cx_environment_hash :: string
  cx_lean_version :: string
  cx_mathlib_revision :: "string option"
  cx_baseline_project_axioms :: "string set"

record certification_result =
  cr_certified :: "string list"
  cr_reconciled :: "string list"
  cr_counterexamples :: "string list"
  cr_rejected :: "(string \<times> string) list"

text \<open>The store and the four lists of the loop.\<close>

record cert_acc =
  ca_store :: store_db
  ca_certified :: "string list"
  ca_reconciled :: "string list"
  ca_counterexamples :: "string list"
  ca_rejected :: "(string \<times> string) list"

definition current_states :: "store_db \<Rightarrow> string \<Rightarrow> claim_state option" where
  "current_states db = map_option c_status \<circ> dict_by c_claim_id (current_claim_rows False db)"

definition source_dependencies :: "cert_context \<Rightarrow> string \<Rightarrow> string list" where
  "source_dependencies cx claim_id =
     sorted_list_of_set (set (map e_dst (filter (\<lambda>e. e_approved e \<and> e_src e = claim_id) (cx_edges cx))))"

datatype verdict = Pending | Rejected string | Accepted source_object lean_declaration

definition correspondence_verdict ::
    "cert_context \<Rightarrow> (string \<Rightarrow> claim_state option) \<Rightarrow> correspondence_row \<Rightarrow> verdict" where
  "correspondence_verdict cx states corr =
     (if co_last_updated_run corr \<noteq> cx_run_id cx then Pending
      else if \<not> co_approved corr then Pending
      else case dict_by so_claim_id (cx_objects cx) (co_claim_id corr) of
        None \<Rightarrow> Rejected ''claim is not present in the current snapshot''
      | Some source \<Rightarrow> (case dict_by ld_name (cx_declarations cx) (co_lean_declaration corr) of
          None \<Rightarrow> Rejected (''Lean declaration does not exist: '' @ co_lean_declaration corr)
        | Some declaration \<Rightarrow>
            if ld_kind declaration = ''axiom''
            then Rejected ''a manuscript certificate cannot map directly to an axiom''
            else if ld_value_hash declaration = None then Rejected ''Lean declaration has no proof/value body''
            else if unsatisfied_dependencies (co_claim_id corr) states (cx_edges cx) \<noteq> [] \<and> co_status corr \<noteq> ''counterexample''
            then Pending
            else let forbidden = reject_forbidden_axioms declaration (cx_baseline_project_axioms cx)
                 in if forbidden \<noteq> []
                    then Rejected (''forbidden or newly introduced axioms: '' @ py_join '', '' forbidden)
                    else Accepted source declaration))"

definition certificate_for :: "cert_context \<Rightarrow> correspondence_row \<Rightarrow> source_object \<Rightarrow> lean_declaration \<Rightarrow> certificate_row" where
  "certificate_for cx corr source declaration =
     \<lparr>ct_claim_id = co_claim_id corr,
      ct_status = (if co_status corr = ''counterexample'' then ''COUNTEREXAMPLE'' else ''CERTIFIED''),
      ct_manuscript_snapshot = cx_snapshot cx, ct_statement_hash = so_statement_hash source,
      ct_formal_type_hash = ld_type_hash declaration, ct_lean_declaration = ld_name declaration,
      ct_lean_value_hash = ld_value_hash declaration,
      ct_dependencies = source_dependencies cx (co_claim_id corr),
      ct_lean_dependencies = ld_direct_dependencies declaration, ct_axioms = ld_axioms declaration,
      ct_environment_hash = cx_environment_hash cx, ct_lean_version = cx_lean_version cx,
      ct_mathlib_revision = cx_mathlib_revision cx, ct_last_verified_run = cx_run_id cx\<rparr>"

definition was_reconciled :: "string \<Rightarrow> lean_declaration \<Rightarrow> store_db \<Rightarrow> bool" where
  "was_reconciled claim_id declaration db =
     (case (certificate claim_id db, claim_row_of claim_id db) of
        (Some previous, Some claim_before) \<Rightarrow>
          ct_formal_type_hash previous = ld_type_hash declaration \<and> ct_status previous = ''CERTIFIED''
          \<and> c_status claim_before \<in> {DIRTY_SOURCE, INVALIDATED}
      | _ \<Rightarrow> False)"

definition certify_correspondence :: "cert_context \<Rightarrow> correspondence_row \<Rightarrow> cert_acc \<Rightarrow> cert_acc" where
  "certify_correspondence cx corr acc =
     (let claim_id = co_claim_id corr
      in case correspondence_verdict cx (current_states (ca_store acc)) corr of
        Pending \<Rightarrow> acc
      | Rejected reason \<Rightarrow> acc\<lparr>ca_rejected := ca_rejected acc @ [(claim_id, reason)]\<rparr>
      | Accepted source declaration \<Rightarrow>
          let reconciled = was_reconciled claim_id declaration (ca_store acc);
              db1 = upsert_certificate (certificate_for cx corr source declaration) (ca_store acc)
          in if co_status corr = ''counterexample''
             then acc\<lparr>ca_store := set_claim_state claim_id COUNTEREXAMPLE_FOUND (cx_run_id cx) ''certify_counterexample''
                        (''Lean certified counterexample declaration '' @ ld_name declaration) False db1,
                      ca_counterexamples := ca_counterexamples acc @ [claim_id]\<rparr>
             else acc\<lparr>ca_store := set_claim_state claim_id CERTIFIED (cx_run_id cx)
                        (if reconciled then ''reconcile'' else ''certify'')
                        (if reconciled then ''Formal type unchanged; prior proof certificate retained''
                         else ''Lean accepted '' @ ld_name declaration @ '' and the independent project build passed'')
                        reconciled db1,
                      ca_certified := ca_certified acc @ [claim_id],
                      ca_reconciled := ca_reconciled acc @ (if reconciled then [claim_id] else [])\<rparr>)"

definition reject_certificate :: "int \<Rightarrow> string \<times> string \<Rightarrow> store_db \<Rightarrow> store_db" where
  "reject_certificate run_id rejection db =
     (case rejection of (claim_id, reason) \<Rightarrow>
        add_diagnostic run_id ''formalization_mismatch'' reason (Some claim_id) ''{}''
          (set_claim_state claim_id FAILED_FORMALIZATION run_id ''reject_certificate'' reason False db))"

definition certify_current_correspondence :: "cert_context \<Rightarrow> store_db \<Rightarrow> store_db \<times> certification_result" where
  "certify_current_correspondence cx db =
     (let acc = fold (certify_correspondence cx) (correspondence_rows db)
            \<lparr>ca_store = db, ca_certified = [], ca_reconciled = [], ca_counterexamples = [], ca_rejected = []\<rparr>
      in (fold (reject_certificate (cx_run_id cx)) (ca_rejected acc) (ca_store acc),
          \<lparr>cr_certified = sort (ca_certified acc), cr_reconciled = sort (ca_reconciled acc),
           cr_counterexamples = sort (ca_counterexamples acc), cr_rejected = sort (ca_rejected acc)\<rparr>))"

section \<open>Renewing the certificates of unchanged claims\<close>

definition renewable :: "cert_context \<Rightarrow> certificate_row \<Rightarrow> store_db \<Rightarrow> (source_object \<times> lean_declaration) option" where
  "renewable cx cert db =
     (case (claim_row_of (ct_claim_id cert) db, dict_by so_claim_id (cx_objects cx) (ct_claim_id cert),
            dict_by ld_name (cx_declarations cx) (ct_lean_declaration cert)) of
        (Some claim, Some source, Some declaration) \<Rightarrow>
          if c_status claim \<noteq> CERTIFIED \<or> ld_type_hash declaration \<noteq> ct_formal_type_hash cert
             \<or> ld_value_hash declaration = None \<or> list_ex is_sorry_axiom (ld_axioms declaration)
          then None else Some (source, declaration)
      | _ \<Rightarrow> None)"

definition revalidate_certificate :: "cert_context \<Rightarrow> certificate_row \<Rightarrow> store_db \<times> string list \<Rightarrow> store_db \<times> string list" where
  "revalidate_certificate cx cert acc =
     (case acc of (db, reused) \<Rightarrow> (case renewable cx cert db of
        None \<Rightarrow> (db, reused)
      | Some (source, declaration) \<Rightarrow>
          (set_claim_state (ct_claim_id cert) CERTIFIED (cx_run_id cx) ''environment_revalidate''
             ''Source and formal type unchanged; project rebuilt in the current environment'' True
             (upsert_certificate
               \<lparr>ct_claim_id = ct_claim_id cert, ct_status = ct_status cert, ct_manuscript_snapshot = cx_snapshot cx,
                ct_statement_hash = so_statement_hash source, ct_formal_type_hash = ld_type_hash declaration,
                ct_lean_declaration = ld_name declaration, ct_lean_value_hash = ld_value_hash declaration,
                ct_dependencies = ct_dependencies cert, ct_lean_dependencies = ld_direct_dependencies declaration,
                ct_axioms = ld_axioms declaration, ct_environment_hash = cx_environment_hash cx,
                ct_lean_version = cx_lean_version cx, ct_mathlib_revision = cx_mathlib_revision cx,
                ct_last_verified_run = cx_run_id cx\<rparr> db),
           reused @ [ct_claim_id cert])))"

definition revalidate_unchanged_certificates :: "cert_context \<Rightarrow> store_db \<Rightarrow> store_db \<times> string list" where
  "revalidate_unchanged_certificates cx db =
     (case fold (revalidate_certificate cx) (certificate_rows db) (db, []) of (db', reused) \<Rightarrow> (db', sort reused))"

section \<open>What the writes leave alone\<close>

named_theorems certify_simps "how a write changes the rows of a claim"

lemma claim_row_set_claim_state [certify_simps]:
  "claim_row_of k (set_claim_state cid state run_id action reason reused db)
   = map_option (\<lambda>c. if k = cid then c\<lparr>c_status := state, c_last_changed_run := Some run_id\<rparr> else c) (claim_row_of k db)"
  by (cases "claim_row_of k db")
    (auto simp: claim_row_of_def set_claim_state_def Let_def lookup_row_update_where dest: lookup_row_SomeD)

lemma certificate_set_claim_state [certify_simps]:
  "certificate k (set_claim_state cid state run_id action reason reused db) = certificate k db"
  by (simp add: certificate_def set_claim_state_def Let_def)

lemma claim_row_upsert_certificate [certify_simps]: "claim_row_of k (upsert_certificate row db) = claim_row_of k db"
  by (simp add: claim_row_of_def upsert_certificate_def)

lemma certificate_upsert_certificate [certify_simps]:
  "certificate k (upsert_certificate row db) = (if k = ct_claim_id row then Some row else certificate k db)"
  using certificate_table.upsert_lookup_same [of row "t_certificates db"]
    certificate_table.upsert_lookup_other [of k row "t_certificates db"]
  by (auto simp: certificate_def upsert_certificate_def merge_certificate_def dest: lookup_row_SomeD split: option.splits)

lemma add_diagnostic_rows [certify_simps]:
  "claim_row_of k (add_diagnostic r cat m c d db) = claim_row_of k db"
  "certificate k (add_diagnostic r cat m c d db) = certificate k db"
  by (simp_all add: claim_row_of_def certificate_def add_diagnostic_def)

lemma claim_keys [certify_simps]:
  "map c_claim_id (t_claims (set_claim_state cid state run_id action reason reused db)) = map c_claim_id (t_claims db)"
  "t_claims (upsert_certificate row db) = t_claims db" "t_claims (add_diagnostic r cat m c d db) = t_claims db"
  by (simp_all add: set_claim_state_def Let_def upsert_certificate_def add_diagnostic_def map_key_update_where)

definition state_in_force :: "claim_row option \<Rightarrow> claim_state option" where
  "state_in_force row = (case row of None \<Rightarrow> None | Some c \<Rightarrow> if c_retired c then None else Some (c_status c))"

lemma current_states_eq:
  assumes "unique_on c_claim_id (t_claims db)"
  shows "current_states db cid = state_in_force (claim_row_of cid db)"
proof -
  let ?rows = "current_claim_rows False db"
  have rows: "set ?rows = {c \<in> set (t_claims db). \<not> c_retired c}" by (auto simp: current_claim_rows_def)
  have dist: "distinct (map c_claim_id ?rows)"
    using assms by (simp add: current_claim_rows_def distinct_map_sort_key unique_on_def distinct_map_filter)
  show ?thesis
  proof (cases "dict_by c_claim_id ?rows cid")
    case None
    then have "cid \<notin> c_claim_id ` set ?rows" by (simp add: dict_by_None_iff)
    then show ?thesis
      using rows by (auto simp: current_states_def None state_in_force_def claim_row_of_def dest!: lookup_row_SomeD split: option.splits)
  next
    case (Some c)
    then have "c \<in> set ?rows" "c_claim_id c = cid" by (auto dest: dict_by_Some)
    then show ?thesis
      using rows lookup_row_unique [OF assms, of c] by (simp add: current_states_def Some state_in_force_def claim_row_of_def)
  qed
qed

section \<open>One correspondence at a time\<close>

lemmas certify_step_defs = certify_correspondence_def Let_def

lemma certify_other:
  fixes cx corr acc
  assumes "cid \<noteq> co_claim_id corr"
  defines "acc' \<equiv> certify_correspondence cx corr acc"
  shows "claim_row_of cid (ca_store acc') = claim_row_of cid (ca_store acc)"
    and "certificate cid (ca_store acc') = certificate cid (ca_store acc)"
    and "cid \<in> set (ca_certified acc') \<longleftrightarrow> cid \<in> set (ca_certified acc)"
    and "cid \<in> set (ca_reconciled acc') \<longleftrightarrow> cid \<in> set (ca_reconciled acc)"
    and "cid \<in> set (ca_counterexamples acc') \<longleftrightarrow> cid \<in> set (ca_counterexamples acc)"
    and "(cid, reason) \<in> set (ca_rejected acc') \<longleftrightarrow> (cid, reason) \<in> set (ca_rejected acc)"
  using assms(1)
  by (simp_all add: acc'_def certify_step_defs certify_simps certificate_for_def option.map_ident split: verdict.splits)

lemma certify_keys:
  "map c_claim_id (t_claims (ca_store (certify_correspondence cx corr acc))) = map c_claim_id (t_claims (ca_store acc))"
  by (simp add: certify_step_defs certify_simps split: verdict.splits)

lemma certify_others:
  fixes cx rows acc
  assumes "cid \<notin> co_claim_id ` set rows"
  defines "acc' \<equiv> fold (certify_correspondence cx) rows acc"
  shows "claim_row_of cid (ca_store acc') = claim_row_of cid (ca_store acc)"
    and "certificate cid (ca_store acc') = certificate cid (ca_store acc)"
    and "cid \<in> set (ca_certified acc') \<longleftrightarrow> cid \<in> set (ca_certified acc)"
    and "cid \<in> set (ca_reconciled acc') \<longleftrightarrow> cid \<in> set (ca_reconciled acc)"
    and "cid \<in> set (ca_counterexamples acc') \<longleftrightarrow> cid \<in> set (ca_counterexamples acc)"
    and "(cid, reason) \<in> set (ca_rejected acc') \<longleftrightarrow> (cid, reason) \<in> set (ca_rejected acc)"
  using assms(1) unfolding acc'_def
  by (induction rows arbitrary: acc) (simp_all add: certify_other)

lemma certify_keys_all:
  "map c_claim_id (t_claims (ca_store (fold (certify_correspondence cx) rows acc))) = map c_claim_id (t_claims (ca_store acc))"
  by (induction rows arbitrary: acc) (simp_all add: certify_keys)

definition cert_start :: "store_db \<Rightarrow> cert_acc" where
  "cert_start db = \<lparr>ca_store = db, ca_certified = [], ca_reconciled = [], ca_counterexamples = [], ca_rejected = []\<rparr>"

definition cert_loop :: "cert_context \<Rightarrow> store_db \<Rightarrow> cert_acc" where
  "cert_loop cx db = fold (certify_correspondence cx) (correspondence_rows db) (cert_start db)"

lemma certify_unfold:
  "certify_current_correspondence cx db =
     (fold (reject_certificate (cx_run_id cx)) (ca_rejected (cert_loop cx db)) (ca_store (cert_loop cx db)),
      \<lparr>cr_certified = sort (ca_certified (cert_loop cx db)), cr_reconciled = sort (ca_reconciled (cert_loop cx db)),
       cr_counterexamples = sort (ca_counterexamples (cert_loop cx db)), cr_rejected = sort (ca_rejected (cert_loop cx db))\<rparr>)"
  by (simp add: certify_current_correspondence_def cert_loop_def cert_start_def Let_def)

definition settled :: "int \<Rightarrow> claim_state \<Rightarrow> claim_row option \<Rightarrow> claim_row option" where
  "settled run_id state = map_option (\<lambda>c. c\<lparr>c_status := state, c_last_changed_run := Some run_id\<rparr>)"

text \<open>What the loop has done with one claim: nothing, a rejection noted, or a certificate written.\<close>

definition loop_outcome :: "cert_context \<Rightarrow> verdict \<Rightarrow> correspondence_row \<Rightarrow> store_db \<Rightarrow> cert_acc \<Rightarrow> bool" where
  "loop_outcome cx v corr db acc \<longleftrightarrow> (let cid = co_claim_id corr; cex = (co_status corr = ''counterexample'') in
     case v of
       Pending \<Rightarrow> claim_row_of cid (ca_store acc) = claim_row_of cid db \<and> certificate cid (ca_store acc) = certificate cid db
         \<and> cid \<notin> set (ca_certified acc) \<and> cid \<notin> set (ca_reconciled acc) \<and> cid \<notin> set (ca_counterexamples acc)
         \<and> cid \<notin> fst ` set (ca_rejected acc)
     | Rejected reason \<Rightarrow> claim_row_of cid (ca_store acc) = claim_row_of cid db \<and> certificate cid (ca_store acc) = certificate cid db
         \<and> cid \<notin> set (ca_certified acc) \<and> cid \<notin> set (ca_reconciled acc) \<and> cid \<notin> set (ca_counterexamples acc)
         \<and> (\<forall>r. (cid, r) \<in> set (ca_rejected acc) \<longleftrightarrow> r = reason)
     | Accepted source declaration \<Rightarrow>
         claim_row_of cid (ca_store acc) = settled (cx_run_id cx) (if cex then COUNTEREXAMPLE_FOUND else CERTIFIED) (claim_row_of cid db)
         \<and> certificate cid (ca_store acc) = Some (certificate_for cx corr source declaration)
         \<and> (cid \<in> set (ca_certified acc) \<longleftrightarrow> \<not> cex) \<and> (cid \<in> set (ca_counterexamples acc) \<longleftrightarrow> cex)
         \<and> (cid \<in> set (ca_reconciled acc) \<longleftrightarrow> \<not> cex \<and> was_reconciled cid declaration db)
         \<and> cid \<notin> fst ` set (ca_rejected acc))"

lemma step_outcome:
  assumes "claim_row_of (co_claim_id corr) (ca_store acc) = claim_row_of (co_claim_id corr) db"
    and "certificate (co_claim_id corr) (ca_store acc) = certificate (co_claim_id corr) db"
    and "co_claim_id corr \<notin> set (ca_certified acc)" and "co_claim_id corr \<notin> set (ca_reconciled acc)"
    and "co_claim_id corr \<notin> set (ca_counterexamples acc)" and "co_claim_id corr \<notin> fst ` set (ca_rejected acc)"
  shows "loop_outcome cx (correspondence_verdict cx (current_states (ca_store acc)) corr) corr db (certify_correspondence cx corr acc)"
proof (cases "correspondence_verdict cx (current_states (ca_store acc)) corr")
  case Pending
  with assms show ?thesis by (simp add: loop_outcome_def certify_step_defs)
next
  case (Rejected reason)
  with assms show ?thesis by (auto simp: loop_outcome_def certify_step_defs image_iff)
next
  case (Accepted source decl)
  have "was_reconciled (co_claim_id corr) decl (ca_store acc) = was_reconciled (co_claim_id corr) decl db"
    using assms by (simp add: was_reconciled_def)
  with Accepted assms show ?thesis
    by (simp add: loop_outcome_def certify_step_defs certify_simps certificate_for_def settled_def)
qed

lemma loop_outcome_cong:
  assumes "claim_row_of (co_claim_id corr) (ca_store acc) = claim_row_of (co_claim_id corr) (ca_store acc')"
    and "certificate (co_claim_id corr) (ca_store acc) = certificate (co_claim_id corr) (ca_store acc')"
    and "co_claim_id corr \<in> set (ca_certified acc) \<longleftrightarrow> co_claim_id corr \<in> set (ca_certified acc')"
    and "co_claim_id corr \<in> set (ca_reconciled acc) \<longleftrightarrow> co_claim_id corr \<in> set (ca_reconciled acc')"
    and "co_claim_id corr \<in> set (ca_counterexamples acc) \<longleftrightarrow> co_claim_id corr \<in> set (ca_counterexamples acc')"
    and "\<And>r. (co_claim_id corr, r) \<in> set (ca_rejected acc) \<longleftrightarrow> (co_claim_id corr, r) \<in> set (ca_rejected acc')"
  shows "loop_outcome cx v corr db acc = loop_outcome cx v corr db acc'"
proof -
  have "co_claim_id corr \<in> fst ` set (ca_rejected acc) \<longleftrightarrow> co_claim_id corr \<in> fst ` set (ca_rejected acc')"
    using assms(6) by force
  with assms show ?thesis by (simp add: loop_outcome_def Let_def split: verdict.splits)
qed

text \<open>The claim states a correspondence is judged against: those of the store, except for the claims the loop
  has certified or refuted before it.\<close>

definition states_during :: "store_db \<Rightarrow> cert_acc \<Rightarrow> (string \<Rightarrow> claim_state option) \<Rightarrow> bool" where
  "states_during db acc states \<longleftrightarrow> (\<forall>c. states c = current_states db c
     \<or> current_states db c \<noteq> None \<and> c \<in> set (ca_certified acc) \<and> states c = Some CERTIFIED
     \<or> current_states db c \<noteq> None \<and> c \<in> set (ca_counterexamples acc) \<and> states c = Some COUNTEREXAMPLE_FOUND)"

lemma certify_grows:
  "set (ca_certified acc) \<subseteq> set (ca_certified (fold (certify_correspondence cx) rows acc))
   \<and> set (ca_counterexamples acc) \<subseteq> set (ca_counterexamples (fold (certify_correspondence cx) rows acc))"
proof (induction rows arbitrary: acc)
  case (Cons r rows)
  have "set (ca_certified acc) \<subseteq> set (ca_certified (certify_correspondence cx r acc))
      \<and> set (ca_counterexamples acc) \<subseteq> set (ca_counterexamples (certify_correspondence cx r acc))"
    by (auto simp: certify_step_defs split: verdict.splits)
  with Cons [of "certify_correspondence cx r acc"] show ?case by auto
qed simp

lemma states_during_step:
  assumes "unique_on c_claim_id (t_claims (ca_store acc))" and "states_during db acc (current_states (ca_store acc))"
  shows "states_during db (certify_correspondence cx corr acc) (current_states (ca_store (certify_correspondence cx corr acc)))"
proof -
  let ?acc' = "certify_correspondence cx corr acc"
  have u': "unique_on c_claim_id (t_claims (ca_store ?acc'))" using assms(1) by (simp add: unique_on_def certify_keys)
  show ?thesis
    unfolding states_during_def
  proof
    fix c
    have old: "current_states (ca_store acc) c = current_states db c
       \<or> current_states db c \<noteq> None \<and> c \<in> set (ca_certified acc) \<and> current_states (ca_store acc) c = Some CERTIFIED
       \<or> current_states db c \<noteq> None \<and> c \<in> set (ca_counterexamples acc) \<and> current_states (ca_store acc) c = Some COUNTEREXAMPLE_FOUND"
      using assms(2) by (simp add: states_during_def)
    show "current_states (ca_store ?acc') c = current_states db c
       \<or> current_states db c \<noteq> None \<and> c \<in> set (ca_certified ?acc') \<and> current_states (ca_store ?acc') c = Some CERTIFIED
       \<or> current_states db c \<noteq> None \<and> c \<in> set (ca_counterexamples ?acc') \<and> current_states (ca_store ?acc') c = Some COUNTEREXAMPLE_FOUND"
    proof (cases "c = co_claim_id corr")
      case False
      then show ?thesis
        using old by (simp add: current_states_eq [OF assms(1)] current_states_eq [OF u'] certify_other)
    next
      case True
      show ?thesis
      proof (cases "correspondence_verdict cx (current_states (ca_store acc)) corr")
        case Pending
        with old show ?thesis by (simp add: certify_step_defs)
      next
        case (Rejected reason)
        with old show ?thesis by (simp add: certify_step_defs)
      next
        case (Accepted source decl)
        then have row: "claim_row_of c (ca_store ?acc') = settled (cx_run_id cx)
            (if co_status corr = ''counterexample'' then COUNTEREXAMPLE_FOUND else CERTIFIED) (claim_row_of c (ca_store acc))"
          and mem: "if co_status corr = ''counterexample'' then c \<in> set (ca_counterexamples ?acc') else c \<in> set (ca_certified ?acc')"
          using True by (simp_all add: certify_step_defs certify_simps settled_def)
        show ?thesis
        proof (cases "current_states (ca_store acc) c")
          case None
          then have "current_states (ca_store ?acc') c = None"
            by (auto simp: current_states_eq [OF assms(1)] current_states_eq [OF u'] row state_in_force_def settled_def split: option.splits if_splits)
          with None old show ?thesis by auto
        next
          case (Some st)
          then have "current_states (ca_store ?acc') c = Some (if co_status corr = ''counterexample'' then COUNTEREXAMPLE_FOUND else CERTIFIED)"
            by (auto simp: current_states_eq [OF assms(1)] current_states_eq [OF u'] row state_in_force_def settled_def split: option.splits if_splits)
          moreover have "current_states db c \<noteq> None" using Some old by (cases "current_states db c") auto
          ultimately show ?thesis using mem by (auto split: if_splits)
        qed
      qed
    qed
  qed
qed

lemma states_during_prefix:
  fixes cx rows db
  assumes "unique_on c_claim_id (t_claims db)"
  defines "mid \<equiv> fold (certify_correspondence cx) rows (cert_start db)"
  shows "states_during db mid (current_states (ca_store mid))"
  unfolding mid_def
proof (induction rows rule: rev_induct)
  case Nil
  then show ?case by (simp add: states_during_def cert_start_def)
next
  case (snoc r rows)
  have "unique_on c_claim_id (t_claims (ca_store (fold (certify_correspondence cx) rows (cert_start db))))"
    using assms(1) by (simp add: unique_on_def certify_keys_all cert_start_def)
  from states_during_step [OF this snoc] show ?case by simp
qed

lemma correspondence_turn:
  assumes "store_inv db" and "corr \<in> set (t_correspondence db)"
  obtains states where "states_during db (cert_loop cx db) states"
    and "loop_outcome cx (correspondence_verdict cx states corr) corr db (cert_loop cx db)"
proof -
  have dist: "distinct (map co_claim_id (correspondence_rows db))"
    using store_invD(23) [OF assms(1)] by (simp add: correspondence_rows_def distinct_map_sort_key unique_on_def)
  have "corr \<in> set (correspondence_rows db)" using assms(2) by (simp add: correspondence_rows_def)
  then obtain pre post where rows: "correspondence_rows db = pre @ corr # post" by (meson split_list)
  let ?mid = "fold (certify_correspondence cx) pre (cert_start db)"
  let ?step = "certify_correspondence cx corr ?mid"
  have fin: "cert_loop cx db = fold (certify_correspondence cx) post ?step" by (simp add: cert_loop_def rows)
  have notin: "co_claim_id corr \<notin> co_claim_id ` set pre" "co_claim_id corr \<notin> co_claim_id ` set post"
    using dist by (auto simp: rows)
  have out: "loop_outcome cx (correspondence_verdict cx (current_states (ca_store ?mid)) corr) corr db ?step"
    by (rule step_outcome) (use certify_others [OF notin(1), where cx = cx and acc = "cert_start db"] in \<open>auto simp: cert_start_def\<close>)
  have "loop_outcome cx v corr db ?step = loop_outcome cx v corr db (cert_loop cx db)" for v
    unfolding fin by (rule loop_outcome_cong) (simp_all add: certify_others [OF notin(2)])
  with out have "loop_outcome cx (correspondence_verdict cx (current_states (ca_store ?mid)) corr) corr db (cert_loop cx db)" by simp
  moreover have "states_during db (cert_loop cx db) (current_states (ca_store ?mid))"
  proof -
    have "set (ca_certified ?mid) \<subseteq> set (ca_certified (cert_loop cx db))"
        "set (ca_counterexamples ?mid) \<subseteq> set (ca_counterexamples (cert_loop cx db))"
      using certify_grows [of ?mid cx "corr # post"] by (simp_all add: fin)
    then show ?thesis
      using states_during_prefix [OF store_invD(4) [OF assms(1)], where cx = cx and rows = pre] by (auto simp: states_during_def)
  qed
  ultimately show thesis using that by blast
qed

lemma settled_settled [simp]: "settled r s (settled r s' row) = settled r s row"
  by (cases row) (simp_all add: settled_def)

lemma state_in_force_settled: "state_in_force (settled r s row) = (if state_in_force row = None then None else Some s)"
  by (cases row) (auto simp: settled_def state_in_force_def)

lemma reject_all:
  "claim_row_of c (fold (reject_certificate run_id) rejections db)
     = (if c \<in> fst ` set rejections then settled run_id FAILED_FORMALIZATION (claim_row_of c db) else claim_row_of c db)"
  "certificate c (fold (reject_certificate run_id) rejections db) = certificate c db"
  "map c_claim_id (t_claims (fold (reject_certificate run_id) rejections db)) = map c_claim_id (t_claims db)"
proof (induction rejections arbitrary: db)
  case (Cons r rejections)
  have row: "claim_row_of c (reject_certificate run_id r db)
      = (if c = fst r then settled run_id FAILED_FORMALIZATION (claim_row_of c db) else claim_row_of c db)" for c db
    by (cases r) (auto simp: reject_certificate_def certify_simps settled_def option.map_ident)
  have cert: "certificate c (reject_certificate run_id r db) = certificate c db" for c db
    by (cases r) (simp add: reject_certificate_def certify_simps)
  have keys: "map c_claim_id (t_claims (reject_certificate run_id r db)) = map c_claim_id (t_claims db)" for db
    by (cases r) (simp add: reject_certificate_def certify_simps)
  { case 1 show ?case by (simp add: Cons.IH row) }
  { case 2 show ?case by (simp add: Cons.IH cert) }
  { case 3 show ?case by (simp add: Cons.IH keys) }
qed simp_all

lemma certify_result:
  assumes "certify_current_correspondence cx db = (db', res)"
  shows "set (cr_certified res) = set (ca_certified (cert_loop cx db))"
    and "set (cr_reconciled res) = set (ca_reconciled (cert_loop cx db))"
    and "set (cr_counterexamples res) = set (ca_counterexamples (cert_loop cx db))"
    and "set (cr_rejected res) = set (ca_rejected (cert_loop cx db))"
    and "claim_row_of c db' = (if c \<in> fst ` set (cr_rejected res)
           then settled (cx_run_id cx) FAILED_FORMALIZATION (claim_row_of c (ca_store (cert_loop cx db)))
           else claim_row_of c (ca_store (cert_loop cx db)))"
    and "certificate c db' = certificate c (ca_store (cert_loop cx db))"
    and "map c_claim_id (t_claims db') = map c_claim_id (t_claims db)"
proof -
  have k: "map c_claim_id (t_claims (ca_store (cert_loop cx db))) = map c_claim_id (t_claims db)"
    by (simp add: cert_loop_def certify_keys_all cert_start_def)
  have res: "res = \<lparr>cr_certified = sort (ca_certified (cert_loop cx db)), cr_reconciled = sort (ca_reconciled (cert_loop cx db)),
       cr_counterexamples = sort (ca_counterexamples (cert_loop cx db)), cr_rejected = sort (ca_rejected (cert_loop cx db))\<rparr>"
    and db': "db' = fold (reject_certificate (cx_run_id cx)) (ca_rejected (cert_loop cx db)) (ca_store (cert_loop cx db))"
    using assms by (simp_all add: certify_unfold)
  show "set (cr_certified res) = set (ca_certified (cert_loop cx db))"
    "set (cr_reconciled res) = set (ca_reconciled (cert_loop cx db))"
    "set (cr_counterexamples res) = set (ca_counterexamples (cert_loop cx db))"
    "set (cr_rejected res) = set (ca_rejected (cert_loop cx db))"
    by (simp_all add: res)
  show "claim_row_of c db' = (if c \<in> fst ` set (cr_rejected res)
           then settled (cx_run_id cx) FAILED_FORMALIZATION (claim_row_of c (ca_store (cert_loop cx db)))
           else claim_row_of c (ca_store (cert_loop cx db)))"
    by (simp add: res db' reject_all del: set_map)
  show "certificate c db' = certificate c (ca_store (cert_loop cx db))" by (simp add: db' reject_all)
  show "map c_claim_id (t_claims db') = map c_claim_id (t_claims db)" by (simp add: db' reject_all k)
qed

definition correspondence_outcome ::
    "cert_context \<Rightarrow> verdict \<Rightarrow> correspondence_row \<Rightarrow> store_db \<Rightarrow> store_db \<Rightarrow> certification_result \<Rightarrow> bool" where
  "correspondence_outcome cx v corr db db' res \<longleftrightarrow>
     (let cid = co_claim_id corr; cex = (co_status corr = ''counterexample''); run_id = cx_run_id cx in case v of
        Pending \<Rightarrow> claim_row_of cid db' = claim_row_of cid db \<and> certificate cid db' = certificate cid db
          \<and> cid \<notin> set (cr_certified res) \<union> set (cr_counterexamples res) \<union> fst ` set (cr_rejected res)
      | Rejected reason \<Rightarrow> claim_row_of cid db' = settled run_id FAILED_FORMALIZATION (claim_row_of cid db)
          \<and> certificate cid db' = certificate cid db \<and> (cid, reason) \<in> set (cr_rejected res)
          \<and> cid \<notin> set (cr_certified res) \<union> set (cr_counterexamples res)
      | Accepted source decl \<Rightarrow>
          claim_row_of cid db' = settled run_id (if cex then COUNTEREXAMPLE_FOUND else CERTIFIED) (claim_row_of cid db)
          \<and> certificate cid db' = Some (certificate_for cx corr source decl)
          \<and> (cid \<in> set (cr_certified res) \<longleftrightarrow> \<not> cex) \<and> (cid \<in> set (cr_counterexamples res) \<longleftrightarrow> cex)
          \<and> (cid \<in> set (cr_reconciled res) \<longleftrightarrow> \<not> cex \<and> was_reconciled cid decl db)
          \<and> cid \<notin> fst ` set (cr_rejected res))"

lemma loop_to_result:
  assumes "certify_current_correspondence cx db = (db', res)" and "loop_outcome cx v corr db (cert_loop cx db)"
  shows "correspondence_outcome cx v corr db db' res"
proof (cases v)
  case (Rejected reason)
  with assms(2) have "(co_claim_id corr, reason) \<in> set (ca_rejected (cert_loop cx db))"
    by (simp add: loop_outcome_def Let_def)
  from imageI [OF this, of fst] have "co_claim_id corr \<in> fst ` set (ca_rejected (cert_loop cx db))" by simp
  with Rejected assms(2) show ?thesis
    by (simp add: loop_outcome_def correspondence_outcome_def Let_def certify_result [OF assms(1)])
qed (use assms(2) in \<open>simp_all add: loop_outcome_def correspondence_outcome_def Let_def certify_result [OF assms(1)]\<close>)

lemma certify_turn:
  assumes "store_inv db" and "certify_current_correspondence cx db = (db', res)" and "corr \<in> set (t_correspondence db)"
  obtains states where "states_during db (cert_loop cx db) states"
    and "correspondence_outcome cx (correspondence_verdict cx states corr) corr db db' res"
proof -
  obtain states where "states_during db (cert_loop cx db) states"
      and "loop_outcome cx (correspondence_verdict cx states corr) corr db (cert_loop cx db)"
    by (rule correspondence_turn [OF assms(1,3)])
  then show thesis by (intro that loop_to_result [OF assms(2)])
qed

lemma certify_untouched:
  assumes "certify_current_correspondence cx db = (db', res)" and "c \<notin> co_claim_id ` set (t_correspondence db)"
  shows "claim_row_of c db' = claim_row_of c db" and "certificate c db' = certificate c db"
    and "c \<notin> set (cr_certified res) \<union> set (cr_counterexamples res) \<union> fst ` set (cr_rejected res)"
proof -
  have c: "c \<notin> co_claim_id ` set (correspondence_rows db)" using assms(2) by (simp add: correspondence_rows_def)
  note other = certify_others [OF c, where cx = cx and acc = "cert_start db"]
  have rej: "c \<notin> fst ` set (ca_rejected (cert_loop cx db))"
    using other(6) by (auto simp: cert_loop_def cert_start_def)
  show "claim_row_of c db' = claim_row_of c db" "certificate c db' = certificate c db"
    using rej other(1,2) by (simp_all add: certify_result [OF assms(1)] cert_loop_def cert_start_def)
  show "c \<notin> set (cr_certified res) \<union> set (cr_counterexamples res) \<union> fst ` set (cr_rejected res)"
    using rej other(3,5) by (simp add: certify_result [OF assms(1)] cert_loop_def cert_start_def)
qed

lemma current_states_after:
  assumes "store_inv db" and "certify_current_correspondence cx db = (db', res)"
  shows "current_states db' c = state_in_force (claim_row_of c db')"
  by (rule current_states_eq) (use store_invD(4) [OF assms(1)] certify_result(7) [OF assms(2)] in \<open>simp add: unique_on_def\<close>)

text \<open>A change of states that keeps what satisfies dependents.\<close>

definition keeps_satisfied :: "(string \<Rightarrow> claim_state option) \<Rightarrow> (string \<Rightarrow> claim_state option) \<Rightarrow> bool" where
  "keeps_satisfied s t \<longleftrightarrow> (\<forall>c. (s c = Some CERTIFIED \<longrightarrow> t c = Some CERTIFIED)
     \<and> (s c = Some SKIPPED_UNPROVED \<longrightarrow> t c \<in> {Some SKIPPED_UNPROVED, Some CERTIFIED}))"

lemma dict_get_state: "k \<noteq> DISCOVERED \<Longrightarrow> dict_get s c DISCOVERED = k \<longleftrightarrow> s c = Some k"
  by (auto simp: dict_get_def split: option.splits)

lemma keeps_satisfied_mono:
  assumes "keeps_satisfied s t" and "satisfied s guided deps c"
  shows "satisfied t guided deps c"
  using assms(2)
proof (induction rule: satisfied.induct)
  case (certified c)
  with assms(1) have "t c = Some CERTIFIED" by (simp add: dict_get_state keeps_satisfied_def)
  then show ?case by (intro satisfied.certified) (simp add: dict_get_def)
next
  case (guided_skip c)
  then have "t c = Some SKIPPED_UNPROVED \<or> t c = Some CERTIFIED"
    using assms(1) by (auto simp: dict_get_state keeps_satisfied_def)
  with guided_skip show ?case by (auto simp: dict_get_def intro: satisfied.intros)
qed

text \<open>Every claim in force that is CERTIFIED has only satisfied dependencies.\<close>

definition certified_closed :: "manuscript_edge list \<Rightarrow> store_db \<Rightarrow> bool" where
  "certified_closed edges db \<longleftrightarrow>
     (\<forall>c. current_states db c = Some CERTIFIED \<longrightarrow> unsatisfied_dependencies c (current_states db) edges = [])"

lemma unsatisfied_Nil_iff:
  "unsatisfied_dependencies c states edges = [] \<longleftrightarrow> (\<forall>d. (c, d) \<in> approved_rel edges \<longrightarrow> sat_in states UNIV edges d)"
  using unsatisfied_dependencies_mem [of _ c states edges] by (metis empty_iff empty_set last_in_set)

lemma accepted_not_pending:
  "correspondence_verdict cx states corr = Accepted source decl \<Longrightarrow>
   co_last_updated_run corr = cx_run_id cx \<and> co_approved corr
   \<and> dict_by so_claim_id (cx_objects cx) (co_claim_id corr) = Some source
   \<and> dict_by ld_name (cx_declarations cx) (co_lean_declaration corr) = Some decl
   \<and> ld_kind decl \<noteq> ''axiom'' \<and> ld_value_hash decl \<noteq> None
   \<and> (co_status corr = ''counterexample'' \<or> unsatisfied_dependencies (co_claim_id corr) states (cx_edges cx) = [])
   \<and> reject_forbidden_axioms decl (cx_baseline_project_axioms cx) = []"
  by (auto simp: correspondence_verdict_def Let_def split: if_splits option.splits)

lemma rejected_current:
  "correspondence_verdict cx states corr = Rejected reason \<Longrightarrow> co_last_updated_run corr = cx_run_id cx \<and> co_approved corr"
  by (auto simp: correspondence_verdict_def split: if_splits)

lemma certify_keeps_states:
  assumes "store_inv db" and "certify_current_correspondence cx db = (db', res)"
    and "\<forall>corr\<in>set (t_correspondence db). co_last_updated_run corr = cx_run_id cx \<and> co_approved corr
           \<longrightarrow> current_states db (co_claim_id corr) \<notin> {Some CERTIFIED, Some SKIPPED_UNPROVED}"
    and "current_states db c \<in> {Some CERTIFIED, Some SKIPPED_UNPROVED}"
  shows "current_states db' c = current_states db c"
proof -
  note states_eq = current_states_eq [OF store_invD(4) [OF assms(1)]] current_states_after [OF assms(1,2)]
  show ?thesis
  proof (cases "c \<in> co_claim_id ` set (t_correspondence db)")
    case False
    then show ?thesis using certify_untouched(1) [OF assms(2)] by (simp add: states_eq)
  next
    case True
    then obtain corr where corr: "corr \<in> set (t_correspondence db)" "co_claim_id corr = c" by auto
    obtain states where "correspondence_outcome cx (correspondence_verdict cx states corr) corr db db' res"
      by (rule certify_turn [OF assms(1,2) corr(1)])
    moreover have "correspondence_verdict cx states corr = Pending"
      using assms(3,4) corr accepted_not_pending rejected_current
      by (cases "correspondence_verdict cx states corr") blast+
    ultimately show ?thesis using corr(2) by (simp add: correspondence_outcome_def Let_def states_eq)
  qed
qed

lemma certified_in_force:
  assumes "store_inv db" and "certify_current_correspondence cx db = (db', res)"
    and "c \<in> set (cr_certified res)" and "current_states db c \<noteq> None"
  shows "current_states db' c = Some CERTIFIED"
proof -
  obtain corr where corr: "corr \<in> set (t_correspondence db)" "co_claim_id corr = c"
    using certify_untouched(3) [OF assms(2), of c] assms(3) by auto
  obtain states where "correspondence_outcome cx (correspondence_verdict cx states corr) corr db db' res"
    by (rule certify_turn [OF assms(1,2) corr(1)])
  with assms(3,4) corr(2) show ?thesis
    by (cases "correspondence_verdict cx states corr")
      (auto simp: correspondence_outcome_def Let_def state_in_force_settled
        current_states_eq [OF store_invD(4) [OF assms(1)]] current_states_after [OF assms(1,2)])
qed

lemma newly_certified:
  assumes "store_inv db" and "certify_current_correspondence cx db = (db', res)"
    and "current_states db' c = Some CERTIFIED" and "current_states db c \<noteq> Some CERTIFIED"
  shows "\<exists>states. states_during db (cert_loop cx db) states \<and> unsatisfied_dependencies c states (cx_edges cx) = []"
proof -
  note states_eq = current_states_eq [OF store_invD(4) [OF assms(1)]] current_states_after [OF assms(1,2)]
  have "claim_row_of c db' \<noteq> claim_row_of c db" using assms(3,4) by (auto simp: states_eq)
  then obtain corr where corr: "corr \<in> set (t_correspondence db)" "co_claim_id corr = c"
    using certify_untouched(1) [OF assms(2), of c] by auto
  obtain states where during: "states_during db (cert_loop cx db) states"
    and out: "correspondence_outcome cx (correspondence_verdict cx states corr) corr db db' res"
    by (rule certify_turn [OF assms(1,2) corr(1)])
  from out corr(2) assms(3,4) obtain source decl where v: "correspondence_verdict cx states corr = Accepted source decl"
      and "co_status corr \<noteq> ''counterexample''"
    by (cases "correspondence_verdict cx states corr")
      (auto simp: correspondence_outcome_def Let_def states_eq state_in_force_settled split: if_splits)
  with during accepted_not_pending [OF v] corr(2) show ?thesis by auto
qed

section \<open>Properties\<close>


text \<open>C8. Nothing is certified without a proof: every certified claim has an approved correspondence of this run
  that is no counterexample, to a declaration that exists, is no axiom, has a body and depends on no
  forbidden axiom, and at its turn every approved dependency of the claim was satisfied.\<close>

theorem certified_claims_are_proved:
  assumes "store_inv db" and "certify_current_correspondence cx db = (db', res)" and "cid \<in> set (cr_certified res)"
  shows "\<exists>corr source decl states. corr \<in> set (t_correspondence db) \<and> co_claim_id corr = cid
    \<and> co_last_updated_run corr = cx_run_id cx \<and> co_approved corr \<and> co_status corr \<noteq> ''counterexample''
    \<and> source \<in> set (cx_objects cx) \<and> so_claim_id source = cid
    \<and> decl \<in> set (cx_declarations cx) \<and> ld_name decl = co_lean_declaration corr
    \<and> ld_kind decl \<noteq> ''axiom'' \<and> ld_value_hash decl \<noteq> None
    \<and> (\<forall>a\<in>set (ld_axioms decl). a \<noteq> ''sorryAx'' \<and> \<not> suffix ''.sorryAx'' a
         \<and> (prefix ''ManuscriptVerification.'' a \<longrightarrow> a \<in> cx_baseline_project_axioms cx))
    \<and> unsatisfied_dependencies cid states (cx_edges cx) = []
    \<and> (\<forall>c. states c = current_states db c \<or> c \<in> set (cr_certified res) \<and> states c = Some CERTIFIED
          \<or> c \<in> set (cr_counterexamples res) \<and> states c = Some COUNTEREXAMPLE_FOUND)
    \<and> certificate cid db' = Some (certificate_for cx corr source decl)"
proof -
  obtain corr where corr: "corr \<in> set (t_correspondence db)" "co_claim_id corr = cid"
    using certify_untouched(3) [OF assms(2), of cid] assms(3) by auto
  then obtain states where s: "states_during db (cert_loop cx db) states"
    and out: "correspondence_outcome cx (correspondence_verdict cx states corr) corr db db' res"
    using certify_turn [OF assms(1,2)] by metis
  from out assms(3) corr(2) obtain source decl where v: "correspondence_verdict cx states corr = Accepted source decl"
    by (cases "correspondence_verdict cx states corr") (auto simp: correspondence_outcome_def Let_def)
  with out assms(3) corr(2) have cex: "co_status corr \<noteq> ''counterexample''"
      and cert: "certificate cid db' = Some (certificate_for cx corr source decl)"
    by (auto simp: correspondence_outcome_def Let_def)
  have st: "\<forall>c. states c = current_states db c \<or> c \<in> set (cr_certified res) \<and> states c = Some CERTIFIED
          \<or> c \<in> set (cr_counterexamples res) \<and> states c = Some COUNTEREXAMPLE_FOUND"
    using s by (auto simp: states_during_def certify_result [OF assms(2)])
  have axioms: "a \<noteq> ''sorryAx'' \<and> \<not> suffix ''.sorryAx'' a \<and> (prefix ''ManuscriptVerification.'' a \<longrightarrow> a \<in> cx_baseline_project_axioms cx)"
    if "a \<in> set (ld_axioms decl)" for a
    using accepted_not_pending [OF v] that
    by (auto simp: reject_forbidden_axioms_def is_sorry_axiom_def filter_empty_conv simp flip: set_empty)
  note gates = accepted_not_pending [OF v]
  have deps: "unsatisfied_dependencies cid states (cx_edges cx) = []" using gates cex corr(2) by simp
  show ?thesis
  proof (intro exI conjI)
    show "corr \<in> set (t_correspondence db)" "co_claim_id corr = cid" by (rule corr)+
    show "co_last_updated_run corr = cx_run_id cx" "co_approved corr" using gates by simp_all
    show "co_status corr \<noteq> ''counterexample''" by (rule cex)
    show "source \<in> set (cx_objects cx)" "so_claim_id source = cid" "decl \<in> set (cx_declarations cx)" "ld_name decl = co_lean_declaration corr"
      using gates corr(2) by (auto dest: dict_by_Some)
    show "ld_kind decl \<noteq> ''axiom''" "ld_value_hash decl \<noteq> None" using gates by simp_all
    show "\<forall>a\<in>set (ld_axioms decl). a \<noteq> ''sorryAx'' \<and> \<not> suffix ''.sorryAx'' a
         \<and> (prefix ''ManuscriptVerification.'' a \<longrightarrow> a \<in> cx_baseline_project_axioms cx)" using axioms by (intro ballI)
    show "unsatisfied_dependencies cid states (cx_edges cx) = []" by (rule deps)
    show "\<forall>c. states c = current_states db c \<or> c \<in> set (cr_certified res) \<and> states c = Some CERTIFIED
          \<or> c \<in> set (cr_counterexamples res) \<and> states c = Some COUNTEREXAMPLE_FOUND" by (rule st)
    show "certificate cid db' = Some (certificate_for cx corr source decl)" by (rule cert)
  qed
qed

text \<open>Certification keeps the certified claims closed under dependencies: if every CERTIFIED claim in force had only
  satisfied dependencies, and no correspondence of this run is about a claim that already satisfies others
  (CERTIFIED or SKIPPED_UNPROVED), then the same holds of the store it leaves.\<close>

theorem certification_keeps_closed:
  assumes "store_inv db" and "certified_closed (cx_edges cx) db"
    and "\<forall>corr\<in>set (t_correspondence db). co_last_updated_run corr = cx_run_id cx \<and> co_approved corr
           \<longrightarrow> current_states db (co_claim_id corr) \<notin> {Some CERTIFIED, Some SKIPPED_UNPROVED}"
    and "certify_current_correspondence cx db = (db', res)"
  shows "certified_closed (cx_edges cx) db'"
proof -
  note kept = certify_keeps_states [OF assms(1,4,3)]
  have keeps: "keeps_satisfied states (current_states db')" if "states_during db (cert_loop cx db) states" for states
    unfolding keeps_satisfied_def
  proof (intro allI conjI impI)
    fix c
    have s: "states c = current_states db c \<or> current_states db c \<noteq> None \<and> c \<in> set (cr_certified res) \<and> states c = Some CERTIFIED
       \<or> states c = Some COUNTEREXAMPLE_FOUND"
      using that by (auto simp: states_during_def certify_result [OF assms(4)])
    { assume "states c = Some CERTIFIED"
      with s kept [of c] certified_in_force [OF assms(1,4), of c] show "current_states db' c = Some CERTIFIED" by auto }
    { assume "states c = Some SKIPPED_UNPROVED"
      with s kept [of c] show "current_states db' c \<in> {Some SKIPPED_UNPROVED, Some CERTIFIED}" by auto }
  qed
  have before: "\<exists>states. states_during db (cert_loop cx db) states \<and> unsatisfied_dependencies c states (cx_edges cx) = []"
    if "current_states db' c = Some CERTIFIED" for c
  proof (cases "current_states db c = Some CERTIFIED")
    case True
    then show ?thesis using assms(2)
      by (intro exI [of _ "current_states db"]) (simp add: certified_closed_def states_during_def)
  qed (rule newly_certified [OF assms(1,4) that])
  show ?thesis
    unfolding certified_closed_def unsatisfied_Nil_iff
    using before keeps keeps_satisfied_mono unfolding unsatisfied_Nil_iff by blast
qed

section \<open>Renewal\<close>

lemma renewable_Some:
  "renewable cx cert db = Some (source, decl) \<Longrightarrow>
   (\<exists>claim. claim_row_of (ct_claim_id cert) db = Some claim \<and> c_status claim = CERTIFIED)
   \<and> source \<in> set (cx_objects cx) \<and> so_claim_id source = ct_claim_id cert
   \<and> decl \<in> set (cx_declarations cx) \<and> ld_name decl = ct_lean_declaration cert
   \<and> ld_type_hash decl = ct_formal_type_hash cert \<and> ld_value_hash decl \<noteq> None
   \<and> (\<forall>a\<in>set (ld_axioms decl). \<not> is_sorry_axiom a)"
  by (auto simp: renewable_def list_ex_iff split: option.splits if_splits dest: dict_by_Some)

definition renewed :: "cert_context \<Rightarrow> certificate_row \<Rightarrow> source_object \<Rightarrow> lean_declaration \<Rightarrow> certificate_row" where
  "renewed cx cert source decl = cert\<lparr>ct_manuscript_snapshot := cx_snapshot cx, ct_statement_hash := so_statement_hash source,
     ct_lean_value_hash := ld_value_hash decl, ct_lean_dependencies := ld_direct_dependencies decl,
     ct_axioms := ld_axioms decl, ct_environment_hash := cx_environment_hash cx, ct_lean_version := cx_lean_version cx,
     ct_mathlib_revision := cx_mathlib_revision cx, ct_last_verified_run := cx_run_id cx\<rparr>"

lemma revalidate_step:
  "renewable cx cert db = Some (source, decl) \<Longrightarrow>
   revalidate_certificate cx cert (db, reused) = (let db' = fst (revalidate_certificate cx cert (db, reused))
     in (db', reused @ [ct_claim_id cert]))
   \<and> claim_row_of c (fst (revalidate_certificate cx cert (db, reused)))
       = (if c = ct_claim_id cert then settled (cx_run_id cx) CERTIFIED (claim_row_of c db) else claim_row_of c db)
   \<and> certificate c (fst (revalidate_certificate cx cert (db, reused)))
       = (if c = ct_claim_id cert then Some (renewed cx cert source decl) else certificate c db)"
  by (auto simp: revalidate_certificate_def certify_simps settled_def renewed_def option.map_ident
      dest!: renewable_Some)

lemma revalidate_loop:
  assumes "distinct (map ct_claim_id certs)"
    and "fold (revalidate_certificate cx) certs (db, reused0) = (db', reused)"
  shows "reused = reused0 @ map ct_claim_id (filter (\<lambda>cert. renewable cx cert db \<noteq> None) certs)
    \<and> (\<forall>cert\<in>set certs. certificate (ct_claim_id cert) db' = (case renewable cx cert db of
          None \<Rightarrow> certificate (ct_claim_id cert) db | Some (source, decl) \<Rightarrow> Some (renewed cx cert source decl))
        \<and> claim_row_of (ct_claim_id cert) db' = (if renewable cx cert db = None then claim_row_of (ct_claim_id cert) db
            else settled (cx_run_id cx) CERTIFIED (claim_row_of (ct_claim_id cert) db)))
    \<and> (\<forall>c. c \<notin> ct_claim_id ` set certs \<longrightarrow> certificate c db' = certificate c db \<and> claim_row_of c db' = claim_row_of c db)"
  using assms
proof (induction certs arbitrary: db reused0)
  case Nil
  then show ?case by simp
next
  case (Cons cert certs)
  obtain db1 reused1 where step: "revalidate_certificate cx cert (db, reused0) = (db1, reused1)" by fastforce
  with Cons.prems have rest: "fold (revalidate_certificate cx) certs (db1, reused1) = (db', reused)" by simp
  have dist: "distinct (map ct_claim_id certs)" "ct_claim_id cert \<notin> ct_claim_id ` set certs" using Cons.prems(1) by auto
  have reused1: "reused1 = reused0 @ (if renewable cx cert db = None then [] else [ct_claim_id cert])"
    using step by (auto simp: revalidate_certificate_def split: option.splits)
  have other: "claim_row_of c db1 = claim_row_of c db" "certificate c db1 = certificate c db" if "c \<noteq> ct_claim_id cert" for c
    using step that revalidate_step [of cx cert db _ _ reused0 c]
    by (cases "renewable cx cert db"; force simp: revalidate_certificate_def)+
  have this_one: "certificate (ct_claim_id cert) db1 = (case renewable cx cert db of
          None \<Rightarrow> certificate (ct_claim_id cert) db | Some (source, decl) \<Rightarrow> Some (renewed cx cert source decl))"
      "claim_row_of (ct_claim_id cert) db1 = (if renewable cx cert db = None then claim_row_of (ct_claim_id cert) db
            else settled (cx_run_id cx) CERTIFIED (claim_row_of (ct_claim_id cert) db))"
    using step revalidate_step [of cx cert db _ _ reused0 "ct_claim_id cert"]
    by (cases "renewable cx cert db"; force simp: revalidate_certificate_def)+
  have ne: "ct_claim_id x \<noteq> ct_claim_id cert" if "x \<in> set certs" for x using dist(2) that by (auto simp: image_iff)
  have same: "renewable cx x db1 = renewable cx x db" if "x \<in> set certs" for x
    using other ne [OF that] by (simp add: renewable_def)
  note IH = Cons.IH [OF dist(1) rest]
  have "reused = reused0 @ map ct_claim_id (filter (\<lambda>cert. renewable cx cert db \<noteq> None) (cert # certs))"
    using IH same by (auto simp: reused1 cong: filter_cong)
  moreover have "certificate (ct_claim_id x) db' = (case renewable cx x db of
          None \<Rightarrow> certificate (ct_claim_id x) db | Some (source, decl) \<Rightarrow> Some (renewed cx x source decl))
        \<and> claim_row_of (ct_claim_id x) db' = (if renewable cx x db = None then claim_row_of (ct_claim_id x) db
            else settled (cx_run_id cx) CERTIFIED (claim_row_of (ct_claim_id x) db))" if "x \<in> set (cert # certs)" for x
  proof (cases "x \<in> set certs")
    case True
    with IH same [OF True] other [OF ne [OF True]] show ?thesis by (auto split: option.splits)
  next
    case False
    with that have "x = cert" by simp
    with IH dist(2) this_one show ?thesis by (auto split: option.splits)
  qed
  moreover have "certificate c db' = certificate c db \<and> claim_row_of c db' = claim_row_of c db"
    if "c \<notin> ct_claim_id ` set (cert # certs)" for c
    using IH other [of c] that by simp
  ultimately show ?case by blast
qed

text \<open>Renewal keeps exactly the certificates that still stand: those of claims still CERTIFIED whose source object
  and declaration exist, with the same formal type, a body and no \<open>sorryAx\<close>. They are restamped with the
  new snapshot, proof body and environment; every other certificate is left as it is and no claim changes its state.\<close>

theorem revalidation_exact:
  assumes "store_inv db" and "revalidate_unchanged_certificates cx db = (db', reused)"
  shows "reused = sort (map ct_claim_id (filter (\<lambda>cert. renewable cx cert db \<noteq> None) (t_certificates db)))
    \<and> (\<forall>cert\<in>set (t_certificates db). certificate (ct_claim_id cert) db' = Some (case renewable cx cert db of
          None \<Rightarrow> cert | Some (source, decl) \<Rightarrow> renewed cx cert source decl))
    \<and> (\<forall>cid. map_option c_status (claim_row_of cid db') = map_option c_status (claim_row_of cid db))"
proof -
  obtain reused1 where fold: "fold (revalidate_certificate cx) (certificate_rows db) (db, []) = (db', reused1)"
    and reused: "reused = sort reused1"
    using assms(2) by (auto simp: revalidate_unchanged_certificates_def split: prod.splits)
  have u: "unique_on ct_claim_id (t_certificates db)" by (rule store_invD(22) [OF assms(1)])
  then have "distinct (map ct_claim_id (certificate_rows db))"
    by (simp add: certificate_rows_def distinct_map_sort_key unique_on_def)
  note loop = revalidate_loop [OF this fold]
  have rows: "set (certificate_rows db) = set (t_certificates db)" by (simp add: certificate_rows_def)
  have "sort (map ct_claim_id (filter P (certificate_rows db))) = sort (map ct_claim_id (filter P (t_certificates db)))" for P
    by (simp add: certificate_rows_def properties_for_sort)
  with loop have "reused = sort (map ct_claim_id (filter (\<lambda>cert. renewable cx cert db \<noteq> None) (t_certificates db)))"
    by (simp add: reused)
  moreover have "certificate (ct_claim_id cert) db = Some cert" if "cert \<in> set (t_certificates db)" for cert
    unfolding certificate_def by (rule lookup_row_unique [OF u that])
  moreover have "map_option c_status (claim_row_of cid db') = map_option c_status (claim_row_of cid db)" for cid
  proof (cases "cid \<in> ct_claim_id ` set (t_certificates db)")
    case True
    then obtain cert where c: "cert \<in> set (certificate_rows db)" "cid = ct_claim_id cert" using rows by auto
    show ?thesis
    proof (cases "renewable cx cert db")
      case (Some sd)
      obtain source decl where "sd = (source, decl)" by (cases sd)
      with Some renewable_Some obtain claim where "claim_row_of cid db = Some claim" "c_status claim = CERTIFIED"
        using c(2) by metis
      with loop Some c show ?thesis by (auto simp: settled_def)
    qed (use loop c in auto)
  qed (use loop rows in auto)
  ultimately show ?thesis using loop unfolding rows by (auto split: option.splits)
qed

section \<open>Examples\<close>

definition ex_proof :: "string \<Rightarrow> lean_declaration" where
  "ex_proof name = \<lparr>ld_name = name, ld_kind = ''theorem'', ld_type_hash = ''t'', ld_value_hash = Some ''v'',
     ld_direct_dependencies = [], ld_axioms = [''propext'']\<rparr>"

definition ex_context :: cert_context where
  "ex_context = \<lparr>cx_run_id = 1, cx_snapshot = ''s1'', cx_objects = [ex_item ''a'' None, ex_item ''b'' None],
     cx_edges = [ex_edge ''a'' ''b''], cx_declarations = [ex_proof ''A''], cx_environment_hash = ''e'',
     cx_lean_version = ''4'', cx_mathlib_revision = None, cx_baseline_project_axioms = {}\<rparr>"

definition ex_mapped :: store_db where
  "ex_mapped = ex_store\<lparr>t_correspondence :=
     [\<lparr>co_claim_id = ''a'', co_lean_declaration = ''A'', co_status = ''pending'', co_provenance = ''agent'',
       co_approved = True, co_last_updated_run = 1\<rparr>]\<rparr>"

lemma ex_mapped_inv: "store_inv ex_mapped"
  using ex_store_inv by (simp add: store_inv_def ex_mapped_def unique_on_def)

lemma ex_certified: "cr_certified (snd (certify_current_correspondence ex_context ex_mapped)) = [''a'']"
  by code_simp


theorem certified_claims_are_proved_witness:
  "\<exists>decl. decl \<in> set (cx_declarations ex_context) \<and> ld_value_hash decl \<noteq> None"
proof -
  obtain db' res where r: "certify_current_correspondence ex_context ex_mapped = (db', res)" by fastforce
  with ex_certified have "''a'' \<in> set (cr_certified res)" by simp
  from certified_claims_are_proved [OF ex_mapped_inv r this] show ?thesis by blast
qed

theorem certification_keeps_closed_witness:
  "certified_closed [ex_edge ''a'' ''b''] (fst (certify_current_correspondence ex_context ex_mapped))"
proof -
  obtain db' res where r: "certify_current_correspondence ex_context ex_mapped = (db', res)" by fastforce
  have edges: "cx_edges ex_context = [ex_edge ''a'' ''b'']" by (simp add: ex_context_def)
  have a: "current_states ex_mapped ''a'' = Some PROVING" by code_simp
  have "unsatisfied_dependencies c (current_states ex_mapped) [ex_edge ''a'' ''b''] = []"
    if "current_states ex_mapped c = Some CERTIFIED" for c
    using that a by (auto simp: unsatisfied_Nil_iff approved_rel_def ex_edge_def)
  then have "certified_closed (cx_edges ex_context) ex_mapped" by (simp add: certified_closed_def edges)
  from certification_keeps_closed [OF ex_mapped_inv this _ r] r a edges show ?thesis by (simp add: ex_mapped_def)
qed

definition ex_certificate :: certificate_row where
  "ex_certificate = \<lparr>ct_claim_id = ''b'', ct_status = ''CERTIFIED'', ct_manuscript_snapshot = ''s0'', ct_statement_hash = ''h'',
     ct_formal_type_hash = ''t'', ct_lean_declaration = ''A'', ct_lean_value_hash = Some ''v'', ct_dependencies = [],
     ct_lean_dependencies = [], ct_axioms = [], ct_environment_hash = ''e0'', ct_lean_version = ''4'',
     ct_mathlib_revision = None, ct_last_verified_run = 0\<rparr>"

theorem revalidation_exact_witness:
  "snd (revalidate_unchanged_certificates ex_context (ex_store\<lparr>t_certificates := [ex_certificate]\<rparr>)) = [''b'']"
proof -
  let ?db = "ex_store\<lparr>t_certificates := [ex_certificate]\<rparr>"
  have inv: "store_inv ?db" using ex_store_inv by (simp add: store_inv_def unique_on_def)
  obtain db' reused where r: "revalidate_unchanged_certificates ex_context ?db = (db', reused)" by fastforce
  have "renewable ex_context ex_certificate ?db \<noteq> None" by code_simp
  with revalidation_exact [OF inv r] r show ?thesis by (simp add: ex_certificate_def)
qed

text \<open>
  The second hypothesis of \<open>certification_keeps_closed\<close> is needed: rejections take effect after the loop, so
  when a certified dependency is rejected in the same call, its dependent has already been certified.
\<close>

definition ex_late_rejection :: store_db where
  "ex_late_rejection = ex_store\<lparr>t_correspondence :=
     [\<lparr>co_claim_id = ''a'', co_lean_declaration = ''A'', co_status = ''pending'', co_provenance = ''agent'',
       co_approved = True, co_last_updated_run = 1\<rparr>,
      \<lparr>co_claim_id = ''b'', co_lean_declaration = ''Gone'', co_status = ''pending'', co_provenance = ''agent'',
       co_approved = True, co_last_updated_run = 1\<rparr>]\<rparr>"

lemma late_rejection_leaves_dependent_certified:
  "let db' = fst (certify_current_correspondence ex_context ex_late_rejection)
   in current_states db' ''a'' = Some CERTIFIED \<and> current_states db' ''b'' = Some FAILED_FORMALIZATION
      \<and> unsatisfied_dependencies ''a'' (current_states db') (cx_edges ex_context) = [''b'']"
  by code_simp

end
