(* ===== verification/Latex_Text.thy ===== *)
theory Latex_Text
  imports Prelude "HOL-Library.Sublist"
begin

text \<open>
  The text scanners of \<^verbatim>\<open>incremental/latex.py\<close>: lines and comments, author-to-assistant comment blocks, the
  normal form of a statement, references in a context, theorem environments a source declares and the
  literal arguments of include macros. A regular expression is the recursive matcher it denotes; where the
  pattern is deterministic the matcher has no backtracking. Characters are the 8-bit ones of \<open>char\<close>.
\<close>

section \<open>Lines\<close>

abbreviation backslash :: char where "backslash \<equiv> CHR 0x5C"
abbreviation newline :: char where "newline \<equiv> CHR 0x0A"
abbreviation carriage_return :: char where "carriage_return \<equiv> CHR 0x0D"

definition is_line_break :: "char \<Rightarrow> bool" where
  "is_line_break c = (of_char c \<in> {10 :: nat, 11, 12, 13, 28, 29, 30, 133})"

fun take_line :: "string \<Rightarrow> string \<times> string" where
  "take_line [] = ([], [])"
| "take_line (c # cs) =
     (if c = carriage_return then
        (case cs of d # ds \<Rightarrow> if d = newline then ([c, d], ds) else ([c], cs) | [] \<Rightarrow> ([c], []))
      else if is_line_break c then ([c], cs)
      else (case take_line cs of (l, r) \<Rightarrow> (c # l, r)))"

lemma take_line_parts: "fst (take_line s) @ snd (take_line s) = s"
proof (induction s)
  case (Cons c cs)
  then show ?case by (cases cs; cases "take_line cs") simp_all
qed simp

lemma take_line_append: "take_line s = (l, r) \<Longrightarrow> s = l @ r"
  using take_line_parts [of s] by simp

lemma take_line_nonempty: "take_line s = (l, r) \<Longrightarrow> s \<noteq> [] \<Longrightarrow> l \<noteq> []"
  by (cases s; cases "tl s"; cases "take_line (tl s)") (auto split: if_splits)

lemma take_line_shrinks: "take_line s = (l, r) \<Longrightarrow> s \<noteq> [] \<Longrightarrow> length r < length s"
  using take_line_append take_line_nonempty by (metis length_append length_greater_0_conv less_add_same_cancel2)

text \<open>\<open>text.splitlines(keepends=True)\<close> and \<open>text.splitlines()\<close>.\<close>

function splitlines_keep :: "string \<Rightarrow> string list" where
  "splitlines_keep s = (if s = [] then [] else case take_line s of (l, r) \<Rightarrow> l # splitlines_keep r)"
  by pat_completeness auto
termination
  by (relation "measure length") (auto dest: take_line_shrinks [OF sym])

declare splitlines_keep.simps [simp del]

definition splitlines :: "string \<Rightarrow> string list" where
  "splitlines s = map (takeWhile (\<lambda>c. \<not> is_line_break c)) (splitlines_keep s)"

lemma concat_splitlines_keep: "concat (splitlines_keep s) = s"
  by (induction s rule: splitlines_keep.induct)
    (subst splitlines_keep.simps, auto split: prod.splits dest: take_line_append)

section \<open>Comments\<close>

definition backslashes_before :: "string \<Rightarrow> nat \<Rightarrow> nat" where
  "backslashes_before line position = length (takeWhile (\<lambda>c. c = backslash) (rev (take position line)))"

definition find_percent :: "string \<Rightarrow> nat \<Rightarrow> nat option" where
  "find_percent line position =
     (let p = position + length (takeWhile (\<lambda>c. c \<noteq> CHR ''%'') (drop position line))
      in if p < length line then Some p else None)"

lemma find_percent_bounds: "find_percent line position = Some p \<Longrightarrow> position \<le> p \<and> p < length line"
  by (auto simp: find_percent_def Let_def split: if_splits)

function strip_line_from :: "string \<Rightarrow> nat \<Rightarrow> string" where
  "strip_line_from line position = (case find_percent line position of
     None \<Rightarrow> line
   | Some p \<Rightarrow> if even (backslashes_before line p) then take p line else strip_line_from line (p + 1))"
  by pat_completeness auto
termination
  by (relation "measure (\<lambda>(line, position). length line - position)") (auto dest: find_percent_bounds)

declare strip_line_from.simps [simp del]

definition strip_comments :: "string \<Rightarrow> string" where
  "strip_comments text = py_join [newline] (map (\<lambda>line. strip_line_from line 0) (splitlines text))"

text \<open>The same line in one pass: \<open>escaped\<close> says that an odd number of backslashes precedes.\<close>

fun comment_free :: "bool \<Rightarrow> string \<Rightarrow> string" where
  "comment_free escaped [] = []"
| "comment_free escaped (c # cs) =
     (if c = CHR ''%'' \<and> \<not> escaped then [] else c # comment_free (c = backslash \<and> \<not> escaped) cs)"

section \<open>Assistant context\<close>

definition is_blank :: "char \<Rightarrow> bool" where
  "is_blank c = (c = CHR '' '' \<or> c = CHR 0x09)"

definition py_rstrip :: "string \<Rightarrow> string" where
  "py_rstrip s = rev (dropWhile py_is_space (rev s))"

definition strip_prefix :: "string \<Rightarrow> string \<Rightarrow> string option" where
  "strip_prefix p s = (if prefix p s then Some (drop (length p) s) else None)"

text \<open>The first group of \<open>_ASSISTANT_CONTEXT_START\<close>, right-stripped, and that of the continuation pattern.\<close>

definition context_start :: "string \<Rightarrow> string option" where
  "context_start line = (case strip_prefix ''%%'' (dropWhile is_blank line) of
     None \<Rightarrow> None
   | Some rest \<Rightarrow> map_option (\<lambda>s. py_rstrip (dropWhile is_blank s)) (strip_prefix ''assistant:'' (dropWhile is_blank rest)))"

definition context_continuation :: "string \<Rightarrow> string option" where
  "context_continuation line = (case strip_prefix ''%%'' (dropWhile is_blank line) of
     None \<Rightarrow> None
   | Some rest \<Rightarrow> Some (py_rstrip (case rest of [] \<Rightarrow> [] | c # cs \<Rightarrow> if is_blank c then cs else rest)))"

record context_block =
  cb_end :: nat
  cb_text :: string

text \<open>The inner loop: the lines that continue a block.\<close>

fun continuation_lines :: "string list \<Rightarrow> string list \<times> string list" where
  "continuation_lines [] = ([], [])"
| "continuation_lines (line # lines) =
     (if context_start line \<noteq> None then ([], line # lines)
      else case context_continuation line of
             None \<Rightarrow> ([], line # lines)
           | Some content \<Rightarrow> (case continuation_lines lines of (contents, rest) \<Rightarrow> (content # contents, rest)))"

lemma continuation_lines_length: "continuation_lines lines = (contents, rest) \<Longrightarrow> length rest \<le> length lines"
  by (induction lines arbitrary: contents rest) (fastforce split: if_splits option.splits prod.splits)+

lemma continuation_lines_suffix: "continuation_lines lines = (contents, rest) \<Longrightarrow> suffix rest lines"
  by (induction lines arbitrary: contents rest)
    (auto split: if_splits option.splits prod.splits intro: suffix_ConsI)

text \<open>\<open>size_of_source\<close> is the length of the source: the end of a block is where the unread lines start.\<close>

function context_blocks_from :: "nat \<Rightarrow> string list \<Rightarrow> context_block list" where
  "context_blocks_from size_of_source [] = []"
| "context_blocks_from size_of_source (line # lines) = (case context_start line of
     None \<Rightarrow> context_blocks_from size_of_source lines
   | Some first \<Rightarrow> (case continuation_lines lines of (contents, rest) \<Rightarrow>
       let text = py_strip (py_join [newline] (first # contents));
           blocks = context_blocks_from size_of_source rest
       in if text = [] then blocks
          else \<lparr>cb_end = size_of_source - length (concat rest), cb_text = text\<rparr> # blocks))"
  by pat_completeness auto
termination
  by (relation "measure (length \<circ> snd)") (auto dest: continuation_lines_length [OF sym])

definition assistant_context_blocks :: "string \<Rightarrow> context_block list" where
  "assistant_context_blocks source = context_blocks_from (length source) (splitlines_keep source)"

definition py_slice :: "nat \<Rightarrow> nat \<Rightarrow> 'a list \<Rightarrow> 'a list" where
  "py_slice i j xs = take (j - i) (drop i xs)"

definition assistant_context_for_object :: "string \<Rightarrow> nat \<Rightarrow> context_block list \<Rightarrow> string" where
  "assistant_context_for_object source object_start blocks =
     (let eligible = filter (\<lambda>b. cb_end b \<le> object_start \<and> py_strip (py_slice (cb_end b) object_start source) = []) blocks
      in if eligible = [] then [] else cb_text (List.last eligible))"

section \<open>Matchers\<close>

definition skip_space :: "string \<Rightarrow> string" where
  "skip_space s = dropWhile py_is_space s"

text \<open>\<open>\{([^{}]*)\}\<close>: the group and what follows.\<close>

definition match_braces :: "string \<Rightarrow> (string \<times> string) option" where
  "match_braces s = (case s of
     [] \<Rightarrow> None
   | c # cs \<Rightarrow> if c \<noteq> CHR ''{'' then None
       else (let body = takeWhile (\<lambda>c. c \<noteq> CHR ''{'' \<and> c \<noteq> CHR ''}'') cs in
             case drop (length body) cs of
               d # rest \<Rightarrow> if d = CHR ''}'' then Some (body, rest) else None
             | [] \<Rightarrow> None))"

definition match_braces1 :: "string \<Rightarrow> (string \<times> string) option" where
  "match_braces1 s = (case match_braces s of None \<Rightarrow> None | Some (b, r) \<Rightarrow> if b = [] then None else Some (b, r))"

lemma match_braces_shrinks: "match_braces s = Some (b, r) \<Longrightarrow> length r < length s"
proof -
  assume m: "match_braces s = Some (b, r)"
  then obtain c cs where s: "s = c # cs" by (cases s) (auto simp: match_braces_def)
  with m obtain d where "drop (length (takeWhile (\<lambda>c. c \<noteq> CHR ''{'' \<and> c \<noteq> CHR ''}'') cs)) cs = d # r"
    by (auto simp: match_braces_def Let_def split: if_splits list.splits)
  from arg_cong [OF this, of length] s show "length r < length s" by simp
qed

lemma skip_space_Nil [simp]: "skip_space [] = []"
  by (simp add: skip_space_def)

lemma skip_space_hd: "skip_space s = c # cs \<Longrightarrow> \<not> py_is_space c"
  using hd_dropWhile [of py_is_space s] by (auto simp: skip_space_def simp del: dropWhile_eq_Nil_conv)

lemma skip_space_length: "length (skip_space s) \<le> length s"
  by (simp add: skip_space_def length_dropWhile_le)

lemma strip_prefix_length: "strip_prefix p s = Some r \<Longrightarrow> length r + length p = length s"
  by (auto simp: strip_prefix_def prefix_def split: if_splits)

section \<open>The normal form of a statement\<close>

definition match_label :: "string \<Rightarrow> string option" where
  "match_label s = (case strip_prefix (backslash # ''label'') s of
     None \<Rightarrow> None | Some rest \<Rightarrow> map_option snd (match_braces (skip_space rest)))"

lemma match_label_shrinks:
  assumes "match_label s = Some r"
  shows "length r < length s"
proof -
  obtain rest b where rest: "strip_prefix (backslash # ''label'') s = Some rest" and "match_braces (skip_space rest) = Some (b, r)"
    using assms by (auto simp: match_label_def split: option.splits)
  with match_braces_shrinks skip_space_length [of rest] have "length r < length rest" by fastforce
  with strip_prefix_length [OF rest] show ?thesis by simp
qed

function remove_labels :: "string \<Rightarrow> string" where
  "remove_labels s = (case match_label s of
     Some rest \<Rightarrow> remove_labels rest
   | None \<Rightarrow> (case s of [] \<Rightarrow> [] | c # cs \<Rightarrow> c # remove_labels cs))"
  by pat_completeness auto
termination
  by (relation "measure length") (auto dest: match_label_shrinks)

declare remove_labels.simps [simp del]

fun collapse_space :: "string \<Rightarrow> string" where
  "collapse_space [] = []"
| "collapse_space (c # cs) =
     (if py_is_space c
      then (if cs \<noteq> [] \<and> py_is_space (hd cs) then collapse_space cs else CHR '' '' # collapse_space cs)
      else c # collapse_space cs)"

definition normalize_latex_statement :: "string \<Rightarrow> string" where
  "normalize_latex_statement text = py_strip (collapse_space (remove_labels (strip_comments text)))"

section \<open>References in a context and declared environments\<close>

definition REFERENCE_MACROS :: "string list" where
  "REFERENCE_MACROS = [''ref'', ''eqref'', ''cref'', ''Cref'', ''autoref'']"

text \<open>No macro of the alternation is a prefix of another, so at most one can match.\<close>

definition match_reference :: "string \<Rightarrow> (string \<times> string) option" where
  "match_reference s = (case List.find (\<lambda>m. strip_prefix (backslash # m) s \<noteq> None) REFERENCE_MACROS of
     None \<Rightarrow> None
   | Some m \<Rightarrow> (case strip_prefix (backslash # m) s of
       None \<Rightarrow> None | Some rest \<Rightarrow> match_braces1 (skip_space rest)))"

lemma match_braces1_shrinks: "match_braces1 s = Some (b, r) \<Longrightarrow> length r < length s"
  by (auto simp: match_braces1_def dest: match_braces_shrinks split: option.splits if_splits)

lemma after_prefix_shrinks:
  assumes "strip_prefix p s = Some rest" and "match_braces1 (skip_space rest) = Some (b, r)"
  shows "length r < length s"
  using strip_prefix_length [OF assms(1)] match_braces1_shrinks [OF assms(2)] skip_space_length [of rest] by simp

lemma match_reference_shrinks: "match_reference s = Some (b, r) \<Longrightarrow> length r < length s"
  by (auto simp: match_reference_def split: option.splits dest: after_prefix_shrinks)

text \<open>\<open>finditer\<close>: after a match the scan goes on behind it.\<close>

function reference_groups :: "string \<Rightarrow> string list" where
  "reference_groups s = (case match_reference s of
     Some (body, rest) \<Rightarrow> body # reference_groups rest
   | None \<Rightarrow> (case s of [] \<Rightarrow> [] | c # cs \<Rightarrow> reference_groups cs))"
  by pat_completeness auto
termination
  by (relation "measure length") (auto dest: match_reference_shrinks)

declare reference_groups.simps [simp del]

text \<open>\<open>text.split(sep)\<close> on one character.\<close>

fun py_split :: "char \<Rightarrow> string \<Rightarrow> string list" where
  "py_split sep [] = [[]]"
| "py_split sep (c # cs) = (if c = sep then [] # py_split sep cs
     else (case py_split sep cs of w # ws \<Rightarrow> (c # w) # ws | [] \<Rightarrow> [[c]]))"

definition reference_items :: "string \<Rightarrow> string list" where
  "reference_items body = filter (\<lambda>item. item \<noteq> []) (map py_strip (py_split CHR '','' body))"

definition assistant_references :: "string \<Rightarrow> string list" where
  "assistant_references context = sorted_list_of_set (set (concat (map reference_items (reference_groups context))))"

definition THEOREM_ENVIRONMENTS :: "(string \<times> string) list" where
  "THEOREM_ENVIRONMENTS =
     [(''assumption'', ''assumption''), (''axiom'', ''assumption''), (''claim'', ''claim''), (''conjecture'', ''conjecture''),
      (''corollary'', ''corollary''), (''definition'', ''definition''), (''defn'', ''definition''),
      (''hypothesis'', ''assumption''), (''lemma'', ''lemma''), (''notation'', ''notation''),
      (''observation'', ''observation''), (''proposition'', ''proposition''), (''theorem'', ''theorem'')]"

text \<open>The optional \<open>[...]\<close> of a declaration, with the space before it; without one nothing is consumed.\<close>

definition skip_option :: "string \<Rightarrow> string" where
  "skip_option s = (case skip_space s of
     [] \<Rightarrow> s
   | c # cs \<Rightarrow> if c \<noteq> CHR ''['' then s
       else (case dropWhile (\<lambda>c. c \<noteq> CHR '']'') cs of [] \<Rightarrow> s | _ # rest \<Rightarrow> rest))"

definition match_newtheorem :: "string \<Rightarrow> ((string \<times> string) \<times> string) option" where
  "match_newtheorem s = (case strip_prefix (backslash # ''newtheorem'') s of
     None \<Rightarrow> None
   | Some rest \<Rightarrow>
       let starred = (case rest of c # cs \<Rightarrow> if c = CHR ''*'' then cs else rest | [] \<Rightarrow> [])
       in case match_braces1 (skip_space starred) of
            None \<Rightarrow> None
          | Some (name, rest1) \<Rightarrow> (case match_braces1 (skip_space (skip_option rest1)) of
              None \<Rightarrow> None | Some (title, rest2) \<Rightarrow> Some ((name, title), rest2)))"

lemma skip_option_length: "length (skip_option s) \<le> length s"
proof -
  have "length rest \<le> length s" if "skip_space s = c # cs" "dropWhile P cs = d # rest" for c cs d rest P
    using skip_space_length [of s] length_dropWhile_le [of P cs] that by simp
  then show ?thesis by (auto simp: skip_option_def split: list.splits)
qed

lemma match_newtheorem_shrinks:
  assumes "match_newtheorem s = Some (d, r)"
  shows "length r < length s"
proof -
  obtain rest where rest: "strip_prefix (backslash # ''newtheorem'') s = Some rest"
    using assms by (auto simp: match_newtheorem_def split: option.splits)
  define starred where "starred = (case rest of c # cs \<Rightarrow> if c = CHR ''*'' then cs else rest | [] \<Rightarrow> [])"
  have "length starred \<le> length rest" by (auto simp: starred_def split: list.splits)
  moreover obtain name rest1 title where "match_braces1 (skip_space starred) = Some (name, rest1)"
      and "match_braces1 (skip_space (skip_option rest1)) = Some (title, r)"
    using assms rest by (auto simp: match_newtheorem_def Let_def simp flip: starred_def split: option.splits)
  then have "length rest1 < length (skip_space starred)" "length r < length (skip_space (skip_option rest1))"
    by (auto dest: match_braces1_shrinks)
  ultimately show ?thesis
    using strip_prefix_length [OF rest] skip_space_length [of starred] skip_space_length [of "skip_option rest1"]
      skip_option_length [of rest1] by linarith
qed

function newtheorem_declarations :: "string \<Rightarrow> (string \<times> string) list" where
  "newtheorem_declarations s = (case match_newtheorem s of
     Some (declared, rest) \<Rightarrow> declared # newtheorem_declarations rest
   | None \<Rightarrow> (case s of [] \<Rightarrow> [] | c # cs \<Rightarrow> newtheorem_declarations cs))"
  by pat_completeness auto
termination
  by (relation "measure length") (auto dest: match_newtheorem_shrinks)

declare newtheorem_declarations.simps [simp del]

definition title_kind :: "string \<Rightarrow> string" where
  "title_kind title = (case List.find (\<lambda>(key, _). sublist key (py_casefold (py_strip title))) THEOREM_ENVIRONMENTS of
     None \<Rightarrow> ''claim'' | Some (_, kind) \<Rightarrow> kind)"

text \<open>A dict as the list of its assignments in order: the last one for a name counts.\<close>

definition custom_theorem_environments :: "string \<Rightarrow> (string \<times> string) list" where
  "custom_theorem_environments source =
     map (\<lambda>(name, title). (py_strip name, title_kind title)) (newtheorem_declarations (strip_comments source))"

section \<open>Include macros\<close>

text \<open>The scan of \<open>_read_braced_argument\<close> behind the opening brace: the index after the closing brace, or \<open>None\<close>
  when the depth never returns to zero. \<open>previous\<close> is the character before the cursor.\<close>

fun close_brace :: "nat \<Rightarrow> char \<Rightarrow> string \<Rightarrow> nat option" where
  "close_brace depth previous [] = None"
| "close_brace depth previous (c # cs) =
     (let depth' = (if c = CHR ''{'' \<and> previous \<noteq> backslash then depth + 1
                    else if c = CHR ''}'' \<and> previous \<noteq> backslash then depth - 1 else depth)
      in if depth' = 0 then Some 1 else map_option Suc (close_brace depth' c cs))"

definition read_braced_argument :: "string \<Rightarrow> string \<Rightarrow> string \<Rightarrow> (string \<times> string) result" where
  "read_braced_argument macro file s = (case skip_space s of
     [] \<Rightarrow> Inl (RuntimeError (''Dynamic or malformed '' @ macro @ '' in '' @ file))
   | c # cs \<Rightarrow>
       if c \<noteq> CHR ''{'' then Inl (RuntimeError (''Dynamic or malformed '' @ macro @ '' in '' @ file))
       else case close_brace 1 c cs of
         None \<Rightarrow> Inl (RuntimeError (''Unclosed argument to '' @ macro @ '' in '' @ file))
       | Some n \<Rightarrow>
           let value = py_strip (take (n - 1) cs)
           in if value = [] \<or> list_ex (\<lambda>c. c \<in> {backslash, CHR ''$'', CHR ''#'', CHR ''{'', CHR ''}''}) value
              then Inl (RuntimeError (''Dynamic path in '' @ file @ '' is unsupported: '' @ value))
              else Inr (value, drop n cs))"

definition INCLUDE_MACROS :: "string list" where
  "INCLUDE_MACROS = [''input'', ''include'', ''subfile'', ''import'', ''subimport'']"

definition is_word_char :: "char \<Rightarrow> bool" where
  "is_word_char c = (of_char c \<in> {48..57 :: nat} \<union> {65..90} \<union> {97..122} \<or> c = CHR ''_'')"

definition at_word_boundary :: "string \<Rightarrow> bool" where
  "at_word_boundary rest = (case rest of [] \<Rightarrow> True | c # _ \<Rightarrow> \<not> is_word_char c)"

definition match_include :: "string \<Rightarrow> (string \<times> string) option" where
  "match_include s = (case List.find (\<lambda>m. case strip_prefix (backslash # m) s of None \<Rightarrow> False | Some rest \<Rightarrow> at_word_boundary rest) INCLUDE_MACROS of
     None \<Rightarrow> None
   | Some m \<Rightarrow> map_option (\<lambda>rest. (m, rest)) (strip_prefix (backslash # m) s))"

text \<open>The matches of the include pattern, each with the text behind it; \<open>previous\<close> is the lookbehind.\<close>

function include_matches :: "char option \<Rightarrow> string \<Rightarrow> (string \<times> string) list" where
  "include_matches previous s = (case (if previous = Some backslash then None else match_include s) of
     Some (macro, rest) \<Rightarrow> (macro, rest) # include_matches (Some (List.last macro)) rest
   | None \<Rightarrow> (case s of [] \<Rightarrow> [] | c # cs \<Rightarrow> include_matches (Some c) cs))"
  by pat_completeness auto
termination
  by (relation "measure (length \<circ> snd)")
    (auto simp: match_include_def dest!: strip_prefix_length split: option.splits if_splits)

declare include_matches.simps [simp del]

text \<open>\<open>str(Path(first) / second)\<close> for POSIX paths.\<close>

definition path_parts :: "string \<Rightarrow> string list" where
  "path_parts p = filter (\<lambda>part. part \<noteq> [] \<and> part \<noteq> ''.'') (py_split CHR ''/'' p)"

definition is_absolute :: "string \<Rightarrow> bool" where
  "is_absolute p = (case p of [] \<Rightarrow> False | c # _ \<Rightarrow> c = CHR ''/'')"

definition join_path :: "string \<Rightarrow> string \<Rightarrow> string" where
  "join_path first second =
     (if is_absolute second then CHR ''/'' # py_join ''/'' (path_parts second)
      else (let parts = path_parts first @ path_parts second; text = py_join ''/'' parts
            in if is_absolute first then CHR ''/'' # text else if parts = [] then ''.'' else text))"

definition include_argument :: "string \<Rightarrow> string \<times> string \<Rightarrow> (string \<times> string) result" where
  "include_argument file = (\<lambda>(macro, rest).
     bindE (read_braced_argument macro file rest) (\<lambda>(first, rest1).
       if macro \<in> {''import'', ''subimport''}
       then bindE (read_braced_argument macro file rest1) (\<lambda>(second, _). Inr (join_path first second, macro))
       else Inr (first, macro)))"

definition include_arguments :: "string \<Rightarrow> string \<Rightarrow> (string \<times> string) list result" where
  "include_arguments source relative_path =
     foldE (\<lambda>m acc. bindE (include_argument relative_path m) (\<lambda>a. Inr (acc @ [a])))
       (include_matches None (strip_comments source)) []"

section \<open>Comments in one pass\<close>

lemma backslashes_before_Suc:
  "p < length line \<Longrightarrow> backslashes_before line (Suc p) = (if line ! p = backslash then Suc (backslashes_before line p) else 0)"
  by (simp add: backslashes_before_def take_Suc_conv_app_nth)

lemma comment_free_step:
  assumes "p < length line" and "\<not> (line ! p = CHR ''%'' \<and> even (backslashes_before line p))"
  shows "comment_free (odd (backslashes_before line p)) (drop p line)
         = line ! p # comment_free (odd (backslashes_before line (Suc p))) (drop (Suc p) line)"
  using assms by (subst Cons_nth_drop_Suc [symmetric]) (auto simp: backslashes_before_Suc)

lemma comment_free_gap:
  assumes "\<forall>i. p \<le> i \<and> i < q \<longrightarrow> \<not> (line ! i = CHR ''%'' \<and> even (backslashes_before line i))"
    and "p \<le> q" and "q \<le> length line"
  shows "take p line @ comment_free (odd (backslashes_before line p)) (drop p line)
         = take q line @ comment_free (odd (backslashes_before line q)) (drop q line)"
  using assms
proof (induction "q - p" arbitrary: p)
  case 0
  then show ?case by simp
next
  case (Suc n)
  then have "take (Suc p) line @ comment_free (odd (backslashes_before line (Suc p))) (drop (Suc p) line)
         = take q line @ comment_free (odd (backslashes_before line q)) (drop q line)" by simp
  moreover have "take p line @ comment_free (odd (backslashes_before line p)) (drop p line)
      = take (Suc p) line @ comment_free (odd (backslashes_before line (Suc p))) (drop (Suc p) line)"
    using Suc by (simp add: comment_free_step take_Suc_conv_app_nth)
  ultimately show ?case by simp
qed

lemma find_percent_None: "find_percent line position = None \<Longrightarrow> position \<le> i \<Longrightarrow> i < length line \<Longrightarrow> line ! i \<noteq> CHR ''%''"
proof -
  assume f: "find_percent line position = None" and i: "position \<le> i" "i < length line"
  then have "length (drop position line) \<le> length (takeWhile (\<lambda>c. c \<noteq> CHR ''%'') (drop position line))"
    by (auto simp: find_percent_def Let_def split: if_splits)
  then have "takeWhile (\<lambda>c. c \<noteq> CHR ''%'') (drop position line) = drop position line"
    by (metis length_takeWhile_le le_antisym takeWhile_eq_take take_all)
  then have "\<forall>c\<in>set (drop position line). c \<noteq> CHR ''%''" by (simp add: takeWhile_eq_all_conv)
  moreover have "line ! i \<in> set (drop position line)" using i by (auto simp: in_set_conv_nth intro!: exI [of _ "i - position"])
  ultimately show ?thesis by blast
qed

lemma find_percent_Some:
  assumes "find_percent line position = Some p"
  shows "line ! p = CHR ''%''" and "position \<le> i \<Longrightarrow> i < p \<Longrightarrow> line ! i \<noteq> CHR ''%''"
proof -
  let ?n = "length (takeWhile (\<lambda>c. c \<noteq> CHR ''%'') (drop position line))"
  have p: "p = position + ?n" "p < length line" using assms by (auto simp: find_percent_def Let_def split: if_splits)
  then have "?n < length (drop position line)" by simp
  from nth_length_takeWhile [OF this] p show "line ! p = CHR ''%''" by simp
  assume i: "position \<le> i" "i < p"
  then have "i - position < ?n" using p by simp
  from set_takeWhileD [OF nth_mem [OF this]] takeWhile_nth [OF this] i p show "line ! i \<noteq> CHR ''%''" by simp
qed

lemma strip_line_from_eq:
  "position \<le> length line \<Longrightarrow>
   strip_line_from line position = take position line @ comment_free (odd (backslashes_before line position)) (drop position line)"
proof (induction line position rule: strip_line_from.induct)
  case (1 line position)
  show ?case
  proof (cases "find_percent line position")
    case None
    then have "take position line @ comment_free (odd (backslashes_before line position)) (drop position line) = line"
      using comment_free_gap [of position "length line" line] find_percent_None [OF None] 1(2) by simp
    with None show ?thesis by (subst strip_line_from.simps) simp
  next
    case (Some p)
    note b = find_percent_bounds [OF Some] and f = find_percent_Some [OF Some]
    have "take position line @ comment_free (odd (backslashes_before line position)) (drop position line)
        = take p line @ comment_free (odd (backslashes_before line p)) (drop p line)"
      using comment_free_gap [of position p line] f b by simp
    moreover have "comment_free (odd (backslashes_before line p)) (drop p line)
        = (if even (backslashes_before line p) then [] else CHR ''%'' # comment_free False (drop (Suc p) line))"
      using b f by (subst Cons_nth_drop_Suc [symmetric]) auto
    moreover have "odd (backslashes_before line p) \<Longrightarrow>
        strip_line_from line (p + 1) = take p line @ CHR ''%'' # comment_free False (drop (Suc p) line)"
      using 1(1) [OF Some] b f by (simp add: backslashes_before_Suc take_Suc_conv_app_nth)
    ultimately show ?thesis using Some by (subst strip_line_from.simps) simp
  qed
qed

lemma comment_free_idem: "comment_free escaped (comment_free escaped s) = comment_free escaped s"
  by (induction escaped s rule: comment_free.induct) simp_all

section \<open>The words of a statement\<close>

function py_words :: "string \<Rightarrow> string list" where
  "py_words s = (case skip_space s of
     [] \<Rightarrow> []
   | c # cs \<Rightarrow> takeWhile (\<lambda>c. \<not> py_is_space c) (c # cs) # py_words (dropWhile (\<lambda>c. \<not> py_is_space c) (c # cs)))"
  by pat_completeness auto
termination
proof (relation "measure length")
  fix s c cs assume s: "skip_space s = c # cs"
  from skip_space_hd [OF this] have "length (dropWhile (\<lambda>c. \<not> py_is_space c) (c # cs)) \<le> length cs" by (simp add: length_dropWhile_le)
  with s skip_space_length [of s] show "(dropWhile (\<lambda>c. \<not> py_is_space c) (c # cs), s) \<in> measure length" by simp
qed simp

declare py_words.simps [simp del]

lemma py_rstrip_append: "py_rstrip b \<noteq> [] \<Longrightarrow> py_rstrip (a @ b) = a @ py_rstrip b"
  by (auto simp: py_rstrip_def dropWhile_append dropWhile_eq_Nil_conv)

lemma py_rstrip_nonspace: "w \<noteq> [] \<Longrightarrow> \<not> py_is_space (List.last w) \<Longrightarrow> py_rstrip w = w"
  by (cases w rule: rev_cases) (simp_all add: py_rstrip_def)

lemma py_rstrip_Nil_iff: "py_rstrip s = [] \<longleftrightarrow> (\<forall>c\<in>set s. py_is_space c)"
  by (simp add: py_rstrip_def dropWhile_eq_Nil_conv)

lemma py_strip_eq: "py_strip s = py_rstrip (skip_space s)"
  by (simp add: py_strip_def py_rstrip_def skip_space_def)

lemma collapse_word: "\<forall>c\<in>set w. \<not> py_is_space c \<Longrightarrow> collapse_space (w @ s) = w @ collapse_space s"
  by (induction w) auto

lemma collapse_leading:
  "s \<noteq> [] \<Longrightarrow> py_is_space (hd s) \<Longrightarrow> collapse_space s = CHR '' '' # collapse_space (skip_space s)"
proof (induction s)
  case (Cons c cs)
  show ?case
  proof (cases "cs \<noteq> [] \<and> py_is_space (hd cs)")
    case True
    with Cons show ?thesis by (simp add: skip_space_def)
  next
    case False
    with Cons.prems have "skip_space (c # cs) = cs" by (cases cs) (simp_all add: skip_space_def)
    with Cons.prems False show ?thesis by simp
  qed
qed simp

lemma space_is_space [simp]: "py_is_space CHR '' ''"
  by (simp add: py_is_space_def)

lemma skip_space_collapse: "skip_space (collapse_space s) = collapse_space (skip_space s)"
proof (cases "s \<noteq> [] \<and> py_is_space (hd s)")
  case True
  have "skip_space (collapse_space (skip_space s)) = collapse_space (skip_space s)"
  proof (cases "skip_space s")
    case (Cons c cs)
    with skip_space_hd [OF Cons] show ?thesis by (simp add: skip_space_def)
  qed simp
  with True show ?thesis by (simp add: collapse_leading) (simp add: skip_space_def)
next
  case False
  then have "skip_space s = s" by (cases s) (simp_all add: skip_space_def)
  with False show ?thesis by (cases s) (simp_all add: skip_space_def)
qed

lemma collapse_all_space: "skip_space r = [] \<Longrightarrow> \<forall>c\<in>set (collapse_space r). py_is_space c"
  unfolding skip_space_def dropWhile_eq_Nil_conv by (induction r) auto

lemma rstrip_append_space: "\<forall>c\<in>set b. py_is_space c \<Longrightarrow> py_rstrip (a @ b) = py_rstrip a"
  by (simp add: py_rstrip_def dropWhile_append dropWhile_eq_Nil_conv)

lemma py_words_Nil_iff: "py_words s = [] \<longleftrightarrow> skip_space s = []"
  by (subst py_words.simps) (simp split: list.splits)

lemma collapse_words: "py_rstrip (collapse_space (skip_space s)) = py_join '' '' (py_words s)"
proof (induction s rule: py_words.induct)
  case (1 s)
  show ?case
  proof (cases "skip_space s")
    case Nil
    then show ?thesis by (subst py_words.simps) (simp add: py_join_def py_rstrip_def)
  next
    case (Cons c cs)
    let ?w = "takeWhile (\<lambda>c. \<not> py_is_space c) (c # cs)" and ?rest = "dropWhile (\<lambda>c. \<not> py_is_space c) (c # cs)"
    have "\<not> py_is_space c" by (rule skip_space_hd [OF Cons])
    then have w: "?w \<noteq> []" by simp
    have w': "\<forall>c\<in>set ?w. \<not> py_is_space c" using set_takeWhileD by (intro ballI) fast
    have "collapse_space (skip_space s) = ?w @ collapse_space ?rest"
      using collapse_word [OF w', of ?rest] Cons by (simp only: takeWhile_dropWhile_id)
    moreover have "py_rstrip (?w @ collapse_space ?rest) = py_join '' '' (?w # py_words ?rest)"
    proof (cases "skip_space ?rest")
      case Nil
      have "py_rstrip (?w @ collapse_space ?rest) = py_rstrip ?w"
        by (rule rstrip_append_space [OF collapse_all_space [OF Nil]])
      also have "\<dots> = ?w" by (rule py_rstrip_nonspace [OF w]) (rule bspec [OF w' last_in_set [OF w]])
      finally show ?thesis using Nil by (simp add: py_words_Nil_iff [THEN iffD2] py_join_def)
    next
      case rest: (Cons d ds)
      then have ne: "?rest \<noteq> []" using skip_space_Nil by (metis list.distinct(1))
      then have "py_is_space (hd ?rest)" using hd_dropWhile [OF ne] by (simp only: not_not)
      then have lead: "collapse_space ?rest = CHR '' '' # collapse_space (skip_space ?rest)" using ne by (rule collapse_leading [rotated])
      have IH: "py_rstrip (collapse_space (skip_space ?rest)) = py_join '' '' (py_words ?rest)" by (rule 1 [OF Cons])
      have "\<not> py_is_space d" by (rule skip_space_hd [OF rest])
      then have "py_rstrip (collapse_space (skip_space ?rest)) \<noteq> []" unfolding rest py_rstrip_Nil_iff by simp
      then have "py_rstrip ((?w @ '' '') @ collapse_space (skip_space ?rest)) = (?w @ '' '') @ py_join '' '' (py_words ?rest)"
        using py_rstrip_append [of _ "?w @ '' ''"] IH by metis
      moreover have "py_words ?rest \<noteq> []" using rest by (simp add: py_words_Nil_iff)
      ultimately show ?thesis using lead by (cases "py_words ?rest") (simp_all add: py_join_def)
    qed
    ultimately show ?thesis using Cons by (subst py_words.simps) simp
  qed
qed

section \<open>Assistant blocks\<close>

lemma continuation_lines_spec:
  "continuation_lines lines = (contents, rest) \<Longrightarrow>
   \<exists>taken. lines = taken @ rest \<and> length taken = length contents
     \<and> list_all2 (\<lambda>line content. context_start line = None \<and> context_continuation line = Some content) taken contents
     \<and> (rest \<noteq> [] \<longrightarrow> context_start (hd rest) \<noteq> None \<or> context_continuation (hd rest) = None)"
proof (induction lines arbitrary: contents rest)
  case (Cons line lines)
  show ?case
  proof (cases "context_start line = None \<and> context_continuation line \<noteq> None")
    case True
    then obtain content cs where "context_continuation line = Some content" "continuation_lines lines = (cs, rest)" "contents = content # cs"
      using Cons.prems by (auto split: prod.splits)
    with True Cons.IH [of cs rest] show ?thesis by (auto intro: exI [of _ "line # _"])
  next
    case False
    then have "contents = []" "rest = line # lines" using Cons.prems by (auto split: if_splits)
    with False show ?thesis by auto
  qed
qed simp

text \<open>The lines of one block, and the text they stand for.\<close>

definition reads_as :: "string list \<Rightarrow> string \<Rightarrow> bool" where
  "reads_as lines text \<longleftrightarrow> (\<exists>first rest c contents. lines = first # rest \<and> context_start first = Some c
     \<and> list_all2 (\<lambda>line content. context_start line = None \<and> context_continuation line = Some content) rest contents
     \<and> text = py_strip (py_join [newline] (c # contents)))"

definition is_block :: "string list \<Rightarrow> nat \<Rightarrow> context_block \<Rightarrow> bool" where
  "is_block lines n b \<longleftrightarrow> (\<exists>pre block rest. lines = pre @ block @ rest \<and> reads_as block (cb_text b)
     \<and> cb_text b \<noteq> [] \<and> cb_end b = n - length (concat rest))"

lemma is_block_append: "is_block lines n b \<Longrightarrow> is_block (before @ lines) n b"
  unfolding is_block_def by (metis append_assoc)

lemma context_blocks_sound:
  "b \<in> set (context_blocks_from n lines) \<Longrightarrow> is_block lines n b"
proof (induction n lines rule: context_blocks_from.induct)
  case (2 n line lines)
  show ?case
  proof (cases "context_start line")
    case None
    with 2 have "is_block lines n b" by simp
    from is_block_append [OF this, of "[line]"] show ?thesis by simp
  next
    case (Some first)
    obtain contents rest where cr: "continuation_lines lines = (contents, rest)" by fastforce
    from continuation_lines_spec [OF cr] obtain taken where t: "lines = taken @ rest"
        "list_all2 (\<lambda>line content. context_start line = None \<and> context_continuation line = Some content) taken contents" by blast
    show ?thesis
    proof (cases "b \<in> set (context_blocks_from n rest)")
      case True
      have "is_block rest n b"
        by (rule 2(2) [OF Some cr [symmetric] refl]) (use True in simp)
      from is_block_append [OF this, of "line # taken"] t(1) show ?thesis by simp
    next
      case False
      then have b: "b = \<lparr>cb_end = n - length (concat rest), cb_text = py_strip (py_join [newline] (first # contents))\<rparr>"
          "cb_text b \<noteq> []"
        using 2(3) Some cr by (auto simp: Let_def split: if_splits)
      have "reads_as (line # taken) (cb_text b)" unfolding reads_as_def using Some t(2) b(1) by auto
      moreover have "line # lines = [] @ (line # taken) @ rest" using t(1) by simp
      moreover have "cb_end b = n - length (concat rest)" using b(1) by simp
      ultimately show ?thesis unfolding is_block_def using b(2) by blast
    qed
  qed
qed simp

section \<open>Properties\<close>

text \<open>The comment scanner, which searches the next percent sign and counts the backslashes before it, is the
  one-pass scanner that tracks whether the current character is escaped. A stripped line has no comment left.\<close>

theorem strip_comments_one_pass:
  "strip_comments text = py_join [newline] (map (comment_free False) (splitlines text))
   \<and> comment_free False (strip_line_from line 0) = strip_line_from line 0"
proof -
  have "strip_line_from line 0 = comment_free False line" for line
    using strip_line_from_eq [of 0 line] by (simp add: backslashes_before_def)
  then show ?thesis by (simp add: strip_comments_def comment_free_idem)
qed

text \<open>The normal form of a statement is its words with single spaces between them, after comments and labels are
  removed: only those words decide whether an edit changes a statement.\<close>

theorem normal_form_is_words:
  "normalize_latex_statement text = py_join '' '' (py_words (remove_labels (strip_comments text)))"
  by (simp add: normalize_latex_statement_def py_strip_eq skip_space_collapse collapse_words)

text \<open>Guidance cannot leak: a context attached to an object is the text of a run of \<open>%% assistant:\<close> comment lines
  of the source, and between the end of that run and the object there is nothing but white space.\<close>

theorem assistant_context_is_adjacent:
  assumes "assistant_context_for_object source start (assistant_context_blocks source) \<noteq> []" and "start \<le> length source"
  shows "\<exists>before block gap after_gap. source = concat (before @ block) @ gap @ after_gap
    \<and> before @ block = take (length before + length block) (splitlines_keep source)
    \<and> reads_as block (assistant_context_for_object source start (assistant_context_blocks source))
    \<and> py_strip gap = [] \<and> start = length (concat (before @ block) @ gap)"
proof -
  let ?blocks = "filter (\<lambda>b. cb_end b \<le> start \<and> py_strip (py_slice (cb_end b) start source) = []) (assistant_context_blocks source)"
  have ne: "?blocks \<noteq> []" using assms(1) by (auto simp: assistant_context_for_object_def Let_def split: if_splits)
  define b where "b = List.last ?blocks"
  have attached: "assistant_context_for_object source start (assistant_context_blocks source) = cb_text b"
    using ne by (simp only: assistant_context_for_object_def Let_def b_def if_False)
  have "b \<in> set ?blocks" unfolding b_def by (rule last_in_set [OF ne])
  then have b: "b \<in> set (assistant_context_blocks source)" "cb_end b \<le> start" "py_strip (py_slice (cb_end b) start source) = []"
    by simp_all
  from context_blocks_sound [OF b(1) [unfolded assistant_context_blocks_def]] obtain before block rest where
    lines: "splitlines_keep source = before @ block @ rest" and reads: "reads_as block (cb_text b)"
    and pos: "cb_end b = length source - length (concat rest)" unfolding is_block_def by blast
  have source: "source = concat (before @ block) @ concat rest"
    using concat_splitlines_keep [of source] lines by simp
  then have end_eq: "cb_end b = length (concat (before @ block))" using pos by (metis add_diff_cancel_right' length_append)
  let ?gap = "py_slice (cb_end b) start source"
  have "source = take (cb_end b) source @ ?gap @ drop start source"
    using b(2) by (simp add: py_slice_def) (metis append_take_drop_id le_add_diff_inverse2 drop_drop)
  moreover have "take (cb_end b) source = concat (before @ block)" using source end_eq by (metis append_eq_conv_conj)
  moreover have "start = length (concat (before @ block) @ ?gap)"
    using b(2) assms(2) end_eq by (simp add: py_slice_def)
  ultimately show ?thesis
    using lines reads b(3) attached by (intro exI [of _ before] exI [of _ block] exI [of _ ?gap] exI [of _ "drop start source"]) simp
qed

theorem assistant_context_is_adjacent_witness:
  "\<exists>before block gap after_gap. ''%% assistant: use b'' @ [newline] @ ''T'' = concat (before @ block) @ gap @ after_gap
     \<and> reads_as block ''use b'' \<and> length (concat (before @ block) @ gap) = 20"
proof -
  let ?source = "''%% assistant: use b'' @ [newline] @ ''T''"
  have ctx: "assistant_context_for_object ?source 20 (assistant_context_blocks ?source) = ''use b''" by code_simp
  from assistant_context_is_adjacent [of ?source 20] show ?thesis unfolding ctx by auto
qed

end
