(* ===== verification/Latex_Index.thy ===== *)
theory Latex_Index
  imports Latex_Text Store_Questions DepGraph "HOL-Library.Multiset"
begin

text \<open>
  The manuscript index of \<^verbatim>\<open>incremental/latex.py\<close>: the include closure of the main file, the mathematical objects
  of a file, their stable claim ids and the graph of their explicit references. The LaTeX parser
  (\<open>pylatexenc\<close>), the file system and SHA-256 are the fields of a \<open>source_tree\<close>: a parsed file is a tree of
  nodes with the attributes the code reads.
\<close>

section \<open>What the code gets from outside\<close>

datatype node_kind = Environment string | Macro string | Group | Other_Node

text \<open>A node of \<open>pylatexenc\<close>: position and length, children, and the arguments that are present.\<close>

datatype latex_node = Node (node_kind: node_kind) (node_pos: nat) (node_len: nat)
  (node_children: "latex_node list") (node_arguments: "latex_node list")

text \<open>\<open>st_files\<close> lists the LaTeX files below the source root with their text, \<open>None\<close> when it is not UTF-8;
  \<open>st_resolve including raw macro\<close> is \<open>_resolve_include_path\<close>.\<close>

record source_tree =
  st_files :: "(string \<times> string option) list"
  st_resolve :: "string \<Rightarrow> string \<Rightarrow> string \<Rightarrow> string result"
  st_parse :: "string \<Rightarrow> latex_node list result"
  st_sha256 :: "string \<Rightarrow> string"

definition read_source :: "source_tree \<Rightarrow> string \<Rightarrow> string result" where
  "read_source tree path = (case map_of (st_files tree) path of
     None \<Rightarrow> Inl (RuntimeError (''Selected main LaTeX file does not exist: '' @ path))
   | Some None \<Rightarrow> Inl (RuntimeError (''LaTeX source must be UTF-8: '' @ path))
   | Some (Some source) \<Rightarrow> Inr source)"

section \<open>The include closure\<close>

text \<open>The recursion of \<open>visit\<close> with its call stack spelled out: the includes still to be followed, each with the
  file it stands in.\<close>

function follow_includes ::
    "source_tree \<Rightarrow> (string \<times> string \<times> string) list \<Rightarrow> string list \<Rightarrow> string list result" where
  "follow_includes tree [] ordered = Inr ordered"
| "follow_includes tree ((file, raw, macro) # pending) ordered = (case st_resolve tree file raw macro of
     Inl e \<Rightarrow> Inl e
   | Inr child \<Rightarrow>
       if child \<in> set ordered then follow_includes tree pending ordered
       else case bindE (read_source tree child) (\<lambda>source. include_arguments source child) of
              Inl e \<Rightarrow> Inl e
            | Inr includes \<Rightarrow> follow_includes tree (map (Pair child) includes @ pending) (ordered @ [child]))"
  by pat_completeness auto
termination
proof (relation "measures [\<lambda>(tree, pending, ordered). card (fst ` set (st_files tree) - set ordered),
    \<lambda>(tree, pending, ordered). length pending]")
  fix tree from_file raw macro pending and ordered :: "string list" and child and incs :: "(string \<times> string) list"
  assume "child \<notin> set ordered" and "bindE (read_source tree child) (\<lambda>source. include_arguments source child) = Inr incs"
  then have "child \<in> fst ` set (st_files tree) - set ordered"
    by (auto simp: read_source_def bindE_Inr_iff rev_image_eqI dest!: map_of_SomeD split: option.splits)
  then have "card (fst ` set (st_files tree) - set (ordered @ [child])) < card (fst ` set (st_files tree) - set ordered)"
    by (intro psubset_card_mono) auto
  then show "((tree, map (Pair child) incs @ pending, ordered @ [child]), (tree, (from_file, raw, macro) # pending, ordered))
      \<in> measures [\<lambda>(tree, pending, ordered). card (fst ` set (st_files tree) - set ordered), \<lambda>(tree, pending, ordered). length pending]"
    by simp
qed auto

definition resolve_latex_closure :: "source_tree \<Rightarrow> string \<Rightarrow> string list result" where
  "resolve_latex_closure tree main_file =
     bindE (read_source tree main_file) (\<lambda>source.
     bindE (include_arguments source main_file) (\<lambda>includes.
     follow_includes tree (map (Pair main_file) includes) [main_file]))"

section \<open>The objects of a file\<close>

lemma size_child: "x \<in> set (node_children n) \<Longrightarrow> size x < size n"
  by (cases n) (auto dest: size_list_estimation' [where f = size and y = "size x" for x, OF _ order_refl] intro: le_imp_less_Suc)

text \<open>Preorder; an argument contributes its children, not itself.\<close>

function walk_node :: "latex_node \<Rightarrow> latex_node list" where
  "walk_node (Node k p l children arguments) =
     Node k p l children arguments # concat (map walk_node children)
       @ concat (map (\<lambda>a. concat (map walk_node (node_children a))) arguments)"
  by pat_completeness auto
termination
proof (relation "measure size")
  fix k p l children arguments and x :: latex_node
  assume "x \<in> set children"
  with size_child [of x "Node k p l children arguments"]
  show "(x, Node k p l children arguments) \<in> measure size" by simp
next
  fix k p l children arguments and a x :: latex_node
  assume a: "a \<in> set arguments" and x: "x \<in> set (node_children a)"
  have "size a \<le> size_list size arguments" using a by (rule size_list_estimation') simp
  with size_child [OF x] show "(x, Node k p l children arguments) \<in> measure size" by simp
qed simp

definition walk_nodes :: "latex_node list \<Rightarrow> latex_node list" where
  "walk_nodes nodes = concat (map walk_node nodes)"

definition raw_argument :: "string \<Rightarrow> latex_node \<Rightarrow> string" where
  "raw_argument source node =
     (let raw = take (node_len node) (drop (node_pos node) source)
      in py_strip (if node_kind node = Group \<and> length raw \<ge> 2 then butlast (tl raw) else raw))"

definition macro_argument :: "string \<Rightarrow> latex_node \<Rightarrow> string option" where
  "macro_argument source node =
     (if node_arguments node = [] then None else Some (raw_argument source (List.last (node_arguments node))))"

definition labels_and_references :: "string \<Rightarrow> latex_node list \<Rightarrow> string list \<times> string list" where
  "labels_and_references source nodes = fold (\<lambda>node (labels, references).
     case (node_kind node, macro_argument source node) of
       (Macro name, Some argument) \<Rightarrow>
         if argument = [] then (labels, references)
         else if name = ''label'' then (labels @ [argument], references)
         else if name \<in> set REFERENCE_MACROS then (labels, references @ reference_items argument)
         else (labels, references)
     | _ \<Rightarrow> (labels, references)) (walk_nodes nodes) ([], [])"

definition node_end :: "latex_node \<Rightarrow> nat" where
  "node_end node = node_pos node + node_len node"

definition body_span :: "latex_node \<Rightarrow> nat \<times> nat" where
  "body_span node = (case node_children node of
     [] \<Rightarrow> (node_pos node, node_end node)
   | c # cs \<Rightarrow> (node_pos c, node_end (List.last (c # cs))))"

definition PROOF_ENVIRONMENTS :: "string list" where
  "PROOF_ENVIRONMENTS = [''proof'', ''proof*'']"

definition EQUATION_ENVIRONMENTS :: "string list" where
  "EQUATION_ENVIRONMENTS = [''align'', ''align*'', ''equation'', ''equation*'', ''gather'', ''gather*'', ''multline'', ''multline*'']"

definition environment_name :: "latex_node \<Rightarrow> string option" where
  "environment_name node = (case node_kind node of Environment name \<Rightarrow> Some name | _ \<Rightarrow> None)"

definition is_proof_node :: "latex_node \<Rightarrow> bool" where
  "is_proof_node node = (\<exists>name\<in>set PROOF_ENVIRONMENTS. environment_name node = Some name)"

fun proof_for :: "string \<Rightarrow> latex_node \<Rightarrow> latex_node list \<Rightarrow> latex_node option" where
  "proof_for source thm [] = None"
| "proof_for source thm (candidate # environments) =
     (if node_pos candidate < node_end thm then proof_for source thm environments
      else if py_strip (strip_comments (py_slice (node_end thm) (node_pos candidate) source)) \<noteq> [] then None
      else if is_proof_node candidate then Some candidate else None)"

text \<open>\<open>_byte_offsets\<close>: UTF-8 takes one byte below 128 and two for the other 8-bit characters.\<close>

definition utf8_length :: "string \<Rightarrow> nat" where
  "utf8_length s = sum_list (map (\<lambda>c. if (of_char c :: nat) < 128 then 1 else 2) s)"

definition byte_offset :: "string \<Rightarrow> nat \<Rightarrow> int" where
  "byte_offset source position = int (utf8_length (take position source))"

text \<open>The kind an environment name stands for: declarations of the file, then those of the closure, then the
  built-in ones; a later declaration replaces an earlier one.\<close>

definition theorem_kind :: "(string \<times> string) list \<Rightarrow> string \<Rightarrow> string \<Rightarrow> string option" where
  "theorem_kind inherited source name =
     map_of (rev (THEOREM_ENVIRONMENTS @ inherited @ custom_theorem_environments source)) name"

definition object_kind :: "(string \<times> string) list \<Rightarrow> string \<Rightarrow> string \<Rightarrow> string list \<Rightarrow> string option" where
  "object_kind inherited source name labels = (case theorem_kind inherited source name of
     Some kind \<Rightarrow> Some kind
   | None \<Rightarrow> if name \<in> set EQUATION_ENVIRONMENTS \<and> labels \<noteq> [] then Some ''equation'' else None)"

text \<open>A draft is a source object whose claim id is still empty.\<close>

definition draft_for ::
    "source_tree \<Rightarrow> string \<Rightarrow> string \<Rightarrow> context_block list \<Rightarrow> latex_node list \<Rightarrow> latex_node \<Rightarrow> string \<Rightarrow> string \<Rightarrow> int \<Rightarrow> source_object" where
  "draft_for tree relative_path source blocks proof_nodes node environment kind ordinal =
     (let (labels, references) = labels_and_references source (node_children node);
          (start, stop) = body_span node;
          statement = py_slice start stop source;
          proof_node = proof_for source node proof_nodes;
          span = map_option body_span proof_node;
          proof_text = (case span of None \<Rightarrow> [] | Some (i, j) \<Rightarrow> py_slice i j source);
          proof_references = (case proof_node of None \<Rightarrow> [] | Some p \<Rightarrow> snd (labels_and_references source (node_children p)));
          assistant_context = assistant_context_for_object source (node_pos node) blocks
      in \<lparr>so_claim_id = [], so_kind = kind, so_source_file = relative_path, so_environment = environment,
          so_label = (case labels of [] \<Rightarrow> None | l # _ \<Rightarrow> Some l), so_ordinal = ordinal,
          so_statement_start = int start, so_statement_end = int stop,
          so_statement_byte_start = byte_offset source start, so_statement_byte_end = byte_offset source stop,
          so_proof_start = map_option (int \<circ> fst) span, so_proof_end = map_option (int \<circ> snd) span,
          so_proof_byte_start = map_option (byte_offset source \<circ> fst) span,
          so_proof_byte_end = map_option (byte_offset source \<circ> snd) span,
          so_statement_hash = st_sha256 tree statement, so_proof_hash = st_sha256 tree proof_text,
          so_normalized_statement_hash = st_sha256 tree (normalize_latex_statement statement),
          so_statement_text = statement, so_proof_text = proof_text,
          so_references = sorted_list_of_set (set (references @ proof_references)),
          so_assistant_context = assistant_context, so_assistant_references = assistant_references assistant_context\<rparr>)"

definition extract_file :: "source_tree \<Rightarrow> (string \<times> string) list \<Rightarrow> string \<Rightarrow> source_object list result" where
  "extract_file tree inherited relative_path =
     bindE (read_source tree relative_path) (\<lambda>source.
     bindE (st_parse tree source) (\<lambda>nodes.
       let all_environments = sort_key node_pos (filter (\<lambda>n. environment_name n \<noteq> None) (walk_nodes nodes));
           proof_nodes = filter is_proof_node all_environments;
           blocks = assistant_context_blocks source;
           indexed = List.map_filter (\<lambda>n. case environment_name n of
               None \<Rightarrow> None
             | Some name \<Rightarrow> map_option (\<lambda>kind. (n, name, kind))
                 (object_kind inherited source name (fst (labels_and_references source (node_children n))))) all_environments
       in Inr (map (\<lambda>(i, n, name, kind). draft_for tree relative_path source blocks proof_nodes n name kind (int i + 1))
                 (zip [0..<length indexed] indexed))))"

section \<open>Stable claim ids\<close>

definition same_place :: "source_object \<Rightarrow> claim_row \<Rightarrow> bool" where
  "same_place draft row \<longleftrightarrow> c_source_file row = so_source_file draft \<and> c_kind row = so_kind draft"

definition same_statement :: "source_object \<Rightarrow> claim_row \<Rightarrow> bool" where
  "same_statement draft row \<longleftrightarrow>
     same_place draft row \<and> c_normalized_statement_hash row = so_normalized_statement_hash draft"

text \<open>The candidate with the nearest ordinal, the claim id deciding ties.\<close>

definition nearest :: "(claim_row \<Rightarrow> bool) \<Rightarrow> source_object \<Rightarrow> claim_row list \<Rightarrow> claim_row option" where
  "nearest P draft available =
     (case sort_key (\<lambda>row. (\<bar>c_ordinal row - so_ordinal draft\<bar>, c_claim_id row)) (filter P available) of
        [] \<Rightarrow> None | row # _ \<Rightarrow> Some row)"

definition remove_row :: "claim_row \<Rightarrow> claim_row list \<Rightarrow> claim_row list" where
  "remove_row row available = filter (\<lambda>r. c_claim_id r \<noteq> c_claim_id row) available"

text \<open>The first pass: drafts whose statement is unchanged, those that stay pending, and the rows left over.\<close>

fun match_exact ::
    "source_object list \<Rightarrow> claim_row list \<Rightarrow> source_object list \<times> source_object list \<times> claim_row list" where
  "match_exact [] available = ([], [], available)"
| "match_exact (draft # drafts) available = (case nearest (same_statement draft) draft available of
     Some row \<Rightarrow> (case match_exact drafts (remove_row row available) of
       (assigned, pending, left) \<Rightarrow> (draft\<lparr>so_claim_id := c_claim_id row\<rparr> # assigned, pending, left))
   | None \<Rightarrow> (case match_exact drafts available of (assigned, pending, left) \<Rightarrow> (assigned, draft # pending, left)))"

fun assign_pending :: "source_object list \<Rightarrow> claim_row list \<Rightarrow> (store_db, source_object list) op" where
  "assign_pending [] available = returnS []"
| "assign_pending (draft # drafts) available = (case nearest (same_place draft) draft available of
     Some row \<Rightarrow> bindS (assign_pending drafts (remove_row row available))
       (\<lambda>assigned. returnS (draft\<lparr>so_claim_id := c_claim_id row\<rparr> # assigned))
   | None \<Rightarrow> bindS (txn (allocate_claim_id (so_kind draft))) (\<lambda>claim_id.
       bindS (assign_pending drafts available)
         (\<lambda>assigned. returnS (draft\<lparr>so_claim_id := claim_id\<rparr> # assigned))))"

definition has_label :: "source_object \<Rightarrow> bool" where
  "has_label draft \<longleftrightarrow> so_label draft \<noteq> None \<and> so_label draft \<noteq> Some []"

definition see_label :: "source_object \<Rightarrow> (string \<Rightarrow> string option) \<Rightarrow> (string \<Rightarrow> string option) result" where
  "see_label draft seen = (case seen (the (so_label draft)) of
     Some prior_file \<Rightarrow> Inl (RuntimeError (''Duplicate LaTeX label '' @ the (so_label draft) @ '' in '' @ prior_file
        @ '' and '' @ so_source_file draft))
   | None \<Rightarrow> Inr (seen(the (so_label draft) \<mapsto> so_source_file draft)))"

definition object_order :: "source_object \<Rightarrow> string \<times> int \<times> string" where
  "object_order item = (so_source_file item, so_ordinal item, so_claim_id item)"

definition label_as_id :: "source_object \<Rightarrow> source_object" where
  "label_as_id draft = draft\<lparr>so_claim_id := the (so_label draft)\<rparr>"

definition unlabelled_rows :: "store_db \<Rightarrow> claim_row list" where
  "unlabelled_rows db = filter (\<lambda>row. c_label row = None) (current_claim_rows False db)"

definition assign_stable_ids :: "source_object list \<Rightarrow> (store_db, source_object list) op" where
  "assign_stable_ids drafts =
     (let labelled = filter has_label drafts; unlabelled = filter (\<lambda>d. \<not> has_label d) drafts
      in bindS (readS (\<lambda>db. bindE (foldE see_label labelled Map.empty) (\<lambda>_. Inr (unlabelled_rows db)))) (\<lambda>rows.
         case match_exact unlabelled rows of (exact, pending, left) \<Rightarrow>
           bindS (assign_pending pending left)
             (\<lambda>assigned. returnS (sort_key object_order (map label_as_id labelled @ exact @ assigned)))))"

section \<open>Indexing a manuscript\<close>

definition finalized :: "source_object \<Rightarrow> source_object list \<Rightarrow> source_object list result" where
  "finalized draft acc = (if so_claim_id draft = [] then Inl (RuntimeError ''Source object has no stable claim ID'')
     else Inr (acc @ [draft]))"

definition inherited_environments :: "source_tree \<Rightarrow> string list \<Rightarrow> (string \<times> string) list result" where
  "inherited_environments tree closure =
     foldE (\<lambda>path acc. bindE (read_source tree path) (\<lambda>source. Inr (acc @ custom_theorem_environments source))) closure []"

definition manuscript_drafts :: "source_tree \<Rightarrow> string \<Rightarrow> source_object list result" where
  "manuscript_drafts tree main_file =
     bindE (resolve_latex_closure tree main_file) (\<lambda>closure.
     bindE (inherited_environments tree closure) (\<lambda>inherited.
     bindE (foldE (\<lambda>path acc. bindE (extract_file tree inherited path) (\<lambda>drafts. Inr (acc @ drafts))) closure [])
       (\<lambda>drafts. if drafts = [] then Inl (RuntimeError ''No mathematical objects found in the selected LaTeX closure'')
                  else Inr drafts)))"

definition index_manuscript :: "source_tree \<Rightarrow> string \<Rightarrow> (store_db, source_object list) op" where
  "index_manuscript tree main_file =
     bindS (readS (\<lambda>_. manuscript_drafts tree main_file)) (\<lambda>drafts.
     bindS (assign_stable_ids drafts) (\<lambda>assigned.
     readS (\<lambda>_. foldE finalized assigned [])))"

section \<open>The explicit reference graph\<close>

definition resolve_reference :: "source_object list \<Rightarrow> string \<Rightarrow> string option" where
  "resolve_reference objects reference =
     (case dict_by (\<lambda>item. the (so_label item)) (filter has_label objects) reference of
        Some item \<Rightarrow> Some (so_claim_id item)
      | None \<Rightarrow> if reference \<in> so_claim_id ` set objects then Some reference else None)"

definition item_references :: "source_object \<Rightarrow> (string \<times> string) list" where
  "item_references item = map (\<lambda>r. (r, ''explicit_ref'')) (so_references item)
     @ map (\<lambda>r. (r, ASSISTANT_CONTEXT_EDGE_KIND)) (so_assistant_references item)"

definition reference_edges :: "source_object list \<Rightarrow> (string \<times> string \<times> string) list" where
  "reference_edges objects = concat (map (\<lambda>item. List.map_filter (\<lambda>(reference, kind).
     case resolve_reference objects reference of
       None \<Rightarrow> None
     | Some destination \<Rightarrow> if destination \<noteq> so_claim_id item then Some (so_claim_id item, destination, kind) else None)
     (item_references item)) objects)"

definition unresolved_references :: "source_object list \<Rightarrow> (string \<times> string) list" where
  "unresolved_references objects = concat (map (\<lambda>item. map (\<lambda>(reference, _). (so_claim_id item, reference))
     (filter (\<lambda>(reference, _). resolve_reference objects reference = None) (item_references item))) objects)"

definition reference_edge :: "string \<times> string \<times> string \<Rightarrow> manuscript_edge" where
  "reference_edge = (\<lambda>(src, dst, kind). \<lparr>e_src = src, e_dst = dst, e_kind = kind,
     e_provenance = (if kind = ASSISTANT_CONTEXT_EDGE_KIND then ''assistant_annotation'' else ''latex_ref''), e_approved = True\<rparr>)"

definition explicit_reference_graph :: "source_object list \<Rightarrow> manuscript_edge list \<times> (string \<times> string) list" where
  "explicit_reference_graph objects =
     (map reference_edge (sorted_list_of_set (set (reference_edges objects))),
      sorted_list_of_set (set (unresolved_references objects)))"

section \<open>The closure is the reachable files\<close>

definition includes_of :: "source_tree \<Rightarrow> string \<Rightarrow> (string \<times> string) list result" where
  "includes_of tree path = bindE (read_source tree path) (\<lambda>source. include_arguments source path)"

definition include_rel :: "source_tree \<Rightarrow> (string \<times> string) set" where
  "include_rel tree = {(p, c). \<exists>incs raw macro. includes_of tree p = Inr incs \<and> (raw, macro) \<in> set incs
     \<and> st_resolve tree p raw macro = Inr c}"

text \<open>A file that can be read and whose includes all resolve.\<close>

definition includes_resolve :: "source_tree \<Rightarrow> string \<Rightarrow> bool" where
  "includes_resolve tree p \<longleftrightarrow> (\<exists>incs. includes_of tree p = Inr incs
     \<and> (\<forall>(raw, macro)\<in>set incs. \<exists>c. st_resolve tree p raw macro = Inr c))"

definition reaches :: "source_tree \<Rightarrow> string set \<Rightarrow> string set" where
  "reaches tree S = (include_rel tree)\<^sup>* `` S"

definition closed_in :: "source_tree \<Rightarrow> string set \<Rightarrow> string set \<Rightarrow> bool" where
  "closed_in tree T S \<longleftrightarrow> (\<forall>p\<in>T. includes_resolve tree p \<and> (\<forall>c. (p, c) \<in> include_rel tree \<longrightarrow> c \<in> S))"

definition targets :: "source_tree \<Rightarrow> (string \<times> string \<times> string) list \<Rightarrow> string set" where
  "targets tree pending = {c. \<exists>(f, raw, macro)\<in>set pending. st_resolve tree f raw macro = Inr c}"

lemma follow_includes_step:
  "follow_includes tree ((f, raw, macro) # pending) ordered = (case st_resolve tree f raw macro of
     Inl e \<Rightarrow> Inl e
   | Inr child \<Rightarrow>
       if child \<in> set ordered then follow_includes tree pending ordered
       else case includes_of tree child of
              Inl e \<Rightarrow> Inl e
            | Inr incs \<Rightarrow> follow_includes tree (map (Pair child) incs @ pending) (ordered @ [child]))"
  by (cases "st_resolve tree f raw macro") (simp_all add: includes_of_def)

lemma targets_simps:
  "targets tree [] = {}"
  "targets tree ((f, raw, macro) # pending) = {c. st_resolve tree f raw macro = Inr c} \<union> targets tree pending"
  "includes_of tree p = Inr incs \<Longrightarrow> targets tree (map (Pair p) incs @ pending) = {c. (p, c) \<in> include_rel tree} \<union> targets tree pending"
  by (auto simp: targets_def include_rel_def)

lemma follow_includes_sound:
  "follow_includes tree pending ordered = Inr paths \<Longrightarrow>
   (\<exists>more. paths = ordered @ more \<and> (distinct ordered \<longrightarrow> distinct paths)
      \<and> set more \<subseteq> reaches tree (targets tree pending))
   \<and> (\<forall>(f, raw, macro)\<in>set pending. \<exists>c. st_resolve tree f raw macro = Inr c \<and> c \<in> set paths)
   \<and> closed_in tree (set paths - set ordered) (set paths)"
proof (induction tree pending ordered rule: follow_includes.induct)
  case (1 tree ordered)
  then show ?case by (simp add: closed_in_def)
next
  case (2 tree f raw macro pending ordered)
  from 2(3) obtain child where child: "st_resolve tree f raw macro = Inr child"
    by (cases "st_resolve tree f raw macro") simp_all
  show ?case
  proof (cases "child \<in> set ordered")
    case True
    with 2(3) child have "follow_includes tree pending ordered = Inr paths" by simp
    with 2(1) [OF child True] True child show ?thesis
      by (fastforce simp: targets_simps reaches_def)
  next
    case False
    with 2(3) child obtain incs where incs: "includes_of tree child = Inr incs"
      and rest: "follow_includes tree (map (Pair child) incs @ pending) (ordered @ [child]) = Inr paths"
      by (auto simp: follow_includes_step simp del: follow_includes.simps split: sum.splits)
    note IH = 2(2) [OF child False incs [unfolded includes_of_def] rest]
    obtain more where more: "paths = ordered @ [child] @ more" "distinct (ordered @ [child]) \<longrightarrow> distinct paths"
        "set more \<subseteq> reaches tree (targets tree (map (Pair child) incs @ pending))"
      using IH by auto
    have "reaches tree (targets tree (map (Pair child) incs @ pending)) \<subseteq> reaches tree (targets tree ((f, raw, macro) # pending))"
      using child by (auto simp: targets_simps targets_simps(3) [OF incs] reaches_def intro: converse_rtrancl_into_rtrancl)
    with more(3) child have "set (child # more) \<subseteq> reaches tree (targets tree ((f, raw, macro) # pending))"
      by (auto simp: targets_simps reaches_def)
    moreover have res: "\<exists>c. st_resolve tree child r m = Inr c \<and> c \<in> set paths" if "(r, m) \<in> set incs" for r m
    proof -
      have "(child, r, m) \<in> set (map (Pair child) incs @ pending)" using that by auto
      with IH show ?thesis by blast
    qed
    have this_child: "closed_in tree {child} (set paths)"
      unfolding closed_in_def includes_resolve_def include_rel_def using incs
      by (auto dest: res)
    have "closed_in tree (set paths - set ordered) (set paths)"
    proof -
      have "set paths - set ordered \<subseteq> {child} \<union> (set paths - set (ordered @ [child]))" by auto
      with IH this_child show ?thesis unfolding closed_in_def by blast
    qed
    moreover have "\<exists>more'. paths = ordered @ more' \<and> (distinct ordered \<longrightarrow> distinct paths)
        \<and> set more' \<subseteq> reaches tree (targets tree ((f, raw, macro) # pending))"
      using more False \<open>set (child # more) \<subseteq> reaches tree (targets tree ((f, raw, macro) # pending))\<close>
      by (intro exI [of _ "child # more"]) simp
    moreover have "\<exists>c. st_resolve tree f' raw' macro' = Inr c \<and> c \<in> set paths"
      if "(f', raw', macro') \<in> set ((f, raw, macro) # pending)" for f' raw' macro'
    proof (cases "(f', raw', macro') \<in> set pending")
      case True
      then have "(f', raw', macro') \<in> set (map (Pair child) incs @ pending)" by simp
      with IH show ?thesis by blast
    qed (use that child more(1) in auto)
    ultimately show ?thesis by blast
  qed
qed

lemma follow_includes_succeeds:
  assumes "\<forall>(f, raw, macro)\<in>set pending. \<exists>c. st_resolve tree f raw macro = Inr c"
    and "\<forall>p\<in>reaches tree (targets tree pending). includes_resolve tree p"
  shows "\<exists>paths. follow_includes tree pending ordered = Inr paths"
  using assms
proof (induction tree pending ordered rule: follow_includes.induct)
  case (2 tree f raw macro pending ordered)
  obtain child where child: "st_resolve tree f raw macro = Inr child" using 2(3) by auto
  have later: "\<forall>(f, raw, macro)\<in>set pending. \<exists>c. st_resolve tree f raw macro = Inr c"
      "\<forall>p\<in>reaches tree (targets tree pending). includes_resolve tree p"
    using 2(3,4) by (auto simp: targets_simps reaches_def)
  show ?case
  proof (cases "child \<in> set ordered")
    case True
    with 2(1) [OF child True later] child show ?thesis by simp
  next
    case False
    have "includes_resolve tree child" using 2(4) child by (auto simp: targets_simps reaches_def)
    then obtain incs where incs: "includes_of tree child = Inr incs"
      and res: "\<forall>(raw, macro)\<in>set incs. \<exists>c. st_resolve tree child raw macro = Inr c" by (auto simp: includes_resolve_def)
    have "reaches tree (targets tree (map (Pair child) incs @ pending)) \<subseteq> reaches tree (targets tree ((f, raw, macro) # pending))"
      using child by (auto simp: targets_simps targets_simps(3) [OF incs] reaches_def intro: converse_rtrancl_into_rtrancl)
    then have "\<forall>p\<in>reaches tree (targets tree (map (Pair child) incs @ pending)). includes_resolve tree p" using 2(4) by auto
    moreover have "\<forall>(f, raw, macro)\<in>set (map (Pair child) incs @ pending). \<exists>c. st_resolve tree f raw macro = Inr c"
      using res later(1) by auto
    ultimately obtain paths where "follow_includes tree (map (Pair child) incs @ pending) (ordered @ [child]) = Inr paths"
      using 2(2) [OF child False incs [unfolded includes_of_def]] by auto
    with child False incs show ?thesis by (simp add: follow_includes_step del: follow_includes.simps)
  qed
qed simp

section \<open>Assigned ids\<close>

definition auto_id :: "string \<Rightarrow> nat \<Rightarrow> string" where
  "auto_id kind n = kind @ '':auto-'' @ zero_pad 6 (digits n)"

definition auto_ids :: "nat \<Rightarrow> nat \<Rightarrow> string set" where
  "auto_ids n m = (\<lambda>(k, i). auto_id k i) ` (UNIV \<times> {n..<m})"

lemma auto_ids_mono: "n \<le> n' \<Longrightarrow> auto_ids n' m \<subseteq> auto_ids n m"
  unfolding auto_ids_def by (intro image_mono) auto

lemma auto_ids_iff: "c \<in> auto_ids n m \<longleftrightarrow> (\<exists>k i. c = auto_id k i \<and> n \<le> i \<and> i < m)"
  unfolding auto_ids_def image_iff by force

lemma auto_id_inject: "auto_id k m = auto_id k' n \<Longrightarrow> m = n"
proof -
  have tail: "takeWhile is_digit (rev (auto_id k n)) = rev (zero_pad 6 (digits n))" for k n
  proof -
    have "takeWhile is_digit (rev (zero_pad 6 (digits n)) @ rev ('':auto-'') @ rev k) = rev (zero_pad 6 (digits n))"
      using zero_pad_all [of 6 n] by (subst takeWhile_append2) (auto simp: list_all_iff is_digit_def)
    then show ?thesis by (simp add: auto_id_def)
  qed
  assume "auto_id k m = auto_id k' n"
  then have "zero_pad 6 (digits m) = zero_pad 6 (digits n)" using tail [of k m] tail [of k' n] by simp
  then show "m = n" by (simp add: zero_pad_inject)
qed

text \<open>The number the next generated id gets.\<close>

definition claim_counter :: "nat \<Rightarrow> store_db \<Rightarrow> bool" where
  "claim_counter n db \<longleftrightarrow> (case get_metadata ''next_generated_claim_id'' db of
     None \<Rightarrow> n = 1 | Some v \<Rightarrow> v = digits n \<or> v = [] \<and> n = 1)"

lemma allocate_spec:
  assumes "claim_counter n db"
  shows "\<exists>db'. allocate_claim_id kind db = Inr (db', auto_id kind n) \<and> claim_counter (n + 1) db' \<and> t_claims db' = t_claims db"
proof -
  have "digits 1 = ''1''" by code_simp
  then have "py_int (case get_metadata ''next_generated_claim_id'' db of
      None \<Rightarrow> ''1'' | Some v \<Rightarrow> if v = [] then ''1'' else v) = Inr (int n)"
    using assms py_int_digits [of 1] by (auto simp: claim_counter_def split: option.splits)
  then show ?thesis
    by (simp add: allocate_claim_id_def auto_id_def claim_counter_def get_set_metadata int_text_def nat_add_distrib format_padded_def)
      (simp add: set_metadata_def)
qed

definition blank :: "source_object \<Rightarrow> source_object" where
  "blank item = item\<lparr>so_claim_id := []\<rparr>"

lemma blank_id [simp]: "blank (item\<lparr>so_claim_id := cid\<rparr>) = blank item"
  by (simp add: blank_def)

lemma nearest_Some: "nearest P draft available = Some row \<Longrightarrow> row \<in> set available \<and> P row"
proof -
  assume n: "nearest P draft available = Some row"
  then obtain rows where "sort_key (\<lambda>row. (\<bar>c_ordinal row - so_ordinal draft\<bar>, c_claim_id row)) (filter P available) = row # rows"
    by (auto simp: nearest_def split: list.splits)
  from arg_cong [OF this, of set] show ?thesis by auto
qed

lemma remove_row_ids: "c_claim_id ` set (remove_row row available) = c_claim_id ` set available - {c_claim_id row}"
  by (auto simp: remove_row_def)

lemma remove_row_unique: "unique_on c_claim_id available \<Longrightarrow> unique_on c_claim_id (remove_row row available)"
  by (auto simp: remove_row_def)

lemma match_exact_spec:
  "match_exact drafts available = (assigned, pending, left) \<Longrightarrow>
   mset (map blank assigned) + mset (map blank pending) = mset (map blank drafts)
   \<and> distinct (map so_claim_id assigned)
   \<and> so_claim_id ` set assigned \<subseteq> c_claim_id ` set available \<and> c_claim_id ` set left \<subseteq> c_claim_id ` set available
   \<and> so_claim_id ` set assigned \<inter> c_claim_id ` set left = {}
   \<and> set pending \<subseteq> set drafts \<and> blank ` set assigned \<subseteq> blank ` set drafts"
proof (induction drafts arbitrary: available assigned pending left)
  case (Cons draft drafts)
  show ?case
  proof (cases "nearest (same_statement draft) draft available")
    case None
    then obtain p where "match_exact drafts available = (assigned, p, left)" "pending = draft # p"
      using Cons.prems by (auto split: prod.splits)
    with Cons.IH [OF this(1)] show ?thesis by auto
  next
    case (Some row)
    then obtain a where a: "match_exact drafts (remove_row row available) = (a, pending, left)"
        "assigned = draft\<lparr>so_claim_id := c_claim_id row\<rparr> # a"
      using Cons.prems by (auto split: prod.splits)
    have "c_claim_id row \<in> c_claim_id ` set available" using nearest_Some [OF Some] by simp
    with Cons.IH [OF a(1)] show ?thesis unfolding a(2) remove_row_ids by auto
  qed
qed simp

lemma assign_pending_spec:
  assumes "claim_counter n db" and "\<forall>i\<ge>n. \<forall>k. auto_id k i \<notin> c_claim_id ` set available"
  shows "\<exists>db' assigned m. assign_pending drafts available db = (db', Inr assigned) \<and> n \<le> m \<and> claim_counter m db'
    \<and> map blank assigned = map blank drafts \<and> distinct (map so_claim_id assigned)
    \<and> so_claim_id ` set assigned \<subseteq> c_claim_id ` set available \<union> auto_ids n m
    \<and> t_claims db' = t_claims db"
  using assms
proof (induction drafts arbitrary: available db n)
  case Nil
  then show ?case by auto
next
  case (Cons draft drafts)
  show ?case
  proof (cases "nearest (same_place draft) draft available")
    case (Some row)
    have "\<forall>i\<ge>n. \<forall>k. auto_id k i \<notin> c_claim_id ` set (remove_row row available)"
      using Cons.prems(2) by (auto simp: remove_row_ids)
    from Cons.IH [OF Cons.prems(1) this] obtain db' assigned m where
      IH: "assign_pending drafts (remove_row row available) db = (db', Inr assigned)" "n \<le> m" "claim_counter m db'"
        "map blank assigned = map blank drafts" "distinct (map so_claim_id assigned)"
        "so_claim_id ` set assigned \<subseteq> c_claim_id ` set (remove_row row available) \<union> auto_ids n m"
        "t_claims db' = t_claims db" by blast
    have row: "c_claim_id row \<in> c_claim_id ` set available" using nearest_Some [OF Some] by simp
    have "c_claim_id row \<notin> auto_ids n m"
      using Cons.prems(2) row unfolding auto_ids_iff by metis
    then have "c_claim_id row \<notin> so_claim_id ` set assigned"
      using IH(6) unfolding remove_row_ids by blast
    moreover have "insert (c_claim_id row) (so_claim_id ` set assigned) \<subseteq> c_claim_id ` set available \<union> auto_ids n m"
      using IH(6) row unfolding remove_row_ids by blast
    ultimately show ?thesis
      using IH(1-5,7) Some
      by (intro exI [of _ db'] exI [of _ "draft\<lparr>so_claim_id := c_claim_id row\<rparr> # assigned"] exI [of _ m]) simp
  next
    case None
    obtain db1 where alloc: "allocate_claim_id (so_kind draft) db = Inr (db1, auto_id (so_kind draft) n)"
        "claim_counter (n + 1) db1" "t_claims db1 = t_claims db" using allocate_spec [OF Cons.prems(1)] by blast
    have "\<forall>i\<ge>n + 1. \<forall>k. auto_id k i \<notin> c_claim_id ` set available" using Cons.prems(2) by simp
    from Cons.IH [OF alloc(2) this] obtain db' assigned m where
      IH: "assign_pending drafts available db1 = (db', Inr assigned)" "n + 1 \<le> m" "claim_counter m db'"
        "map blank assigned = map blank drafts" "distinct (map so_claim_id assigned)"
        "so_claim_id ` set assigned \<subseteq> c_claim_id ` set available \<union> auto_ids (n + 1) m"
        "t_claims db' = t_claims db1" by blast
    have "auto_id (so_kind draft) n \<notin> c_claim_id ` set available" using Cons.prems(2) by simp
    moreover have "auto_id (so_kind draft) n \<notin> auto_ids (n + 1) m" by (auto simp: auto_ids_iff dest: auto_id_inject)
    ultimately have "auto_id (so_kind draft) n \<notin> so_claim_id ` set assigned" using IH(6) by blast
    moreover have "insert (auto_id (so_kind draft) n) (so_claim_id ` set assigned)
        \<subseteq> c_claim_id ` set available \<union> auto_ids n m"
    proof -
      have "auto_id (so_kind draft) n \<in> auto_ids n m" using IH(2) by (auto simp: auto_ids_def)
      moreover have "auto_ids (n + 1) m \<subseteq> auto_ids n m" by (rule auto_ids_mono) simp
      ultimately show ?thesis using IH(6) by blast
    qed
    ultimately show ?thesis
      using IH(1-5,7) alloc None
      by (intro exI [of _ db'] exI [of _ "draft\<lparr>so_claim_id := auto_id (so_kind draft) n\<rparr> # assigned"] exI [of _ m]) simp
  qed
qed

lemma see_label_None: "seen (the (so_label d)) = None \<Longrightarrow> see_label d seen = Inr (seen(the (so_label d) \<mapsto> so_source_file d))"
  by (simp add: see_label_def)

lemma see_labels_ok:
  assumes "distinct (map so_label drafts)" and "\<forall>d\<in>set drafts. has_label d \<and> seen (the (so_label d)) = None"
  shows "\<exists>seen'. foldE see_label drafts seen = Inr seen'"
  using assms
proof (induction drafts arbitrary: seen)
  case (Cons d drafts)
  have "the (so_label d) \<noteq> the (so_label e)" if "e \<in> set drafts" for e
    using Cons.prems that by (auto simp: has_label_def image_iff)
  then have "\<forall>e\<in>set drafts. has_label e \<and> (seen(the (so_label d) \<mapsto> so_source_file d)) (the (so_label e)) = None"
    using Cons.prems(2) by (metis fun_upd_other list.set_intros(2))
  with Cons show ?case by (auto simp: see_label_def)
qed simp

lemma see_labels_raise:
  assumes "foldE see_label drafts seen = Inr seen'" and "\<forall>d\<in>set drafts. has_label d"
  shows "distinct (map so_label drafts) \<and> (\<forall>d\<in>set drafts. seen (the (so_label d)) = None)"
  using assms
proof (induction drafts arbitrary: seen)
  case (Cons d drafts)
  then have new: "seen (the (so_label d)) = None"
    by (cases "seen (the (so_label d))") (auto simp: see_label_def)
  with Cons.prems(1) have rest: "foldE see_label drafts (seen(the (so_label d) \<mapsto> so_source_file d)) = Inr seen'"
    by (simp add: see_label_None)
  note IH = Cons.IH [OF rest]
  have "so_label e \<noteq> so_label d \<and> seen (the (so_label e)) = None" if "e \<in> set drafts" for e
    using IH Cons.prems(2) that by (force simp: has_label_def split: if_splits)
  with IH Cons.prems(2) new show ?case by (auto simp: image_iff)
qed simp

lemma mset_split_filter: "mset (map f (filter P xs)) + mset (map f (filter (\<lambda>x. \<not> P x) xs)) = mset (map f xs)"
  by (induction xs) simp_all

lemma blank_has_label [simp]: "has_label (blank d) = has_label d"
  by (simp add: has_label_def blank_def)

lemma hd_sort_key:
  assumes "x \<in> set xs" and "\<forall>y\<in>set xs. y \<noteq> x \<longrightarrow> f x < f y"
  shows "\<exists>ys. sort_key f xs = x # ys"
proof (cases "sort_key f xs")
  case Nil
  with assms(1) show ?thesis by (metis empty_iff empty_set set_sort)
next
  case (Cons y ys)
  then have "y \<in> set xs" by (metis list.set_intros(1) set_sort)
  moreover have "f y \<le> f x"
  proof -
    have "x \<in> set (y # ys)" using assms(1) Cons by (metis set_sort)
    moreover have "sorted (map f (y # ys))" using sorted_sort_key [of f xs] by (simp only: Cons)
    ultimately show ?thesis by auto
  qed
  ultimately have "y = x" using assms(2) by fastforce
  with Cons show ?thesis by simp
qed

text \<open>A draft that is the same object as a row: same file, kind, statement and position.\<close>

definition unchanged_object :: "source_object \<Rightarrow> claim_row \<Rightarrow> bool" where
  "unchanged_object draft row \<longleftrightarrow> same_statement draft row \<and> c_ordinal row = so_ordinal draft"

lemma nearest_unchanged:
  assumes "row \<in> set available" and "unchanged_object draft row"
    and "inj_on (\<lambda>r. (c_source_file r, c_ordinal r)) (set available)"
  shows "nearest (same_statement draft) draft available = Some row"
proof -
  let ?f = "\<lambda>r. (\<bar>c_ordinal r - so_ordinal draft\<bar>, c_claim_id r)"
  have "?f row < ?f y" if "y \<in> set (filter (same_statement draft) available)" "y \<noteq> row" for y
  proof -
    have "c_source_file y = c_source_file row" "y \<in> set available"
      using that(1) assms(2) by (simp_all add: unchanged_object_def same_statement_def same_place_def)
    then have "c_ordinal y \<noteq> c_ordinal row" using that(2) assms(1,3) by (auto simp: inj_on_def)
    then show ?thesis using assms(2) by (simp add: unchanged_object_def less_prod_def)
  qed
  then obtain ys where "sort_key ?f (filter (same_statement draft) available) = row # ys"
    using hd_sort_key [of row "filter (same_statement draft) available" ?f] assms(1,2)
    by (auto simp: unchanged_object_def)
  then show ?thesis by (simp add: nearest_def)
qed

lemma match_exact_unchanged:
  assumes "list_all2 unchanged_object drafts rows" and "set rows \<subseteq> set available" and "distinct (map c_claim_id rows)"
    and "inj_on (\<lambda>r. (c_source_file r, c_ordinal r)) (set available)" and "unique_on c_claim_id available"
  shows "\<exists>left. match_exact drafts available = (map2 (\<lambda>d r. d\<lparr>so_claim_id := c_claim_id r\<rparr>) drafts rows, [], left)"
  using assms
proof (induction drafts rows arbitrary: available rule: list_all2_induct)
  case (Cons draft drafts row rows)
  have near: "nearest (same_statement draft) draft available = Some row"
    by (rule nearest_unchanged) (use Cons in auto)
  have "set rows \<subseteq> set (remove_row row available)" using Cons.prems by (auto simp: remove_row_def image_iff)
  moreover have "inj_on (\<lambda>r. (c_source_file r, c_ordinal r)) (set (remove_row row available))"
    using Cons.prems(3) by (rule inj_on_subset) (auto simp: remove_row_def)
  ultimately obtain left where "match_exact drafts (remove_row row available)
      = (map2 (\<lambda>d r. d\<lparr>so_claim_id := c_claim_id r\<rparr>) drafts rows, [], left)"
    using Cons.IH [of "remove_row row available"] Cons.prems remove_row_unique by auto
  with near show ?case by simp
qed simp

lemma mem_map_filter: "y \<in> set (List.map_filter f xs) \<longleftrightarrow> (\<exists>x\<in>set xs. f x = Some y)"
  by (induction xs) (auto split: option.splits)

lemma reference_edges_mem:
  "t \<in> set (reference_edges objects) \<longleftrightarrow> (\<exists>item\<in>set objects. \<exists>r\<in>set (item_references item). \<exists>dst.
     resolve_reference objects (fst r) = Some dst \<and> dst \<noteq> so_claim_id item \<and> t = (so_claim_id item, dst, snd r))"
proof -
  have step: "(case r of (reference, kind) \<Rightarrow> case resolve_reference objects reference of None \<Rightarrow> None
      | Some destination \<Rightarrow> if destination \<noteq> so_claim_id item then Some (so_claim_id item, destination, kind) else None) = Some t
    \<longleftrightarrow> (\<exists>dst. resolve_reference objects (fst r) = Some dst \<and> dst \<noteq> so_claim_id item \<and> t = (so_claim_id item, dst, snd r))" for item r
    by (cases r) (auto split: option.splits)
  show ?thesis by (simp add: reference_edges_def mem_map_filter step)
qed

lemma distinct_three:
  assumes "distinct xs" and "set xs \<subseteq> L" and "distinct ys" and "set ys \<subseteq> R" and "distinct zs" and "set zs \<subseteq> F \<union> A"
    and "F \<subseteq> R" and "set ys \<inter> F = {}" and "A \<inter> (R \<union> L) = {}" and "L \<inter> R = {}"
  shows "distinct (xs @ ys @ zs)"
proof -
  have "set xs \<inter> set ys = {}" "set xs \<inter> set zs = {}" "set ys \<inter> set zs = {}" using assms by blast+
  with assms show ?thesis by auto
qed

section \<open>Properties\<close>

text \<open>C16. The closure of a main file is exactly the set of files reachable over its literal includes, each once, the
  main file first; resolving it fails exactly when a reachable file cannot be read or has an include that does not
  resolve.\<close>

theorem latex_closure_exact:
  "case resolve_latex_closure tree main_file of
     Inl e \<Rightarrow> \<not> reaches tree {main_file} \<subseteq> {p. includes_resolve tree p}
   | Inr paths \<Rightarrow> set paths = reaches tree {main_file} \<and> set paths \<subseteq> {p. includes_resolve tree p}
       \<and> distinct paths \<and> hd paths = main_file"
proof (cases "includes_of tree main_file")
  case (Inl e)
  then have "resolve_latex_closure tree main_file = Inl e" "\<not> includes_resolve tree main_file"
    by (auto simp: resolve_latex_closure_def includes_of_def includes_resolve_def bindE_def split: sum.splits)
  then show ?thesis by (auto simp: reaches_def)
next
  case (Inr incs)
  let ?pending = "map (Pair main_file) incs"
  have run: "resolve_latex_closure tree main_file = follow_includes tree ?pending [main_file]"
    using Inr by (auto simp: resolve_latex_closure_def includes_of_def bindE_def split: sum.splits)
  have tg: "targets tree ?pending = {c. (main_file, c) \<in> include_rel tree}"
    using targets_simps(3) [OF Inr, of "[]"] by (simp add: targets_simps)
  have sub: "reaches tree (targets tree ?pending) \<subseteq> reaches tree {main_file}"
    unfolding tg by (auto simp: reaches_def intro: converse_rtrancl_into_rtrancl)
  show ?thesis
  proof (cases "follow_includes tree ?pending [main_file]")
    case (Inl e)
    have "\<not> reaches tree {main_file} \<subseteq> {p. includes_resolve tree p}"
    proof
      assume all: "reaches tree {main_file} \<subseteq> {p. includes_resolve tree p}"
      then have "includes_resolve tree main_file" by (auto simp: reaches_def)
      then have "\<forall>(f, raw, macro)\<in>set ?pending. \<exists>c. st_resolve tree f raw macro = Inr c"
        using Inr by (auto simp: includes_resolve_def)
      with follow_includes_succeeds [of ?pending tree "[main_file]"] all sub Inl show False by auto
    qed
    with run Inl show ?thesis by simp
  next
    case ok: (Inr paths)
    from follow_includes_sound [OF ok] obtain more where paths: "paths = main_file # more" "distinct paths"
        "set more \<subseteq> reaches tree (targets tree ?pending)"
        "\<forall>(f, raw, macro)\<in>set ?pending. \<exists>c. st_resolve tree f raw macro = Inr c \<and> c \<in> set paths"
        "closed_in tree (set paths - {main_file}) (set paths)" by auto
    have res: "\<exists>c. st_resolve tree main_file r m = Inr c \<and> c \<in> set paths" if "(r, m) \<in> set incs" for r m
    proof -
      have "(main_file, r, m) \<in> set ?pending" using that by auto
      with paths(4) show ?thesis by blast
    qed
    have main: "closed_in tree {main_file} (set paths)"
      unfolding closed_in_def includes_resolve_def include_rel_def using Inr by (auto dest: res)
    have "set paths \<subseteq> {main_file} \<union> (set paths - {main_file})" by auto
    with main paths(5) have closed: "closed_in tree (set paths) (set paths)" unfolding closed_in_def by blast
    have "c \<in> set paths" if "(main_file, c) \<in> (include_rel tree)\<^sup>*" for c
      using that by (induction rule: rtrancl_induct) (use paths(1) closed in \<open>auto simp: closed_in_def\<close>)
    moreover have "set paths \<subseteq> reaches tree {main_file}" using paths(1,3) sub by (auto simp: reaches_def)
    ultimately show ?thesis using run ok paths(1,2) closed by (auto simp: reaches_def closed_in_def)
  qed
qed

text \<open>Indexed objects get distinct claim ids: when no label is used twice and labels and stored ids stay clear of
  each other and of the ids still to be generated, every draft gets exactly one id, a labelled one its label, and
  no two the same; the result is in source order.\<close>

theorem stable_ids_distinct:
  assumes "store_inv db" and "claim_counter n db" and "distinct (map so_label (filter has_label drafts))"
    and "\<forall>i\<ge>n. \<forall>k. auto_id k i \<notin> c_claim_id ` set (unlabelled_rows db) \<union> the ` so_label ` set (filter has_label drafts)"
    and "the ` so_label ` set (filter has_label drafts) \<inter> c_claim_id ` set (unlabelled_rows db) = {}"
  shows "\<exists>db' objects. assign_stable_ids drafts db = (db', Inr objects) \<and> distinct (map so_claim_id objects)
    \<and> mset (map blank objects) = mset (map blank drafts) \<and> sorted (map object_order objects)
    \<and> (\<forall>d\<in>set drafts. has_label d \<longrightarrow> label_as_id d \<in> set objects) \<and> t_claims db' = t_claims db"
proof -
  let ?lab = "filter has_label drafts" and ?un = "filter (\<lambda>d. \<not> has_label d) drafts" and ?rows = "unlabelled_rows db"
  obtain seen where seen: "foldE see_label ?lab Map.empty = Inr seen" using see_labels_ok [OF assms(3), of Map.empty] by auto
  obtain exact pending left where m: "match_exact ?un ?rows = (exact, pending, left)" by (cases "match_exact ?un ?rows")
  note M = match_exact_spec [OF m]
  have "c_claim_id ` set left \<subseteq> c_claim_id ` set ?rows" using M by simp
  then have "\<forall>i\<ge>n. \<forall>k. auto_id k i \<notin> c_claim_id ` set left" using assms(4) by (metis UnI1 subsetD)
  from assign_pending_spec [OF assms(2) this, of pending] obtain db' assigned m' where
    A: "assign_pending pending left db = (db', Inr assigned)" "map blank assigned = map blank pending"
      "distinct (map so_claim_id assigned)" "so_claim_id ` set assigned \<subseteq> c_claim_id ` set left \<union> auto_ids n m'"
      "t_claims db' = t_claims db" by blast
  let ?all = "map label_as_id ?lab @ exact @ assigned"
  have run: "assign_stable_ids drafts db = (db', Inr (sort_key object_order ?all))"
    by (simp add: assign_stable_ids_def Let_def bindS_def seen m A(1))
  have autos: "auto_ids n m' \<inter> (c_claim_id ` set ?rows \<union> the ` so_label ` set ?lab) = {}"
  proof -
    have "c \<notin> c_claim_id ` set ?rows \<union> the ` so_label ` set ?lab" if "c \<in> auto_ids n m'" for c
    proof -
      obtain k i where "c = auto_id k i" "n \<le> i" using \<open>c \<in> auto_ids n m'\<close> unfolding auto_ids_iff by blast
      then show ?thesis using assms(4) by simp
    qed
    then show ?thesis by blast
  qed
  have "distinct (map so_claim_id (map label_as_id ?lab))"
    using assms(3) by (auto simp: label_as_id_def comp_def distinct_map inj_on_def has_label_def)
  moreover have "set (map so_claim_id (map label_as_id ?lab)) \<subseteq> the ` so_label ` set ?lab"
    by (auto simp: label_as_id_def)
  ultimately have "distinct (map so_claim_id (map label_as_id ?lab) @ map so_claim_id exact @ map so_claim_id assigned)"
    by (rule distinct_three [where L = "the ` so_label ` set ?lab" and R = "c_claim_id ` set ?rows" and F = "c_claim_id ` set left"
        and A = "auto_ids n m'"]) (use M A(3,4) autos assms(5) in simp_all)
  then have "distinct (map so_claim_id ?all)" by simp
  then have "distinct (map so_claim_id (sort_key object_order ?all))" by (simp add: distinct_map_sort_key)
  moreover have "mset (map blank (sort_key object_order ?all)) = mset (map blank drafts)"
  proof -
    have "mset (map blank (sort_key object_order ?all)) = mset (map blank ?all)" by (metis mset_map mset_sort)
    also have "\<dots> = mset (map blank ?lab) + mset (map blank ?un)"
      using M A(2) by (simp add: label_as_id_def comp_def flip: mset_map)
    finally show ?thesis by (simp only: mset_split_filter)
  qed
  moreover have "\<forall>d\<in>set drafts. has_label d \<longrightarrow> label_as_id d \<in> set (sort_key object_order ?all)" by simp
  ultimately show ?thesis using run A(5) sorted_sort_key by blast
qed


text \<open>The explicit graph holds exactly the references: an edge from a claim to every other claim one of its
  references resolves to, of the kind of the reference, approved, once and in order; what does not resolve is listed.
  Both ends of every edge are indexed claims.\<close>

theorem explicit_reference_graph_exact:
  assumes "explicit_reference_graph objects = (edges, unresolved)"
  shows "set edges = {reference_edge (so_claim_id item, dst, snd r) | item r dst. item \<in> set objects
        \<and> r \<in> set (item_references item) \<and> resolve_reference objects (fst r) = Some dst \<and> dst \<noteq> so_claim_id item}
    \<and> distinct (map edge_order edges) \<and> sorted (map edge_order edges)
    \<and> set unresolved = {(so_claim_id item, fst r) | item r. item \<in> set objects
        \<and> r \<in> set (item_references item) \<and> resolve_reference objects (fst r) = None}
    \<and> e_src ` set edges \<union> e_dst ` set edges \<subseteq> so_claim_id ` set objects"
proof -
  let ?E = "reference_edges objects"
  have E: "set ?E = {(so_claim_id item, dst, snd r) | item r dst. item \<in> set objects
      \<and> r \<in> set (item_references item) \<and> resolve_reference objects (fst r) = Some dst \<and> dst \<noteq> so_claim_id item}"
    unfolding set_eq_iff reference_edges_mem mem_Collect_eq by blast
  have edges: "edges = map reference_edge (sorted_list_of_set (set ?E))"
    and un: "unresolved = sorted_list_of_set (set (unresolved_references objects))"
    using assms by (auto simp: explicit_reference_graph_def)
  have key: "edge_order (reference_edge t) = t" for t by (cases t) (simp add: edge_order_def reference_edge_def)
  have "dst \<in> so_claim_id ` set objects" if "resolve_reference objects reference = Some dst" for reference dst
    using that by (auto simp: resolve_reference_def split: option.splits if_splits dest: dict_by_Some)
  then have ends: "fst t \<in> so_claim_id ` set objects \<and> fst (snd t) \<in> so_claim_id ` set objects" if "t \<in> set ?E" for t
    using that by (auto simp: E)
  have set_edges: "set edges = reference_edge ` set ?E" by (simp add: edges)
  have "e_src ` set edges \<union> e_dst ` set edges \<subseteq> so_claim_id ` set objects"
    using ends by (fastforce simp: set_edges reference_edge_def split: prod.splits)
  moreover have "set edges = {reference_edge (so_claim_id item, dst, snd r) | item r dst. item \<in> set objects
        \<and> r \<in> set (item_references item) \<and> resolve_reference objects (fst r) = Some dst \<and> dst \<noteq> so_claim_id item}"
    unfolding set_edges E by blast
  moreover have "set unresolved = {(so_claim_id item, fst r) | item r. item \<in> set objects
        \<and> r \<in> set (item_references item) \<and> resolve_reference objects (fst r) = None}"
    by (auto simp: un unresolved_references_def)
  moreover have "map edge_order edges = sorted_list_of_set (set ?E)" by (simp add: edges key comp_def)
  ultimately show ?thesis by simp
qed

section \<open>Examples\<close>

theorem stable_ids_distinct_witness:
  "\<exists>db' objects. assign_stable_ids [ex_item [] (Some ''l''), ex_item [] None] ex_store = (db', Inr objects)
     \<and> distinct (map so_claim_id objects)"
proof -
  have labels: "filter has_label [ex_item [] (Some ''l''), ex_item [] None] = [ex_item [] (Some ''l'')]"
    by (simp add: has_label_def ex_item_def)
  have rows: "unlabelled_rows ex_store = []" by code_simp
  have counter: "claim_counter 1 ex_store" by code_simp
  have "auto_id k i \<noteq> ''l''" for k i
  proof -
    have "2 \<le> length (auto_id k i)" by (simp add: auto_id_def)
    then show ?thesis by (metis One_nat_def Suc_1 length_Cons list.size(3) not_less_eq_eq order_refl)
  qed
  moreover have "so_label (ex_item [] (Some ''l'')) = Some ''l''" by (simp add: ex_item_def)
  ultimately show ?thesis
    using stable_ids_distinct [OF ex_store_inv counter, of "[ex_item [] (Some ''l''), ex_item [] None]", unfolded labels rows] by force
qed

definition ex_unlabelled :: store_db where
  "ex_unlabelled = empty_store\<lparr>t_claims := [(ex_claim ''x'' CERTIFIED None)
     \<lparr>c_kind := ''lemma'', c_label := None, c_normalized_statement_hash := ''n''\<rparr>]\<rparr>"


theorem explicit_reference_graph_exact_witness:
  "e_dst ` set (fst (explicit_reference_graph [ex_item ''a'' None \<lparr>so_references := [''l'']\<rparr>, ex_item ''b'' (Some ''l'')])) \<subseteq> {''a'', ''b''}"
proof -
  let ?objects = "[ex_item ''a'' None \<lparr>so_references := [''l'']\<rparr>, ex_item ''b'' (Some ''l'')]"
  obtain edges unresolved where g: "explicit_reference_graph ?objects = (edges, unresolved)" by fastforce
  have "so_claim_id ` set ?objects = {''a'', ''b''}" by (simp add: ex_item_def)
  moreover have "e_src ` set edges \<union> e_dst ` set edges \<subseteq> so_claim_id ` set ?objects"
    using explicit_reference_graph_exact [OF g] by (elim conjE)
  ultimately have "e_dst ` set edges \<subseteq> {''a'', ''b''}" by (simp only: Un_subset_iff)
  with g show ?thesis by simp
qed

text \<open>
  The hypothesis on labels of \<open>stable_ids_distinct\<close> is needed: nothing keeps a label from having the form of a
  generated id, and then two objects share one claim id.
\<close>

lemma label_can_take_a_generated_id:
  "map so_claim_id (projr (snd (assign_stable_ids [ex_item [] (Some ''lemma:auto-000001''), ex_item [] None] empty_store)))
     = [''lemma:auto-000001'', ''lemma:auto-000001'']"
  by code_simp

end
