(* ===== verification/Conjectural_Policy.thy ===== *)
theory Conjectural_Policy
  imports DepGraph Certification Store_Invariant
begin

text \<open>
  The host policy for unsupported assertions, \<^verbatim>\<open>_reconcile_conjectural_policy\<close> and
  \<^verbatim>\<open>IncrementalSession.reconcile_conjectural_policy\<close> of \<^verbatim>\<open>incremental/session.py\<close>: a conjecture, or a
  theorem-like assertion without a proof, is skipped, unless selected proof-bearing statements rely on it and the
  author gave no guidance; then the author is asked.
\<close>

section \<open>The policy\<close>

text \<open>What the loop over the conjectural claims reads: \<open>pc_questions\<close> are the questions open when it starts.\<close>

record policy_context =
  pc_snapshot :: string
  pc_run_id :: int
  pc_items :: "string \<Rightarrow> source_object option"
  pc_blockers :: "string \<Rightarrow> string list option"
  pc_guided :: "string set"
  pc_questions :: "question_row list"

definition conjectural_claims :: "source_object list \<Rightarrow> string set" where
  "conjectural_claims objects = so_claim_id ` set (filter is_conjectural_assertion objects)"

definition guided_claims :: "manuscript_edge list \<Rightarrow> string set" where
  "guided_claims edges = e_src ` set (filter (\<lambda>e. e_approved e \<and> e_kind e = ''assistant_context'') edges)"

definition policy_problem :: "string list \<Rightarrow> string" where
  "policy_problem blocked_claims =
     ''This conjectural or unproved assertion is not a proof obligation, ''
     @ ''but proof-bearing manuscript statements rely on it: '' @ py_join '', '' blocked_claims"

definition policy_resolutions :: "source_object \<Rightarrow> string list" where
  "policy_resolutions item =
     [if so_kind item = ''conjecture''
      then ''Reclassify this conjecture as a theorem-like assertion and attach its manuscript proof.''
      else ''Add a manuscript proof for this assertion.'',
      ''Remove the dependency from the proof-bearing statements.'']"

definition ask_about_claim :: "policy_context \<Rightarrow> source_object \<Rightarrow> string list \<Rightarrow> string \<Rightarrow> (store_db, unit) op" where
  "ask_about_claim pc item blocked_claims claim_id =
     (let passage = py_strip (so_statement_text item)
      in bindS (txn (create_question claim_id (pc_snapshot pc) ''conjectural_dependency'' passage
             (policy_problem blocked_claims) (policy_resolutions item) blocked_claims (pc_run_id pc) ''HOST_POLICY''))
           (\<lambda>question_id.
         bindS (txn (\<lambda>db. bindE (refresh_open_question claim_id (pc_snapshot pc) ''conjectural_dependency'' passage
             (policy_problem blocked_claims) (policy_resolutions item) blocked_claims (Some ''HOST_POLICY'') db)
             (\<lambda>db'. Inr (db', ())))) (\<lambda>_.
         modifyS (\<lambda>db. (set_claim_state claim_id NEEDS_CLARIFICATION (pc_run_id pc) ''conjectural_dependency''
             (question_id @ '': unsupported assertion blocks '' @ py_join '', '' blocked_claims) False db, ())))))"

definition close_question :: "policy_context \<Rightarrow> question_row \<Rightarrow> (store_db, unit) op" where
  "close_question pc question =
     bindS (txn (resolve_question (q_question_id question) (Some (pc_run_id pc))
       (''Conjectural and unproved assertions are skipped unless a ''
        @ ''proof-bearing manuscript statement depends on them'') ''SUPERSEDED'')) (\<lambda>_. returnS ())"

definition skip_claim :: "policy_context \<Rightarrow> string \<Rightarrow> (store_db, unit) op" where
  "skip_claim pc claim_id =
     bindS (forS (close_question pc) (filter (\<lambda>q. q_claim_id q = claim_id) (pc_questions pc))) (\<lambda>_.
     modifyS (\<lambda>db. (set_claim_state claim_id SKIPPED_UNPROVED (pc_run_id pc) ''skip_unproved''
       (if claim_id \<in> pc_guided pc
        then ''Author assistant context points to indexed prerequisites; ''
             @ ''the unproved assertion remains uncertified while dependent ''
             @ ''proofs may be attempted from those certified prerequisites''
        else ''Host policy skips conjectures and theorem-like assertions ''
             @ ''without an attached manuscript proof'') False db, ())))"

definition reconcile_claim :: "policy_context \<Rightarrow> string \<Rightarrow> (store_db, unit) op" where
  "reconcile_claim pc claim_id =
     (let blocked_claims = dict_get (pc_blockers pc) claim_id []
      in if blocked_claims \<noteq> [] \<and> claim_id \<notin> pc_guided pc
         then case pc_items pc claim_id of
                None \<Rightarrow> raiseS (KeyError claim_id)
              | Some item \<Rightarrow> ask_about_claim pc item blocked_claims claim_id
         else skip_claim pc claim_id)"

definition reconcile_policy ::
    "'g nx_api \<Rightarrow> string \<Rightarrow> source_object list \<Rightarrow> manuscript_edge list \<Rightarrow> string set \<Rightarrow> int \<Rightarrow> (store_db, string set) op" where
  "reconcile_policy N snapshot objects edges selected run_id =
     bindS (readS (\<lambda>db. bindE (conjectural_dependency_blockers N objects selected edges)
              (\<lambda>blockers. Inr (blockers, open_questions db)))) (\<lambda>(blockers, questions).
     bindS (forS (reconcile_claim \<lparr>pc_snapshot = snapshot, pc_run_id = run_id, pc_items = dict_by so_claim_id objects,
              pc_blockers = blockers, pc_guided = guided_claims edges, pc_questions = questions\<rparr>)
            (sorted_list_of_set (conjectural_claims objects))) (\<lambda>_.
     returnS (conjectural_claims objects)))"

section \<open>Reconciling a stored project\<close>

definition edge_of_row :: "edge_row \<Rightarrow> manuscript_edge" where
  "edge_of_row row = \<lparr>e_src = er_src row, e_dst = er_dst row, e_kind = er_edge_kind row,
     e_provenance = er_provenance row, e_approved = er_approved row\<rparr>"

definition active_edges :: "store_db \<Rightarrow> manuscript_edge list" where
  "active_edges db = map edge_of_row (manuscript_edges True db)"

text \<open>The proof targets with everything they depend on; the targets alone when the closure is empty.\<close>

definition proof_selection ::
    "'g nx_api \<Rightarrow> string set \<Rightarrow> source_object list \<Rightarrow> manuscript_edge list \<Rightarrow> string set result" where
  "proof_selection N targets objects edges =
     bindE (dependency_closure N (sorted_list_of_set targets) (so_claim_id ` set objects) edges)
       (\<lambda>selected. Inr (if selected = {} then targets else selected))"

text \<open>The states of the conjectural claims, and their open questions, before and after.\<close>

definition policy_states :: "string set \<Rightarrow> store_db \<Rightarrow> string \<Rightarrow> claim_state option" where
  "policy_states conjectural db c = (if c \<in> conjectural then map_option c_status (claim_row_of c db) else None)"

definition policy_questions ::
    "string set \<Rightarrow> store_db \<Rightarrow> (string \<times> string \<times> string \<times> string \<times> string \<times> string list \<times> string list) list" where
  "policy_questions conjectural db =
     map (\<lambda>q. (q_question_id q, q_snapshot_commit q, q_category q, q_passage q, q_problem q, q_resolutions q, q_blocking_claims q))
       (filter (\<lambda>q. q_claim_id q \<in> conjectural) (open_questions db))"

text \<open>The comparison of the two dicts runs over the conjectural claims.\<close>

definition policy_changed :: "string set \<Rightarrow> store_db \<Rightarrow> store_db \<Rightarrow> bool" where
  "policy_changed conjectural before after \<longleftrightarrow>
     (\<exists>c\<in>conjectural. policy_states conjectural before c \<noteq> policy_states conjectural after c)
     \<or> policy_questions conjectural before \<noteq> policy_questions conjectural after"

definition reconcile_stored_policy :: "'g nx_api \<Rightarrow> task_spec \<Rightarrow> (store_db, bool) op" where
  "reconcile_stored_policy N task db =
     (case (previous_snapshot db, latest_run db) of
        (Some snapshot, Some latest) \<Rightarrow>
          (let objects = claim_versions snapshot db;
               edges = active_edges db;
               conjectural = conjectural_claims objects
           in bindS (readS (\<lambda>_. proof_selection N (proof_target_ids task objects) objects edges)) (\<lambda>selected.
              bindS (reconcile_policy N snapshot objects edges selected (r_run_id latest)) (\<lambda>_.
              readS (\<lambda>db'. Inr (policy_changed conjectural db db')))) db)
      | _ \<Rightarrow> returnS False db)"

section \<open>What each step does to a claim and its open question\<close>

named_theorems open_question "how a write changes the open question of a claim"

lemma find_update_where_same:
  "(\<And>r. P r \<Longrightarrow> P (f r)) \<Longrightarrow> find P (update_where P f tbl) = map_option f (find P tbl)"
  by (induction tbl) (auto simp: update_where_def)

lemma find_update_where_other:
  "(\<And>r. r \<in> set tbl \<Longrightarrow> Q r \<Longrightarrow> \<not> P r \<and> \<not> P (f r)) \<Longrightarrow> find P (update_where Q f tbl) = find P tbl"
  by (induction tbl) (auto simp: update_where_def)

lemma open_question_set_claim_state [open_question]:
  "open_question_of k (set_claim_state cid state run_id action reason reused db) = open_question_of k db"
  by (simp add: open_question_of_def set_claim_state_def Let_def)

lemma open_question_ofD: "open_question_of c db = Some q \<Longrightarrow> q \<in> set (t_clarifications db) \<and> q_claim_id q = c \<and> is_open q"
  unfolding open_question_of_def by (auto dest: find_SomeD)

text \<open>Claim ids, rows and questions an operation may not touch.\<close>

definition leaves_claim :: "string \<Rightarrow> store_db \<Rightarrow> store_db \<Rightarrow> bool" where
  "leaves_claim k db db' \<longleftrightarrow> claim_row_of k db' = claim_row_of k db \<and> open_question_of k db' = open_question_of k db"

lemma leaves_claim_refl [simp]: "leaves_claim k db db"
  by (simp add: leaves_claim_def)

lemma leaves_claim_trans: "leaves_claim k a b \<Longrightarrow> leaves_claim k b c \<Longrightarrow> leaves_claim k a c"
  by (simp add: leaves_claim_def)

lemma create_question_effect:
  assumes "claim_row_of cid db \<noteq> None" and "origin \<in> CLARIFICATION_ORIGINS" and "store_inv db"
  obtains db' qid q where
    "create_question cid snapshot category passage problem resolutions blocking run_id origin db = Inr (db', qid)"
    "store_inv db'" "claim_row_of cid db' = claim_row_of cid db" "open_question_of cid db' = Some q"
    "case open_question_of cid db of None \<Rightarrow> q_origin q = origin | Some q' \<Rightarrow> q = q'"
    "\<And>k. k \<noteq> cid \<Longrightarrow> leaves_claim k db db'"
proof (cases "open_question_of cid db")
  case (Some q)
  then have "create_question cid snapshot category passage problem resolutions blocking run_id origin db = Inr (db, q_question_id q)"
    using assms(1,2) by (simp add: create_question_def)
  from that [OF this assms(3) refl Some] show ?thesis using Some by simp
next
  case None
  let ?row = "\<lparr>q_question_id = next_question_id db, q_claim_id = cid, q_snapshot_commit = snapshot, q_category = category,
     q_passage = passage, q_problem = problem, q_resolutions = resolutions, q_blocking_claims = blocking, q_status = ''OPEN'',
     q_created_run = run_id, q_resolved_run = None, q_resolution = None, q_origin = origin\<rparr>"
  let ?db = "db\<lparr>t_clarifications := t_clarifications db @ [?row]\<rparr>"
  have row: "is_open ?row" by (simp add: is_open_def)
  have "open_unique (t_clarifications db @ [?row])"
    using store_invD(9) [OF assms(3)] None row by (auto simp: open_unique_def unique_on_def open_question_of_None)
  then have run: "create_question cid snapshot category passage problem resolutions blocking run_id origin db = Inr (?db, next_question_id db)"
    using None assms(1,2) next_question_id_fresh [of db] by (simp add: create_question_def Let_def insert_row_def guarded_def)
  have "open_question_of cid ?db = Some ?row"
    using None row by (simp add: open_question_of_def find_append)
  moreover have "leaves_claim k db ?db" if "k \<noteq> cid" for k
    using that by (auto simp: leaves_claim_def open_question_of_def find_append claim_row_of_def split: option.splits)
  ultimately show ?thesis
    using that [OF run create_question_inv [OF assms(3) run]] None by (simp add: claim_row_of_def)
qed

lemma refresh_question_effect:
  assumes "open_question_of cid db = Some q" and "origin \<in> CLARIFICATION_ORIGINS" and "q_origin q \<in> {''LEGACY_UNKNOWN'', origin}"
    and "store_inv db"
  obtains db' where
    "refresh_open_question cid snapshot category passage problem resolutions blocking (Some origin) db = Inr db'"
    "store_inv db'" "claim_row_of cid db' = claim_row_of cid db"
    "open_question_of cid db' = Some (q\<lparr>q_snapshot_commit := snapshot, q_category := category, q_passage := passage,
       q_problem := problem, q_resolutions := resolutions, q_blocking_claims := sorted_list_of_set (set blocking)\<rparr>)"
    "\<And>k. k \<noteq> cid \<Longrightarrow> leaves_claim k db db'"
proof -
  let ?P = "\<lambda>q. q_claim_id q = cid \<and> is_open q"
  let ?f = "\<lambda>q. q\<lparr>q_snapshot_commit := snapshot, q_category := category, q_passage := passage,
       q_problem := problem, q_resolutions := resolutions, q_blocking_claims := sorted_list_of_set (set blocking)\<rparr>"
  let ?db = "db\<lparr>t_clarifications := update_where ?P ?f (t_clarifications db)\<rparr>"
  have run: "refresh_open_question cid snapshot category passage problem resolutions blocking (Some origin) db = Inr ?db"
    using assms(1-3) by (auto simp: refresh_open_question_def)
  have "open_question_of cid ?db = Some (?f q)"
    using assms(1) find_update_where_same [of ?P ?f "t_clarifications db"] by (simp add: open_question_of_def is_open_def)
  moreover have "leaves_claim k db ?db" if "k \<noteq> cid" for k
    using that find_update_where_other [of "t_clarifications db" ?P "\<lambda>q. q_claim_id q = k \<and> is_open q" ?f]
    by (simp add: leaves_claim_def open_question_of_def claim_row_of_def is_open_def)
  ultimately show ?thesis
    using that [OF run refresh_question_inv [OF assms(4) run]] by (simp add: claim_row_of_def)
qed

lemma resolve_question_effect:
  assumes "open_question_of cid db = Some q" and "status \<in> {''RESOLVED'', ''DISMISSED'', ''SUPERSEDED''}" and "store_inv db"
  obtains db' where
    "resolve_question (q_question_id q) run_id resolution status db = Inr (db', True)"
    "store_inv db'" "claim_row_of cid db' = claim_row_of cid db" "open_question_of cid db' = None"
    "\<And>k. k \<noteq> cid \<Longrightarrow> leaves_claim k db db'"
proof -
  have q: "q \<in> set (t_clarifications db)" "q_claim_id q = cid" "is_open q" using open_question_ofD [OF assms(1)] by auto
  have "question_row_of (q_question_id q) db = Some q"
    using lookup_row_unique [OF store_invD(8) [OF assms(3)] q(1)] by (simp add: question_row_of_def)
  then obtain db' where db': "resolve_question (q_question_id q) run_id resolution status db = Inr (db', True)"
      "open_question_of cid db' = None"
    using resolve_question_effects [OF assms(3) assms(2) _ q(3)] q(2) by blast
  let ?Q = "\<lambda>r. q_question_id r = q_question_id q \<and> is_open r"
  let ?f = "\<lambda>r. r\<lparr>q_status := status, q_resolved_run := run_id, q_resolution := Some resolution\<rparr>"
  have eq: "db' = db\<lparr>t_clarifications := update_where ?Q ?f (t_clarifications db)\<rparr>"
    using db'(1) unfolding resolve_question_def Let_def by (simp split: if_splits)
  have "r = q" if "r \<in> set (t_clarifications db)" "?Q r" for r
    using store_invD(8) [OF assms(3)] that q(1) by (auto simp: unique_on_def distinct_map inj_on_def)
  then have "leaves_claim k db db'" if "k \<noteq> cid" for k
    using that q(2) find_update_where_other [of "t_clarifications db" ?Q "\<lambda>q. q_claim_id q = k \<and> is_open q" ?f]
    by (simp add: leaves_claim_def open_question_of_def claim_row_of_def eq is_open_def) blast
  with db' that resolve_question_inv [OF assms(3) db'(1)] show ?thesis by (simp add: eq claim_row_of_def)
qed

section \<open>What the policy does to one claim\<close>

text \<open>What the policy promises of a claim: asked, with a question that names what it blocks, or skipped with no
  question left open.\<close>

definition policy_asks :: "policy_context \<Rightarrow> string \<Rightarrow> bool" where
  "policy_asks pc c \<longleftrightarrow> dict_get (pc_blockers pc) c [] \<noteq> [] \<and> c \<notin> pc_guided pc"

definition asked_in :: "policy_context \<Rightarrow> string \<Rightarrow> question_row \<Rightarrow> bool" where
  "asked_in pc c q \<longleftrightarrow> q_claim_id q = c \<and> q_snapshot_commit q = pc_snapshot pc \<and> q_category q = ''conjectural_dependency''
     \<and> q_blocking_claims q = sorted_list_of_set (set (dict_get (pc_blockers pc) c []))
     \<and> q_problem q = policy_problem (dict_get (pc_blockers pc) c [])
     \<and> (case pc_items pc c of None \<Rightarrow> False
          | Some item \<Rightarrow> q_passage q = py_strip (so_statement_text item) \<and> q_resolutions q = policy_resolutions item)"

definition policy_settled :: "policy_context \<Rightarrow> string \<Rightarrow> store_db \<Rightarrow> store_db \<Rightarrow> bool" where
  "policy_settled pc c db db' \<longleftrightarrow>
     map_option c_status (claim_row_of c db') = Some (if policy_asks pc c then NEEDS_CLARIFICATION else SKIPPED_UNPROVED)
     \<and> (if policy_asks pc c then (\<exists>q. open_question_of c db' = Some q \<and> asked_in pc c q
           \<and> (\<forall>q'. open_question_of c db = Some q' \<longrightarrow> q_question_id q = q_question_id q'))
        else open_question_of c db' = None)"

text \<open>Where the step starts: a stored claim whose open question, if any, is in the list and may be refreshed.\<close>

definition policy_ready :: "policy_context \<Rightarrow> string \<Rightarrow> store_db \<Rightarrow> bool" where
  "policy_ready pc c db \<longleftrightarrow> claim_row_of c db \<noteq> None \<and> pc_items pc c \<noteq> None
     \<and> filter (\<lambda>q. q_claim_id q = c) (pc_questions pc) = (case open_question_of c db of None \<Rightarrow> [] | Some q \<Rightarrow> [q])
     \<and> (\<forall>q. open_question_of c db = Some q \<longrightarrow> q_origin q \<in> {''LEGACY_UNKNOWN'', ''HOST_POLICY''})"

lemma policy_ready_leaves: "leaves_claim c db db' \<Longrightarrow> policy_ready pc c db \<Longrightarrow> policy_ready pc c db'"
  by (simp add: leaves_claim_def policy_ready_def)

lemma policy_settled_leaves:
  "leaves_claim c db db1 \<Longrightarrow> policy_settled pc c db1 db2 \<Longrightarrow> leaves_claim c db2 db' \<Longrightarrow> policy_settled pc c db db'"
  by (cases "policy_asks pc c") (simp_all add: leaves_claim_def policy_settled_def)

lemma set_claim_state_leaves: "k \<noteq> c \<Longrightarrow> leaves_claim k db (set_claim_state c state run_id action reason reused db)"
  by (auto simp: leaves_claim_def certify_simps open_question option.map_ident)

lemma ask_about_claim_effect:
  assumes "store_inv db" and "policy_ready pc c db" and "policy_asks pc c" and "pc_items pc c = Some item"
  obtains db' where "ask_about_claim pc item (dict_get (pc_blockers pc) c []) c db = (db', Inr ())" "store_inv db'"
    "policy_settled pc c db db'" "\<And>k. k \<noteq> c \<Longrightarrow> leaves_claim k db db'"
proof -
  let ?blocked = "dict_get (pc_blockers pc) c []" and ?passage = "py_strip (so_statement_text item)"
  have host: "''HOST_POLICY'' \<in> CLARIFICATION_ORIGINS" by (simp add: CLARIFICATION_ORIGINS_def)
  obtain row where row: "claim_row_of c db = Some row" using assms(2) by (auto simp: policy_ready_def)
  then have known: "claim_row_of c db \<noteq> None" by simp
  obtain db1 qid q where one:
    "create_question c (pc_snapshot pc) ''conjectural_dependency'' ?passage (policy_problem ?blocked) (policy_resolutions item)
       ?blocked (pc_run_id pc) ''HOST_POLICY'' db = Inr (db1, qid)"
    "store_inv db1" "claim_row_of c db1 = claim_row_of c db" "open_question_of c db1 = Some q"
    "case open_question_of c db of None \<Rightarrow> q_origin q = ''HOST_POLICY'' | Some q' \<Rightarrow> q = q'"
    "\<And>k. k \<noteq> c \<Longrightarrow> leaves_claim k db db1"
    using create_question_effect [OF known host assms(1)] by metis
  have origin: "q_origin q \<in> {''LEGACY_UNKNOWN'', ''HOST_POLICY''}"
    using one(5) assms(2) by (auto simp: policy_ready_def split: option.splits)
  obtain db2 where two:
    "refresh_open_question c (pc_snapshot pc) ''conjectural_dependency'' ?passage (policy_problem ?blocked) (policy_resolutions item)
       ?blocked (Some ''HOST_POLICY'') db1 = Inr db2"
    "store_inv db2" "claim_row_of c db2 = claim_row_of c db1"
    "open_question_of c db2 = Some (q\<lparr>q_snapshot_commit := pc_snapshot pc, q_category := ''conjectural_dependency'',
       q_passage := ?passage, q_problem := policy_problem ?blocked, q_resolutions := policy_resolutions item,
       q_blocking_claims := sorted_list_of_set (set ?blocked)\<rparr>)"
    "\<And>k. k \<noteq> c \<Longrightarrow> leaves_claim k db1 db2"
    using refresh_question_effect [OF one(4) host origin one(2)] by metis
  let ?db = "set_claim_state c NEEDS_CLARIFICATION (pc_run_id pc) ''conjectural_dependency''
      (qid @ '': unsupported assertion blocks '' @ py_join '', '' ?blocked) False db2"
  have "ask_about_claim pc item ?blocked c db = (?db, Inr ())"
    by (simp add: ask_about_claim_def Let_def one(1) two(1))
  moreover have "policy_settled pc c db ?db"
    using assms(3,4) one(3-5) two(3,4) row open_question_ofD [OF one(4)]
    by (auto simp: policy_settled_def certify_simps open_question asked_in_def split: option.splits)
  moreover have "leaves_claim k db ?db" if "k \<noteq> c" for k
    using one(6) [OF that] two(5) [OF that] set_claim_state_leaves [OF that] by (blast intro: leaves_claim_trans)
  ultimately show ?thesis using that set_claim_state_inv [OF two(2)] by blast
qed

lemma skip_claim_effect:
  assumes "store_inv db" and "policy_ready pc c db" and "\<not> policy_asks pc c"
  obtains db' where "skip_claim pc c db = (db', Inr ())" "store_inv db'"
    "policy_settled pc c db db'" "\<And>k. k \<noteq> c \<Longrightarrow> leaves_claim k db db'"
proof -
  have "\<exists>db1. forS (close_question pc) (filter (\<lambda>q. q_claim_id q = c) (pc_questions pc)) db = (db1, Inr ()) \<and> store_inv db1
      \<and> claim_row_of c db1 = claim_row_of c db \<and> open_question_of c db1 = None \<and> (\<forall>k. k \<noteq> c \<longrightarrow> leaves_claim k db db1)"
  proof (cases "open_question_of c db")
    case None
    then show ?thesis using assms(1,2) by (simp add: policy_ready_def)
  next
    case (Some q)
    have superseded: "''SUPERSEDED'' \<in> {''RESOLVED'', ''DISMISSED'', ''SUPERSEDED''}" by simp
    obtain db1 where "resolve_question (q_question_id q) (Some (pc_run_id pc)) (''Conjectural and unproved assertions are skipped unless a ''
       @ ''proof-bearing manuscript statement depends on them'') ''SUPERSEDED'' db = Inr (db1, True)"
      "store_inv db1" "claim_row_of c db1 = claim_row_of c db" "open_question_of c db1 = None" "\<And>k. k \<noteq> c \<Longrightarrow> leaves_claim k db db1"
      using resolve_question_effect [OF Some superseded assms(1)] by metis
    with Some assms(2) show ?thesis by (auto simp: policy_ready_def close_question_def)
  qed
  then obtain db1 where db1: "forS (close_question pc) (filter (\<lambda>q. q_claim_id q = c) (pc_questions pc)) db = (db1, Inr ())" "store_inv db1"
      "claim_row_of c db1 = claim_row_of c db" "open_question_of c db1 = None" "\<And>k. k \<noteq> c \<Longrightarrow> leaves_claim k db db1"
    by blast
  obtain row where row: "claim_row_of c db = Some row" using assms(2) by (auto simp: policy_ready_def)
  obtain reason where step: "skip_claim pc c db = (set_claim_state c SKIPPED_UNPROVED (pc_run_id pc) ''skip_unproved'' reason False db1, Inr ())"
    unfolding skip_claim_def bindS_def db1(1) by simp
  have "policy_settled pc c db (set_claim_state c SKIPPED_UNPROVED (pc_run_id pc) ''skip_unproved'' reason False db1)"
    using assms(3) db1(3,4) row by (simp add: policy_settled_def certify_simps open_question)
  with that [OF step set_claim_state_inv [OF db1(2)]] show ?thesis
    using db1(5) set_claim_state_leaves by (blast intro: leaves_claim_trans)
qed

lemma reconcile_claim_effect:
  assumes "store_inv db" and "policy_ready pc c db"
  obtains db' where "reconcile_claim pc c db = (db', Inr ())" "store_inv db'"
    "policy_settled pc c db db'" "\<And>k. k \<noteq> c \<Longrightarrow> leaves_claim k db db'"
proof (cases "policy_asks pc c")
  case True
  obtain item where item: "pc_items pc c = Some item" using assms(2) by (auto simp: policy_ready_def)
  with True have "reconcile_claim pc c db = ask_about_claim pc item (dict_get (pc_blockers pc) c []) c db"
    by (simp add: reconcile_claim_def policy_asks_def Let_def)
  with ask_about_claim_effect [OF assms True item] that show ?thesis by metis
next
  case False
  then have "reconcile_claim pc c db = skip_claim pc c db"
    by (auto simp: reconcile_claim_def policy_asks_def Let_def)
  with skip_claim_effect [OF assms False] that show ?thesis by metis
qed

text \<open>The two outcomes: the author is asked about the claims it blocks, or the claim is skipped in silence.\<close>

definition awaits_author :: "string \<Rightarrow> string set \<Rightarrow> string \<Rightarrow> store_db \<Rightarrow> bool" where
  "awaits_author snapshot blocking c db \<longleftrightarrow>
     map_option c_status (claim_row_of c db) = Some NEEDS_CLARIFICATION
     \<and> (\<exists>q. open_question_of c db = Some q \<and> q_category q = ''conjectural_dependency'' \<and> q_snapshot_commit q = snapshot
           \<and> q_blocking_claims q = sorted_list_of_set blocking)"

definition skipped_in_silence :: "string \<Rightarrow> store_db \<Rightarrow> bool" where
  "skipped_in_silence c db \<longleftrightarrow>
     map_option c_status (claim_row_of c db) = Some SKIPPED_UNPROVED \<and> open_question_of c db = None"

lemma policy_settledD:
  assumes "policy_settled pc c db db'" and "dict_get (pc_blockers pc) c [] = sorted_list_of_set B" and "finite B"
  shows "if B \<noteq> {} \<and> c \<notin> pc_guided pc then awaits_author (pc_snapshot pc) B c db' else skipped_in_silence c db'"
proof -
  have "policy_asks pc c \<longleftrightarrow> B \<noteq> {} \<and> c \<notin> pc_guided pc" using assms(2,3) by (simp add: policy_asks_def)
  then show ?thesis using assms unfolding policy_settled_def asked_in_def awaits_author_def skipped_in_silence_def by (cases "policy_asks pc c") auto
qed

lemma open_questions_of_claim:
  assumes "store_inv db"
  shows "filter (\<lambda>q. q_claim_id q = c) (open_questions db) = (case open_question_of c db of None \<Rightarrow> [] | Some q \<Rightarrow> [q])"
proof (cases "open_question_of c db")
  case None
  then have "\<forall>q\<in>set (t_clarifications db). is_open q \<longrightarrow> q_claim_id q \<noteq> c" by (auto simp: open_question_of_None)
  with None show ?thesis by (simp add: open_questions_def filter_empty_conv)
next
  case (Some q)
  let ?open = "filter is_open (t_clarifications db)"
  have u: "unique_on q_claim_id ?open" using store_invD(9) [OF assms] by (simp add: open_unique_def)
  have "lookup_row q_claim_id c ?open = Some q"
    using lookup_row_unique [OF u, of q] open_question_ofD [OF Some] by auto
  from filter_unique_row [OF u this, of "\<lambda>_. True"] have "filter (\<lambda>q. q_claim_id q = c) ?open = [q]" by simp
  then have "mset (filter (\<lambda>q. q_claim_id q = c) ?open) = {#q#}" by (simp only: mset.simps)
  moreover have "mset (filter (\<lambda>q. q_claim_id q = c) (open_questions db)) = mset (filter (\<lambda>q. q_claim_id q = c) ?open)"
    by (simp only: open_questions_def mset_filter mset_sort)
  ultimately have "mset (filter (\<lambda>q. q_claim_id q = c) (open_questions db)) = {#q#}" by (simp only:)
  with Some show ?thesis by (metis mset_single_iff option.simps(5))
qed

lemma reconcile_claims_effect:
  assumes "store_inv db" and "distinct cs" and "\<And>c. c \<in> set cs \<Longrightarrow> policy_ready pc c db"
  shows "\<exists>db'. forS (reconcile_claim pc) cs db = (db', Inr ()) \<and> store_inv db'
    \<and> (\<forall>c. if c \<in> set cs then policy_settled pc c db db' else leaves_claim c db db')"
  using assms
proof (induction cs arbitrary: db)
  case (Cons c cs)
  obtain db1 where one: "reconcile_claim pc c db = (db1, Inr ())" "store_inv db1" "policy_settled pc c db db1"
      "\<And>k. k \<noteq> c \<Longrightarrow> leaves_claim k db db1"
    using reconcile_claim_effect [OF Cons.prems(1), of pc c] Cons.prems(3) by auto
  have "policy_ready pc k db1" if "k \<in> set cs" for k
    using Cons.prems(2,3) one(4) [of k] that by (auto intro: policy_ready_leaves)
  then obtain db2 where two: "forS (reconcile_claim pc) cs db1 = (db2, Inr ())" "store_inv db2"
      "\<forall>c. if c \<in> set cs then policy_settled pc c db1 db2 else leaves_claim c db1 db2"
    using Cons.IH [OF one(2)] Cons.prems(2) by auto
  have "if k \<in> set (c # cs) then policy_settled pc k db db2 else leaves_claim k db db2" for k
    using two(3) [rule_format, of k] one(3) one(4) [of k] Cons.prems(2)
    by (cases "k = c") (auto intro: policy_settled_leaves [OF leaves_claim_refl] policy_settled_leaves [OF _ _ leaves_claim_refl]
        leaves_claim_trans split: if_splits)
  with one(1) two(1,2) show ?case by (intro exI [of _ db2]) simp
qed simp

section \<open>What the policy can touch\<close>

text \<open>
  The host policy as a client of the store: it creates, refreshes and resolves questions, and it sets the state of
  conjectural claims to one of two states. A predicate those four writes keep is kept by the whole policy.
\<close>

locale policy_writes =
  fixes I :: "store_db \<Rightarrow> bool" and C :: "string set"
  assumes create: "I d \<Longrightarrow> create_question cid snapshot category passage problem resolutions blocking run_id origin d = Inr (d', qid) \<Longrightarrow> I d'"
    and refresh: "I d \<Longrightarrow> refresh_open_question cid snapshot category passage problem resolutions blocking origin' d = Inr d' \<Longrightarrow> I d'"
    and resolve: "I d \<Longrightarrow> resolve_question question_id run resolution status d = Inr (d', found) \<Longrightarrow> I d'"
    and state: "I d \<Longrightarrow> cid \<in> C \<Longrightarrow> s \<in> {NEEDS_CLARIFICATION, SKIPPED_UNPROVED} \<Longrightarrow> I (set_claim_state cid s run_id action reason reused d)"
begin

lemma keeps_state: "cid \<in> C \<Longrightarrow> s \<in> {NEEDS_CLARIFICATION, SKIPPED_UNPROVED}
  \<Longrightarrow> preservesS I (modifyS (\<lambda>db. (set_claim_state cid s run_id action reason reused db, ())))"
  by (simp add: preservesS_def state)

lemma keeps_ask: "cid \<in> C \<Longrightarrow> preservesS I (ask_about_claim pc item blocked cid)"
  unfolding ask_about_claim_def Let_def
  by (intro preservesS_bindS preservesS_txn keeps_state) (auto simp: bindE_Inr_iff intro: create refresh)

lemma keeps_skip: "cid \<in> C \<Longrightarrow> preservesS I (skip_claim pc cid)"
  unfolding skip_claim_def close_question_def
  by (intro preservesS_bindS preservesS_forS preservesS_txn preservesS_simps keeps_state) (auto intro: resolve)

lemma keeps_policy:
  assumes "conjectural_claims objects \<subseteq> C"
  shows "preservesS I (reconcile_policy N snapshot objects edges selected run_id)"
proof -
  have "finite (conjectural_claims objects)" by (simp add: conjectural_claims_def)
  then have "preservesS I (reconcile_claim pc c)" if "c \<in> set (sorted_list_of_set (conjectural_claims objects))" for pc c
    using that assms unfolding reconcile_claim_def Let_def by (auto intro: keeps_ask keeps_skip split: option.split)
  then show ?thesis
    unfolding reconcile_policy_def by (intro preservesS_bindS preservesS_simps) (auto intro!: preservesS_bindS preservesS_forS)
qed

end

section \<open>Properties\<close>

text \<open>C10. The host policy is enforced exactly. On a store that holds every indexed object, and whose open questions
  about conjectural claims were asked by the host (or have no recorded origin), it never raises. Afterwards a
  conjectural claim on which selected proof-bearing claims rely, without author guidance, waits for
  clarification with one open question that lists exactly those claims; every other conjectural claim is
  skipped and has no open question; no other claim and no other question changes.\<close>

theorem conjectural_policy_exact:
  assumes "networkx N" and "finite selected" and "store_inv db"
    and "\<And>item. item \<in> set objects \<Longrightarrow> claim_row_of (so_claim_id item) db \<noteq> None"
    and "\<And>q. q \<in> set (open_questions db) \<Longrightarrow> q_claim_id q \<in> conjectural_claims objects
           \<Longrightarrow> q_origin q \<in> {''LEGACY_UNKNOWN'', ''HOST_POLICY''}"
  shows "\<exists>db'. reconcile_policy N snapshot objects edges selected run_id db = (db', Inr (conjectural_claims objects))
    \<and> (\<forall>c\<in>conjectural_claims objects.
         if blocked_by objects selected edges c \<noteq> {} \<and> c \<notin> guided_claims edges
         then awaits_author snapshot (blocked_by objects selected edges c) c db' else skipped_in_silence c db')
    \<and> (\<forall>c. c \<notin> conjectural_claims objects \<longrightarrow> leaves_claim c db db')"
proof -
  let ?B = "blocked_by objects selected edges"
  let ?blockers = "\<lambda>c. if (\<exists>item\<in>set objects. so_claim_id item = c \<and> is_conjectural_assertion item) \<and> ?B c \<noteq> {}
       then Some (sorted_list_of_set (?B c)) else None"
  let ?pc = "\<lparr>pc_snapshot = snapshot, pc_run_id = run_id, pc_items = dict_by so_claim_id objects,
     pc_blockers = ?blockers, pc_guided = guided_claims edges, pc_questions = open_questions db\<rparr>"
  let ?C = "conjectural_claims objects"
  have fin: "finite (?B c)" for c using assms(2) by (auto simp: blocked_by_def)
  have blocked: "dict_get ?blockers c [] = sorted_list_of_set (?B c)" if "c \<in> ?C" for c
    using that fin by (auto simp: conjectural_claims_def dict_get_def)
  have "policy_ready ?pc c db" if "c \<in> ?C" for c
    unfolding policy_ready_def
  proof (intro conjI)
    from that obtain item where item: "item \<in> set objects" "so_claim_id item = c" by (auto simp: conjectural_claims_def)
    with assms(4) show "claim_row_of c db \<noteq> None" by blast
    from item have "c \<in> so_claim_id ` set objects" by blast
    then show "pc_items ?pc c \<noteq> None" using dict_by_None_iff [of so_claim_id objects c] by simp
    show "filter (\<lambda>q. q_claim_id q = c) (pc_questions ?pc) = (case open_question_of c db of None \<Rightarrow> [] | Some q \<Rightarrow> [q])"
      using open_questions_of_claim [OF assms(3)] by simp
    show "\<forall>q. open_question_of c db = Some q \<longrightarrow> q_origin q \<in> {''LEGACY_UNKNOWN'', ''HOST_POLICY''}"
      using assms(5) that open_question_ofD by (fastforce simp: open_questions_def)
  qed
  with reconcile_claims_effect [OF assms(3), of "sorted_list_of_set ?C" ?pc]
  obtain db' where db': "forS (reconcile_claim ?pc) (sorted_list_of_set ?C) db = (db', Inr ())"
      "\<And>c. if c \<in> ?C then policy_settled ?pc c db db' else leaves_claim c db db'"
    by (auto simp: conjectural_claims_def)
  have "reconcile_policy N snapshot objects edges selected run_id db = (db', Inr ?C)"
    unfolding reconcile_policy_def networkx.conjectural_dependency_blockers_eq [OF assms(1,2)] by (simp add: db'(1))
  moreover have "if ?B c \<noteq> {} \<and> c \<notin> guided_claims edges
         then awaits_author snapshot (?B c) c db' else skipped_in_silence c db'" if "c \<in> ?C" for c
  proof -
    have settled: "policy_settled ?pc c db db'" using db'(2) [of c] that by (simp only: if_True)
    have "dict_get (pc_blockers ?pc) c [] = sorted_list_of_set (?B c)" using blocked [OF that] by (simp only: policy_context.select_convs)
    from policy_settledD [OF settled this fin] show ?thesis unfolding policy_context.select_convs .
  qed
  moreover have "leaves_claim c db db'" if "c \<notin> ?C" for c
    using db'(2) [of c] that by (simp only: if_False)
  ultimately show ?thesis by blast
qed

definition ex_skippable :: store_db where
  "ex_skippable = ex_store\<lparr>t_claims := [ex_claim ''thm'' DISCOVERED None, ex_claim ''lem'' DISCOVERED None]\<rparr>"

lemma ex_skippable_inv: "store_inv ex_skippable"
  using ex_store_inv by (simp add: store_inv_def ex_skippable_def unique_on_def labels_unique_def ex_claim_def labelled_def)

theorem conjectural_policy_exact_witness:
  "\<exists>db'. reconcile_policy list_nx ''s2'' ex_objects ex_edges {''thm''} 1 ex_skippable = (db', Inr {''lem''})
     \<and> map_option c_status (claim_row_of ''lem'' db') = Some NEEDS_CLARIFICATION
     \<and> claim_row_of ''thm'' db' = claim_row_of ''thm'' ex_skippable"
proof -
  have rows: "claim_row_of (so_claim_id item) ex_skippable \<noteq> None" if "item \<in> set ex_objects" for item
  proof -
    from that have "so_claim_id item \<in> {''thm'', ''lem''}" unfolding ex_objects_simps(1) [symmetric] by (rule imageI)
    then show ?thesis by (auto simp: claim_row_of_def ex_skippable_def ex_claim_def lookup_row_Cons)
  qed
  have questions: "open_questions ex_skippable = []"
    by (simp add: open_questions_def ex_skippable_def ex_store_def begin_run_def Let_def empty_store_def)
  have conj: "conjectural_claims ex_objects = {''lem''}" "''lem'' \<notin> guided_claims ex_edges"
    by (simp_all add: conjectural_claims_def guided_claims_def ex_object_def ex_edges_def)
  have fin: "finite {''thm''}" by simp
  have origins: "q_origin q \<in> {''LEGACY_UNKNOWN'', ''HOST_POLICY''}"
    if "q \<in> set (open_questions ex_skippable)" "q_claim_id q \<in> conjectural_claims ex_objects" for q
    using that questions by simp
  let ?P = "\<lambda>db' C. reconcile_policy list_nx ''s2'' ex_objects ex_edges {''thm''} 1 ex_skippable = (db', Inr C)
    \<and> (\<forall>c\<in>C. if blocked_by ex_objects {''thm''} ex_edges c \<noteq> {} \<and> c \<notin> guided_claims ex_edges
          then awaits_author ''s2'' (blocked_by ex_objects {''thm''} ex_edges c) c db' else skipped_in_silence c db')
    \<and> (\<forall>c. c \<notin> C \<longrightarrow> leaves_claim c ex_skippable db')"
  have "\<exists>db'. ?P db' (conjectural_claims ex_objects)"
    by (rule conjectural_policy_exact) (fact list_graphs.networkx_axioms fin ex_skippable_inv rows origins)+
  then obtain db' where "?P db' {''lem''}" unfolding conj(1) ..
  then show ?thesis
    using conj(2) by (intro exI [of _ db']) (auto simp: awaits_author_def leaves_claim_def)
qed

end
