(* ===== verification/Prepare_Pass.thy ===== *)
theory Prepare_Pass
  imports Conjectural_Policy Latex_Index
begin

text \<open>
  \<^verbatim>\<open>IncrementalSession.prepare_pass\<close> of \<^verbatim>\<open>incremental/session.py\<close>: a new snapshot of the manuscript is indexed and
  compared with the last one, everything a change can reach is invalidated, the host policy is applied and the
  claims to prove are selected. The snapshot repository, the files written and Git enter through a
  \<open>pass_input\<close>; every read of the clock in one call gives the same time.
\<close>

section \<open>What a pass gets and returns\<close>

text \<open>\<open>pi_source\<close> is the authoritative folder, \<open>pi_copy\<close> the copy of the snapshot in the project, \<open>pi_snapshot\<close> the
  outcome of observing the source, \<open>pi_diff\<close> and \<open>pi_publish\<close> the outcomes of the file writes before and after the
  metadata (the latter with the commit), \<open>pi_describe\<close> the class name and the text of an exception.\<close>

record pass_input =
  pi_source :: source_tree
  pi_source_root :: string
  pi_main_file :: string
  pi_task :: task_spec
  pi_task_sha256 :: string
  pi_task_file :: string
  pi_task_json :: string
  pi_environment_hash :: "string option"
  pi_now :: string
  pi_snapshot :: "snapshot_info result"
  pi_copy :: "source_tree result"
  pi_diff :: "string result"
  pi_publish :: "string result"
  pi_json :: "string list \<Rightarrow> string"
  pi_describe :: "py_error \<Rightarrow> string \<times> string"

record prepared_pass =
  pp_run_id :: int
  pp_snapshot :: snapshot_info
  pp_task :: task_spec
  pp_task_sha256 :: string
  pp_objects :: "source_object list"
  pp_edges :: "manuscript_edge list"
  pp_targets :: "string set"
  pp_selected :: "string set"
  pp_skipped_unproved :: "string set"
  pp_directly_changed :: "string set"
  pp_proof_only_changed :: "string set"
  pp_affected :: "string set"
  pp_deleted :: "string set"
  pp_unresolved_references :: "(string \<times> string) list"
  pp_cycles :: "string list list"
  pp_source_diff :: string
  pp_baseline_commit :: string
  pp_main_file :: string
  pp_input_files :: "string list"

section \<open>The impact of the new snapshot\<close>

definition prior_of :: "source_object \<Rightarrow> prior_version" where
  "prior_of v = \<lparr>pv_kind = so_kind v, pv_proof_start = so_proof_start v, pv_proof_hash = so_proof_hash v,
     pv_normalized_statement_hash = so_normalized_statement_hash v, pv_assistant_context = Some (so_assistant_context v)\<rparr>"

text \<open>The rows of the last snapshot by claim id.\<close>

definition previous_versions :: "string option \<Rightarrow> store_db \<Rightarrow> (string \<times> source_object) list" where
  "previous_versions previous db =
     (case previous of None \<Rightarrow> [] | Some snapshot \<Rightarrow> map (\<lambda>v. (so_claim_id v, v)) (claim_versions snapshot db))"

text \<open>The values of a dict comprehension, in insertion order.\<close>

definition dict_values :: "('a \<Rightarrow> 'k) \<Rightarrow> 'a list \<Rightarrow> 'a list" where
  "dict_values key xs = List.map_filter (dict_by key xs) (rev (remdups (rev (map key xs))))"

definition rediscover_sources :: "(string \<times> source_object) list \<Rightarrow> source_object list \<Rightarrow> string set" where
  "rediscover_sources previous objects =
     {c \<in> so_claim_id ` set objects. case (map_of previous c, dict_by so_claim_id objects c) of
        (Some old, Some item) \<Rightarrow> so_normalized_statement_hash old \<noteq> so_normalized_statement_hash item
           \<or> so_proof_hash old \<noteq> so_proof_hash item \<or> so_assistant_context old \<noteq> so_assistant_context item
      | _ \<Rightarrow> False}"

definition semantic_edge :: "string set \<Rightarrow> manuscript_edge \<Rightarrow> bool" where
  "semantic_edge sources e \<longleftrightarrow> e_provenance e = ''formalization_discovered'' \<and> e_src e \<in> sources"

definition persistent_edges :: "manuscript_edge list \<Rightarrow> string set \<Rightarrow> string set \<Rightarrow> manuscript_edge list" where
  "persistent_edges old current_ids rediscover =
     filter (\<lambda>e. e_kind e \<notin> {''explicit_ref'', ''assistant_context''} \<and> e_src e \<in> current_ids \<and> e_dst e \<in> current_ids
        \<and> \<not> semantic_edge rediscover e) old"

record pass_impact =
  im_edges :: "manuscript_edge list"
  im_unresolved :: "(string \<times> string) list"
  im_cycles :: "string list list"
  im_statement_changed :: "string set"
  im_context_changed :: "string set"
  im_proof_changed :: "string set"
  im_deleted :: "string set"
  im_affected :: "string set"

definition im_changed :: "pass_impact \<Rightarrow> string set" where
  "im_changed im = im_statement_changed im \<union> im_context_changed im \<union> im_proof_changed im"

definition union_edges :: "manuscript_edge list \<Rightarrow> manuscript_edge list \<Rightarrow> manuscript_edge list" where
  "union_edges old edges = dict_values edge_order (old @ edges)"

definition impact_of ::
    "'g nx_api \<Rightarrow> string \<Rightarrow> (string \<times> source_object) list \<Rightarrow> manuscript_edge list \<Rightarrow> source_object list \<Rightarrow> pass_impact result" where
  "impact_of N mode previous old objects =
     (let (explicit_edges, unresolved) = explicit_reference_graph objects;
          current_ids = so_claim_id ` set objects;
          rediscover = rediscover_sources previous objects;
          edges = sort_key edge_order (dict_values edge_order (explicit_edges @ persistent_edges old current_ids rediscover));
          cycles = canonical_cycles N (build_graph N current_ids edges);
          (statement_changed, context_changed, proof_changed0, deleted) =
            source_changes (map (\<lambda>(c, v). (c, prior_of v)) previous) objects mode;
          proof_changed = proof_changed0 \<union> e_src ` set (filter (semantic_edge rediscover) old)
      in bindE (affected_claims N
             (sorted_list_of_set (statement_changed \<union> context_changed \<union> proof_changed \<union> deleted))
             (current_ids \<union> fst ` set previous) (union_edges old edges)) (\<lambda>affected.
         Inr \<lparr>im_edges = edges, im_unresolved = unresolved, im_cycles = cycles,
              im_statement_changed = statement_changed, im_context_changed = context_changed,
              im_proof_changed = proof_changed, im_deleted = deleted, im_affected = affected\<rparr>))"

definition state_updates :: "pass_impact \<Rightarrow> string set \<Rightarrow> string \<Rightarrow> claim_state option" where
  "state_updates im current_ids claim_id =
     (if claim_id \<in> im_affected im \<inter> current_ids
      then Some (if claim_id \<in> im_changed im then DIRTY_SOURCE else INVALIDATED) else None)"

section \<open>The steps of a pass\<close>

definition voidS :: "('s \<Rightarrow> 's result) \<Rightarrow> ('s, unit) op" where
  "voidS f = txn (\<lambda>s. bindE (f s) (\<lambda>t. Inr (t, ())))"

definition writeS :: "('s \<Rightarrow> 's) \<Rightarrow> ('s, unit) op" where
  "writeS f = modifyS (\<lambda>s. (f s, ()))"

definition supersede_changed :: "int \<Rightarrow> pass_impact \<Rightarrow> question_row list \<Rightarrow> (store_db, unit) op" where
  "supersede_changed run_id im questions =
     forS (\<lambda>question. if q_claim_id question \<in> im_changed im \<union> im_deleted im
        then bindS (txn (resolve_question (q_question_id question) (Some run_id)
               ''A later manuscript snapshot changed the associated source object'' ''SUPERSEDED'')) (\<lambda>_. returnS ())
        else returnS ()) questions"

definition cycle_message :: "string list \<Rightarrow> string" where
  "cycle_message cycle = ''Dependency cycle: '' @ py_join '' -> '' cycle"

definition diagnose_graph :: "(string list \<Rightarrow> string) \<Rightarrow> int \<Rightarrow> (string \<times> string) list \<Rightarrow> string list list \<Rightarrow> (store_db, unit) op" where
  "diagnose_graph json run_id unresolved cycles =
     bindS (forS (\<lambda>(src, reference). writeS (add_diagnostic run_id ''unresolved_reference''
         (''LaTeX reference does not identify an indexed object: '' @ reference) (Some src) ''{}'')) unresolved) (\<lambda>_.
     forS (\<lambda>cycle. writeS (add_diagnostic run_id ''dependency_cycle'' (cycle_message cycle) None (json cycle))) cycles)"

definition apply_impact :: "(string list \<Rightarrow> string) \<Rightarrow> int \<Rightarrow> string \<Rightarrow> source_object list \<Rightarrow> pass_impact \<Rightarrow> (store_db, unit) op" where
  "apply_impact json run_id snapshot objects im =
     bindS (writeS (replace_manuscript_edges snapshot (im_edges im))) (\<lambda>_.
     bindS (readS (\<lambda>db. Inr (open_questions db))) (\<lambda>questions.
     bindS (supersede_changed run_id im questions) (\<lambda>_.
     diagnose_graph json run_id (im_unresolved im) (im_cycles im))))"

definition record_cycles :: "int \<Rightarrow> string set \<Rightarrow> string list list \<Rightarrow> (store_db, unit) op" where
  "record_cycles run_id selected cycles =
     forS (\<lambda>cycle. if set cycle \<subseteq> selected
        then bindS (txn (add_failure_incident run_id ''COMPONENT'' ''DEPENDENCY_CYCLE'' ''INDEXING'' ''dependency_cycle''
               (cycle_message cycle) ''session.explicit_reference_graph'' cycle
               (Some (''The dependency scheduler cannot establish a '' @ ''dependency-first proof frontier for this component''))
               None False [])) (\<lambda>_. returnS ())
        else returnS ()) cycles"

definition check_targets :: "task_spec \<Rightarrow> source_object list \<Rightarrow> unit result" where
  "check_targets task objects =
     (let unknown_targets = sorted_list_of_set (set (ts_targets task) - so_claim_id ` set objects)
      in if ts_targets task \<noteq> [] \<and> unknown_targets \<noteq> []
         then Inl (RuntimeError (''Task targets are not indexed manuscript IDs: '' @ py_join '', '' unknown_targets))
         else Inr ())"

definition select_claims ::
    "'g nx_api \<Rightarrow> task_spec \<Rightarrow> int \<Rightarrow> string \<Rightarrow> source_object list \<Rightarrow> pass_impact \<Rightarrow> (store_db, string set \<times> string set) op" where
  "select_claims N task run_id snapshot objects im =
     bindS (readS (\<lambda>_. check_targets task objects)) (\<lambda>_.
     let targets = proof_target_ids task objects
     in bindS (readS (\<lambda>_. proof_selection N targets objects (im_edges im))) (\<lambda>selected.
        bindS (reconcile_policy N snapshot objects (im_edges im) selected run_id) (\<lambda>skipped.
        bindS (voidS (record_run_scope run_id (sorted_list_of_set targets) (sorted_list_of_set selected))) (\<lambda>_.
        bindS (voidS (replace_run_dependency_edges run_id (im_edges im))) (\<lambda>_.
        bindS (record_cycles run_id selected (im_cycles im)) (\<lambda>_.
        returnS (selected, skipped)))))))"

definition reproof_claim :: "int \<Rightarrow> string \<Rightarrow> store_db \<Rightarrow> store_db" where
  "reproof_claim run_id claim_id db =
     (if certificate claim_id db = None then db
      else set_claim_state claim_id INVALIDATED run_id ''policy_reproof''
             (''Task policy preserve_certified=false requires '' @ ''fresh proof validation'') False
             (discard_certificate_for_reproof claim_id run_id db))"

definition apply_reproof_policy :: "task_spec \<Rightarrow> int \<Rightarrow> string set \<Rightarrow> (store_db, unit) op" where
  "apply_reproof_policy task run_id selected =
     (if tp_preserve_certified (ts_policy task) then returnS ()
      else writeS (fold (reproof_claim run_id) (sorted_list_of_set selected)))"

definition store_pass_metadata :: "pass_input \<Rightarrow> string list \<Rightarrow> store_db \<Rightarrow> store_db" where
  "store_pass_metadata inp input_files db =
     set_metadata ''task_spec'' (pi_task_json inp)
    (set_metadata ''task_sha256'' (pi_task_sha256 inp)
    (set_metadata ''task_file'' (pi_task_file inp)
    (set_metadata ''pending_main_file_change'' []
    (set_metadata ''input_files'' (pi_json inp input_files)
    (set_metadata ''main_file'' (pi_main_file inp)
    (set_metadata ''manuscript'' (pi_source_root inp) db))))))"

section \<open>The whole pass\<close>

definition observe_source :: "pass_input \<Rightarrow> int \<Rightarrow> string option \<Rightarrow> (store_db, snapshot_info) op" where
  "observe_source inp run_id previous =
     bindS (readS (\<lambda>_. pi_snapshot inp)) (\<lambda>snapshot.
     bindS (writeS (record_snapshot snapshot (pi_source_root inp) (pi_task_sha256 inp) (pi_now inp))) (\<lambda>_.
     bindS (writeS (update_run_snapshot run_id (sn_commit snapshot) previous)) (\<lambda>_.
     returnS snapshot)))"

definition after_replacement ::
    "'g nx_api \<Rightarrow> pass_input \<Rightarrow> string list \<Rightarrow> int \<Rightarrow> snapshot_info \<Rightarrow> source_object list \<Rightarrow> pass_impact
     \<Rightarrow> (store_db, prepared_pass) op" where
  "after_replacement N inp input_files run_id snapshot objects im =
     bindS (apply_impact (pi_json inp) run_id (sn_commit snapshot) objects im) (\<lambda>_.
     bindS (select_claims N (pi_task inp) run_id (sn_commit snapshot) objects im) (\<lambda>(selected, skipped).
     bindS (apply_reproof_policy (pi_task inp) run_id selected) (\<lambda>_.
     bindS (readS (\<lambda>_. pi_diff inp)) (\<lambda>source_diff.
     bindS (writeS (store_pass_metadata inp input_files)) (\<lambda>_.
     bindS (readS (\<lambda>_. pi_publish inp)) (\<lambda>baseline_commit.
     returnS \<lparr>pp_run_id = run_id, pp_snapshot = snapshot, pp_task = pi_task inp, pp_task_sha256 = pi_task_sha256 inp,
        pp_objects = objects, pp_edges = im_edges im, pp_targets = proof_target_ids (pi_task inp) objects,
        pp_selected = selected, pp_skipped_unproved = skipped,
        pp_directly_changed = im_statement_changed im \<union> im_context_changed im, pp_proof_only_changed = im_proof_changed im,
        pp_affected = im_affected im, pp_deleted = im_deleted im, pp_unresolved_references = im_unresolved im,
        pp_cycles = im_cycles im, pp_source_diff = source_diff, pp_baseline_commit = baseline_commit,
        pp_main_file = pi_main_file inp, pp_input_files = input_files\<rparr>))))))"

definition pass_body :: "'g nx_api \<Rightarrow> pass_input \<Rightarrow> string list \<Rightarrow> int \<Rightarrow> string option \<Rightarrow> (store_db, prepared_pass) op" where
  "pass_body N inp input_files run_id previous =
     bindS (observe_source inp run_id previous) (\<lambda>snapshot.
     bindS (readS (\<lambda>db. Inr (previous_versions previous db, active_edges db))) (\<lambda>(versions, old).
     bindS (readS (\<lambda>_. pi_copy inp)) (\<lambda>copy.
     bindS (index_manuscript copy (pi_main_file inp)) (\<lambda>objects.
     bindS (readS (\<lambda>_. impact_of N (ts_mode (pi_task inp)) versions old objects)) (\<lambda>im.
     bindS (voidS (replace_current_claims (sn_commit snapshot) objects run_id
              (state_updates im (so_claim_id ` set objects)))) (\<lambda>_.
     after_replacement N inp input_files run_id snapshot objects im))))))"

text \<open>The \<open>except\<close> branch: an incident and a failed run, then the exception again.\<close>

definition fail_pass :: "pass_input \<Rightarrow> int \<Rightarrow> py_error \<Rightarrow> (store_db, 'a) op" where
  "fail_pass inp run_id e =
     (case pi_describe inp e of (name, message) \<Rightarrow>
        bindS (txn (add_failure_incident run_id ''RUN'' ''INFRASTRUCTURE'' ''PREPARING'' name
             (if message = [] then name else message) ''session.prepare_pass'' [] (Some (name @ '': '' @ message)) None True [])) (\<lambda>_.
        bindS (writeS (finish_run run_id ''FAILED'' ''setup_failure'' (pi_now inp) (name @ '': '' @ message))) (\<lambda>_.
        raiseS e)))"

definition tryS :: "('s, 'a) op \<Rightarrow> (py_error \<Rightarrow> ('s, 'a) op) \<Rightarrow> ('s, 'a) op" where
  "tryS m handler s = (case m s of (t, Inl e) \<Rightarrow> handler e t | (t, Inr x) \<Rightarrow> (t, Inr x))"

definition prepare_pass :: "'g nx_api \<Rightarrow> pass_input \<Rightarrow> (store_db, prepared_pass) op" where
  "prepare_pass N inp =
     bindS (readS (\<lambda>_. resolve_latex_closure (pi_source inp) (pi_main_file inp))) (\<lambda>source_files.
     bindS (writeS (\<lambda>db. fst (recover_interrupted_runs (pi_now inp) db))) (\<lambda>_.
     bindS (readS (\<lambda>db. Inr (previous_snapshot db))) (\<lambda>previous.
     bindS (modifyS (begin_run ''manuscript verify'' (pi_now inp) None previous (Some (pi_task_sha256 inp))
              (Some (ts_mode (pi_task inp))) (pi_environment_hash inp))) (\<lambda>run_id.
     tryS (pass_body N inp (drop 1 source_files) run_id previous) (fail_pass inp run_id)))))"

section \<open>Initialising a project\<close>

text \<open>The store part of \<open>initialize\<close>. On any exception the staging directory goes, and the store with it.\<close>

definition initial_states :: "source_object list \<Rightarrow> string \<Rightarrow> claim_state option" where
  "initial_states objects claim_id = map_option
     (\<lambda>item. if is_conjectural_assertion item then SKIPPED_UNPROVED else DISCOVERED) (dict_by so_claim_id objects claim_id)"

definition initial_metadata :: "pass_input \<Rightarrow> string list \<Rightarrow> store_db \<Rightarrow> store_db" where
  "initial_metadata inp input_files db =
     set_metadata ''task_spec'' (pi_task_json inp)
    (set_metadata ''task_sha256'' (pi_task_sha256 inp)
    (set_metadata ''task_file'' (pi_task_file inp)
    (set_metadata ''input_files'' (pi_json inp input_files)
    (set_metadata ''main_file'' (pi_main_file inp)
    (set_metadata ''manuscript'' (pi_source_root inp) db)))))"

definition store_initial_claims ::
    "'g nx_api \<Rightarrow> pass_input \<Rightarrow> int \<Rightarrow> string \<Rightarrow> source_object list \<Rightarrow> (store_db, unit) op" where
  "store_initial_claims N inp run_id snapshot objects =
     (case explicit_reference_graph objects of (edges, unresolved) \<Rightarrow>
        bindS (voidS (replace_current_claims snapshot objects run_id (initial_states objects))) (\<lambda>_.
        bindS (writeS (replace_manuscript_edges snapshot edges)) (\<lambda>_.
        diagnose_graph (pi_json inp) run_id unresolved
          (canonical_cycles N (build_graph N (so_claim_id ` set objects) edges)))))"

definition start_project :: "pass_input \<Rightarrow> string list \<Rightarrow> (store_db, int \<times> snapshot_info) op" where
  "start_project inp input_files =
     bindS (writeS (initial_metadata inp input_files)) (\<lambda>_.
     bindS (modifyS (begin_run ''manuscript init'' (pi_now inp) None None (Some (pi_task_sha256 inp))
              (Some (ts_mode (pi_task inp))) None)) (\<lambda>run_id.
     bindS (readS (\<lambda>_. pi_snapshot inp)) (\<lambda>snapshot.
     bindS (writeS (record_snapshot snapshot (pi_source_root inp) (pi_task_sha256 inp) (pi_now inp))) (\<lambda>_.
     bindS (writeS (update_run_snapshot run_id (sn_commit snapshot) (sn_previous_commit snapshot))) (\<lambda>_.
     returnS (run_id, snapshot))))))"

definition finish_project :: "pass_input \<Rightarrow> int \<Rightarrow> source_object list \<Rightarrow> (store_db, source_object list) op" where
  "finish_project inp run_id objects =
     bindS (readS (\<lambda>_. pi_publish inp)) (\<lambda>_.
     bindS (writeS (finish_run run_id ''COMPLETE'' ''initialized'' (pi_now inp)
              (''Indexed '' @ format_padded 1 (int (length objects)) @ '' manuscript objects''))) (\<lambda>_.
     returnS objects))"

definition initialize_store :: "'g nx_api \<Rightarrow> pass_input \<Rightarrow> (store_db, source_object list) op" where
  "initialize_store N inp =
     bindS (readS (\<lambda>_. resolve_latex_closure (pi_source inp) (pi_main_file inp))) (\<lambda>files.
     bindS (start_project inp (drop 1 files)) (\<lambda>(run_id, snapshot).
     bindS (readS (\<lambda>_. pi_copy inp)) (\<lambda>copy.
     bindS (index_manuscript copy (pi_main_file inp)) (\<lambda>objects.
     bindS (store_initial_claims N inp run_id (sn_commit snapshot) objects) (\<lambda>_.
     finish_project inp run_id objects)))))"

section \<open>Nothing but certification certifies\<close>

text \<open>Every certified claim of \<open>d\<close> is certified in \<open>d0\<close>, retired or not as there.\<close>

definition grants_nothing :: "store_db \<Rightarrow> store_db \<Rightarrow> bool" where
  "grants_nothing d0 d \<longleftrightarrow> (\<forall>c row. claim_row_of c d = Some row \<longrightarrow> c_status row = CERTIFIED \<longrightarrow>
     (\<exists>row0. claim_row_of c d0 = Some row0 \<and> c_status row0 = CERTIFIED \<and> c_retired row0 = c_retired row))"

lemma grants_nothing_refl [simp]: "grants_nothing d d"
  by (simp add: grants_nothing_def)

lemma grants_nothing_same: "t_claims d' = t_claims d \<Longrightarrow> grants_nothing d0 d' = grants_nothing d0 d"
  by (simp add: grants_nothing_def claim_row_of_def)

lemma grants_nothing_trans: "grants_nothing a b \<Longrightarrow> grants_nothing b c \<Longrightarrow> grants_nothing a c"
  unfolding grants_nothing_def by metis

lemma grants_nothing_update:
  assumes "\<And>r. c_claim_id (f r) = c_claim_id r" and "\<And>r. c_status (f r) \<noteq> CERTIFIED"
    and "t_claims d' = update_where P f (t_claims d)"
  shows "grants_nothing d d'"
proof -
  have "claim_row_of c d' = map_option (\<lambda>r. if P r then f r else r) (claim_row_of c d)" for c
    using lookup_row_update_where [of c_claim_id f, OF assms(1)] by (simp add: claim_row_of_def assms(3))
  then show ?thesis using assms(2) by (auto simp: grants_nothing_def split: if_splits)
qed

lemma grants_nothing_set_claim_state:
  "state \<noteq> CERTIFIED \<Longrightarrow> grants_nothing d (set_claim_state c state run_id action reason reused d)"
  by (rule grants_nothing_update [where f = "\<lambda>r. r\<lparr>c_status := state, c_last_changed_run := Some run_id\<rparr>" and P = "\<lambda>r. c_claim_id r = c"])
    (simp_all add: set_claim_state_def Let_def)

named_theorems same_claims "the operations that do not write the claims table"

lemma same_claims_writes [same_claims]:
  "t_claims (replace_manuscript_edges snapshot edges d) = t_claims d"
  "t_claims (add_diagnostic run_id cat msg cid details d) = t_claims d"
  "t_claims (set_metadata key value d) = t_claims d"
  "t_claims (discard_certificate_for_reproof c run_id d) = t_claims d"
  "t_claims (record_snapshot s src_root task t d) = t_claims d"
  "t_claims (update_run_snapshot run_id s' p d) = t_claims d"
  "t_claims (finish_run run_id status outcome t detail d) = t_claims d"
  "t_claims (fst (begin_run command t s0 p0 h m e d)) = t_claims d"
proof -
  have "t_claims (fold (add_manuscript_edge snapshot) edges d) = t_claims d" for d
    by (induction edges arbitrary: d) (simp_all add: add_manuscript_edge_def)
  then show "t_claims (replace_manuscript_edges snapshot edges d) = t_claims d" by (simp add: replace_manuscript_edges_def)
qed (simp_all add: add_diagnostic_def set_metadata_def discard_certificate_for_reproof_def record_snapshot_def
    update_run_snapshot_def finish_run_def begin_run_def Let_def)

lemma same_claims_results [same_claims]:
  "create_question cid snapshot category passage problem resolutions blocking run_id origin d = Inr (d', qid) \<Longrightarrow> t_claims d' = t_claims d"
  "refresh_open_question cid snapshot category passage problem resolutions blocking origin' d = Inr d' \<Longrightarrow> t_claims d' = t_claims d"
  "resolve_question qid run resolution status d = Inr (d', found) \<Longrightarrow> t_claims d' = t_claims d"
  "record_run_scope run_id ts ss d = Inr d' \<Longrightarrow> t_claims d' = t_claims d"
  "replace_run_dependency_edges run_id edges d = Inr d' \<Longrightarrow> t_claims d' = t_claims d"
  "allocate_claim_id kind d = Inr (d', cid) \<Longrightarrow> t_claims d' = t_claims d"
  by (auto simp: create_question_def refresh_open_question_def resolve_question_def record_run_scope_def
      replace_run_dependency_edges_def allocate_claim_id_def Let_def bindE_Inr_iff set_metadata_def split: if_splits option.splits)

lemma same_claims_incident [same_claims]:
  "add_failure_incident run_id scope kind phase category message provenance cids detail batch retryable artifacts d = Inr (d', fid)
   \<Longrightarrow> t_claims d' = t_claims d"
  by (erule add_failure_incident_cases)

lemma preserves_write: "(\<And>d. I d \<Longrightarrow> I (f d)) \<Longrightarrow> preservesS I (writeS f)"
  by (simp add: preservesS_def writeS_def)

lemma preserves_void: "(\<And>d d'. I d \<Longrightarrow> f d = Inr d' \<Longrightarrow> I d') \<Longrightarrow> preservesS I (voidS f)"
  unfolding voidS_def by (rule preservesS_txn) (auto simp: bindE_Inr_iff)

lemma preserves_modify: "(\<And>d. I d \<Longrightarrow> I (fst (f d))) \<Longrightarrow> preservesS I (modifyS f)"
  by (simp add: preservesS_def)

text \<open>An operation grants nothing when every database it can leave grants nothing.\<close>

lemma grants_same: "(\<And>d. t_claims (f d) = t_claims d) \<Longrightarrow> preservesS (grants_nothing d0) (writeS f)"
  by (rule preserves_write) (metis grants_nothing_same)

lemma grants_txn: "(\<And>d d' x. f d = Inr (d', x) \<Longrightarrow> t_claims d' = t_claims d) \<Longrightarrow> preservesS (grants_nothing d0) (txn f)"
  by (rule preservesS_txn) (metis grants_nothing_same)

lemma grants_void: "(\<And>d d'. f d = Inr d' \<Longrightarrow> t_claims d' = t_claims d) \<Longrightarrow> preservesS (grants_nothing d0) (voidS f)"
  by (rule preserves_void) (metis grants_nothing_same)

lemma grants_state:
  "state \<noteq> CERTIFIED \<Longrightarrow> preservesS (grants_nothing d0) (modifyS (\<lambda>d. (set_claim_state c state run_id action reason reused d, ())))"
  by (rule preserves_modify) (auto intro: grants_nothing_trans grants_nothing_set_claim_state)

interpretation policy_grants: policy_writes "grants_nothing d0" UNIV
proof unfold_locales
  show "grants_nothing d0 (set_claim_state cid s run_id action reason reused d)"
    if "grants_nothing d0 d" "s \<in> {NEEDS_CLARIFICATION, SKIPPED_UNPROVED}" for cid s run_id action reason reused d
    using that by (auto intro: grants_nothing_trans grants_nothing_set_claim_state)
qed (metis grants_nothing_same same_claims_results(1-3))+

lemmas policy_grants_nothing = policy_grants.keeps_policy [OF subset_UNIV]

lemma reproof_grants_nothing: "preservesS (grants_nothing d0) (apply_reproof_policy task run_id selected)"
proof -
  have step: "grants_nothing d (reproof_claim run_id c d)" for c d
    using grants_nothing_set_claim_state [of INVALIDATED "discard_certificate_for_reproof c run_id d"]
    by (simp add: reproof_claim_def grants_nothing_def claim_row_of_def same_claims)
  have "grants_nothing d0 d \<Longrightarrow> grants_nothing d0 (fold (reproof_claim run_id) cs d)" for cs d
    by (erule fold_invariant_on) (blast intro: grants_nothing_trans step)
  then show ?thesis by (auto simp: apply_reproof_policy_def intro: preserves_write)
qed

lemma after_replacement_grants_nothing:
  "preservesS (grants_nothing d0) (after_replacement N inp files run_id snapshot objects im)"
proof -
  have impact: "preservesS (grants_nothing d0) (apply_impact json run_id commit objects im)" for json commit
    unfolding apply_impact_def supersede_changed_def diagnose_graph_def
    by (intro preservesS_bindS preservesS_forS grants_same)
      (auto intro!: preservesS_bindS grants_txn grants_same intro: same_claims simp: same_claims)
  have select: "preservesS (grants_nothing d0) (select_claims N task run_id commit objects im)" for task commit
    unfolding select_claims_def record_cycles_def Let_def
    by (intro preservesS_bindS preservesS_forS preservesS_simps policy_grants_nothing grants_void)
      (auto intro!: preservesS_bindS grants_txn intro: same_claims)
  show ?thesis
    unfolding after_replacement_def
    by (intro preservesS_bindS preservesS_simps impact select reproof_grants_nothing grants_same)
      (auto intro!: preservesS_bindS reproof_grants_nothing grants_same split: prod.splits simp: same_claims store_pass_metadata_def)
qed

lemma recovery_grants_nothing: "grants_nothing d (fst (recover_interrupted_runs t d))"
proof -
  have reset: "grants_nothing d (reset_claim run_id action reason c d)" for run_id action reason c d
    by (rule grants_nothing_update [where f = "\<lambda>r. r\<lparr>c_status := INVALIDATED, c_last_changed_run := Some run_id\<rparr>"
          and P = "\<lambda>r. c_claim_id r = c"]) (simp_all add: reset_claim_def)
  have in_flight: "grants_nothing a d \<Longrightarrow> grants_nothing a (fst (reset_in_flight_claims run_id action reason d))" for a d run_id action reason
    unfolding reset_in_flight_claims_def Let_def fst_conv
    by (erule fold_invariant_on) (blast intro: grants_nothing_trans reset)
  let ?clear = "\<lambda>d. d\<lparr>t_claims := update_where (\<lambda>c. c_status c = PROVING \<and> \<not> c_retired c \<and> c_last_changed_run c = None)
      (\<lambda>c. c\<lparr>c_status := INVALIDATED\<rparr>) (t_claims d)\<rparr>"
  have clear: "grants_nothing a d \<Longrightarrow> grants_nothing a (?clear d)" for a d
    by (rule grants_nothing_trans, assumption, rule grants_nothing_update) simp_all
  have fold: "grants_nothing d (fold (\<lambda>run_id db. fst (reset_in_flight_claims run_id (f run_id) (g run_id) db)) ids d)" for ids f g
    by (rule fold_invariant_on [where I = "grants_nothing d"]) (simp_all add: in_flight)
  show ?thesis
    unfolding recover_interrupted_runs_def Let_def fst_conv
    using clear [OF fold] by (rule grants_nothing_same [THEN iffD2, rotated]) simp
qed

section \<open>The pass, taken apart\<close>

lemma preserves_assign: "(\<And>d d' kind cid. I d \<Longrightarrow> allocate_claim_id kind d = Inr (d', cid) \<Longrightarrow> I d') \<Longrightarrow> preservesS I (assign_pending drafts rows)"
  by (induction drafts rows rule: assign_pending.induct)
    (auto intro!: preservesS_bindS preservesS_txn split: option.splits)

lemma preserves_index:
  assumes "\<And>d d' kind cid. I d \<Longrightarrow> allocate_claim_id kind d = Inr (d', cid) \<Longrightarrow> I d'"
  shows "preservesS I (index_manuscript tree main)"
proof -
  have assign: "preservesS I (assign_pending drafts rows)" for drafts rows
    using assms by (rule preserves_assign)
  show ?thesis
    unfolding index_manuscript_def assign_stable_ids_def Let_def
    by (intro preservesS_bindS preservesS_simps) (simp split: prod.split add: preservesS_bindS assign)
qed

lemma bindS_readS: "bindS (readS f) g s = (case f s of Inl e \<Rightarrow> (s, Inl e) | Inr x \<Rightarrow> g x s)"
  by (simp add: bindS_def split: sum.splits)

lemma bindS_writeS: "bindS (writeS f) g s = g () (f s)"
  by (simp add: bindS_def writeS_def)

lemma voidS_Inr_iff: "voidS f s = (t, Inr u) \<longleftrightarrow> f s = Inr t"
  by (auto simp: voidS_def txn_def bindE_def split: sum.splits)

lemma after_replacement_result:
  assumes "after_replacement N inp files run_id snapshot objects im d = (d', Inr pp)"
  shows "grants_nothing d d'" "pp_objects pp = objects" "pp_edges pp = im_edges im" "pp_affected pp = im_affected im"
    "pp_directly_changed pp = im_statement_changed im \<union> im_context_changed im" "pp_proof_only_changed pp = im_proof_changed im"
    "pp_deleted pp = im_deleted im"
proof -
  show "grants_nothing d d'"
    using after_replacement_grants_nothing [of d N inp files run_id snapshot objects im] assms
    by (metis fst_conv grants_nothing_refl preservesS_def)
qed (use assms in \<open>auto simp: after_replacement_def bindS_Inr_iff writeS_def\<close>)

lemma index_keeps:
  assumes "index_manuscript tree main d = (d', r)" and "store_inv d"
  shows "store_inv d'" "t_claims d' = t_claims d"
proof -
  have "preservesS store_inv (index_manuscript tree main)"
    by (rule preserves_index) (rule allocate_claim_id_inv)
  then show "store_inv d'" using assms by (metis fst_conv preservesS_def)
  have "preservesS (\<lambda>x. t_claims x = t_claims d) (index_manuscript tree main)"
    by (rule preserves_index) (metis same_claims_results(6))
  then show "t_claims d' = t_claims d" using assms(1) by (metis (mono_tags, lifting) fst_conv preservesS_def)
qed

lemma observe_source_result:
  assumes "observe_source inp run_id previous d = (d', Inr snapshot)" and "store_inv d"
  shows "store_inv d'" "t_claims d' = t_claims d" "t_claim_versions d' = t_claim_versions d" "t_manuscript_edges d' = t_manuscript_edges d"
proof -
  have d': "d' = update_run_snapshot run_id (sn_commit snapshot) previous
      (record_snapshot snapshot (pi_source_root inp) (pi_task_sha256 inp) (pi_now inp) d)"
    using assms(1) by (auto simp: observe_source_def bindS_Inr_iff writeS_def)
  show "store_inv d'" unfolding d' by (intro run_update_inv(1) record_snapshot_inv assms(2))
  show "t_claims d' = t_claims d" by (simp add: d' same_claims)
  show "t_claim_versions d' = t_claim_versions d" "t_manuscript_edges d' = t_manuscript_edges d"
    by (simp_all add: d' update_run_snapshot_def record_snapshot_def)
qed

lemma pass_body_steps:
  assumes "pass_body N inp files run_id previous db = (db', Inr pp)" and "store_inv db"
  obtains snapshot db_i objects im db_r where
    "impact_of N (ts_mode (pi_task inp)) (previous_versions previous db) (active_edges db) objects = Inr im"
    "store_inv db_i" "t_claims db_i = t_claims db"
    "replace_current_claims (sn_commit snapshot) objects run_id (state_updates im (so_claim_id ` set objects)) db_i = Inr db_r"
    "after_replacement N inp files run_id snapshot objects im db_r = (db', Inr pp)"
proof -
  obtain snapshot db_o where o: "observe_source inp run_id previous db = (db_o, Inr snapshot)"
    and rest: "bindS (readS (\<lambda>db. Inr (previous_versions previous db, active_edges db))) (\<lambda>(versions, old).
     bindS (readS (\<lambda>_. pi_copy inp)) (\<lambda>copy.
     bindS (index_manuscript copy (pi_main_file inp)) (\<lambda>objects.
     bindS (readS (\<lambda>_. impact_of N (ts_mode (pi_task inp)) versions old objects)) (\<lambda>im.
     bindS (voidS (replace_current_claims (sn_commit snapshot) objects run_id
              (state_updates im (so_claim_id ` set objects)))) (\<lambda>_.
     after_replacement N inp files run_id snapshot objects im))))) db_o = (db', Inr pp)"
    using assms(1) unfolding pass_body_def bindS_Inr_iff [of "observe_source inp run_id previous"] by blast
  note same = observe_source_result [OF o assms(2)]
  have seen: "previous_versions previous db_o = previous_versions previous db" "active_edges db_o = active_edges db"
    by (simp_all add: previous_versions_def claim_versions_def active_edges_def manuscript_edges_def same(3,4) split: option.split)
  from rest obtain copy db_i objects im db_r where
    "index_manuscript copy (pi_main_file inp) db_o = (db_i, Inr objects)"
    "impact_of N (ts_mode (pi_task inp)) (previous_versions previous db) (active_edges db) objects = Inr im"
    "replace_current_claims (sn_commit snapshot) objects run_id (state_updates im (so_claim_id ` set objects)) db_i = Inr db_r"
    "after_replacement N inp files run_id snapshot objects im db_r = (db', Inr pp)"
    by (auto simp: bindS_Inr_iff voidS_Inr_iff seen)
  then show ?thesis using that index_keeps [OF _ same(1)] same(2) by metis
qed

lemma recovery_frame:
  "t_metadata (fst (recover_interrupted_runs t d)) = t_metadata d"
  "t_claim_versions (fst (recover_interrupted_runs t d)) = t_claim_versions d"
  "t_manuscript_edges (fst (recover_interrupted_runs t d)) = t_manuscript_edges d"
  "t_next_run_id (fst (recover_interrupted_runs t d)) = t_next_run_id d"
proof -
  let ?I = "\<lambda>x. t_next_run_id x = t_next_run_id d \<and> t_metadata x = t_metadata d \<and> t_claim_versions x = t_claim_versions d \<and> t_manuscript_edges x = t_manuscript_edges d"
  have step: "?I x \<Longrightarrow> ?I (fst (reset_in_flight_claims run_id action reason x))" for x run_id action reason
    unfolding reset_in_flight_claims_def Let_def fst_conv by (erule fold_invariant_on) (simp add: reset_claim_def)
  have "?I (fold (\<lambda>run_id db. fst (reset_in_flight_claims run_id (f run_id) (g run_id) db)) ids d)" for ids f g
    by (rule fold_invariant_on [where I = ?I]) (simp_all add: step)
  then show "t_metadata (fst (recover_interrupted_runs t d)) = t_metadata d"
    "t_claim_versions (fst (recover_interrupted_runs t d)) = t_claim_versions d"
    "t_manuscript_edges (fst (recover_interrupted_runs t d)) = t_manuscript_edges d"
    "t_next_run_id (fst (recover_interrupted_runs t d)) = t_next_run_id d"
    unfolding recover_interrupted_runs_def Let_def fst_conv by simp_all
qed

lemma fail_pass_raises: "fail_pass inp run_id e d \<noteq> (d', Inr x)"
  by (auto simp: fail_pass_def bindS_Inr_iff split: prod.splits)

lemma tryS_Inl:
  assumes "tryS m handler s = (t, Inl e)"
  obtains d e' where "m s = (d, Inl e')" "handler e' d = (t, Inl e)"
  using assms by (cases "m s") (auto simp: tryS_def split: sum.splits)

lemma prepare_pass_run:
  assumes "resolve_latex_closure (pi_source inp) (pi_main_file inp) = Inr files"
    and "begin_run ''manuscript verify'' (pi_now inp) None (previous_snapshot db) (Some (pi_task_sha256 inp))
           (Some (ts_mode (pi_task inp))) (pi_environment_hash inp) (fst (recover_interrupted_runs (pi_now inp) db)) = (b, run_id)"
  shows "prepare_pass N inp db = tryS (pass_body N inp (drop 1 files) run_id (previous_snapshot db)) (fail_pass inp run_id) b"
proof -
  have "previous_snapshot (fst (recover_interrupted_runs (pi_now inp) db)) = previous_snapshot db"
    by (simp add: previous_snapshot_def get_metadata_def recovery_frame)
  then show ?thesis
    unfolding prepare_pass_def bindS_readS assms(1) sum.case bindS_writeS bindS_def [of "modifyS _"] op_simps
    by (simp add: assms(2))
qed

lemma prepare_pass_steps:
  assumes "prepare_pass N inp db = (db', Inr pp)" and "store_inv db"
  obtains db_b run_id files where "pass_body N inp files run_id (previous_snapshot db) db_b = (db', Inr pp)"
    "store_inv db_b" "grants_nothing db db_b" "t_claim_versions db_b = t_claim_versions db" "t_manuscript_edges db_b = t_manuscript_edges db"
proof -
  let ?r = "fst (recover_interrupted_runs (pi_now inp) db)"
  obtain files where closure: "resolve_latex_closure (pi_source inp) (pi_main_file inp) = Inr files"
    using assms(1) by (auto simp: prepare_pass_def bindS_readS split: sum.splits)
  obtain b run_id where b: "begin_run ''manuscript verify'' (pi_now inp) None (previous_snapshot db) (Some (pi_task_sha256 inp))
              (Some (ts_mode (pi_task inp))) (pi_environment_hash inp) ?r = (b, run_id)" by fastforce
  have "tryS (pass_body N inp (drop 1 files) run_id (previous_snapshot db)) (fail_pass inp run_id) b = (db', Inr pp)"
    using prepare_pass_run [OF closure b, of N] assms(1) by (simp only:)
  then have "pass_body N inp (drop 1 files) run_id (previous_snapshot db) b = (db', Inr pp)"
    by (auto simp: tryS_def fail_pass_raises split: prod.splits sum.splits)
  moreover have "store_inv b"
    using begin_run_inv [OF recover_inv [OF assms(2)]] b by (metis fst_conv)
  moreover have "t_claims b = t_claims ?r"
    using same_claims_writes(8) b by (metis fst_conv)
  then have "grants_nothing db b" using recovery_grants_nothing grants_nothing_same by blast
  moreover have "t_claim_versions b = t_claim_versions db" "t_manuscript_edges b = t_manuscript_edges db"
    using b by (auto simp: begin_run_def Let_def recovery_frame)
  ultimately show ?thesis using that by simp
qed

section \<open>What a failed pass leaves\<close>

text \<open>The invariant a pass keeps at every step: the schema, and the ids of the recorded runs.\<close>

definition pass_inv :: "int list \<Rightarrow> store_db \<Rightarrow> bool" where
  "pass_inv ids d \<longleftrightarrow> store_inv d \<and> map r_run_id (t_runs d) = ids"

lemma same_runs_writes:
  "t_runs (replace_manuscript_edges snapshot edges d) = t_runs d"
  "t_runs (add_diagnostic run_id cat msg cid details d) = t_runs d"
  "t_runs (set_metadata key value d) = t_runs d"
  "t_runs (discard_certificate_for_reproof c run_id d) = t_runs d"
  "t_runs (record_snapshot s src_root task t d) = t_runs d"
  "t_runs (set_claim_state c state run_id action reason reused d) = t_runs d"
  "map r_run_id (t_runs (update_run_snapshot run_id s' p d)) = map r_run_id (t_runs d)"
proof -
  have "t_runs (fold (add_manuscript_edge snapshot) edges d) = t_runs d" for d
    by (induction edges arbitrary: d) (simp_all add: add_manuscript_edge_def)
  then show "t_runs (replace_manuscript_edges snapshot edges d) = t_runs d" by (simp add: replace_manuscript_edges_def)
qed (simp_all add: add_diagnostic_def set_metadata_def discard_certificate_for_reproof_def record_snapshot_def
    update_run_snapshot_def set_claim_state_def Let_def map_key_update_where)

lemma same_runs_results:
  "create_question cid snapshot category passage problem resolutions blocking run_id origin d = Inr (d', qid) \<Longrightarrow> t_runs d' = t_runs d"
  "refresh_open_question cid snapshot category passage problem resolutions blocking origin' d = Inr d' \<Longrightarrow> t_runs d' = t_runs d"
  "resolve_question qid run resolution status d = Inr (d', found) \<Longrightarrow> t_runs d' = t_runs d"
  "record_run_scope run_id ts ss d = Inr d' \<Longrightarrow> t_runs d' = t_runs d"
  "replace_run_dependency_edges run_id edges d = Inr d' \<Longrightarrow> t_runs d' = t_runs d"
  "allocate_claim_id kind d = Inr (d', cid) \<Longrightarrow> t_runs d' = t_runs d"
  by (auto simp: create_question_def refresh_open_question_def resolve_question_def record_run_scope_def
      replace_run_dependency_edges_def allocate_claim_id_def Let_def bindE_Inr_iff set_metadata_def split: if_splits option.splits)

lemma same_runs_replace: "replace_current_claims snapshot objects run_id updates d = Inr d' \<Longrightarrow> t_runs d' = t_runs d"
proof -
  assume "replace_current_claims snapshot objects run_id updates d = Inr d'"
  then obtain x where x: "foldE (upsert_claim snapshot run_id updates) objects
      (d\<lparr>t_claims := update_where (\<lambda>_. True) (\<lambda>c. c\<lparr>c_retired := True\<rparr>) (t_claims d)\<rparr>) = Inr x" "t_runs d' = t_runs x"
    by (auto simp: replace_current_claims_def Let_def bindE_Inr_iff set_metadata_def)
  have "t_runs x = t_runs d"
    by (rule foldE_invariant [where I = "\<lambda>y. t_runs y = t_runs d", OF x(1)])
      (auto simp: upsert_claim_def Let_def bindE_Inr_iff)
  with x(2) show ?thesis by simp
qed

lemma same_runs_incident:
  "add_failure_incident run_id scope kind phase category message provenance cids detail batch retryable artifacts d = Inr (d', fid)
   \<Longrightarrow> t_runs d' = t_runs d"
  by (erule add_failure_incident_cases)

lemma pass_inv_write:
  "(\<And>d. store_inv d \<Longrightarrow> store_inv (f d)) \<Longrightarrow> (\<And>d. map r_run_id (t_runs (f d)) = map r_run_id (t_runs d)) \<Longrightarrow> preservesS (pass_inv ids) (writeS f)"
  by (rule preserves_write) (simp add: pass_inv_def)

lemma pass_inv_txn:
  "(\<And>d d' x. store_inv d \<Longrightarrow> f d = Inr (d', x) \<Longrightarrow> store_inv d') \<Longrightarrow> (\<And>d d' x. f d = Inr (d', x) \<Longrightarrow> t_runs d' = t_runs d)
   \<Longrightarrow> preservesS (pass_inv ids) (txn f)"
  by (rule preservesS_txn) (metis pass_inv_def)

lemma pass_inv_void:
  "(\<And>d d'. store_inv d \<Longrightarrow> f d = Inr d' \<Longrightarrow> store_inv d') \<Longrightarrow> (\<And>d d'. f d = Inr d' \<Longrightarrow> t_runs d' = t_runs d)
   \<Longrightarrow> preservesS (pass_inv ids) (voidS f)"
  by (rule preserves_void) (metis pass_inv_def)

lemma pass_inv_state: "preservesS (pass_inv ids) (modifyS (\<lambda>d. (set_claim_state c state run_id action reason reused d, ())))"
  by (rule preserves_modify) (simp add: pass_inv_def set_claim_state_inv same_runs_writes)

lemmas pass_inv_rules = preservesS_bindS preservesS_forS preservesS_simps

interpretation policy_runs: policy_writes "pass_inv ids" UNIV
proof unfold_locales
  show "pass_inv ids (set_claim_state cid s run_id action reason reused d)"
    if "pass_inv ids d" for cid s run_id action reason reused d
    using that by (simp add: pass_inv_def same_runs_writes set_claim_state_inv)
qed (metis pass_inv_def create_question_inv refresh_question_inv resolve_question_inv same_runs_results(1-3))+

lemmas policy_pass_inv = policy_runs.keeps_policy [OF subset_UNIV]

lemma after_replacement_pass_inv: "preservesS (pass_inv ids) (after_replacement N inp files run_id snapshot objects im)"
proof -
  have resolve: "preservesS (pass_inv ids) (txn (resolve_question qid r resolution status))" for qid r resolution status
    by (rule pass_inv_txn) (auto intro: resolve_question_inv same_runs_results)
  have incident: "preservesS (pass_inv ids) (txn (add_failure_incident r scope kind phase cat msg provenance cids detail batch retryable arts))"
    for r scope kind phase cat msg provenance cids detail batch retryable arts
    by (rule pass_inv_txn) (auto intro: failure_inv same_runs_incident)
  have diagnose: "preservesS (pass_inv ids) (writeS (add_diagnostic r cat msg cid details))" for r cat msg cid details
    by (rule pass_inv_write) (simp_all add: diagnostic_inv same_runs_writes)
  have edges: "preservesS (pass_inv ids) (writeS (replace_manuscript_edges commit es))" for commit es
    by (rule pass_inv_write) (simp_all add: replace_manuscript_edges_inv same_runs_writes)
  have impact: "preservesS (pass_inv ids) (apply_impact json run_id commit objects im)" for json commit
    unfolding apply_impact_def supersede_changed_def diagnose_graph_def
    by (intro pass_inv_rules edges) (auto intro!: pass_inv_rules resolve diagnose)
  have scope: "preservesS (pass_inv ids) (voidS (record_run_scope run_id ts ss))" for ts ss
    by (rule pass_inv_void) (auto intro: record_run_scope_inv same_runs_results)
  have graph: "preservesS (pass_inv ids) (voidS (replace_run_dependency_edges run_id es))" for es
    by (rule pass_inv_void) (auto intro: run_graph_inv(1) same_runs_results)
  have select: "preservesS (pass_inv ids) (select_claims N task run_id commit objects im)" for task commit
    unfolding select_claims_def record_cycles_def Let_def
    by (intro pass_inv_rules policy_pass_inv scope graph) (auto intro!: pass_inv_rules incident)
  have reproof: "preservesS (pass_inv ids) (apply_reproof_policy task run_id selected)" for task selected
  proof -
    have "pass_inv ids d \<Longrightarrow> pass_inv ids (reproof_claim run_id c d)" for c d
      by (simp add: reproof_claim_def pass_inv_def set_claim_state_inv certificate_inv(2) same_runs_writes)
    then have "pass_inv ids d \<Longrightarrow> pass_inv ids (fold (reproof_claim run_id) cs d)" for cs d by (induction cs arbitrary: d) simp_all
    then show ?thesis by (auto simp: apply_reproof_policy_def intro: preserves_write)
  qed
  have metadata: "preservesS (pass_inv ids) (writeS (store_pass_metadata inp files))"
    by (rule pass_inv_write) (simp_all add: store_pass_metadata_def set_metadata_inv same_runs_writes)
  show ?thesis
    unfolding after_replacement_def
    by (intro pass_inv_rules impact select) (auto intro!: pass_inv_rules reproof metadata split: prod.splits)
qed

lemma pass_body_pass_inv: "preservesS (pass_inv ids) (pass_body N inp files run_id previous)"
proof -
  have observe: "preservesS (pass_inv ids) (observe_source inp run_id previous)"
    unfolding observe_source_def
    by (intro pass_inv_rules pass_inv_write) (simp_all add: record_snapshot_inv run_update_inv(1) same_runs_writes)
  have index: "preservesS (pass_inv ids) (index_manuscript copy main)" for copy main
    by (rule preserves_index) (metis pass_inv_def allocate_claim_id_inv same_runs_results(6))
  have replace: "preservesS (pass_inv ids) (voidS (replace_current_claims commit objects run_id updates))" for commit objects updates
    by (rule pass_inv_void) (auto intro: replace_current_claims_inv same_runs_replace)
  show ?thesis
    unfolding pass_body_def
    by (intro pass_inv_rules observe)
      (auto intro!: pass_inv_rules index replace after_replacement_pass_inv split: prod.splits)
qed

text \<open>The handler always gets its incident and the end of its run stored.\<close>

lemma fail_pass_effect:
  assumes "store_inv d" and "fst (pi_describe inp e) \<noteq> []" and "run_row_of run_id d = Some run"
  obtains d' incident where "fail_pass inp run_id e d = (d', Inl e)" "store_inv d'"
    "failure_incident_rows run_id d' = failure_incident_rows run_id d @ [incident]"
    "fi_scope incident = ''RUN''" "fi_failure_kind incident = ''INFRASTRUCTURE''"
    "\<exists>run'. run_row_of run_id d' = Some run' \<and> r_status run' = ''FAILED'' \<and> r_outcome run' = Some ''setup_failure''"
proof -
  obtain name message where describe: "pi_describe inp e = (name, message)" by fastforce
  let ?message = "if message = [] then name else message" and ?detail = "Some (name @ '': '' @ message)"
  have kinds: "''RUN'' \<in> FAILURE_SCOPES" "''INFRASTRUCTURE'' \<in> FAILURE_KINDS" "name \<noteq> []"
    using assms(2) by (simp_all add: FAILURE_SCOPES_def FAILURE_KINDS_def describe)
  have "\<exists>x. add_failure_incident run_id ''RUN'' ''INFRASTRUCTURE'' ''PREPARING'' name ?message ''session.prepare_pass'' [] ?detail None True [] d = Inr x"
    using kinds by (simp add: add_failure_incident_def Let_def incident_claims_def insert_all_def)
  then obtain d1 fid where add: "add_failure_incident run_id ''RUN'' ''INFRASTRUCTURE'' ''PREPARING'' name ?message
      ''session.prepare_pass'' [] ?detail None True [] d = Inr (d1, fid)" by fast
  obtain row where row: "fid = t_next_failure_id d" "fi_failure_id row = fid" "fi_run_id row = run_id" "fi_scope row = ''RUN''"
      "fi_failure_kind row = ''INFRASTRUCTURE''" "t_failure_incidents d1 = t_failure_incidents d @ [row]"
    using add by (rule add_failure_incident_cases)
  have "\<forall>f\<in>set (t_failure_incidents d). fi_failure_id f < fi_failure_id row"
    unfolding row(1,2) using store_invD(16) [OF assms(1)] by blast
  then have rows: "failure_incident_rows run_id d1 = failure_incident_rows run_id d @ [row]"
    by (rule newest_incident [OF row(6,3)])
  let ?d = "finish_run run_id ''FAILED'' ''setup_failure'' (pi_now inp) (name @ '': '' @ message) d1"
  have "fail_pass inp run_id e d = (?d, Inl e)"
    unfolding fail_pass_def describe prod.case bindS_def [of "txn _"] txn_def add sum.case bindS_writeS op_simps ..
  moreover have "store_inv ?d" by (rule run_update_inv(2) [OF failure_inv [OF assms(1) add]])
  moreover have "failure_incident_rows run_id ?d = failure_incident_rows run_id d1"
    by (simp add: failure_incident_rows_def finish_run_def)
  moreover have "run_row_of run_id d1 = Some run" using assms(3) same_runs_incident [OF add] by (simp add: run_row_of_def)
  then have "\<exists>run'. run_row_of run_id ?d = Some run' \<and> r_status run' = ''FAILED'' \<and> r_outcome run' = Some ''setup_failure''"
    by (auto simp: run_row_of_def finish_run_def lookup_row_update_where dest: lookup_row_SomeD)
  ultimately show ?thesis using that row(4,5) rows by metis
qed

section \<open>Properties\<close>

text \<open>What \<open>source_changes\<close> compares of an object and its version in the last snapshot.\<close>

definition same_assertion :: "string \<Rightarrow> source_object \<Rightarrow> source_object \<Rightarrow> bool" where
  "same_assertion mode v item \<longleftrightarrow> so_normalized_statement_hash v = so_normalized_statement_hash item
     \<and> so_assistant_context v = so_assistant_context item
     \<and> is_conjectural_assertion v = is_conjectural_assertion item
     \<and> (mode = ''argument-audit'' \<longrightarrow> so_proof_hash v = so_proof_hash item)"

lemma impact_unchanged:
  assumes "networkx N" and "impact_of N mode previous old objects = Inr im" and "distinct (map so_claim_id objects)"
    and "c \<notin> im_affected im" and "(c, d) \<in> (approved_rel (union_edges old (im_edges im)))\<^sup>*"
  shows "d \<notin> im_changed im \<union> im_deleted im"
    and "item \<in> set objects \<Longrightarrow> so_claim_id item = d \<Longrightarrow> \<exists>v. map_of previous d = Some v \<and> same_assertion mode v item"
proof -
  obtain explicit unresolved where ex: "explicit_reference_graph objects = (explicit, unresolved)" by fastforce
  let ?prev = "map (\<lambda>(c, v). (c, prior_of v)) previous"
  obtain S A P D where sc: "source_changes ?prev objects mode = (S, A, P, D)" by (metis prod_cases4)
  let ?ids = "so_claim_id ` set objects \<union> fst ` set previous"
  have im: "im_deleted im = D" "im_statement_changed im = S" "im_context_changed im = A" "P \<subseteq> im_proof_changed im"
      "finite (im_proof_changed im) \<longleftrightarrow> finite P"
    and aff: "affected_claims N (sorted_list_of_set (im_changed im \<union> im_deleted im)) ?ids (union_edges old (im_edges im)) = Inr (im_affected im)"
    using assms(2) by (auto simp: impact_of_def ex sc Let_def bindE_Inr_iff im_changed_def)
  have "finite S" "finite A" "finite P" "finite D" using sc by (auto simp: source_changes_def Let_def)
  then have fin: "finite (im_changed im \<union> im_deleted im)" by (simp add: im im_changed_def)
  have "im_affected im = {c. \<exists>d\<in>im_changed im \<union> im_deleted im. (c, d) \<in> (approved_rel (union_edges old (im_edges im)))\<^sup>*}"
    using aff networkx.affected_claims_eq [OF assms(1), of ?ids "sorted_list_of_set (im_changed im \<union> im_deleted im)"] fin
    by simp
  with assms(4,5) show changed: "d \<notin> im_changed im \<union> im_deleted im" by blast
  assume item: "item \<in> set objects" "so_claim_id item = d"
  have "d \<notin> S \<union> A \<union> P" using changed im by (auto simp: im_changed_def)
  then obtain v where v: "map_of ?prev d = Some v" "pv_normalized_statement_hash v = so_normalized_statement_hash item"
      "pv_assistant_context v \<in> {None, Some (so_assistant_context item)}"
      "is_conjectural_assertion_shape (pv_kind v) (pv_proof_start v) = is_conjectural_assertion item"
      "mode = ''argument-audit'' \<longrightarrow> pv_proof_hash v = so_proof_hash item"
    using source_changes_spec [OF assms(3) item(1) sc] item(2) by blast
  have "map_of ?prev d = map_option prior_of (map_of previous d)" by (simp add: map_of_map)
  then show "\<exists>v. map_of previous d = Some v \<and> same_assertion mode v item"
    using v by (auto simp: same_assertion_def prior_of_def is_conjectural_assertion_def)
qed

lemma kept_certificate:
  assumes N: "networkx N" and "store_inv db" and "prepare_pass N inp db = (db', Inr pp)"
    and "distinct (map so_claim_id (pp_objects pp))"
    and row: "claim_row_of c db' = Some row" "\<not> c_retired row" "c_status row = CERTIFIED"
  obtains im old where "impact_of N (ts_mode (pi_task inp)) (previous_versions (previous_snapshot db) db) (active_edges db) (pp_objects pp) = Inr im"
    "c \<notin> im_affected im" "c \<in> so_claim_id ` set (pp_objects pp)" "claim_row_of c db = Some old" "c_status old = CERTIFIED"
    "pp_edges pp = im_edges im" "pp_directly_changed pp \<union> pp_proof_only_changed pp = im_changed im" "pp_deleted pp = im_deleted im"
proof -
  obtain db_b run_id files where b: "pass_body N inp files run_id (previous_snapshot db) db_b = (db', Inr pp)"
      "store_inv db_b" "grants_nothing db db_b" "t_claim_versions db_b = t_claim_versions db" "t_manuscript_edges db_b = t_manuscript_edges db"
    using prepare_pass_steps [OF assms(3,2)] by metis
  obtain snapshot db_i objects im db_r where i:
    "impact_of N (ts_mode (pi_task inp)) (previous_versions (previous_snapshot db) db_b) (active_edges db_b) objects = Inr im"
    "store_inv db_i" "t_claims db_i = t_claims db_b"
    "replace_current_claims (sn_commit snapshot) objects run_id (state_updates im (so_claim_id ` set objects)) db_i = Inr db_r"
    "after_replacement N inp files run_id snapshot objects im db_r = (db', Inr pp)"
    using pass_body_steps [OF b(1,2)] by metis
  note res = after_replacement_result [OF i(5)]
  have seen: "previous_versions (previous_snapshot db) db_b = previous_versions (previous_snapshot db) db" "active_edges db_b = active_edges db"
    by (simp_all add: previous_versions_def claim_versions_def active_edges_def manuscript_edges_def b(4,5) split: option.split)
  obtain row_r where r: "claim_row_of c db_r = Some row_r" "c_status row_r = CERTIFIED" "\<not> c_retired row_r"
    using res(1) row unfolding grants_nothing_def by metis
  have dist: "distinct (map so_claim_id objects)" using assms(4) res(2) by simp
  note rep = replace_claims_effect [OF i(2) dist i(4)]
  have current: "c \<in> so_claim_id ` set objects"
  proof (rule ccontr)
    assume "c \<notin> so_claim_id ` set objects"
    then have "claim_row_of c db_r = map_option (\<lambda>c. c\<lparr>c_retired := True\<rparr>) (claim_row_of c db_i)" using rep by blast
    with r show False by auto
  qed
  then obtain row' where row': "claim_row_of c db_r = Some row'"
      "c_status row' = (case state_updates im (so_claim_id ` set objects) c of Some s \<Rightarrow> s | None \<Rightarrow>
         (case claim_row_of c db_i of None \<Rightarrow> DISCOVERED | Some p \<Rightarrow> c_status p))"
    using rep by fastforce
  then have "state_updates im (so_claim_id ` set objects) c = None" "\<exists>p. claim_row_of c db_i = Some p \<and> c_status p = CERTIFIED"
    using r by (auto simp: state_updates_def split: option.splits if_splits)
  then have "c \<notin> im_affected im" "\<exists>p. claim_row_of c db_b = Some p \<and> c_status p = CERTIFIED"
    using current by (auto simp: state_updates_def claim_row_of_def i(3) split: if_splits)
  moreover from this(2) obtain old where "claim_row_of c db = Some old" "c_status old = CERTIFIED"
    using b(3) unfolding grants_nothing_def by metis
  ultimately show ?thesis
    using that [of im old] i(1) current res unfolding seen by (simp add: im_changed_def Un_assoc)
qed


lemma diagnose_same_claims: "preservesS (\<lambda>d. t_claims d = tbl) (diagnose_graph json run_id unresolved cycles)"
  unfolding diagnose_graph_def
  by (intro preservesS_bindS preservesS_forS) (auto intro!: preserves_write simp: same_claims split: prod.splits)

lemma initial_metadata_inv: "store_inv d \<Longrightarrow> store_inv (initial_metadata inp files d)"
  by (simp add: initial_metadata_def set_metadata_inv)

text \<open>A new project certifies nothing: after \<open>initialize\<close> every indexed object is a current claim, SKIPPED_UNPROVED
  when it is a conjectural assertion and DISCOVERED otherwise.\<close>

lemma initial_claims:
  assumes "initialize_store N inp db = (d, Inr objects)" and "store_inv db" and "distinct (map so_claim_id objects)"
    and "item \<in> set objects"
  shows "\<exists>row. claim_row_of (so_claim_id item) d = Some row \<and> \<not> c_retired row
    \<and> c_status row = (if is_conjectural_assertion item then SKIPPED_UNPROVED else DISCOVERED)"
proof -
  obtain files d1 run_id snapshot copy d2 d3 objects' where run: "start_project inp (drop 1 files) db = (d1, Inr (run_id, snapshot))"
      "index_manuscript copy (pi_main_file inp) d1 = (d2, Inr objects')"
      "store_initial_claims N inp run_id (sn_commit snapshot) objects' d2 = (d3, Inr ())"
      "finish_project inp run_id objects' d3 = (d, Inr objects)"
    using assms(1) by (auto simp: initialize_store_def bindS_Inr_iff)
  have "preservesS store_inv (start_project inp (drop 1 files))"
    unfolding start_project_def
    by (intro preservesS_bindS preservesS_simps preserves_write preserves_modify)
      (auto intro: initial_metadata_inv begin_run_inv record_snapshot_inv run_update_inv(1))
  then have "store_inv d1" using run(1) assms(2) by (metis fst_conv preservesS_def)
  then have inv2: "store_inv d2" using index_keeps [OF run(2)] by blast
  have fin: "objects' = objects" "t_claims d = t_claims d3"
    using run(4) by (auto simp: finish_project_def bindS_Inr_iff writeS_def same_claims)
  obtain edges unresolved where ex: "explicit_reference_graph objects = (edges, unresolved)" by fastforce
  obtain d5 where rep: "replace_current_claims (sn_commit snapshot) objects run_id (initial_states objects) d2 = Inr d5"
      and diag: "diagnose_graph (pi_json inp) run_id unresolved (canonical_cycles N (build_graph N (so_claim_id ` set objects) edges))
        (replace_manuscript_edges (sn_commit snapshot) edges d5) = (d3, Inr ())"
    using run(3) by (auto simp: store_initial_claims_def fin(1) ex bindS_Inr_iff voidS_Inr_iff writeS_def)
  have tail: "t_claims d3 = t_claims d5"
    using diagnose_same_claims [unfolded preservesS_def, rule_format, OF same_claims_writes(1)] diag by (metis fst_conv)
  have "initial_states objects (so_claim_id item) = Some (if is_conjectural_assertion item then SKIPPED_UNPROVED else DISCOVERED)"
    using dict_by_distinct [OF assms(3,4)] by (simp add: initial_states_def)
  moreover obtain row where "claim_row_of (so_claim_id item) d5 = Some row" "\<not> c_retired row"
      "c_status row = (case initial_states objects (so_claim_id item) of Some s \<Rightarrow> s | None \<Rightarrow>
         (case claim_row_of (so_claim_id item) d2 of None \<Rightarrow> DISCOVERED | Some p \<Rightarrow> c_status p))"
    using replace_claims_effect [OF inv2 assms(3) rep] assms(4) by blast
  ultimately show ?thesis by (auto simp: claim_row_of_def fin(2) tail)
qed

text \<open>A manuscript of one definition, indexed and certified under \<open>s1\<close> and unchanged under \<open>s2\<close>.\<close>

definition ex_tree :: source_tree where
  "ex_tree = \<lparr>st_files = [(''m'', Some ''ab'')], st_resolve = (\<lambda>_ _ _. Inl (RuntimeError ''missing'')),
     st_parse = (\<lambda>_. Inr [Node (Environment ''definition'') 0 2 [] []]), st_sha256 = (\<lambda>s. s)\<rparr>"

definition ex_input :: pass_input where
  "ex_input = \<lparr>pi_source = ex_tree, pi_source_root = ''r'', pi_main_file = ''m'', pi_task = default_task_spec,
     pi_task_sha256 = [], pi_task_file = [], pi_task_json = [], pi_environment_hash = None, pi_now = ''t'',
     pi_snapshot = Inr \<lparr>sn_commit = ''s2'', sn_tree = [], sn_previous_commit = Some ''s1'', sn_identical = True, sn_files = []\<rparr>,
     pi_copy = Inr ex_tree, pi_diff = Inr [], pi_publish = Inr [], pi_json = (\<lambda>_. []), pi_describe = (\<lambda>_. (''E'', []))\<rparr>"

definition ex_definition :: source_object where
  "ex_definition = (ex_object ''d'' ''definition'' None)\<lparr>so_source_file := ''m'', so_statement_hash := ''ab'', so_proof_hash := [],
     so_normalized_statement_hash := ''ab'', so_statement_text := ''ab'', so_statement_start := 0, so_statement_byte_end := 2\<rparr>"

definition ex_certified :: store_db where
  "ex_certified = empty_store\<lparr>t_metadata := [\<lparr>md_key = ''current_snapshot'', md_value = ''s1''\<rparr>],
     t_claim_versions := [\<lparr>v_snapshot_commit = ''s1'', v_object = ex_definition\<rparr>],
     t_claims := [(ex_claim ''d'' CERTIFIED None)\<lparr>c_kind := ''definition'', c_source_file := ''m'', c_label := None,
       c_normalized_statement_hash := ''ab''\<rparr>]\<rparr>"



text \<open>The states the run goes through.\<close>

definition ex_started :: store_db where
  "ex_started = fst (begin_run ''manuscript verify'' ''t'' None (Some ''s1'') (Some []) (Some ''theorem'') None
     (fst (recover_interrupted_runs ''t'' ex_certified)))"

definition ex_observed :: store_db where
  "ex_observed = fst (observe_source ex_input 1 (Some ''s1'') ex_started)"

definition ex_impact :: pass_impact where
  "ex_impact = \<lparr>im_edges = [], im_unresolved = [], im_cycles = [], im_statement_changed = {}, im_context_changed = {},
     im_proof_changed = {}, im_deleted = {}, im_affected = {}\<rparr>"

definition ex_replaced :: store_db where
  "ex_replaced = projr (replace_current_claims ''s2'' [ex_definition] 1 (state_updates ex_impact {''d''}) ex_observed)"

lemma ex_observe: "observe_source ex_input 1 (Some ''s1'') ex_started = (ex_observed, Inr (projr (pi_snapshot ex_input)))"
  by (simp add: ex_observed_def observe_source_def bindS_def writeS_def ex_input_def)

lemma ex_seen: "previous_versions (Some ''s1'') ex_observed = [(''d'', ex_definition)]" "active_edges ex_observed = []"
  by code_simp+

lemma ex_index: "index_manuscript ex_tree ''m'' ex_observed = (ex_observed, Inr [ex_definition])"
  by code_simp

lemma ex_impact: "impact_of list_nx ''theorem'' [(''d'', ex_definition)] [] [ex_definition] = Inr ex_impact"
  by code_simp

lemma ex_replace: "replace_current_claims ''s2'' [ex_definition] 1 (state_updates ex_impact {''d''}) ex_observed = Inr ex_replaced"
proof -
  have "\<not> isl (replace_current_claims ''s2'' [ex_definition] 1 (state_updates ex_impact {''d''}) ex_observed)" by code_simp
  then show ?thesis by (simp add: ex_replaced_def sum.collapse)
qed

lemma ex_select: "case apply_impact (\<lambda>_. []) 1 ''s2'' [ex_definition] ex_impact ex_replaced of
    (d, Inl _) \<Rightarrow> False | (d, Inr _) \<Rightarrow> (case select_claims list_nx default_task_spec 1 ''s2'' [ex_definition] ex_impact d of
    (d', Inl _) \<Rightarrow> False | (d', Inr r) \<Rightarrow> map_option (\<lambda>r. (c_status r, c_retired r)) (claim_row_of ''d'' d') = Some (CERTIFIED, False))"
  by code_simp

lemma ex_after:
  assumes "sn_commit snapshot = ''s2''"
  obtains d pp row where "after_replacement list_nx ex_input [] 1 snapshot [ex_definition] ex_impact ex_replaced = (d, Inr pp)"
    "pp_objects pp = [ex_definition]" "claim_row_of ''d'' d = Some row" "c_status row = CERTIFIED" "\<not> c_retired row"
proof -
  obtain d u where one: "apply_impact (\<lambda>_. []) 1 ''s2'' [ex_definition] ex_impact ex_replaced = (d, Inr u)"
    using ex_select by (auto split: prod.splits sum.splits)
  obtain d' selected skipped where two: "select_claims list_nx default_task_spec 1 ''s2'' [ex_definition] ex_impact d = (d', Inr (selected, skipped))"
      "map_option (\<lambda>r. (c_status r, c_retired r)) (claim_row_of ''d'' d') = Some (CERTIFIED, False)"
    using ex_select unfolding one by (auto split: prod.splits sum.splits)
  obtain pp where run: "after_replacement list_nx ex_input [] 1 snapshot [ex_definition] ex_impact ex_replaced
      = (store_pass_metadata ex_input [] d', Inr pp)"
    using assms one two(1)
    by (simp add: after_replacement_def bindS_def ex_input_def apply_reproof_policy_def default_task_spec_def default_task_policy_def writeS_def)
  obtain row where "claim_row_of ''d'' (store_pass_metadata ex_input [] d') = Some row" "c_status row = CERTIFIED" "\<not> c_retired row"
    using two(2) by (auto simp: claim_row_of_def store_pass_metadata_def same_claims)
  then show thesis using that run after_replacement_result(2) [OF run] by blast
qed

lemma ex_run:
  obtains d pp row where "prepare_pass list_nx ex_input ex_certified = (d, Inr pp)"
    "pp_objects pp = [ex_definition]" "claim_row_of ''d'' d = Some row" "c_status row = CERTIFIED" "\<not> c_retired row"
proof -
  have closure: "resolve_latex_closure ex_tree ''m'' = Inr [''m'']" by code_simp
  have started: "begin_run ''manuscript verify'' ''t'' None (Some ''s1'') (Some []) (Some ''theorem'') None
      (fst (recover_interrupted_runs ''t'' ex_certified)) = (ex_started, 1)"
    by (simp add: ex_started_def begin_run_def Let_def recover_interrupted_runs_def proving_run_ids_def ex_certified_def ex_claim_def
        empty_store_def update_where_def)
  have previous: "previous_snapshot (fst (recover_interrupted_runs ''t'' ex_certified)) = Some ''s1''" by code_simp
  let ?s = "projr (pi_snapshot ex_input)"
  have commit: "sn_commit ?s = ''s2''" by (simp add: ex_input_def)
  obtain d pp row where fin: "after_replacement list_nx ex_input [] 1 ?s [ex_definition] ex_impact ex_replaced = (d, Inr pp)"
    "pp_objects pp = [ex_definition]" "claim_row_of ''d'' d = Some row" "c_status row = CERTIFIED" "\<not> c_retired row"
    using ex_after [OF commit] .
  have fields: "pi_source ex_input = ex_tree" "pi_copy ex_input = Inr ex_tree" "pi_main_file ex_input = ''m''" "pi_now ex_input = ''t''"
     "pi_task_sha256 ex_input = []" "pi_environment_hash ex_input = None" "ts_mode (pi_task ex_input) = ''theorem''"
    by (simp_all add: ex_input_def default_task_spec_def)
  have ids: "so_claim_id ` set [ex_definition] = {''d''}" by code_simp
  have "pass_body list_nx ex_input [] 1 (Some ''s1'') ex_started = (d, Inr pp)"
    unfolding pass_body_def bindS_def ex_observe readS_def prod.case sum.case fields ex_seen ex_index ex_impact ids commit voidS_def txn_def
      ex_replace bindE_simps fin(1) ..
  then have "prepare_pass list_nx ex_input ex_certified = (d, Inr pp)"
    unfolding prepare_pass_def fields bindS_readS closure sum.case bindS_writeS previous bindS_def [of "modifyS _"] op_simps started
    by (simp add: tryS_def)
  then show thesis using that fin by blast
qed

lemma ex_certified_inv: "store_inv ex_certified"
  using store_inv_empty by (simp add: store_inv_def ex_certified_def unique_on_def labels_unique_def labelled_def)




end
