(* ===== verification/Agent_Tools.thy ===== *)
theory Agent_Tools
  imports Prepare_Pass
begin

text \<open>
  The host tools of the proof-search agent, \<^verbatim>\<open>incremental/agent.py\<close>, with the failure classification of
  \<^verbatim>\<open>incremental/diagnostics.py\<close>. An agent is free in the calls it makes and in their arguments; what it can
  do to the store is what these tools do. Arguments are decoded JSON values.
\<close>

section \<open>Decoded JSON values\<close>

datatype json =
    JNull
  | JBool bool
  | JInt int
  | JFloat rat
  | JString string
  | JArray "json list"
  | JObject "(string \<times> json) list"

fun json_truthy :: "json \<Rightarrow> bool" where
  "json_truthy JNull = False"
| "json_truthy (JBool b) = b"
| "json_truthy (JInt i) = (i \<noteq> 0)"
| "json_truthy (JFloat f) = (f \<noteq> 0)"
| "json_truthy (JString s) = (s \<noteq> [])"
| "json_truthy (JArray xs) = (xs \<noteq> [])"
| "json_truthy (JObject kvs) = (kvs \<noteq> [])"

text \<open>\<open>str(value)\<close>, where \<open>printed\<close> gives the text of numbers, lists and dicts.\<close>

fun json_str :: "(json \<Rightarrow> string) \<Rightarrow> json \<Rightarrow> string" where
  "json_str printed JNull = ''None''"
| "json_str printed (JBool b) = (if b then ''True'' else ''False'')"
| "json_str printed (JString s) = s"
| "json_str printed v = printed v"

definition json_text :: "string option \<Rightarrow> json" where
  "json_text s = (case s of None \<Rightarrow> JNull | Some s \<Rightarrow> JString s)"

section \<open>Classifying a failure message\<close>

text \<open>Each pattern of \<open>_RULES\<close> is an alternative of literals, searched without regard to case.\<close>

definition failure_rules :: "(string \<times> string list) list" where
  "failure_rules =
     [(''lean_syntax'', [''unexpected token'', ''parser error'', ''invalid syntax'']),
      (''missing_import'', [''unknown constant'', ''unknown identifier'', ''unknown module'', ''unknown declaration'']),
      (''typeclass_failure'', [''failed to synthesize'', ''type class instance'']),
      (''mathlib_lookup'', [''declaration has metavariables'', ''invalid field notation'']),
      (''formalization_mismatch'', [''type mismatch'', ''application type mismatch'']),
      (''possible_counterexample'', [''counterexample'', ''not true'', ''false under'']),
      (''missing_assumption'', [''missing assumption'', ''insufficient assumption'']),
      (''ambiguous_notation'', [''ambiguous notation'', ''undefined notation'']),
      (''ambiguous_quantification'', [''free variable'', ''unbound variable'', ''quantif''])]"

definition classify_failure :: "string \<Rightarrow> string" where
  "classify_failure message =
     (case find (\<lambda>(category, literals). list_ex (\<lambda>l. sublist l (py_casefold message)) literals) failure_rules of
        Some (category, _) \<Rightarrow> category | None \<Rightarrow> ''unknown'')"

definition CLARIFICATION_CATEGORIES :: "string set" where
  "CLARIFICATION_CATEGORIES = {''ambiguous_notation'', ''ambiguous_quantification'', ''missing_assumption'',
     ''missing_intermediate_lemma'', ''possible_counterexample'', ''undefined_term'', ''likely_typo'',
     ''formalization_mismatch'', ''formal_statement_review''}"

definition REQUIRED_CLARIFICATION_DIAGNOSTICS :: "string set" where
  "REQUIRED_CLARIFICATION_DIAGNOSTICS = {''lean_api_diagnosis'', ''assumption_sufficiency_check''}"

definition CLARIFICATION_DIAGNOSTICS :: "string set" where
  "CLARIFICATION_DIAGNOSTICS = {''lean_api_diagnosis'', ''mathlib_search'', ''independent_formalization'',
     ''proof_decomposition'', ''assumption_sufficiency_check'', ''counterexample_search''}"

definition is_technical_category :: "string \<Rightarrow> bool" where
  "is_technical_category category \<longleftrightarrow> category \<in> {''lean_syntax'', ''mathlib_lookup'', ''missing_import'', ''typeclass_failure''}"

section \<open>The context of a batch\<close>

text \<open>\<open>ac_printed\<close> is Python's \<open>str\<close> on numbers and containers, \<open>ac_dumps\<close> is \<open>json.dumps\<close> and \<open>ac_module_path\<close>
  names the Lean file of a claim by a hash of its id.\<close>

record agent_context =
  ac_run_id :: int
  ac_snapshot :: string
  ac_previous_snapshot :: "string option"
  ac_allowed_claims :: "string set"
  ac_require_review :: bool
  ac_pause_on_ambiguity :: bool
  ac_counterexample_search :: bool
  ac_printed :: "json \<Rightarrow> string"
  ac_dumps :: "json \<Rightarrow> string"
  ac_module_path :: "string \<Rightarrow> string"

definition SEMANTIC_EDGE_KINDS :: "string set" where
  "SEMANTIC_EDGE_KINDS = {''assumption_use'', ''definition_use'', ''formalization_discovered'', ''notation_use'',
     ''proof_step'', ''semantic'', ''user_confirmed''}"

text \<open>\<open>LEAN_NAME_RE.fullmatch\<close>: the first class already contains the dot, so the repeated group adds no string.\<close>

definition is_name_start :: "char \<Rightarrow> bool" where
  "is_name_start c \<longleftrightarrow> c = CHR ''_'' \<or> (of_char c :: nat) \<in> {65..90} \<union> {97..122}"

definition is_name_part :: "char \<Rightarrow> bool" where
  "is_name_part c \<longleftrightarrow> is_name_start c \<or> (of_char c :: nat) \<in> {48..57} \<union> {39, 46}"

definition is_lean_name :: "string \<Rightarrow> bool" where
  "is_lean_name s \<longleftrightarrow> s \<noteq> [] \<and> is_name_start (hd s) \<and> list_all is_name_part (tl s)"

type_synonym tool_arguments = "(string \<times> json) list"

text \<open>\<open>str(arguments.get(key) or "")\<close>\<close>

definition argument_text :: "agent_context \<Rightarrow> tool_arguments \<Rightarrow> string \<Rightarrow> string" where
  "argument_text ac arguments key =
     (case map_of arguments key of None \<Rightarrow> []
      | Some v \<Rightarrow> if json_truthy v then json_str (ac_printed ac) v else [])"

definition the_claim :: "agent_context \<Rightarrow> string \<Rightarrow> bool \<Rightarrow> store_db \<Rightarrow> claim_row result" where
  "the_claim ac claim_id require_allowed db =
     (if require_allowed \<and> claim_id \<notin> ac_allowed_claims ac
      then Inl (ValueError (''Claim is outside this proof batch: '' @ claim_id))
      else case claim_row_of claim_id db of
             None \<Rightarrow> Inl (ValueError (''Unknown current manuscript claim: '' @ claim_id))
           | Some row \<Rightarrow> if c_retired row then Inl (ValueError (''Unknown current manuscript claim: '' @ claim_id)) else Inr row)"

section \<open>Tools that read\<close>

definition claim_get :: "agent_context \<Rightarrow> tool_arguments \<Rightarrow> (store_db, string) op" where
  "claim_get ac arguments =
     (let claim_id = argument_text ac arguments ''claim_id''
      in readS (\<lambda>db. bindE (the_claim ac claim_id False db) (\<lambda>row.
           case claim_version (ac_snapshot ac) claim_id db of
             None \<Rightarrow> Inl (AssertionError ''version is not None'')
           | Some version \<Rightarrow> Inr (ac_dumps ac (JObject
               [(''claim_id'', JString claim_id), (''kind'', JString (c_kind row)),
                (''state'', JString (claim_state_text (c_status row))), (''source_file'', JString (so_source_file version)),
                (''label'', json_text (so_label version)), (''statement'', JString (so_statement_text version)),
                (''proof'', JString (so_proof_text version)), (''assistant_context'', JString (so_assistant_context version)),
                (''assistant_references'', JArray (map JString (so_assistant_references version))),
                (''lean_file'', JString (ac_module_path ac claim_id)),
                (''prior_lean_declaration'', json_text (c_lean_declaration row))])))))"

definition claim_list_dependencies :: "agent_context \<Rightarrow> tool_arguments \<Rightarrow> (store_db, string) op" where
  "claim_list_dependencies ac arguments =
     (let claim_id = argument_text ac arguments ''claim_id''
      in readS (\<lambda>db. bindE (the_claim ac claim_id False db) (\<lambda>_.
           Inr (ac_dumps ac (JArray (map (\<lambda>row. JObject
             [(''claim_id'', JString (er_dst row)), (''kind'', JString (er_edge_kind row)),
              (''provenance'', JString (er_provenance row)),
              (''state'', JString (case claim_row_of (er_dst row) db of None \<Rightarrow> ''missing''
                                   | Some c \<Rightarrow> claim_state_text (c_status c)))])
             (filter (\<lambda>row. er_src row = claim_id) (manuscript_edges True db))))))))"

definition certificate_json :: "agent_context \<Rightarrow> certificate_row \<Rightarrow> json" where
  "certificate_json ac row =
     (let stored = (\<lambda>xs. JString (ac_dumps ac (JArray (map JString xs)))) in JObject
     [(''claim_id'', JString (ct_claim_id row)), (''status'', JString (ct_status row)),
      (''manuscript_snapshot'', JString (ct_manuscript_snapshot row)), (''statement_hash'', JString (ct_statement_hash row)),
      (''formal_type_hash'', JString (ct_formal_type_hash row)), (''lean_declaration'', JString (ct_lean_declaration row)),
      (''lean_value_hash'', json_text (ct_lean_value_hash row)), (''dependencies_json'', stored (ct_dependencies row)),
      (''lean_dependencies_json'', stored (ct_lean_dependencies row)), (''axioms_json'', stored (ct_axioms row)),
      (''environment_hash'', JString (ct_environment_hash row)), (''lean_version'', JString (ct_lean_version row)),
      (''mathlib_revision'', json_text (ct_mathlib_revision row)), (''last_verified_run'', JInt (ct_last_verified_run row))])"

definition certificate_query :: "agent_context \<Rightarrow> tool_arguments \<Rightarrow> (store_db, string) op" where
  "certificate_query ac arguments =
     (let claim_id = argument_text ac arguments ''claim_id''
      in readS (\<lambda>db. bindE (the_claim ac claim_id False db) (\<lambda>_.
           Inr (ac_dumps ac (case certificate claim_id db of None \<Rightarrow> JNull | Some row \<Rightarrow> certificate_json ac row)))))"

definition version_json :: "source_object option \<Rightarrow> json" where
  "version_json version = (case version of None \<Rightarrow> JNull | Some v \<Rightarrow> JObject
     [(''statement_hash'', JString (so_statement_hash v)), (''proof_hash'', JString (so_proof_hash v)),
      (''statement_text'', JString (so_statement_text v)), (''proof_text'', JString (so_proof_text v)),
      (''assistant_context'', JString (so_assistant_context v))])"

definition git_diff_claim :: "agent_context \<Rightarrow> tool_arguments \<Rightarrow> (store_db, string) op" where
  "git_diff_claim ac arguments =
     (let claim_id = argument_text ac arguments ''claim_id''
      in readS (\<lambda>db. bindE (the_claim ac claim_id False db) (\<lambda>_.
           let current = claim_version (ac_snapshot ac) claim_id db;
               previous = (case ac_previous_snapshot ac of None \<Rightarrow> None
                           | Some s \<Rightarrow> if s = [] then None else claim_version s claim_id db)
           in Inr (ac_dumps ac (JObject [(''previous'', version_json previous), (''current'', version_json current)])))))"

section \<open>Proposing a dependency\<close>

definition current_ids :: "store_db \<Rightarrow> string set" where
  "current_ids db = c_claim_id ` set (current_claim_rows False db)"

definition proposed_edge :: "string \<Rightarrow> string \<Rightarrow> string \<Rightarrow> manuscript_edge" where
  "proposed_edge claim_id dependency kind =
     \<lparr>e_src = claim_id, e_dst = dependency, e_kind = kind, e_provenance = ''formalization_discovered'', e_approved = True\<rparr>"

definition check_acyclic :: "'g nx_api \<Rightarrow> string set \<Rightarrow> manuscript_edge list \<Rightarrow> unit result" where
  "check_acyclic N ids edges =
     (let cycles = canonical_cycles N (build_graph N ids edges)
      in if cycles \<noteq> []
         then Inl (ValueError (''Dependency proposal would create a cycle: '' @ py_join ''; '' (map (py_join '' -> '') cycles)))
         else Inr ())"

text \<open>The claims a stored scope names.\<close>

definition scope_claims :: "int \<Rightarrow> string \<Rightarrow> store_db \<Rightarrow> string set result" where
  "scope_claims run_id role db = bindE (run_scope_rows run_id role db) (\<lambda>rows. Inr (sc_claim_id ` set rows))"

definition record_proposal ::
    "'g nx_api \<Rightarrow> agent_context \<Rightarrow> string set \<Rightarrow> manuscript_edge list \<Rightarrow> (store_db, unit) op" where
  "record_proposal N ac ids edges =
     bindS (readS (scope_claims (ac_run_id ac) ''SELECTED'')) (\<lambda>selected0.
     bindS (readS (scope_claims (ac_run_id ac) ''TARGET'')) (\<lambda>targets.
     bindS (readS (\<lambda>_. dependency_closure N
              (sorted_list_of_set (if selected0 = {} then ac_allowed_claims ac else selected0)) ids edges)) (\<lambda>selected.
     bindS (voidS (record_run_scope (ac_run_id ac) (sorted_list_of_set targets) (sorted_list_of_set selected))) (\<lambda>_.
     bindS (voidS (replace_run_dependency_edges (ac_run_id ac) edges)) (\<lambda>_.
     bindS (readS (\<lambda>db. Inr (claim_versions (ac_snapshot ac) db))) (\<lambda>objects.
     bindS (reconcile_policy N (ac_snapshot ac) objects edges selected (ac_run_id ac)) (\<lambda>_.
     returnS ())))))))"

definition commit_proposal ::
    "'g nx_api \<Rightarrow> agent_context \<Rightarrow> string \<Rightarrow> string \<Rightarrow> string \<Rightarrow> string \<Rightarrow> string set \<Rightarrow> manuscript_edge list \<Rightarrow> (store_db, string) op" where
  "commit_proposal N ac claim_id dependency kind reason ids edges =
     bindS (writeS (add_manuscript_edge (ac_snapshot ac) (proposed_edge claim_id dependency kind))) (\<lambda>_.
     bindS (writeS (add_diagnostic (ac_run_id ac) ''semantic_dependency'' reason (Some claim_id)
              (ac_dumps ac (JObject [(''depends_on'', JString dependency), (''kind'', JString kind)])))) (\<lambda>_.
     bindS (record_proposal N ac ids edges) (\<lambda>_.
     returnS (''Recorded '' @ claim_id @ '' -> '' @ dependency @ '' ('' @ kind @ '')''))))"

definition claim_propose_dependency :: "'g nx_api \<Rightarrow> agent_context \<Rightarrow> tool_arguments \<Rightarrow> (store_db, string) op" where
  "claim_propose_dependency N ac arguments =
     (let claim_id = argument_text ac arguments ''claim_id'';
          dependency = argument_text ac arguments ''depends_on'';
          kind = argument_text ac arguments ''kind'';
          reason = py_strip (argument_text ac arguments ''reason'')
      in if kind \<notin> SEMANTIC_EDGE_KINDS then raiseS (ValueError (''Unsupported semantic edge kind: '' @ kind))
         else if reason = [] then raiseS (ValueError ''Dependency proposal requires a reason'')
         else if claim_id = dependency then raiseS (ValueError ''A claim cannot depend on itself'')
         else
           bindS (readS (the_claim ac claim_id True)) (\<lambda>_.
           bindS (readS (the_claim ac dependency False)) (\<lambda>_.
           bindS (readS (\<lambda>db. Inr (current_ids db, active_edges db @ [proposed_edge claim_id dependency kind]))) (\<lambda>(ids, edges).
           bindS (readS (\<lambda>_. check_acyclic N ids edges)) (\<lambda>_.
           commit_proposal N ac claim_id dependency kind reason ids edges)))))"

section \<open>Proposing a formalization\<close>

definition claim_mark_formalized :: "agent_context \<Rightarrow> tool_arguments \<Rightarrow> (store_db, string) op" where
  "claim_mark_formalized ac arguments =
     (let claim_id = argument_text ac arguments ''claim_id'';
          declaration = argument_text ac arguments ''lean_declaration'';
          outcome = argument_text ac arguments ''result''
      in if outcome \<notin> {''formalized'', ''counterexample''}
         then raiseS (ValueError ''Result must be formalized or counterexample'')
         else if outcome = ''counterexample'' \<and> \<not> ac_counterexample_search ac
         then raiseS (ValueError ''Counterexample search is disabled by the task policy'')
         else if \<not> is_lean_name declaration \<or> \<not> prefix ''ManuscriptVerification.'' declaration
         then raiseS (ValueError ''Lean declaration must be a valid ManuscriptVerification name'')
         else
           bindS (readS (the_claim ac claim_id True)) (\<lambda>_.
           bindS (voidS (set_correspondence claim_id declaration (ac_run_id ac)
                    (if outcome = ''counterexample'' then ''counterexample''
                     else if ac_require_review ac then ''proposed_review'' else ''proposed'')
                    ''agent'' (outcome = ''counterexample'' \<or> \<not> ac_require_review ac))) (\<lambda>_.
           bindS (if ac_require_review ac \<and> outcome \<noteq> ''counterexample''
                  then writeS (set_claim_state claim_id STATEMENT_DRAFTED (ac_run_id ac) ''await_correspondence_review''
                         ''Task policy requires human approval of the formal statement correspondence'' False)
                  else returnS ()) (\<lambda>_.
           returnS ''Correspondence recorded for independent host validation''))))"

section \<open>Asking the author\<close>

definition nonblank :: "json \<Rightarrow> string option" where
  "nonblank v = (case v of JString s \<Rightarrow> if py_strip s = [] then None else Some s | _ \<Rightarrow> None)"

definition known_diagnostic :: "json \<Rightarrow> string option" where
  "known_diagnostic v = (case v of JString s \<Rightarrow> if s \<in> CLARIFICATION_DIAGNOSTICS then Some s else None | _ \<Rightarrow> None)"

text \<open>A list all of whose items pass a test, as the texts.\<close>

definition checked_list :: "(json \<Rightarrow> string option) \<Rightarrow> json option \<Rightarrow> string list option" where
  "checked_list check v =
     (case v of Some (JArray xs) \<Rightarrow> if list_all (\<lambda>x. check x \<noteq> None) xs then Some (List.map_filter check xs) else None
      | _ \<Rightarrow> None)"

definition check_passage :: "agent_context \<Rightarrow> string \<Rightarrow> string \<Rightarrow> store_db \<Rightarrow> unit result" where
  "check_passage ac claim_id passage db =
     (case claim_version (ac_snapshot ac) claim_id db of
        None \<Rightarrow> Inl (AssertionError ''version is not None'')
      | Some version \<Rightarrow>
          if \<not> sublist passage (so_statement_text version @ [newline] @ so_proof_text version)
          then Inl (ValueError ''Quoted clarification passage is not in the indexed claim source'') else Inr ())"

definition ask_author ::
    "'g nx_api \<Rightarrow> agent_context \<Rightarrow> string \<Rightarrow> string \<Rightarrow> string \<Rightarrow> string \<Rightarrow> string list \<Rightarrow> string list \<Rightarrow> (store_db, string) op" where
  "ask_author N ac claim_id category passage problem resolutions diagnostics =
     bindS (readS (\<lambda>db. affected_claims N [claim_id] (current_ids db) (active_edges db))) (\<lambda>affected.
     bindS (txn (create_question claim_id (ac_snapshot ac) category passage problem resolutions (sorted_list_of_set affected)
              (ac_run_id ac) ''PROOF_WORKER'')) (\<lambda>question_id.
     bindS (writeS (add_diagnostic (ac_run_id ac) ''clarification_diagnostic_pipeline''
              ''Manuscript clarification requested after required diagnostics'' (Some claim_id)
              (ac_dumps ac (JObject [(''performed'', JArray (map JString (sorted_list_of_set (set diagnostics))))])))) (\<lambda>_.
     bindS (writeS (set_claim_state claim_id NEEDS_CLARIFICATION (ac_run_id ac) ''clarification''
              (question_id @ '': '' @ problem) False)) (\<lambda>_.
     returnS (''Created clarification '' @ question_id @ ''; the host will preserve completed work'')))))"

definition clarification_request :: "'g nx_api \<Rightarrow> agent_context \<Rightarrow> tool_arguments \<Rightarrow> (store_db, string) op" where
  "clarification_request N ac arguments =
     (let claim_id = argument_text ac arguments ''claim_id'';
          category = argument_text ac arguments ''category'';
          passage = py_strip (argument_text ac arguments ''passage'');
          problem = py_strip (argument_text ac arguments ''problem'')
      in if \<not> ac_pause_on_ambiguity ac
         then raiseS (ValueError (''Clarification pauses are disabled by the task policy; '' @ ''record an unresolved result instead''))
         else if category \<notin> CLARIFICATION_CATEGORIES
         then raiseS (ValueError (''Not a manuscript-level clarification category: '' @ category))
         else if problem = [] \<or> passage = []
         then raiseS (ValueError ''Clarification passage and problem must be non-empty'')
         else case checked_list nonblank (map_of arguments ''possible_resolutions'') of
           None \<Rightarrow> raiseS (ValueError ''Clarification resolutions must contain 1-6 non-empty strings'')
         | Some resolutions \<Rightarrow>
             if resolutions = [] \<or> 6 < length resolutions
             then raiseS (ValueError ''Clarification resolutions must contain 1-6 non-empty strings'')
             else case checked_list known_diagnostic (map_of arguments ''diagnostics_performed'') of
               None \<Rightarrow> raiseS (ValueError ''Clarification diagnostics are invalid'')
             | Some diagnostics \<Rightarrow>
                 let missing = REQUIRED_CLARIFICATION_DIAGNOSTICS - set diagnostics
                 in if missing \<noteq> {}
                    then raiseS (ValueError (''Clarification requires prior diagnostics: '' @ py_join '', '' (sorted_list_of_set missing)))
                    else
                      bindS (readS (the_claim ac claim_id True)) (\<lambda>_.
                      bindS (readS (check_passage ac claim_id passage)) (\<lambda>_.
                      ask_author N ac claim_id category passage problem resolutions diagnostics)))"

section \<open>Giving up on a claim\<close>

definition unresolved_state :: "string \<Rightarrow> claim_state" where
  "unresolved_state category =
     (if is_technical_category category then FAILED_TECHNICAL
      else if category = ''possible_counterexample'' then SUSPECT_FALSE else UNRESOLVED)"

definition claim_report_unresolved :: "agent_context \<Rightarrow> tool_arguments \<Rightarrow> (store_db, string) op" where
  "claim_report_unresolved ac arguments =
     (let claim_id = argument_text ac arguments ''claim_id'';
          message = py_strip (argument_text ac arguments ''message'')
      in if message = [] then raiseS (ValueError ''Unresolved diagnostic must be non-empty'')
         else
           let category = classify_failure message; state = unresolved_state category
           in bindS (readS (the_claim ac claim_id True)) (\<lambda>_.
              bindS (writeS (set_claim_state claim_id state (ac_run_id ac) ''unresolved'' message False)) (\<lambda>_.
              bindS (writeS (add_diagnostic (ac_run_id ac) category message (Some claim_id) ''{}'')) (\<lambda>_.
              bindS (if state = FAILED_TECHNICAL
                     then bindS (txn (add_failure_incident (ac_run_id ac) ''CLAIM'' ''CLAIM_TECHNICAL'' ''PROOF_BATCH'' category
                            message ''agent.claim_report_unresolved'' [claim_id] None None True [])) (\<lambda>_. returnS ())
                     else returnS ()) (\<lambda>_.
              returnS (''Recorded '' @ category @ ''; no falsity conclusion was made''))))))"

section \<open>Dispatch\<close>

datatype agent_tool =
    Claim_Get
  | Claim_List_Dependencies
  | Certificate_Query
  | Git_Diff_Claim
  | Claim_Propose_Dependency
  | Claim_Mark_Formalized
  | Clarification_Request
  | Claim_Report_Unresolved

fun run_tool :: "'g nx_api \<Rightarrow> agent_context \<Rightarrow> agent_tool \<Rightarrow> tool_arguments \<Rightarrow> (store_db, string) op" where
  "run_tool N ac Claim_Get arguments = claim_get ac arguments"
| "run_tool N ac Claim_List_Dependencies arguments = claim_list_dependencies ac arguments"
| "run_tool N ac Certificate_Query arguments = certificate_query ac arguments"
| "run_tool N ac Git_Diff_Claim arguments = git_diff_claim ac arguments"
| "run_tool N ac Claim_Propose_Dependency arguments = claim_propose_dependency N ac arguments"
| "run_tool N ac Claim_Mark_Formalized arguments = claim_mark_formalized ac arguments"
| "run_tool N ac Clarification_Request arguments = clarification_request N ac arguments"
| "run_tool N ac Claim_Report_Unresolved arguments = claim_report_unresolved ac arguments"

text \<open>Calls of several agents, in the order their tools run. A call that raises returns its error to the agent and
  leaves what it had committed.\<close>

type_synonym tool_call = "agent_context \<times> agent_tool \<times> tool_arguments"

definition run_calls :: "'g nx_api \<Rightarrow> tool_call list \<Rightarrow> store_db \<Rightarrow> store_db" where
  "run_calls N calls = fold (\<lambda>(ac, tool, arguments) db. fst (run_tool N ac tool arguments db)) calls"

section \<open>What a tool can touch\<close>

text \<open>The tables that say what is proved, and of what: no tool writes them.\<close>

definition proof_tables :: "store_db \<Rightarrow> certificate_row list \<times> version_row list \<times> lean_declaration_row list \<times> lean_edge_row list \<times> run_row list" where
  "proof_tables d = (t_certificates d, t_claim_versions d, t_lean_declarations d, t_lean_edges d, t_runs d)"

text \<open>A claim row may differ only for a claim of \<open>A\<close>, and then not in being retired; its state is the old one or one
  that claims no proof.\<close>

definition claim_within :: "string set \<Rightarrow> string \<Rightarrow> claim_row option \<Rightarrow> claim_row option \<Rightarrow> bool" where
  "claim_within A c before after \<longleftrightarrow> after = before
     \<or> c \<in> A \<and> (\<exists>a b. before = Some a \<and> after = Some b \<and> c_retired b = c_retired a
          \<and> (c_status b = c_status a \<or> c_status b \<notin> {CERTIFIED, COUNTEREXAMPLE_FOUND}))"

definition tool_frame :: "string set \<Rightarrow> store_db \<Rightarrow> store_db \<Rightarrow> bool" where
  "tool_frame A d0 d \<longleftrightarrow> proof_tables d = proof_tables d0
     \<and> (\<forall>c. claim_within A c (claim_row_of c d0) (claim_row_of c d))"

lemma tool_frame_refl [simp]: "tool_frame A d d"
  by (simp add: tool_frame_def claim_within_def)

lemma claim_within_trans: "claim_within A c x y \<Longrightarrow> claim_within A c y z \<Longrightarrow> claim_within A c x z"
  unfolding claim_within_def by auto

lemma tool_frame_trans: "tool_frame A a b \<Longrightarrow> tool_frame A b c \<Longrightarrow> tool_frame A a c"
  unfolding tool_frame_def by (metis claim_within_trans)

lemma tool_frame_same: "t_claims d' = t_claims d \<Longrightarrow> proof_tables d' = proof_tables d \<Longrightarrow> tool_frame A d0 d' = tool_frame A d0 d"
  by (simp add: tool_frame_def claim_row_of_def)

text \<open>The invariant a tool keeps at every step.\<close>

definition tool_inv :: "string set \<Rightarrow> store_db \<Rightarrow> store_db \<Rightarrow> bool" where
  "tool_inv A d0 d \<longleftrightarrow> store_inv d \<and> tool_frame A d0 d"

lemma tool_inv_same: "store_inv d' \<Longrightarrow> t_claims d' = t_claims d \<Longrightarrow> proof_tables d' = proof_tables d \<Longrightarrow> tool_inv A d0 d \<Longrightarrow> tool_inv A d0 d'"
  using tool_frame_same unfolding tool_inv_def by blast

named_theorems same_proofs "the operations that do not write the proof tables"

lemma same_proofs_writes [same_proofs]:
  "proof_tables (add_diagnostic run_id cat msg cid details d) = proof_tables d"
  "proof_tables (add_manuscript_edge snapshot edge d) = proof_tables d"
  "proof_tables (set_claim_state c state run_id action reason reused d) = proof_tables d"
  by (simp_all add: proof_tables_def add_diagnostic_def add_manuscript_edge_def set_claim_state_def Let_def)

lemma same_proofs_results [same_proofs]:
  "create_question cid snapshot category passage problem resolutions blocking run_id origin d = Inr (d', qid) \<Longrightarrow> proof_tables d' = proof_tables d"
  "refresh_open_question cid snapshot category passage problem resolutions blocking origin' d = Inr d' \<Longrightarrow> proof_tables d' = proof_tables d"
  "resolve_question qid run resolution status d = Inr (d', found) \<Longrightarrow> proof_tables d' = proof_tables d"
  "record_run_scope run_id ts ss d = Inr d' \<Longrightarrow> proof_tables d' = proof_tables d"
  "replace_run_dependency_edges run_id edges d = Inr d' \<Longrightarrow> proof_tables d' = proof_tables d"
  by (auto simp: create_question_def refresh_open_question_def resolve_question_def record_run_scope_def proof_tables_def
      replace_run_dependency_edges_def Let_def bindE_Inr_iff split: if_splits option.splits)

lemma same_proofs_incident [same_proofs]:
  assumes "add_failure_incident run_id scope kind phase category message provenance cids detail batch retryable artifacts d = Inr (d', fid)"
  shows "proof_tables d' = proof_tables d"
proof -
  from assms have "d' = d\<lparr>t_failure_incidents := t_failure_incidents d', t_next_failure_id := t_next_failure_id d',
       t_failure_incident_claims := t_failure_incident_claims d', t_failure_artifacts := t_failure_artifacts d'\<rparr>" (is "d' = ?d")
    by (rule add_failure_incident_cases)
  then have "proof_tables d' = proof_tables ?d" by (rule arg_cong)
  also have "\<dots> = proof_tables d" by (simp add: proof_tables_def)
  finally show ?thesis .
qed

lemma tool_frame_update:
  assumes "t_claims d' = update_where (\<lambda>r. c_claim_id r = c) f (t_claims d)" and "proof_tables d' = proof_tables d" and "c \<in> A"
    and "\<And>r. c_claim_id (f r) = c_claim_id r" and "\<And>r. c_retired (f r) = c_retired r"
    and "\<And>r. c_status (f r) = c_status r \<or> c_status (f r) \<notin> {CERTIFIED, COUNTEREXAMPLE_FOUND}"
  shows "tool_frame A d d'"
proof -
  have "claim_row_of k d' = map_option (\<lambda>r. if c_claim_id r = c then f r else r) (claim_row_of k d)" for k
    using lookup_row_update_where [of c_claim_id f, OF assms(4)] by (simp add: claim_row_of_def assms(1))
  moreover have "c_claim_id r = k" if "claim_row_of k d = Some r" for k r
    using that by (auto simp: claim_row_of_def dest: lookup_row_SomeD)
  ultimately have "claim_within A k (claim_row_of k d) (claim_row_of k d')" for k
    using assms(3,5) assms(6) by (cases "claim_row_of k d"; cases "k = c") (simp_all add: claim_within_def)
  then show ?thesis using assms(2) by (simp add: tool_frame_def)
qed

lemma tool_inv_state:
  assumes "tool_inv A d0 d" and "c \<in> A" and "state \<notin> {CERTIFIED, COUNTEREXAMPLE_FOUND}"
  shows "tool_inv A d0 (set_claim_state c state run_id action reason reused d)"
proof -
  have "tool_frame A d (set_claim_state c state run_id action reason reused d)"
    by (rule tool_frame_update [where f = "\<lambda>r. r\<lparr>c_status := state, c_last_changed_run := Some run_id\<rparr>" and c = c])
      (use assms(2,3) in \<open>simp_all add: set_claim_state_def Let_def proof_tables_def\<close>)
  then show ?thesis using assms(1) by (auto simp: tool_inv_def set_claim_state_inv intro: tool_frame_trans)
qed

interpretation tool_policy: policy_writes "tool_inv A d0" A
proof unfold_locales
  show "tool_inv A d0 (set_claim_state cid s run_id action reason reused d)"
    if "tool_inv A d0 d" "cid \<in> A" "s \<in> {NEEDS_CLARIFICATION, SKIPPED_UNPROVED}" for cid s run_id action reason reused d
    by (rule tool_inv_state) (use that in auto)
qed (metis tool_inv_same tool_inv_def create_question_inv refresh_question_inv resolve_question_inv
    same_claims_results(1-3) same_proofs_results(1-3))+

section \<open>Each tool keeps the frame\<close>

lemma the_claim_allowed: "the_claim ac c True d = Inr row \<Longrightarrow> c \<in> ac_allowed_claims ac \<and> claim_row_of c d = Some row \<and> \<not> c_retired row"
  by (auto simp: the_claim_def split: if_splits option.splits)

lemma the_claim_current: "the_claim ac c False d = Inr row \<Longrightarrow> claim_row_of c d = Some row \<and> \<not> c_retired row"
  by (auto simp: the_claim_def split: if_splits option.splits)

text \<open>The claims an agent may change: those of its batch, and the conjectural ones the host policy settles.\<close>

definition may_change :: "agent_context \<Rightarrow> store_db \<Rightarrow> string set" where
  "may_change ac db = ac_allowed_claims ac \<union> conjectural_claims (claim_versions (ac_snapshot ac) db)"

lemma may_change_same: "tool_inv A d0 d \<Longrightarrow> may_change ac d = may_change ac d0"
  by (simp add: may_change_def claim_versions_def tool_inv_def tool_frame_def proof_tables_def)

lemma tool_writes:
  "preservesS (tool_inv A d0) (writeS (add_diagnostic r cat m c details))"
  "preservesS (tool_inv A d0) (writeS (add_manuscript_edge snapshot edge))"
  "preservesS (tool_inv A d0) (voidS (record_run_scope r ts ss))"
  "preservesS (tool_inv A d0) (voidS (replace_run_dependency_edges r es))"
  "preservesS (tool_inv A d0) (txn (create_question cid snap cat passage problem resolutions blocking r origin))"
  "preservesS (tool_inv A d0) (txn (add_failure_incident r scope kind phase cat m provenance cids detail batch retryable arts))"
proof -
  note same = tool_inv_same [of _ _ A d0] tool_inv_def [of A d0]
  show "preservesS (tool_inv A d0) (writeS (add_diagnostic r cat m c details))"
    by (rule preserves_write) (metis same diagnostic_inv same_claims_writes(2) same_proofs_writes(1))
  have "t_claims (add_manuscript_edge snapshot edge d) = t_claims d" for d by (simp add: add_manuscript_edge_def)
  then show "preservesS (tool_inv A d0) (writeS (add_manuscript_edge snapshot edge))"
    by (intro preserves_write) (metis same manuscript_edge_inv same_proofs_writes(2))
  show "preservesS (tool_inv A d0) (voidS (record_run_scope r ts ss))"
    by (rule preserves_void) (metis same record_run_scope_inv same_claims_results(4) same_proofs_results(4))
  show "preservesS (tool_inv A d0) (voidS (replace_run_dependency_edges r es))"
    by (rule preserves_void) (metis same run_graph_inv(1) same_claims_results(5) same_proofs_results(5))
  show "preservesS (tool_inv A d0) (txn (create_question cid snap cat passage problem resolutions blocking r origin))"
    by (rule preservesS_txn) (metis same create_question_inv same_claims_results(1) same_proofs_results(1))
  show "preservesS (tool_inv A d0) (txn (add_failure_incident r scope kind phase cat m provenance cids detail batch retryable arts))"
    by (rule preservesS_txn) (metis same failure_inv same_claims_incident same_proofs_incident)
qed

lemma tool_state:
  "c \<in> A \<Longrightarrow> state \<notin> {CERTIFIED, COUNTEREXAMPLE_FOUND}
   \<Longrightarrow> preservesS (tool_inv A d0) (writeS (set_claim_state c state r action reason reused))"
  by (rule preserves_write) (rule tool_inv_state)

lemma tool_correspondence:
  assumes "c \<in> A"
  shows "preservesS (tool_inv A d0) (voidS (set_correspondence c decl r status provenance approved))"
proof (rule preserves_void)
  fix d d' assume d: "tool_inv A d0 d" and run: "set_correspondence c decl r status provenance approved d = Inr d'"
  have "tool_frame A d d'"
    by (rule tool_frame_update [where f = "\<lambda>r. r\<lparr>c_lean_declaration := Some decl\<rparr>" and c = c])
      (use assms run in \<open>auto simp: set_correspondence_def proof_tables_def split: if_splits\<close>)
  then show "tool_inv A d0 d'" using d correspondence_inv [OF _ run] unfolding tool_inv_def by (blast intro: tool_frame_trans)
qed

lemma claims_read_tools:
  "fst (claim_get ac arguments db) = db" "fst (claim_list_dependencies ac arguments db) = db"
  "fst (certificate_query ac arguments db) = db" "fst (git_diff_claim ac arguments db) = db"
  by (simp_all add: claim_get_def claim_list_dependencies_def certificate_query_def git_diff_claim_def Let_def)

lemma allowed_may_change: "may_change ac d0 \<subseteq> A \<Longrightarrow> the_claim ac c True d = Inr row \<Longrightarrow> c \<in> A"
  by (auto simp: may_change_def dest: the_claim_allowed)

lemma record_proposal_keeps:
  assumes "may_change ac d0 \<subseteq> A"
  shows "preservesS (tool_inv A d0) (record_proposal N ac ids edges)"
proof -
  have "preservesS (tool_inv A d0) (reconcile_policy N snap objects edges selected r)"
    if "tool_inv A d0 d" and "Inr (claim_versions (ac_snapshot ac) d) = (Inr objects :: source_object list result)"
    for objects d snap edges selected r
    using that(2) assms may_change_same [OF that(1), of ac] by (intro tool_policy.keeps_policy) (auto simp: may_change_def)
  then show ?thesis
    unfolding record_proposal_def by (intro preserves_rules tool_writes) assumption+
qed

lemma tool_keeps:
  assumes "may_change ac d0 \<subseteq> A"
  shows "preservesS (tool_inv A d0) (run_tool N ac tool arguments)"
proof -
  note rules = preserves_rules tool_writes tool_state tool_correspondence record_proposal_keeps [OF assms]
  note allowed = allowed_may_change [OF assms]
  have "preservesS (tool_inv A d0) (claim_propose_dependency N ac arguments)"
    unfolding claim_propose_dependency_def commit_proposal_def Let_def by (intro rules)
  moreover have "preservesS (tool_inv A d0) (claim_mark_formalized ac arguments)"
    unfolding claim_mark_formalized_def Let_def by (intro rules) (erule allowed | simp)+
  moreover have "preservesS (tool_inv A d0) (clarification_request N ac arguments)"
    unfolding clarification_request_def ask_author_def Let_def by (intro rules) (erule allowed | simp)+
  moreover have "preservesS (tool_inv A d0) (claim_report_unresolved ac arguments)"
    unfolding claim_report_unresolved_def Let_def by (intro rules) (erule allowed | simp add: unresolved_state_def)+
  ultimately show ?thesis by (cases tool) (simp_all add: preservesS_def claims_read_tools)
qed

lemma run_calls_inv:
  assumes "store_inv db" and "\<forall>(ac, tool, arguments)\<in>set calls. may_change ac db \<subseteq> A"
  shows "tool_inv A db (run_calls N calls db)"
  unfolding run_calls_def
proof (rule fold_invariant_on)
  show "tool_inv A db db" using assms(1) by (simp add: tool_inv_def)
  fix call d assume call: "call \<in> set calls" and d: "tool_inv A db d"
  obtain ac tool arguments where eq: "call = (ac, tool, arguments)" by (cases call)
  have "may_change ac db \<subseteq> A" using assms(2) call unfolding eq by blast
  from preservesSD [OF tool_keeps [OF this] d]
  show "tool_inv A db ((\<lambda>(ac, tool, arguments) db. fst (run_tool N ac tool arguments db)) call d)"
    unfolding eq prod.case .
qed

section \<open>Dependencies between claims stay acyclic\<close>

definition dependency_rel :: "store_db \<Rightarrow> (string \<times> string) set" where
  "dependency_rel db = approved_rel (active_edges db)"

lemma dependency_rel_alt: "dependency_rel db = {(er_src r, er_dst r) | r. r \<in> set (t_manuscript_edges db) \<and> er_active r \<and> er_approved r}"
  by (force simp: dependency_rel_def approved_rel_def active_edges_def manuscript_edges_def edge_of_row_def)

lemma approved_rel_snoc: "e_approved e \<Longrightarrow> approved_rel (es @ [e]) = insert (e_src e, e_dst e) (approved_rel es)"
  by (auto simp: approved_rel_def)

lemma dependency_rel_add:
  "dependency_rel (add_manuscript_edge snapshot e d) \<subseteq> insert (e_src e, e_dst e) (dependency_rel d)"
proof
  fix p assume "p \<in> dependency_rel (add_manuscript_edge snapshot e d)"
  then obtain r where r: "p = (er_src r, er_dst r)" "er_active r" "er_approved r"
      "r \<in> set (upsert_row edge_key merge_edge (edge_row_for snapshot e) (t_manuscript_edges d))"
    by (auto simp: dependency_rel_alt add_manuscript_edge_def)
  from edge_table.upsert_set [OF r(4)] r(1-3) show "p \<in> insert (e_src e, e_dst e) (dependency_rel d)"
    by (auto simp: dependency_rel_alt edge_row_for_def merge_edge_def edge_key_def)
qed

abbreviation same_edges :: "edge_row list \<Rightarrow> store_db \<Rightarrow> bool" where
  "same_edges E d \<equiv> t_manuscript_edges d = E"

interpretation policy_edges: policy_writes "same_edges E" UNIV
  by unfold_locales (auto simp: create_question_def refresh_open_question_def resolve_question_def set_claim_state_def Let_def
      bindE_Inr_iff split: if_splits option.splits)

lemma tool_edges:
  "preservesS (same_edges E) (writeS (add_diagnostic r cat m who details))"
  "preservesS (same_edges E) (writeS (set_claim_state c state r action reason reused))"
  "preservesS (same_edges E) (voidS (record_run_scope r ts ss))"
  "preservesS (same_edges E) (voidS (replace_run_dependency_edges r es))"
  "preservesS (same_edges E) (voidS (set_correspondence c decl r status provenance approved))"
  "preservesS (same_edges E) (txn (create_question cid snap cat passage problem resolutions blocking r origin))"
  "preservesS (same_edges E) (reconcile_policy N snap objects edges selected r)"
proof -
  show "preservesS (same_edges E) (reconcile_policy N snap objects edges selected r)"
    by (rule policy_edges.keeps_policy) simp
qed (auto intro!: preserves_write preserves_void preservesS_txn simp: add_diagnostic_def set_claim_state_def Let_def
    record_run_scope_def replace_run_dependency_edges_def set_correspondence_def create_question_def bindE_Inr_iff
    split: if_splits option.splits)

lemma incident_edges:
  "preservesS (same_edges E) (txn (add_failure_incident r scope kind phase cat m provenance cids detail batch retryable arts))"
proof (rule preservesS_txn)
  fix d d' x assume d: "same_edges E d"
    and run: "add_failure_incident r scope kind phase cat m provenance cids detail batch retryable arts d = Inr (d', x)"
  from run have "d' = d\<lparr>t_failure_incidents := t_failure_incidents d', t_next_failure_id := t_next_failure_id d',
       t_failure_incident_claims := t_failure_incident_claims d', t_failure_artifacts := t_failure_artifacts d'\<rparr>" (is "d' = ?d")
    by (rule add_failure_incident_cases)
  then have "t_manuscript_edges d' = t_manuscript_edges ?d" by (rule arg_cong)
  with d show "same_edges E d'" by simp
qed

text \<open>The other tools leave the graph alone; a proposal adds one checked pair.\<close>

lemma other_tool_edges:
  assumes "tool \<noteq> Claim_Propose_Dependency"
  shows "preservesS (same_edges E) (run_tool N ac tool arguments)"
proof -
  note rules = preserves_rules tool_edges incident_edges
  have "preservesS (same_edges E) (claim_mark_formalized ac arguments)"
    unfolding claim_mark_formalized_def Let_def by (intro rules)
  moreover have "preservesS (same_edges E) (clarification_request N ac arguments)"
    unfolding clarification_request_def ask_author_def Let_def by (intro rules)
  moreover have "preservesS (same_edges E) (claim_report_unresolved ac arguments)"
    unfolding claim_report_unresolved_def Let_def by (intro rules)
  ultimately show ?thesis using assms by (cases tool) (simp_all add: preservesS_def claims_read_tools)
qed

lemma record_proposal_edges: "preservesS (same_edges E) (record_proposal N ac ids edges)"
  unfolding record_proposal_def by (intro preserves_rules tool_edges)

text \<open>A proposal either leaves the stored edges as they are or adds the proposed one, and then the graph with it has no
  cycle.\<close>

lemma proposal_cases:
  assumes "networkx N"
  shows "t_manuscript_edges (fst (claim_propose_dependency N ac arguments d)) = t_manuscript_edges d
    \<or> (\<exists>e. t_manuscript_edges (fst (claim_propose_dependency N ac arguments d))
            = t_manuscript_edges (add_manuscript_edge (ac_snapshot ac) e d)
          \<and> acyclic (insert (e_src e, e_dst e) (dependency_rel d)))"
proof -
  let ?e = "proposed_edge (argument_text ac arguments ''claim_id'') (argument_text ac arguments ''depends_on'') (argument_text ac arguments ''kind'')"
  let ?d = "add_manuscript_edge (ac_snapshot ac) ?e d"
  have rel: "approved_rel (active_edges d @ [?e]) = insert (e_src ?e, e_dst ?e) (dependency_rel d)"
    unfolding dependency_rel_def by (rule approved_rel_snoc) (simp add: proposed_edge_def)
  have acyclic: "acyclic (insert (e_src ?e, e_dst ?e) (dependency_rel d))"
    if "check_acyclic N (current_ids d) (active_edges d @ [?e]) = Inr ()"
    using that networkx.canonical_cycles_nil_iff [OF assms] networkx.build_graph_rel [OF assms]
    by (auto simp: check_acyclic_def Let_def rel split: if_splits)
  have keep: "t_manuscript_edges (fst (commit_proposal N ac (argument_text ac arguments ''claim_id'') (argument_text ac arguments ''depends_on'')
      (argument_text ac arguments ''kind'') reason ids edges d)) = t_manuscript_edges ?d" for reason ids edges
    unfolding commit_proposal_def bindS_writeS [of "add_manuscript_edge _ _"]
    by (rule preservesSD [where I = "same_edges (t_manuscript_edges ?d)"])
      (intro preserves_rules tool_edges record_proposal_edges, simp)
  let ?run = "claim_propose_dependency N ac arguments d"
  show ?thesis
  proof (cases "fst ?run = d")
    case False
    then have "check_acyclic N (current_ids d) (active_edges d @ [?e]) = Inr ()"
      "\<exists>reason. ?run = commit_proposal N ac (argument_text ac arguments ''claim_id'') (argument_text ac arguments ''depends_on'')
        (argument_text ac arguments ''kind'') reason (current_ids d) (active_edges d @ [?e]) d"
      by (auto simp: claim_propose_dependency_def Let_def bindS_readS split: sum.splits if_splits)
    with acyclic keep show ?thesis by metis
  qed simp
qed

lemma tool_acyclic:
  assumes "networkx N" and "acyclic (dependency_rel d)"
  shows "acyclic (dependency_rel (fst (run_tool N ac tool arguments d)))"
proof (cases "tool = Claim_Propose_Dependency")
  case True
  have "acyclic (dependency_rel d')" if "t_manuscript_edges d' = t_manuscript_edges (add_manuscript_edge snapshot e d)"
    "acyclic (insert (e_src e, e_dst e) (dependency_rel d))" for d' snapshot e
    using acyclic_subset [OF that(2) dependency_rel_add] that(1) by (simp add: dependency_rel_alt)
  moreover have "acyclic (dependency_rel d')" if "t_manuscript_edges d' = t_manuscript_edges d" for d'
    using assms(2) that by (simp add: dependency_rel_alt)
  ultimately show ?thesis using proposal_cases [OF assms(1), of ac arguments d] True by auto
next
  case False
  have "t_manuscript_edges (fst (run_tool N ac tool arguments d)) = t_manuscript_edges d"
    by (rule preservesSD [OF other_tool_edges [OF False]]) simp
  with assms(2) show ?thesis by (simp add: dependency_rel_alt)
qed

text \<open>A dependency that is already recorded cannot be proposed again: the frozen graph of the run gets the pair twice and
  its primary key refuses it, after the new provenance, the diagnostic and the scope have been committed.\<close>

lemma known_dependency_is_refused:
  assumes "claim_propose_dependency N ac arguments d = (d', Inr msg)"
  shows "(argument_text ac arguments ''claim_id'', argument_text ac arguments ''depends_on'', argument_text ac arguments ''kind'')
    \<notin> edge_order ` set (active_edges d)"
proof -
  let ?e = "proposed_edge (argument_text ac arguments ''claim_id'') (argument_text ac arguments ''depends_on'') (argument_text ac arguments ''kind'')"
  let ?edges = "active_edges d @ [?e]"
  obtain reason where "commit_proposal N ac (argument_text ac arguments ''claim_id'') (argument_text ac arguments ''depends_on'')
        (argument_text ac arguments ''kind'') reason (current_ids d) ?edges d = (d', Inr msg)"
    using assms by (auto simp: claim_propose_dependency_def Let_def bindS_readS split: sum.splits if_splits)
  then obtain x y where "replace_run_dependency_edges (ac_run_id ac) ?edges x = Inr y"
    by (auto simp: commit_proposal_def record_proposal_def bindS_Inr_iff voidS_Inr_iff)
  then obtain tbl where "insert_all run_edge_key (map (\<lambda>e. \<lparr>re_run_id = ac_run_id ac, re_edge = e\<rparr>) (sort_key edge_order ?edges))
      (delete_where (\<lambda>r. re_run_id r = ac_run_id ac) (t_run_dependency_edges x)) = Inr tbl"
    by (auto simp: replace_run_dependency_edges_def Let_def bindE_Inr_iff)
  then have "distinct (map (\<lambda>e. (ac_run_id ac, edge_order e)) (sort_key edge_order ?edges))"
    by (auto dest: insert_all_distinct simp: run_edge_key_def edge_order_def comp_def simp del: sort_key_simps)
  then have "distinct (map edge_order (active_edges d @ [?e]))"
    unfolding distinct_map_sort_key by (auto simp: distinct_map inj_on_def)
  then show ?thesis by (simp add: edge_order_def proposed_edge_def)
qed

section \<open>Properties\<close>

text \<open>C12. Agents prove nothing. Whatever tools agents call, with whatever arguments and in whatever order, no certificate,
  source version, Lean declaration or run record changes, the store stays well-formed, and a claim row changes only for a
  claim of one of the batches or a conjectural claim the host policy settles; even then no claim becomes CERTIFIED or
  COUNTEREXAMPLE_FOUND, and none is retired or brought back.\<close>

theorem agents_prove_nothing:
  assumes "store_inv db"
  shows "store_inv (run_calls N calls db) \<and> proof_tables (run_calls N calls db) = proof_tables db
    \<and> (\<forall>c. claim_within (\<Union>(ac, tool, arguments)\<in>set calls. may_change ac db) c
         (claim_row_of c db) (claim_row_of c (run_calls N calls db)))"
proof -
  let ?A = "\<Union>(ac, tool, arguments)\<in>set calls. may_change ac db"
  have "\<forall>(ac, tool, arguments)\<in>set calls. may_change ac db \<subseteq> ?A" by blast
  from run_calls_inv [OF assms this, of N] show ?thesis by (simp add: tool_inv_def tool_frame_def)
qed

definition ex_agent :: agent_context where
  "ex_agent = \<lparr>ac_run_id = 1, ac_snapshot = ''s1'', ac_previous_snapshot = None, ac_allowed_claims = {''a''},
     ac_require_review = False, ac_pause_on_ambiguity = True, ac_counterexample_search = True,
     ac_printed = (\<lambda>_. ''?''), ac_dumps = (\<lambda>_. ''{}''), ac_module_path = (\<lambda>c. c)\<rparr>"

definition ex_calls :: "tool_call list" where
  "ex_calls = [(ex_agent, Claim_Report_Unresolved, [(''claim_id'', JString ''a''), (''message'', JString ''no progress'')]),
     (ex_agent, Claim_Report_Unresolved, [(''claim_id'', JString ''b''), (''message'', JString ''no progress'')])]"

theorem agents_prove_nothing_witness:
  "map_option c_status (claim_row_of ''a'' (run_calls list_nx ex_calls ex_store)) = Some UNRESOLVED
   \<and> claim_row_of ''b'' (run_calls list_nx ex_calls ex_store) = claim_row_of ''b'' ex_store"
proof -
  have "may_change ex_agent ex_store = {''a''}"
    by (simp add: may_change_def ex_agent_def conjectural_claims_def claim_versions_def ex_store_def begin_run_def Let_def empty_store_def)
  then have changeable: "(\<Union>(ac, tool, arguments)\<in>set ex_calls. may_change ac ex_store) = {''a''}" by (simp add: ex_calls_def)
  have "claim_within {''a''} ''b'' (claim_row_of ''b'' ex_store) (claim_row_of ''b'' (run_calls list_nx ex_calls ex_store))"
    using agents_prove_nothing [OF ex_store_inv, of list_nx ex_calls] unfolding changeable by blast
  then have "claim_row_of ''b'' (run_calls list_nx ex_calls ex_store) = claim_row_of ''b'' ex_store" by (simp add: claim_within_def)
  moreover have "map_option c_status (claim_row_of ''a'' (run_calls list_nx ex_calls ex_store)) = Some UNRESOLVED" by code_simp
  ultimately show ?thesis by simp
qed

text \<open>C14. The dependency graph stays acyclic. When the approved active edges form no cycle, they still form none after any
  sequence of tool calls, and the host's cycle report on the new graph is empty.\<close>

theorem proposals_keep_acyclic:
  assumes "networkx N" and "acyclic (dependency_rel db)"
  shows "acyclic (dependency_rel (run_calls N calls db))
    \<and> canonical_cycles N (build_graph N ids (active_edges (run_calls N calls db))) = []"
proof -
  have "acyclic (dependency_rel (run_calls N calls db))"
    unfolding run_calls_def using assms(2)
    by (rule fold_invariant_on) (auto intro: tool_acyclic [OF assms(1)] split: prod.split)
  then show ?thesis
    using networkx.canonical_cycles_nil_iff [OF assms(1)] networkx.build_graph_rel [OF assms(1)] by (simp add: dependency_rel_def)
qed

definition ex_proposals :: "tool_call list" where
  "ex_proposals = map (\<lambda>(c, d). (ex_agent\<lparr>ac_allowed_claims := {c}\<rparr>, Claim_Propose_Dependency,
     [(''claim_id'', JString c), (''depends_on'', JString d), (''kind'', JString ''proof_step''), (''reason'', JString ''used'')]))
     [(''a'', ''b''), (''b'', ''a'')]"

theorem proposals_keep_acyclic_witness:
  "acyclic (dependency_rel (run_calls list_nx ex_proposals ex_store))
   \<and> canonical_cycles list_nx (build_graph list_nx {} (active_edges (run_calls list_nx ex_proposals ex_store))) = []"
proof -
  have "active_edges ex_store = []" by code_simp
  then have "acyclic (dependency_rel ex_store)" by (simp add: dependency_rel_def approved_rel_def acyclic_def)
  with proposals_keep_acyclic [OF list_graphs.networkx_axioms] show ?thesis by blast
qed

end
