(* ===== verification/Provider_Contract.thy ===== *)
theory Provider_Contract
  imports Prelude
begin

text \<open>
  What is known about the AI providers: the identifiers and catalogs of \<^verbatim>\<open>ai/contracts.py\<close>, the check of a model and its
  difficulty against a catalog, \<open>validate_difficulty\<close> of \<^verbatim>\<open>ai/service.py\<close>, and the options of a verification with their
  validation, \<open>VerifyOptions\<close> of \<^verbatim>\<open>incremental/orchestration.py\<close>. What a driver reports about itself is a parameter of the
  theories that ask it.
\<close>

section \<open>Identifiers\<close>

definition DRIVER_IDS :: "string list" where
  "DRIVER_IDS = [''codex_cli'', ''claude_cli'', ''copilot_cli'', ''openai_api'', ''anthropic_api'', ''gemini_api'']"

definition SUPPORTED_DRIVERS :: "string list" where
  "SUPPORTED_DRIVERS = [''codex_cli'', ''claude_cli'']"

definition DIFFICULTIES :: "string list" where
  "DIFFICULTIES = [''auto'', ''none'', ''low'', ''medium'', ''high'', ''xhigh'', ''max'']"

text \<open>\<open>[A-Za-z0-9][A-Za-z0-9._:/-]{0,255}\<close>, the whole text.\<close>

definition is_ascii_alnum :: "char \<Rightarrow> bool" where
  "is_ascii_alnum c \<longleftrightarrow> (CHR ''A'' \<le> c \<and> c \<le> CHR ''Z'') \<or> (CHR ''a'' \<le> c \<and> c \<le> CHR ''z'') \<or> (CHR ''0'' \<le> c \<and> c \<le> CHR ''9'')"

definition is_model_id :: "string \<Rightarrow> bool" where
  "is_model_id value =
     (case value of [] \<Rightarrow> False
      | c # cs \<Rightarrow> is_ascii_alnum c \<and> length cs \<le> 255 \<and> list_all (\<lambda>d. is_ascii_alnum d \<or> d \<in> set ''._:/-'') cs)"

section \<open>Catalogs\<close>

record model_descriptor =
  md_model_id :: string
  md_difficulties :: "string list"

record model_catalog =
  mc_models :: "model_descriptor list"
  mc_contract_approved :: bool

record driver_status =
  ds_ready :: bool
  ds_catalog :: "model_catalog option"

text \<open>A catalog that is not approved allows models it does not list, with the difficulties of the driver.\<close>

definition validate_difficulty :: "string list \<Rightarrow> string \<Rightarrow> string \<Rightarrow> model_catalog \<Rightarrow> unit result" where
  "validate_difficulty driver_difficulties model difficulty catalog =
     (case find (\<lambda>item. md_model_id item = model) (mc_models catalog) of
        None \<Rightarrow>
          if mc_contract_approved catalog then Inl (ValueError ''ProviderConfigError'')
          else if difficulty \<in> set driver_difficulties then Inr () else Inl (ValueError ''UnsupportedDifficultyError'')
      | Some descriptor \<Rightarrow>
          if difficulty \<in> set (md_difficulties descriptor) then Inr () else Inl (ValueError ''UnsupportedDifficultyError''))"

lemma validate_difficulty_approved:
  assumes "validate_difficulty driver_difficulties model difficulty catalog = Inr ()" and "mc_contract_approved catalog"
  shows "\<exists>item\<in>set (mc_models catalog). md_model_id item = model \<and> difficulty \<in> set (md_difficulties item)"
proof -
  obtain item where "find (\<lambda>item. md_model_id item = model) (mc_models catalog) = Some item" "difficulty \<in> set (md_difficulties item)"
    using assms by (auto simp: validate_difficulty_def split: option.splits if_splits)
  moreover from this(1) have "item \<in> set (mc_models catalog)" "md_model_id item = model" by (auto simp: find_Some_iff)
  ultimately show ?thesis by blast
qed

section \<open>Options of a verification\<close>

record verify_options =
  vo_model :: string
  vo_ai_driver :: string
  vo_jobs :: int
  vo_batch_size :: int
  vo_lean_pool_size :: int

text \<open>The texts name the driver as given, without the quotes of \<open>repr\<close>.\<close>

definition validate_options :: "verify_options \<Rightarrow> unit result" where
  "validate_options options =
     (let choices = py_join '', '' SUPPORTED_DRIVERS
      in if vo_ai_driver options \<notin> set DRIVER_IDS
         then Inl (ValueError (''Unknown AI driver '' @ vo_ai_driver options @ ''; choose one of: '' @ choices))
         else if vo_ai_driver options \<notin> set SUPPORTED_DRIVERS
         then Inl (ValueError (''Unsupported AI driver '' @ vo_ai_driver options @ ''; choose one of: '' @ choices))
         else if vo_model options = [] then Inl (ValueError ''An explicit AI model is required'')
         else if \<not> (1 \<le> vo_jobs options \<and> vo_jobs options \<le> 128)
         then Inl (ValueError ''--jobs must be between 1 and 128'')
         else if vo_batch_size options < 1 then Inl (ValueError ''--batch-size must be positive'')
         else if vo_lean_pool_size options < 1 then Inl (ValueError ''--lean-pool-size must be positive'')
         else Inr ())"

lemma validate_options_bounds:
  "validate_options options = Inr () \<Longrightarrow> vo_ai_driver options \<in> set SUPPORTED_DRIVERS \<and> vo_model options \<noteq> []
     \<and> 1 \<le> vo_jobs options \<and> vo_jobs options \<le> 128 \<and> 1 \<le> vo_batch_size options \<and> 1 \<le> vo_lean_pool_size options"
  by (auto simp: validate_options_def Let_def split: if_splits)

end
