(* ===== verification/Proof_Rounds.thy ===== *)
theory Proof_Rounds
  imports Agent_Tools Scheduler Provider_Contract
begin

text \<open>
  The proof rounds of \<^verbatim>\<open>incremental/orchestration.py\<close>: claims whose dependencies are satisfied are scheduled in
  batches, agents work on them, each batch is merged only inside its boundary, the merged project is built and its
  declarations are certified. Git, Lake, the Lean extractor and the agents' choices enter as a \<open>round_host\<close>; what the
  agents do to the store are their tool calls.
\<close>

section \<open>Batches\<close>

text \<open>\<open>_partition\<close>; its size has been validated, for 0 the source raises.\<close>

function partition_claims :: "'a list \<Rightarrow> nat \<Rightarrow> 'a list list" where
  "partition_claims values n =
     (if values = [] \<or> n = 0 then [] else take n values # partition_claims (drop n values) n)"
  by pat_completeness auto
termination by (relation "measure (\<lambda>(values, n). length values)") auto

declare partition_claims.simps [simp del]

record batch_job =
  bj_index :: int
  bj_run_id :: int
  bj_snapshot :: string
  bj_previous_snapshot :: "string option"
  bj_claims :: "string list"
  bj_require_review :: bool
  bj_pause_on_ambiguity :: bool
  bj_counterexample_search :: bool

record batch_result =
  br_index :: int
  br_claims :: "string list"
  br_base_commit :: string
  br_final_commit :: string
  br_git_status :: string
  br_build_succeeded :: bool
  br_provider_failure :: "string option"
  br_error :: "string option"
  br_build_returncode :: "int option"
  br_build_timed_out :: bool
  br_build_log :: "string option"

definition nonempty :: "string option \<Rightarrow> bool" where
  "nonempty v \<longleftrightarrow> (case v of None \<Rightarrow> False | Some s \<Rightarrow> s \<noteq> [])"

section \<open>Merging a batch\<close>

text \<open>The module of a claim; \<open>hash8\<close> is the head of the SHA-256 of the id.\<close>

definition is_alnum :: "char \<Rightarrow> bool" where
  "is_alnum c \<longleftrightarrow> (of_char c :: nat) \<in> {48..57} \<union> {65..90} \<union> {97..122}"

fun underscore_runs :: "string \<Rightarrow> string" where
  "underscore_runs [] = []"
| "underscore_runs (c # cs) =
     (if is_alnum c then c # underscore_runs cs
      else if cs \<noteq> [] \<and> \<not> is_alnum (hd cs) then underscore_runs cs else CHR ''_'' # underscore_runs cs)"

definition strip_underscores :: "string \<Rightarrow> string" where
  "strip_underscores s = rev (dropWhile (\<lambda>c. c = CHR ''_'') (rev (dropWhile (\<lambda>c. c = CHR ''_'') s)))"

definition claim_module_name :: "(string \<Rightarrow> string) \<Rightarrow> string \<Rightarrow> string" where
  "claim_module_name hash8 claim_id =
     (let stripped = strip_underscores (underscore_runs claim_id);
          stem = (if stripped = [] then ''claim'' else stripped);
          named = (if (of_char (hd stem) :: nat) \<in> {48..57} then ''claim_'' @ stem else stem)
      in ''Claim_'' @ take 60 named @ ''_'' @ hash8 claim_id)"

definition claim_module_path :: "(string \<Rightarrow> string) \<Rightarrow> string \<Rightarrow> string" where
  "claim_module_path hash8 claim_id = ''Formalization/Claims/'' @ claim_module_name hash8 claim_id @ ''.lean''"

text \<open>What Git answers for one batch: the paths changed between its base and its final commit, the commits in order,
  and for a cherry-pick nothing, or the text of the conflict (the pick is aborted).\<close>

record git_view =
  gv_changed_paths :: "string list result"
  gv_commits :: "string list result"
  gv_pick :: "string \<Rightarrow> string option result"

text \<open>The commits applied to the project, and the outcome.\<close>

fun pick_commits :: "(string \<Rightarrow> string option result) \<Rightarrow> string list \<Rightarrow> string list \<times> string option result" where
  "pick_commits pick [] = ([], Inr None)"
| "pick_commits pick (commit # commits) = (case pick commit of
     Inl e \<Rightarrow> ([], Inl e)
   | Inr (Some detail) \<Rightarrow> ([], Inr (Some (''Deterministic batch merge conflict at '' @ commit @ '': '' @ detail)))
   | Inr None \<Rightarrow> (case pick_commits pick commits of (picked, outcome) \<Rightarrow> (commit # picked, outcome)))"

definition batch_failure :: "batch_result \<Rightarrow> string option" where
  "batch_failure r =
     (if nonempty (br_provider_failure r) then br_provider_failure r
      else if nonempty (br_error r) then br_error r
      else if \<not> br_build_succeeded r then Some ''Batch final build failed''
      else if br_git_status r \<noteq> [] then Some ''Batch left uncommitted changes''
      else None)"

definition merge_batch :: "(string \<Rightarrow> string) \<Rightarrow> git_view \<Rightarrow> batch_result \<Rightarrow> string list \<times> string option result" where
  "merge_batch hash8 git r =
     (if batch_failure r \<noteq> None then ([], Inr (batch_failure r))
      else if br_final_commit r = br_base_commit r then ([], Inr None)
      else case gv_changed_paths git of
        Inl e \<Rightarrow> ([], Inl e)
      | Inr changed_paths \<Rightarrow>
          let forbidden = set changed_paths - claim_module_path hash8 ` set (br_claims r)
          in if forbidden \<noteq> {}
             then ([], Inr (Some (''Proof batch modified host-controlled paths: '' @ py_join '', '' (sorted_list_of_set forbidden))))
             else case gv_commits git of Inl e \<Rightarrow> ([], Inl e) | Inr commits \<Rightarrow> pick_commits (gv_pick git) commits)"

section \<open>The setting of the rounds\<close>

text \<open>\<open>rs_order\<close> is the order in which Python iterates over a set, \<open>rs_digest\<close> the SHA-256 of a file that exists,
  \<open>rs_printed\<close> and \<open>rs_dumps\<close> print JSON.\<close>

record run_setup =
  rs_pass :: prepared_pass
  rs_batch_size :: nat
  rs_dependency_priority :: bool
  rs_order :: "string set \<Rightarrow> string list"
  rs_baseline_axioms :: "string set"
  rs_mathlib_revision :: "string option"
  rs_run_directory :: string
  rs_digest :: "string \<Rightarrow> string option"
  rs_hash8 :: "string \<Rightarrow> string"
  rs_printed :: "json \<Rightarrow> string"
  rs_dumps :: "json \<Rightarrow> string"

abbreviation rs_run_id :: "run_setup \<Rightarrow> int" where "rs_run_id setup \<equiv> pp_run_id (rs_pass setup)"

record command_record =
  cm_argv :: "string list"
  cm_returncode :: int
  cm_stdout :: string
  cm_stderr :: string
  cm_required :: bool

definition succeeded :: "command_record \<Rightarrow> bool" where
  "succeeded c \<longleftrightarrow> cm_returncode c = 0"

definition command_output :: "command_record \<Rightarrow> string option" where
  "command_output c = (if cm_stderr c \<noteq> [] then Some (cm_stderr c) else if cm_stdout c \<noteq> [] then Some (cm_stdout c) else None)"

text \<open>\<open>artifact_record\<close>\<close>

definition artifact_record ::
    "run_setup \<Rightarrow> string \<Rightarrow> string \<Rightarrow> string list \<Rightarrow> int option \<Rightarrow> bool \<Rightarrow> artifact_payload" where
  "artifact_record setup path label command exit_code timed_out =
     \<lparr>ap_path = Some path, ap_label = Some label, ap_sha256 = rs_digest setup path, ap_command = Some command,
      ap_exit_code = exit_code, ap_timed_out = Some timed_out\<rparr>"

definition report_incident ::
    "int \<Rightarrow> string \<Rightarrow> string \<Rightarrow> string \<Rightarrow> string \<Rightarrow> string \<Rightarrow> string \<Rightarrow> string list \<Rightarrow> string option \<Rightarrow> int option
     \<Rightarrow> bool \<Rightarrow> artifact_payload list \<Rightarrow> (store_db, unit) op" where
  "report_incident run_id scope kind phase category message provenance claims detail batch retryable artifacts =
     bindS (txn (add_failure_incident run_id scope kind phase category message provenance claims detail batch retryable artifacts))
       (\<lambda>_. returnS ())"

text \<open>What the outside answers in one round.\<close>

record round_host =
  rh_checkpoint :: "unit result"
  rh_worktrees :: "unit result"
  rh_calls :: "batch_job list \<Rightarrow> (nat \<times> agent_tool \<times> tool_arguments) list"
  rh_results :: "batch_job list \<Rightarrow> batch_result list result"
  rh_merge_checkpoint :: "unit result"
  rh_git :: "batch_result \<Rightarrow> git_view"
  rh_source_mutation :: "string result"
  rh_build :: "command_record result"
  rh_extract :: "(string \<times> lean_declaration list) result"
  rh_environment_hash :: "string result"

section \<open>Scheduling a round\<close>

text \<open>The selected claims of the stored scope, or those of the prepared pass when the scope is empty.\<close>

definition selected_now :: "run_setup \<Rightarrow> store_db \<Rightarrow> string set result" where
  "selected_now setup db =
     bindE (scope_claims (rs_run_id setup) ''SELECTED'' db) (\<lambda>selected.
       Inr (if selected = {} then pp_selected (rs_pass setup) else selected))"

definition block_dependents ::
    "'g nx_api \<Rightarrow> run_setup \<Rightarrow> manuscript_edge list \<Rightarrow> (string \<Rightarrow> claim_state option) \<Rightarrow> string set \<Rightarrow> (store_db, unit) op" where
  "block_dependents N setup edges states selected =
     (let blockers = {c \<in> selected. states c = Some NEEDS_CLARIFICATION}
      in bindS (readS (\<lambda>_. blocked_descendants N (sorted_list_of_set blockers) selected edges)) (\<lambda>blocked.
         forS (\<lambda>claim_id. if states claim_id \<noteq> Some CERTIFIED
           then writeS (set_claim_state claim_id BLOCKED_DEPENDENCY (rs_run_id setup) ''block_dependency''
                  ''A manuscript dependency requires clarification'' False)
           else returnS ()) (sorted_list_of_set blocked)))"

definition order_ready ::
    "run_setup \<Rightarrow> manuscript_edge list \<Rightarrow> (string \<Rightarrow> claim_state option) \<Rightarrow> string set \<Rightarrow> string list \<Rightarrow> string list" where
  "order_ready setup edges states selected ready =
     (if ready \<noteq> [] \<and> rs_dependency_priority setup
      then map sched_claim_id (prioritize (rs_order setup)
             (map (\<lambda>(index, claim_id). \<lparr>sched_claim_id = claim_id, sched_task_class = PROOF, sched_ready_order = int index\<rparr>)
                (enumerate 0 ready))
             (pp_targets (rs_pass setup)) (Some {c \<in> selected. states c \<noteq> Some CERTIFIED})
             (map (\<lambda>c. (c, map e_dst (filter (\<lambda>e. e_src e = c) edges))) (sorted_list_of_set selected)))
      else ready)"

definition start_proving :: "run_setup \<Rightarrow> int \<Rightarrow> string list \<Rightarrow> store_db \<Rightarrow> store_db" where
  "start_proving setup round_index ready =
     fold (\<lambda>claim_id. set_claim_state claim_id PROVING (rs_run_id setup) (''schedule_round_'' @ int_text round_index)
       ''All known manuscript dependencies are certified'' False) ready"

definition schedule_round :: "'g nx_api \<Rightarrow> run_setup \<Rightarrow> int \<Rightarrow> (store_db, string list) op" where
  "schedule_round N setup round_index =
     bindS (readS (\<lambda>db. bindE (selected_now setup db) (\<lambda>selected. Inr (active_edges db, current_states db, selected))))
       (\<lambda>(edges, states, selected).
     bindS (block_dependents N setup edges states selected) (\<lambda>_.
     bindS (readS (\<lambda>db. Inr (current_states db))) (\<lambda>states.
     let ready = order_ready setup edges states selected (ready_frontier states selected edges)
     in bindS (writeS (start_proving setup round_index ready)) (\<lambda>_. returnS ready))))"

definition round_jobs :: "run_setup \<Rightarrow> int \<Rightarrow> string list \<Rightarrow> batch_job list" where
  "round_jobs setup round_index ready =
     (let pass = rs_pass setup; policy = ts_policy (pp_task pass)
      in map (\<lambda>(batch_index, claims). \<lparr>bj_index = round_index * 1000 + int batch_index, bj_run_id = pp_run_id pass,
              bj_snapshot = sn_commit (pp_snapshot pass), bj_previous_snapshot = sn_previous_commit (pp_snapshot pass),
              bj_claims = claims, bj_require_review = tp_require_statement_correspondence_review policy,
              bj_pause_on_ambiguity = tp_pause_on_ambiguity policy, bj_counterexample_search = tp_counterexample_search policy\<rparr>)
           (enumerate 1 (partition_claims ready (rs_batch_size setup))))"

section \<open>Running the batches\<close>

text \<open>The agent context a worker builds from its job.\<close>

definition job_context :: "run_setup \<Rightarrow> batch_job \<Rightarrow> agent_context" where
  "job_context setup job =
     \<lparr>ac_run_id = bj_run_id job, ac_snapshot = bj_snapshot job, ac_previous_snapshot = bj_previous_snapshot job,
      ac_allowed_claims = set (bj_claims job), ac_require_review = bj_require_review job,
      ac_pause_on_ambiguity = bj_pause_on_ambiguity job, ac_counterexample_search = bj_counterexample_search job,
      ac_printed = rs_printed setup, ac_dumps = rs_dumps setup, ac_module_path = claim_module_path (rs_hash8 setup)\<rparr>"

text \<open>The tool calls of the workers in the order they run, each with the number of its job.\<close>

definition worker_calls :: "run_setup \<Rightarrow> batch_job list \<Rightarrow> (nat \<times> agent_tool \<times> tool_arguments) list \<Rightarrow> tool_call list" where
  "worker_calls setup jobs calls =
     map (\<lambda>(i, tool, arguments). (job_context setup (jobs ! i), tool, arguments)) (filter (\<lambda>(i, _). i < length jobs) calls)"

definition execute_batch_round ::
    "'g nx_api \<Rightarrow> run_setup \<Rightarrow> round_host \<Rightarrow> batch_job list \<Rightarrow> (store_db, (batch_result \<times> string option) list) op" where
  "execute_batch_round N setup host jobs =
     bindS (writeS (run_calls N (worker_calls setup jobs (rh_calls host jobs)))) (\<lambda>_.
     bindS (readS (\<lambda>_. rh_results host jobs)) (\<lambda>results.
     bindS (readS (\<lambda>_. rh_merge_checkpoint host)) (\<lambda>_.
     readS (\<lambda>_. mapE (\<lambda>r. bindE (snd (merge_batch (rs_hash8 setup) (rh_git host r) r)) (\<lambda>failure. Inr (r, failure)))
       (sort_key br_index results)))))"

section \<open>What a batch result does to the store\<close>

text \<open>The provider failures and the technical errors of the run so far.\<close>

record run_errors =
  rx_provider :: "string list"
  rx_technical :: "string list"

definition batch_artifacts :: "run_setup \<Rightarrow> batch_result \<Rightarrow> artifact_payload list" where
  "batch_artifacts setup r =
     (case br_build_log r of None \<Rightarrow> []
      | Some build_log \<Rightarrow> if build_log = [] then [] else
          [artifact_record setup build_log ''Batch Lean build log'' [''lake'', ''build''] (br_build_returncode r) (br_build_timed_out r)])"

definition fail_claim :: "run_setup \<Rightarrow> bool \<Rightarrow> string \<Rightarrow> string \<Rightarrow> store_db \<Rightarrow> store_db" where
  "fail_claim setup provider_only failure claim_id db =
     (case claim_row_of claim_id db of None \<Rightarrow> db
      | Some row \<Rightarrow>
          if c_status row \<noteq> PROVING then db
          else let db1 = set_claim_state claim_id (if provider_only then INVALIDATED else FAILED_TECHNICAL) (rs_run_id setup)
                     (if provider_only then ''provider_failure_retry'' else ''batch_failure'') failure False db
               in if provider_only then db1
                  else add_diagnostic (rs_run_id setup) (classify_failure failure) failure (Some claim_id) ''{}'' db1)"

definition provider_failed :: "run_setup \<Rightarrow> batch_result \<Rightarrow> run_errors \<Rightarrow> (store_db, run_errors) op" where
  "provider_failed setup r errors =
     (case br_provider_failure r of
        None \<Rightarrow> returnS errors
      | Some failure \<Rightarrow>
          if failure = [] then returnS errors
          else bindS (report_incident (rs_run_id setup) ''BATCH'' ''PROVIDER'' ''PROOF_BATCH'' ''provider_failure'' failure
                 ''orchestration.batch_provider'' (br_claims r) None (Some (br_index r)) True (batch_artifacts setup r)) (\<lambda>_.
               returnS (errors\<lparr>rx_provider := rx_provider errors @ [failure]\<rparr>)))"

definition batch_failed :: "run_setup \<Rightarrow> batch_result \<Rightarrow> string option \<Rightarrow> run_errors \<Rightarrow> (store_db, run_errors) op" where
  "batch_failed setup r failed errors =
     (case failed of
        None \<Rightarrow> returnS errors
      | Some failure \<Rightarrow>
          if failure = [] then returnS errors
          else let provider_only = (nonempty (br_provider_failure r) \<and> br_provider_failure r = Some failure)
               in bindS (if provider_only then returnS ()
                         else report_incident (rs_run_id setup) ''BATCH'' ''BATCH_TECHNICAL'' ''PROOF_BATCH''
                                (classify_failure failure) failure ''orchestration.batch_boundary'' (br_claims r) None
                                (Some (br_index r)) True (batch_artifacts setup r)) (\<lambda>_.
                  bindS (writeS (fold (fail_claim setup provider_only failure) (br_claims r))) (\<lambda>_.
                  returnS (if provider_only then errors else errors\<lparr>rx_technical := rx_technical errors @ [failure]\<rparr>))))"

primrec record_results :: "run_setup \<Rightarrow> (batch_result \<times> string option) list \<Rightarrow> run_errors \<Rightarrow> (store_db, run_errors) op" where
  "record_results setup [] errors = returnS errors"
| "record_results setup (x # xs) errors =
     bindS (provider_failed setup (fst x) errors) (\<lambda>errors.
     bindS (batch_failed setup (fst x) (snd x) errors) (\<lambda>errors. record_results setup xs errors))"

section \<open>One round\<close>

record round_acc =
  ra_certified :: "string set"
  ra_reconciled :: "string set"
  ra_counterexamples :: "string set"
  ra_errors :: run_errors

definition add_technical :: "string \<Rightarrow> round_acc \<Rightarrow> round_acc" where
  "add_technical message acc =
     acc\<lparr>ra_errors := (ra_errors acc)\<lparr>rx_technical := rx_technical (ra_errors acc) @ [message]\<rparr>\<rparr>"

definition commas_for_newlines :: "string \<Rightarrow> string" where
  "commas_for_newlines s = concat (map (\<lambda>c. if c = newline then '', '' else [c]) s)"

definition report_mutation :: "run_setup \<Rightarrow> string \<Rightarrow> round_acc \<Rightarrow> (store_db, round_acc) op" where
  "report_mutation setup source_mutation acc =
     (let detail = ''A proof batch modified the immutable manuscript snapshot: '' @ commas_for_newlines source_mutation
      in bindS (report_incident (rs_run_id setup) ''RUN'' ''SOURCE_INTEGRITY'' ''PROOF_BATCH'' ''immutable_source_mutation''
             detail ''orchestration.source_boundary'' [] None None False
             [artifact_record setup (rs_run_directory setup @ ''/source-integrity.log'')
                ''Immutable source boundary violation'' [] None False]) (\<lambda>_.
         returnS (add_technical detail acc)))"

definition build_log_path :: "run_setup \<Rightarrow> int \<Rightarrow> string" where
  "build_log_path setup round_index = rs_run_directory setup @ ''/round-'' @ format_padded 4 round_index @ ''-build.log''"

definition report_build_failure ::
    "run_setup \<Rightarrow> string \<Rightarrow> string \<Rightarrow> string \<Rightarrow> string \<Rightarrow> string \<Rightarrow> command_record \<Rightarrow> (store_db, unit) op" where
  "report_build_failure setup category message provenance path label build =
     report_incident (rs_run_id setup) ''RUN'' ''INFRASTRUCTURE'' ''LEAN_BUILD'' category message provenance []
       (command_output build) None True
       [artifact_record setup path label (cm_argv build) (Some (cm_returncode build)) (cm_returncode build = 124)]"

definition run_cert_context ::
    "run_setup \<Rightarrow> manuscript_edge list \<Rightarrow> lean_declaration list \<Rightarrow> string \<Rightarrow> string \<Rightarrow> cert_context" where
  "run_cert_context setup edges declarations environment_hash lean_version =
     \<lparr>cx_run_id = rs_run_id setup, cx_snapshot = sn_commit (pp_snapshot (rs_pass setup)), cx_objects = pp_objects (rs_pass setup),
      cx_edges = edges, cx_declarations = declarations, cx_environment_hash = environment_hash,
      cx_lean_version = lean_version, cx_mathlib_revision = rs_mathlib_revision setup,
      cx_baseline_project_axioms = rs_baseline_axioms setup\<rparr>"

definition mark_unresolved :: "run_setup \<Rightarrow> string \<Rightarrow> store_db \<Rightarrow> store_db" where
  "mark_unresolved setup claim_id db =
     (case claim_row_of claim_id db of None \<Rightarrow> db
      | Some row \<Rightarrow> if c_status row \<noteq> PROVING then db
          else set_claim_state claim_id UNRESOLVED (rs_run_id setup) ''missing_result''
                 ''Proof batch produced no host-valid certificate or clarification'' False db)"

text \<open>Certifying what the round built. The declarations come from the merged project.\<close>

definition certify_round :: "run_setup \<Rightarrow> round_host \<Rightarrow> string list \<Rightarrow> (store_db, certification_result) op" where
  "certify_round setup host ready =
     bindS (readS (\<lambda>_. rh_extract host)) (\<lambda>(lean_version, declarations).
     bindS (readS (\<lambda>_. rh_environment_hash host)) (\<lambda>environment_hash.
     bindS (writeS (replace_lean_graph declarations (rs_run_id setup))) (\<lambda>_.
     bindS (modifyS (\<lambda>db. certify_current_correspondence
              (run_cert_context setup (active_edges db) declarations environment_hash lean_version) db)) (\<lambda>certification.
     bindS (writeS (fold (mark_unresolved setup) ready)) (\<lambda>_.
     returnS certification)))))"

text \<open>After the batches: \<open>(True, acc)\<close> when the loop goes on, \<open>(False, acc)\<close> when it breaks.\<close>

definition finish_round ::
    "run_setup \<Rightarrow> round_host \<Rightarrow> int \<Rightarrow> string list \<Rightarrow> round_acc \<Rightarrow> (store_db, bool \<times> round_acc) op" where
  "finish_round setup host round_index ready acc =
     bindS (readS (\<lambda>_. rh_source_mutation host)) (\<lambda>source_mutation.
     if source_mutation \<noteq> []
     then bindS (report_mutation setup source_mutation acc) (\<lambda>acc. returnS (False, acc))
     else
       bindS (readS (\<lambda>_. rh_build host)) (\<lambda>build.
       if \<not> succeeded build
       then bindS (report_build_failure setup ''merged_build_failure'' ''Independent merged-project Lake build failed''
                     ''orchestration.merged_build'' (build_log_path setup round_index) ''Merged-project Lean build log'' build) (\<lambda>_.
              returnS (False, add_technical ''Independent merged-project Lake build failed'' acc))
       else
         bindS (certify_round setup host ready) (\<lambda>certification.
         returnS (True, acc\<lparr>ra_certified := ra_certified acc \<union> set (cr_certified certification),
           ra_reconciled := ra_reconciled acc \<union> set (cr_reconciled certification),
           ra_counterexamples := ra_counterexamples acc \<union> set (cr_counterexamples certification)\<rparr>))))"

definition proof_round ::
    "'g nx_api \<Rightarrow> run_setup \<Rightarrow> round_host \<Rightarrow> int \<Rightarrow> round_acc \<Rightarrow> (store_db, bool \<times> round_acc) op" where
  "proof_round N setup host round_index acc =
     bindS (readS (\<lambda>_. rh_checkpoint host)) (\<lambda>_.
     if rx_technical (ra_errors acc) \<noteq> [] \<or> rx_provider (ra_errors acc) \<noteq> [] then returnS (False, acc)
     else
       bindS (schedule_round N setup round_index) (\<lambda>ready.
       if ready = [] then returnS (False, acc)
       else
         bindS (readS (\<lambda>_. rh_worktrees host)) (\<lambda>_.
         bindS (execute_batch_round N setup host (round_jobs setup round_index ready)) (\<lambda>results.
         bindS (record_results setup results (ra_errors acc)) (\<lambda>errors.
         finish_round setup host round_index ready (acc\<lparr>ra_errors := errors\<rparr>))))))"

text \<open>\<open>while round_index <= len(objects) + 1\<close>, with \<open>fuel\<close> the number of rounds that are left.\<close>

primrec proof_rounds ::
    "nat \<Rightarrow> 'g nx_api \<Rightarrow> run_setup \<Rightarrow> (int \<Rightarrow> round_host) \<Rightarrow> int \<Rightarrow> round_acc \<Rightarrow> (store_db, round_acc) op" where
  "proof_rounds 0 N setup hosts round_index acc = returnS acc"
| "proof_rounds (Suc fuel) N setup hosts round_index acc =
     bindS (proof_round N setup (hosts (round_index + 1)) (round_index + 1) acc) (\<lambda>(continue, acc).
       if continue then proof_rounds fuel N setup hosts (round_index + 1) acc else returnS acc)"

definition all_rounds :: "'g nx_api \<Rightarrow> run_setup \<Rightarrow> (int \<Rightarrow> round_host) \<Rightarrow> round_acc \<Rightarrow> (store_db, round_acc) op" where
  "all_rounds N setup hosts = proof_rounds (length (pp_objects (rs_pass setup)) + 2) N setup hosts 0"

end
