(* ===== verification/Verification_Run.thy ===== *)
theory Verification_Run
  imports Proof_Rounds
begin

text \<open>
  \<^verbatim>\<open>verify_project\<close> of \<^verbatim>\<open>incremental/orchestration.py\<close> on the store: a pass is prepared, prior certificates are
  renewed and pending correspondences certified, proof rounds run, the whole project is built once more, and the run
  is closed with a verdict; the exception handler closes it otherwise. What Lake, Lean, Git, the file system and the
  user's cancellation answer is a \<open>run_host\<close>.
\<close>

section \<open>The outside of a run\<close>

text \<open>\<open>vh_enter\<close> stands for everything before the pass is prepared, \<open>vh_publish\<close> for the reports, exports and the
  final commit; each checkpoint may raise \<open>VerificationCancelled\<close>.\<close>

record run_host =
  vh_enter :: "unit result"
  vh_input :: pass_input
  vh_configured :: string
  vh_initial_effective :: string
  vh_final_effective :: string
  vh_telemetry :: string
  vh_checkpoint :: "unit result"
  vh_setup :: "command_record list result"
  vh_setup_checkpoint :: "unit result"
  vh_bootstrap_commit :: "unit result"
  vh_baseline :: "(string \<times> lean_declaration list) result"
  vh_baseline_checkpoint :: "unit result"
  vh_environment_hash :: "string result"
  vh_mathlib_revision :: "string option"
  vh_repoprover_error :: "string option"
  vh_rounds :: "int \<Rightarrow> round_host"
  vh_final_build :: "command_record result"
  vh_final_checkpoint :: "unit result"
  vh_final_extract :: "(string \<times> lean_declaration list) result"
  vh_publish :: "unit result"
  vh_exception_artifacts :: "artifact_payload list"
  vh_dependency_priority :: bool
  vh_order :: "string set \<Rightarrow> string list"
  vh_run_directory :: string
  vh_digest :: "string \<Rightarrow> string option"
  vh_hash8 :: "string \<Rightarrow> string"
  vh_printed :: "json \<Rightarrow> string"
  vh_dumps :: "json \<Rightarrow> string"

definition run_setup_of :: "run_host \<Rightarrow> verify_options \<Rightarrow> prepared_pass \<Rightarrow> string set \<Rightarrow> run_setup" where
  "run_setup_of host options prepared baseline_axioms =
     \<lparr>rs_pass = prepared, rs_batch_size = nat (vo_batch_size options), rs_dependency_priority = vh_dependency_priority host,
      rs_order = vh_order host, rs_baseline_axioms = baseline_axioms, rs_mathlib_revision = vh_mathlib_revision host,
      rs_run_directory = vh_run_directory host, rs_digest = vh_digest host, rs_hash8 = vh_hash8 host,
      rs_printed = vh_printed host, rs_dumps = vh_dumps host\<rparr>"

section \<open>Setup\<close>

definition first_failed :: "command_record list \<Rightarrow> command_record option" where
  "first_failed records = find (\<lambda>r. cm_required r \<and> \<not> succeeded r) records"

definition check_setup :: "run_setup \<Rightarrow> command_record list \<Rightarrow> (store_db, unit) op" where
  "check_setup setup records =
     (case first_failed records of None \<Rightarrow> returnS ()
      | Some failed \<Rightarrow>
          let setup_log = rs_run_directory setup @ ''/setup.log'';
              setup_detail = ''Required Lean setup failed: '' @ py_join '' '' (cm_argv failed) @ ''; see '' @ setup_log
          in bindS (report_incident (rs_run_id setup) ''RUN'' ''INFRASTRUCTURE'' ''CACHE_SETUP'' ''lean_setup'' setup_detail
                 ''orchestration.bootstrap_lean_workspace'' [] (command_output failed) None True
                 [artifact_record setup setup_log ''Lean setup log'' (cm_argv failed) (Some (cm_returncode failed))
                    (cm_returncode failed = 124)]) (\<lambda>_.
             raiseS (RuntimeError setup_detail)))"

section \<open>Certificates that need no new proof\<close>

definition approve_pending :: "int \<Rightarrow> store_db \<Rightarrow> store_db" where
  "approve_pending run_id db = db\<lparr>t_correspondence := update_where
     (\<lambda>c. co_status c = ''approved_pending'' \<and> co_approved c)
     (\<lambda>c. c\<lparr>co_last_updated_run := run_id, co_status := ''approved''\<rparr>) (t_correspondence db)\<rparr>"

definition correspondence_ids :: "store_db \<Rightarrow> string set" where
  "correspondence_ids db = co_claim_id ` set (t_correspondence db)"

lemma certify_loop_writes:
  "t_correspondence (ca_store (fold (certify_correspondence cx) corrs acc)) = t_correspondence (ca_store acc)
   \<and> set (ca_certified (fold (certify_correspondence cx) corrs acc)) \<subseteq> set (ca_certified acc) \<union> co_claim_id ` set corrs"
proof (induction corrs arbitrary: acc)
  case (Cons corr corrs)
  have "t_correspondence (ca_store (certify_correspondence cx corr acc)) = t_correspondence (ca_store acc)
    \<and> set (ca_certified (certify_correspondence cx corr acc)) \<subseteq> insert (co_claim_id corr) (set (ca_certified acc))"
    by (auto simp: certify_correspondence_def Let_def set_claim_state_def upsert_certificate_def split: verdict.split)
  with Cons.IH [of "certify_correspondence cx corr acc"] show ?case by auto
qed simp

lemma certify_writes:
  assumes "certify_current_correspondence cx db = (db', current)"
  shows "t_correspondence db' = t_correspondence db" "set (cr_certified current) \<subseteq> correspondence_ids db"
proof -
  have "t_correspondence (fold (reject_certificate r) rejected d) = t_correspondence d" for r rejected d
    by (induction rejected arbitrary: d)
      (auto simp: reject_certificate_def add_diagnostic_def set_claim_state_def Let_def split: prod.splits)
  moreover have "set (correspondence_rows db) = set (t_correspondence db)" by (simp add: correspondence_rows_def)
  ultimately show "t_correspondence db' = t_correspondence db" "set (cr_certified current) \<subseteq> correspondence_ids db"
    using assms certify_loop_writes [of cx "correspondence_rows db"
        "\<lparr>ca_store = db, ca_certified = [], ca_reconciled = [], ca_counterexamples = [], ca_rejected = []\<rparr>"]
    by (auto simp: certify_current_correspondence_def Let_def correspondence_ids_def)
qed

lemma certify_progress:
  assumes "(db', current) = certify_current_correspondence cx db" and "\<not> set (cr_certified current) \<subseteq> certified"
  shows "card (correspondence_ids db' - (certified \<union> set (cr_certified current))) < card (correspondence_ids db - certified)"
proof -
  note writes = certify_writes [OF assms(1) [symmetric]]
  have "correspondence_ids db' - (certified \<union> set (cr_certified current)) \<subset> correspondence_ids db - certified"
    using assms(2) writes by (auto simp: correspondence_ids_def)
  then show ?thesis by (simp add: psubset_card_mono correspondence_ids_def)
qed

text \<open>The \<open>while True\<close> loop ends: an iteration that does not leave it certifies a claim of the correspondence table for
  the first time in the loop.\<close>

function certify_until_stable ::
    "(store_db \<Rightarrow> cert_context) \<Rightarrow> store_db \<Rightarrow> string set \<Rightarrow> string set \<Rightarrow> string set
     \<Rightarrow> store_db \<times> string set \<times> string set \<times> string set" where
  "certify_until_stable cx db certified reconciled counterexamples =
     (case certify_current_correspondence (cx db) db of (db', current) \<Rightarrow>
        if set (cr_certified current) \<subseteq> certified
        then (db', certified \<union> set (cr_certified current), reconciled \<union> set (cr_reconciled current),
              counterexamples \<union> set (cr_counterexamples current))
        else certify_until_stable cx db' (certified \<union> set (cr_certified current)) (reconciled \<union> set (cr_reconciled current))
               (counterexamples \<union> set (cr_counterexamples current)))"
  by pat_completeness auto
termination
  by (relation "measure (\<lambda>(cx, db, certified, reconciled, counterexamples). card (correspondence_ids db - certified))")
    (simp_all add: certify_progress)

declare certify_until_stable.simps [simp del]

text \<open>Renewal, the pending approvals and the loop, on the baseline declarations.\<close>

definition certify_initially ::
    "run_setup \<Rightarrow> string \<Rightarrow> string \<Rightarrow> lean_declaration list \<Rightarrow> (store_db, string list \<times> round_acc) op" where
  "certify_initially setup lean_version environment_hash declarations =
     bindS (writeS (replace_lean_graph declarations (rs_run_id setup))) (\<lambda>_.
     bindS (modifyS (\<lambda>db. revalidate_unchanged_certificates
              (run_cert_context setup (active_edges db) declarations environment_hash lean_version) db)) (\<lambda>reused.
     bindS (writeS (approve_pending (rs_run_id setup))) (\<lambda>_.
     bindS (modifyS (\<lambda>db. certify_until_stable
              (\<lambda>db. run_cert_context setup (active_edges db) declarations environment_hash lean_version) db {} {} {}))
       (\<lambda>(certified, reconciled, counterexamples).
     returnS (reused, \<lparr>ra_certified = certified, ra_reconciled = reconciled, ra_counterexamples = counterexamples,
                       ra_errors = \<lparr>rx_provider = [], rx_technical = []\<rparr>\<rparr>)))))"

definition retry_technical :: "run_setup \<Rightarrow> string \<Rightarrow> store_db \<Rightarrow> store_db" where
  "retry_technical setup claim_id db =
     (case claim_row_of claim_id db of None \<Rightarrow> db
      | Some row \<Rightarrow> if c_status row \<noteq> FAILED_TECHNICAL then db
          else set_claim_state claim_id INVALIDATED (rs_run_id setup) ''retry_technical_failure''
                 ''RepoProver host preflight succeeded; retrying a prior technical failure'' False db)"

definition needs_agent :: "run_setup \<Rightarrow> store_db \<Rightarrow> bool" where
  "needs_agent setup db =
     (let states = current_states db; selected = pp_selected (rs_pass setup)
      in ready_frontier states selected (active_edges db) \<noteq> [] \<or> (\<exists>c\<in>selected. states c = Some FAILED_TECHNICAL))"

definition preflight_proof_batches :: "run_setup \<Rightarrow> string option \<Rightarrow> (store_db, string option) op" where
  "preflight_proof_batches setup repoprover_error =
     bindS (readS (\<lambda>db. Inr (needs_agent setup db))) (\<lambda>needed.
     if \<not> needed then returnS None
     else case repoprover_error of
       Some problem \<Rightarrow>
         let detail = ''RepoProver host preflight failed before scheduling proof claims: '' @ problem
         in bindS (report_incident (rs_run_id setup) ''RUN'' ''INFRASTRUCTURE'' ''PROOF_PREFLIGHT'' ''repoprover_import'' detail
                ''orchestration.repoprover_preflight'' [] None None True []) (\<lambda>_. returnS (Some detail))
     | None \<Rightarrow>
         bindS (writeS (fold (retry_technical setup) (sorted_list_of_set (pp_selected (rs_pass setup))))) (\<lambda>_.
         returnS None))"

section \<open>The verdict\<close>

definition run_verdict ::
    "run_errors \<Rightarrow> bool \<Rightarrow> (string \<Rightarrow> claim_state option) \<Rightarrow> string set \<Rightarrow> string list \<Rightarrow> string \<times> string \<times> int" where
  "run_verdict errors build_ok states goals questions =
     (let target_state = (\<lambda>c. dict_get states c UNRESOLVED)
      in if rx_provider errors \<noteq> [] then (''provider_failure'', hd (rx_provider errors), 21)
         else if rx_technical errors \<noteq> [] \<or> \<not> build_ok
         then (''lean_infrastructure_failure'',
               if rx_technical errors \<noteq> [] then hd (rx_technical errors) else ''Final build failed'', 22)
         else if \<exists>c\<in>goals. target_state c = COUNTEREXAMPLE_FOUND
         then (''counterexample_found'', ''A target has a kernel-checked counterexample certificate'', 12)
         else if questions \<noteq> []
         then (''clarification_required'', ''Author clarification is required; certified work was preserved'', 10)
         else if goals = {}
         then (''no_proof_obligations'', ''No proof-bearing manuscript assertions required '' @
                 ''verification; conjectural and unproved assertions '' @ ''were skipped'', 0)
         else if \<forall>c\<in>goals. target_state c = CERTIFIED
         then (''verified'', ''Every selected target has a current Lean certificate'', 0)
         else (''partial_unresolved'', ''Verification is incomplete; no falsity conclusion was made'', 11))"

record verification_result =
  vr_outcome :: string
  vr_detail :: string
  vr_exit_code :: int
  vr_run_id :: int
  vr_snapshot :: string
  vr_certified :: "string list"
  vr_reused :: "string list"
  vr_reconciled :: "string list"
  vr_questions :: "string list"
  vr_counterexamples :: "string list"
  vr_skipped_unproved :: "string list"

text \<open>Closing the run after the last build: errors make the claims still in flight retryable.\<close>

definition reset_on_errors :: "run_setup \<Rightarrow> run_errors \<Rightarrow> bool \<Rightarrow> store_db \<Rightarrow> store_db" where
  "reset_on_errors setup errors build_ok db =
     (if rx_provider errors \<noteq> [] \<or> rx_technical errors \<noteq> [] \<or> \<not> build_ok
      then fst (reset_in_flight_claims (rs_run_id setup) ''failed_run_retry''
                  (''Verification ended before certification; proof '' @ ''remains retryable'') db)
      else db)"

definition close_run ::
    "run_host \<Rightarrow> run_setup \<Rightarrow> run_errors \<Rightarrow> bool \<Rightarrow> (store_db, (string \<times> string \<times> int) \<times> string list) op" where
  "close_run host setup errors build_ok =
     bindS (readS (\<lambda>db. Inr (active_edges db))) (\<lambda>edges.
     bindS (voidS (replace_run_dependency_edges (rs_run_id setup) edges)) (\<lambda>_.
     bindS (writeS (reset_on_errors setup errors build_ok)) (\<lambda>_.
     bindS (readS (\<lambda>db. Inr (current_states db, map q_question_id (open_questions db)))) (\<lambda>(states, questions).
     case run_verdict errors build_ok states (pp_targets (rs_pass setup)) questions of (outcome, detail, exit_code) \<Rightarrow>
       bindS (writeS (finish_run_concurrency (rs_run_id setup) (vh_final_effective host) (vh_telemetry host))) (\<lambda>_.
       bindS (writeS (finish_run (rs_run_id setup) (if exit_code \<in> {0, 10, 11, 12} then ''COMPLETE'' else ''FAILED'') outcome
                (pi_now (vh_input host)) detail)) (\<lambda>_.
       bindS (voidS (record_run_claim_nodes (rs_run_id setup))) (\<lambda>_.
       returnS ((outcome, detail, exit_code), questions))))))))"

definition final_errors :: "run_host \<Rightarrow> run_setup \<Rightarrow> command_record \<Rightarrow> run_errors \<Rightarrow> (store_db, run_errors) op" where
  "final_errors host setup final_build errors =
     (if succeeded final_build then returnS errors
      else bindS (report_build_failure setup ''final_build_failure'' ''Final independent Lake build failed''
             ''orchestration.final_build'' (rs_run_directory setup @ ''/final-build.log'')
             ''Final independent Lean build log'' final_build) (\<lambda>_.
           returnS (errors\<lparr>rx_technical := rx_technical errors @ [''Final independent Lake build failed'']\<rparr>)))"

definition finish_verification ::
    "run_host \<Rightarrow> run_setup \<Rightarrow> string list \<Rightarrow> round_acc \<Rightarrow> (store_db, verification_result) op" where
  "finish_verification host setup reused acc =
     bindS (readS (\<lambda>_. vh_final_build host)) (\<lambda>final_build.
     bindS (readS (\<lambda>_. vh_final_checkpoint host)) (\<lambda>_.
     bindS (final_errors host setup final_build (ra_errors acc)) (\<lambda>errors.
     bindS (readS (\<lambda>_. vh_final_extract host)) (\<lambda>(lean_version, declarations).
     bindS (writeS (replace_lean_graph declarations (rs_run_id setup))) (\<lambda>_.
     bindS (close_run host setup errors (succeeded final_build)) (\<lambda>(verdict, questions).
     bindS (readS (\<lambda>_. vh_publish host)) (\<lambda>_.
     returnS \<lparr>vr_outcome = fst verdict, vr_detail = fst (snd verdict), vr_exit_code = snd (snd verdict), vr_run_id = rs_run_id setup,
        vr_snapshot = sn_commit (pp_snapshot (rs_pass setup)), vr_certified = sorted_list_of_set (ra_certified acc),
        vr_reused = reused, vr_reconciled = sorted_list_of_set (ra_reconciled acc), vr_questions = questions,
        vr_counterexamples = sorted_list_of_set (ra_counterexamples acc),
        vr_skipped_unproved = sorted_list_of_set (pp_skipped_unproved (rs_pass setup))\<rparr>)))))))"

section \<open>The whole run\<close>

definition with_preflight :: "string option \<Rightarrow> round_acc \<Rightarrow> round_acc" where
  "with_preflight failure acc = (case failure of None \<Rightarrow> acc | Some message \<Rightarrow> add_technical message acc)"

definition run_body :: "'g nx_api \<Rightarrow> run_host \<Rightarrow> verify_options \<Rightarrow> prepared_pass \<Rightarrow> (store_db, verification_result) op" where
  "run_body N host options prepared =
     (let setup0 = run_setup_of host options prepared {}
      in bindS (voidS (record_run_concurrency (pp_run_id prepared) (vh_configured host) (vh_initial_effective host) (vh_telemetry host))) (\<lambda>_.
         bindS (readS (\<lambda>_. vh_checkpoint host)) (\<lambda>_.
         bindS (readS (\<lambda>_. vh_setup host)) (\<lambda>records.
         bindS (readS (\<lambda>_. vh_setup_checkpoint host)) (\<lambda>_.
         bindS (check_setup setup0 records) (\<lambda>_.
         bindS (readS (\<lambda>_. vh_bootstrap_commit host)) (\<lambda>_.
         bindS (readS (\<lambda>_. vh_baseline host)) (\<lambda>(lean_version, declarations).
         bindS (readS (\<lambda>_. vh_baseline_checkpoint host)) (\<lambda>_.
         bindS (readS (\<lambda>_. vh_environment_hash host)) (\<lambda>environment_hash.
         let setup = run_setup_of host options prepared
               (set (map ld_name (filter (\<lambda>d. ld_kind d = ''axiom'') declarations)))
         in bindS (certify_initially setup lean_version environment_hash declarations) (\<lambda>(reused, acc).
            bindS (preflight_proof_batches setup (vh_repoprover_error host)) (\<lambda>failure.
            bindS (all_rounds N setup (vh_rounds host) (with_preflight failure acc)) (\<lambda>acc.
            finish_verification host setup reused acc)))))))))))))"

fun is_cancellation :: "py_error \<Rightarrow> bool" where
  "is_cancellation (VerificationCancelled _) = True"
| "is_cancellation _ = False"

text \<open>The \<open>except\<close> branch. Its first three writes are one transaction.\<close>

definition close_failed_run :: "run_host \<Rightarrow> int \<Rightarrow> py_error \<Rightarrow> store_db \<Rightarrow> store_db" where
  "close_failed_run host run_id e db =
     (let cancelled = is_cancellation e; (name, message) = pi_describe (vh_input host) e
      in finish_run_concurrency run_id (vh_final_effective host) (vh_telemetry host)
          (finish_run run_id (if cancelled then ''INTERRUPTED'' else ''FAILED'')
             (if cancelled then ''interrupted'' else ''setup_failure'') (pi_now (vh_input host)) (name @ '': '' @ message)
          (fst (reset_in_flight_claims run_id (if cancelled then ''cancel_retry'' else ''failed_run_retry'')
             (if cancelled then ''Verification was safely cancelled; proof must be retried''
              else ''Verification failed before certification; proof must be retried'') db))))"

definition handle_failure :: "run_host \<Rightarrow> prepared_pass \<Rightarrow> py_error \<Rightarrow> (store_db, 'a) op" where
  "handle_failure host prepared e =
     (case pi_describe (vh_input host) e of (name, message) \<Rightarrow>
        bindS (writeS (close_failed_run host (pp_run_id prepared) e)) (\<lambda>_.
        bindS (if is_cancellation e then returnS ()
               else report_incident (pp_run_id prepared) ''RUN'' ''INFRASTRUCTURE'' ''ORCHESTRATION'' name
                      (if message = [] then name else message) ''orchestration.unhandled_exception'' []
                      (Some (name @ '': '' @ message)) None True (vh_exception_artifacts host)) (\<lambda>_.
        bindS (readS (\<lambda>db. Inr (active_edges db))) (\<lambda>edges.
        bindS (voidS (replace_run_dependency_edges (pp_run_id prepared) edges)) (\<lambda>_.
        bindS (voidS (record_run_claim_nodes (pp_run_id prepared))) (\<lambda>_.
        raiseS e))))))"

definition verify_project :: "'g nx_api \<Rightarrow> run_host \<Rightarrow> verify_options \<Rightarrow> (store_db, verification_result) op" where
  "verify_project N host options =
     bindS (readS (\<lambda>_. validate_options options)) (\<lambda>_.
     bindS (readS (\<lambda>_. vh_enter host)) (\<lambda>_.
     bindS (prepare_pass N (vh_input host)) (\<lambda>prepared.
     tryS (run_body N host options prepared) (handle_failure host prepared))))"

end
