(* ===== verification/Run_Invariants.thy ===== *)
theory Run_Invariants
  imports Verification_Run
begin

text \<open>
  What a whole verification run keeps. The steps of a run, from the preparation of the pass to the exception handler,
  are clients of the store: most write neither the claims nor the certificates, and the others set the state of a
  claim in few ways. The locale below states those ways once; a predicate that respects them is kept by every step.
\<close>

section \<open>Writes that change no claim and no certificate\<close>

definition proved_rows :: "store_db \<Rightarrow> claim_row list \<times> certificate_row list" where
  "proved_rows d = (t_claims d, t_certificates d)"

named_theorems same_proved "the operations that write neither claims nor certificates"

lemma same_proved_writes [same_proved]:
  "proved_rows (add_diagnostic run_id cat msg who details d) = proved_rows d"
  "proved_rows (add_manuscript_edge snapshot edge d) = proved_rows d"
  "proved_rows (replace_manuscript_edges snapshot edges d) = proved_rows d"
  "proved_rows (set_metadata key value d) = proved_rows d"
  "proved_rows (record_snapshot s src_root task t d) = proved_rows d"
  "proved_rows (update_run_snapshot run_id s' p d) = proved_rows d"
  "proved_rows (finish_run run_id status outcome t detail d) = proved_rows d"
  "proved_rows (finish_run_concurrency run_id effective telemetry d) = proved_rows d"
  "proved_rows (fst (begin_run command t s0 p0 h m e d)) = proved_rows d"
  "proved_rows (replace_lean_graph declarations run_id d) = proved_rows d"
  "proved_rows (approve_pending run_id d) = proved_rows d"
proof -
  have add: "proved_rows (add_manuscript_edge snapshot edge d) = proved_rows d" for edge d
    by (simp add: proved_rows_def add_manuscript_edge_def)
  then show "proved_rows (add_manuscript_edge snapshot edge d) = proved_rows d" .
  have "proved_rows (fold (add_manuscript_edge snapshot) edges d) = proved_rows d" for d
    by (induction edges arbitrary: d) (simp_all add: add)
  then show "proved_rows (replace_manuscript_edges snapshot edges d) = proved_rows d"
    by (simp add: replace_manuscript_edges_def) (simp add: proved_rows_def)
  have "proved_rows (fold (store_declaration run_id) declarations d) = proved_rows d" for d
  proof (induction declarations arbitrary: d)
    case (Cons decl decls)
    have "proved_rows (store_declaration run_id decl d) = proved_rows d"
      by (simp add: proved_rows_def store_declaration_def Let_def)
    with Cons show ?case by simp
  qed simp
  then show "proved_rows (replace_lean_graph declarations run_id d) = proved_rows d"
    by (simp add: replace_lean_graph_def Let_def proved_rows_def)
qed (simp_all add: proved_rows_def add_diagnostic_def set_metadata_def record_snapshot_def update_run_snapshot_def finish_run_def
    finish_run_concurrency_def begin_run_def approve_pending_def Let_def)

lemma same_proved_results [same_proved]:
  "create_question cid snapshot category passage problem resolutions blocking run_id origin d = Inr (d', qid) \<Longrightarrow> proved_rows d' = proved_rows d"
  "refresh_open_question cid snapshot category passage problem resolutions blocking origin' d = Inr d' \<Longrightarrow> proved_rows d' = proved_rows d"
  "resolve_question qid run resolution status d = Inr (d', found) \<Longrightarrow> proved_rows d' = proved_rows d"
  "record_run_scope run_id ts ss d = Inr d' \<Longrightarrow> proved_rows d' = proved_rows d"
  "replace_run_dependency_edges run_id edges d = Inr d' \<Longrightarrow> proved_rows d' = proved_rows d"
  "record_run_claim_nodes run_id d = Inr d' \<Longrightarrow> proved_rows d' = proved_rows d"
  "record_run_concurrency run_id configured effective telemetry d = Inr d' \<Longrightarrow> proved_rows d' = proved_rows d"
  "allocate_claim_id kind d = Inr (d', cid) \<Longrightarrow> proved_rows d' = proved_rows d"
  by (auto simp: create_question_def refresh_open_question_def resolve_question_def record_run_scope_def record_run_claim_nodes_def
      replace_run_dependency_edges_def record_run_concurrency_def allocate_claim_id_def proved_rows_def Let_def bindE_Inr_iff
      set_metadata_def split: if_splits option.splits)

lemma same_proved_incident [same_proved]:
  assumes "add_failure_incident run_id scope kind phase category message provenance cids detail batch retryable artifacts d = Inr (d', fid)"
  shows "proved_rows d' = proved_rows d"
  using same_proofs_incident [OF assms] same_claims_incident [OF assms] by (simp add: proved_rows_def proof_tables_def)

lemma approve_pending_inv: "store_inv d \<Longrightarrow> store_inv (approve_pending run_id d)"
  by (simp add: approve_pending_def store_inv_def unique_on_update_where)

section \<open>The interface\<close>

lemma preserves_writeD: "preservesS I (writeS f) \<Longrightarrow> I d \<Longrightarrow> I (f d)"
  by (simp add: preservesS_def writeS_def)

lemma preserves_try:
  assumes "preservesS I m" and "\<And>e. preservesS I (handler e)"
  shows "preservesS I (tryS m handler)"
proof -
  have "I (fst (tryS m handler s))" if "I s" for s
    using preservesSD [OF assms(1) that] preservesSD [OF assms(2), of "fst (m s)"]
    by (auto simp: tryS_def split: prod.split sum.split)
  then show ?thesis by (simp add: preservesS_def)
qed

locale claim_keeper =
  fixes I :: "store_db \<Rightarrow> bool"
  assumes inv: "I d \<Longrightarrow> store_inv d"
    and other: "I d \<Longrightarrow> store_inv d' \<Longrightarrow> proved_rows d' = proved_rows d \<Longrightarrow> I d'"
    and state: "I d \<Longrightarrow> s \<notin> {CERTIFIED, COUNTEREXAMPLE_FOUND, PROVING} \<Longrightarrow> I (set_claim_state c s run_id action reason reused d)"
    and relabel: "I d \<Longrightarrow> set_correspondence c decl run_id status provenance approved d = Inr d' \<Longrightarrow> I d'"
    and reproof: "I d \<Longrightarrow> I (reproof_claim run_id c d)"
    and grant: "I d \<Longrightarrow> (s, ct_status row) \<in> {(CERTIFIED, ''CERTIFIED''), (COUNTEREXAMPLE_FOUND, ''COUNTEREXAMPLE'')}
      \<Longrightarrow> I (set_claim_state (ct_claim_id row) s run_id action reason reused (upsert_certificate row d))"
    and revalidate: "I d \<Longrightarrow> I (fst (revalidate_unchanged_certificates cx d))"
    and reset: "I d \<Longrightarrow> I (fst (reset_in_flight_claims run_id action reason d))"
begin

lemma keeps_write: "(\<And>d. store_inv d \<Longrightarrow> store_inv (f d)) \<Longrightarrow> (\<And>d. proved_rows (f d) = proved_rows d) \<Longrightarrow> preservesS I (writeS f)"
  by (rule preserves_write) (metis other inv)

lemma keeps_void: "(\<And>d d'. store_inv d \<Longrightarrow> f d = Inr d' \<Longrightarrow> store_inv d') \<Longrightarrow> (\<And>d d'. f d = Inr d' \<Longrightarrow> proved_rows d' = proved_rows d)
   \<Longrightarrow> preservesS I (voidS f)"
  by (rule preserves_void) (metis other inv)

lemma keeps_txn: "(\<And>d d' x. store_inv d \<Longrightarrow> f d = Inr (d', x) \<Longrightarrow> store_inv d') \<Longrightarrow> (\<And>d d' x. f d = Inr (d', x) \<Longrightarrow> proved_rows d' = proved_rows d)
   \<Longrightarrow> preservesS I (txn f)"
  by (rule preservesS_txn) (metis other inv)

lemma keeps_writes:
  "preservesS I (writeS (add_diagnostic run_id cat msg who details))"
  "preservesS I (writeS (add_manuscript_edge snapshot edge))"
  "preservesS I (writeS (replace_manuscript_edges snapshot edges))"
  "preservesS I (writeS (record_snapshot s src_root task t))"
  "preservesS I (writeS (update_run_snapshot run_id s' p))"
  "preservesS I (writeS (finish_run run_id status outcome t detail))"
  "preservesS I (writeS (finish_run_concurrency run_id effective telemetry))"
  "preservesS I (writeS (replace_lean_graph declarations run_id))"
  "preservesS I (writeS (approve_pending run_id))"
  "preservesS I (writeS (store_pass_metadata inp files))"
  by (rule keeps_write, erule diagnostic_inv manuscript_edge_inv replace_manuscript_edges_inv record_snapshot_inv
      run_update_inv run_concurrency_inv lean_graph_inv approve_pending_inv, rule same_proved_writes)+
   (simp_all add: store_pass_metadata_def set_metadata_inv same_proved keeps_write)

lemma keeps_results:
  "preservesS I (txn (create_question cid snapshot category passage problem resolutions blocking r origin))"
  "preservesS I (txn (resolve_question qid run resolution status))"
  "preservesS I (txn (add_failure_incident r scope kind phase cat m provenance cids detail batch retryable arts))"
  "preservesS I (txn (allocate_claim_id claim_kind))"
  "preservesS I (voidS (record_run_scope r ts ss))"
  "preservesS I (voidS (replace_run_dependency_edges r es))"
  "preservesS I (voidS (record_run_claim_nodes r))"
  "preservesS I (voidS (record_run_concurrency r configured effective telemetry))"
  by (rule keeps_txn, erule (1) create_question_inv resolve_question_inv failure_inv allocate_claim_id_inv,
      erule same_proved_results same_proved_incident)+
   (rule keeps_void, erule (1) record_run_scope_inv run_graph_inv run_concurrency_inv, erule same_proved_results)+

lemma keeps_incident: "preservesS I (report_incident r scope kind phase cat m provenance cids detail batch retryable arts)"
  unfolding report_incident_def by (intro preserves_rules keeps_results)

lemma keeps_state:
  "s \<notin> {CERTIFIED, COUNTEREXAMPLE_FOUND, PROVING} \<Longrightarrow> preservesS I (writeS (set_claim_state c s run_id action reason reused))"
  by (rule preserves_write) (rule state)

lemma diagnostic: "I d \<Longrightarrow> I (add_diagnostic r cat msg who details d)"
  by (rule preserves_writeD [OF keeps_writes(1)])

lemma certify: "I d \<Longrightarrow> I (fst (certify_current_correspondence cx d))"
proof -
  assume d: "I d"
  have step: "I (ca_store (certify_correspondence cx corr acc))" if "I (ca_store acc)" for corr acc
  proof (cases "correspondence_verdict cx (current_states (ca_store acc)) corr")
    case (Accepted source decl)
    let ?row = "certificate_for cx corr source decl"
    have granted: "I (set_claim_state (ct_claim_id ?row) s r action reason reused (upsert_certificate ?row (ca_store acc)))"
      if "(s, ct_status ?row) \<in> {(CERTIFIED, ''CERTIFIED''), (COUNTEREXAMPLE_FOUND, ''COUNTEREXAMPLE'')}" for s r action reason reused
      using \<open>I (ca_store acc)\<close> that by (rule grant)
    show ?thesis
    proof (cases "co_status corr = ''counterexample''")
      case True
      then have "(COUNTEREXAMPLE_FOUND, ct_status ?row) \<in> {(CERTIFIED, ''CERTIFIED''), (COUNTEREXAMPLE_FOUND, ''COUNTEREXAMPLE'')}"
        by (simp add: certificate_for_def)
      from granted [OF this] show ?thesis using Accepted True
        by (simp only: certify_correspondence_def Let_def verdict.simps if_True cert_acc.simps) (simp add: certificate_for_def)
    next
      case False
      then have "(CERTIFIED, ct_status ?row) \<in> {(CERTIFIED, ''CERTIFIED''), (COUNTEREXAMPLE_FOUND, ''COUNTEREXAMPLE'')}"
        by (simp add: certificate_for_def)
      from granted [OF this] show ?thesis using Accepted False
        by (simp only: certify_correspondence_def Let_def verdict.simps if_False cert_acc.simps) (simp add: certificate_for_def)
    qed
  qed (use that in \<open>simp_all add: certify_correspondence_def Let_def\<close>)
  have "I (ca_store (fold (certify_correspondence cx) corrs acc))" if "I (ca_store acc)" for corrs acc
    using that by (rule fold_invariant_on) (rule step)
  moreover have "I (fold (reject_certificate r) rejected d)" if "I d" for r rejected d
    using that
  proof (rule fold_invariant_on)
    fix x d assume "I d"
    then have "I (set_claim_state (fst x) FAILED_FORMALIZATION r ''reject_certificate'' (snd x) False d)" by (rule state) simp
    then have "I (add_diagnostic r ''formalization_mismatch'' (snd x) (Some (fst x)) ''{}''
        (set_claim_state (fst x) FAILED_FORMALIZATION r ''reject_certificate'' (snd x) False d))" by (rule diagnostic)
    then show "I (reject_certificate r x d)" unfolding reject_certificate_def case_prod_beta .
  qed
  ultimately show ?thesis using d by (simp add: certify_current_correspondence_def Let_def)
qed

lemma keeps_fold: "(\<And>x d. I d \<Longrightarrow> I (f x d)) \<Longrightarrow> preservesS I (writeS (fold f xs))"
  by (rule preserves_write, erule fold_invariant_on) blast

end

sublocale claim_keeper \<subseteq> policy: policy_writes I UNIV
proof unfold_locales
  show "I (set_claim_state cid s run_id action reason reused d)" if "I d" "s \<in> {NEEDS_CLARIFICATION, SKIPPED_UNPROVED}"
    for cid s run_id action reason reused d using that by (intro state) auto
qed (metis other inv create_question_inv refresh_question_inv resolve_question_inv same_proved_results(1-3))+

section \<open>The agents' calls\<close>

context claim_keeper
begin

lemmas policy_keeps = policy.keeps_policy [OF subset_UNIV]

lemma keeps_correspondence: "preservesS I (voidS (set_correspondence c decl run_id status provenance approved))"
  by (rule preserves_void) (rule relabel)

lemmas store_rules = preserves_rules preservesS_forS keeps_writes keeps_results keeps_incident keeps_state keeps_correspondence policy_keeps

lemma keeps_tool: "preservesS I (run_tool N ac tool arguments)"
proof -
  have "preservesS I (claim_propose_dependency N ac arguments)"
    unfolding claim_propose_dependency_def commit_proposal_def record_proposal_def Let_def by (intro store_rules)
  moreover have "preservesS I (claim_mark_formalized ac arguments)"
    unfolding claim_mark_formalized_def Let_def by (intro store_rules) simp
  moreover have "preservesS I (clarification_request N ac arguments)"
    unfolding clarification_request_def ask_author_def Let_def by (intro store_rules) simp
  moreover have "preservesS I (claim_report_unresolved ac arguments)"
    unfolding claim_report_unresolved_def Let_def by (intro store_rules) (simp add: unresolved_state_def)
  ultimately show ?thesis by (cases tool) (simp_all add: preservesS_def claims_read_tools)
qed

lemma keeps_calls: "preservesS I (writeS (run_calls N calls))"
  unfolding run_calls_def by (rule keeps_fold) (auto intro: preservesSD [OF keeps_tool] split: prod.split)

section \<open>The steps of a round\<close>

lemma keeps_batches: "preservesS I (execute_batch_round N setup host jobs)"
  unfolding execute_batch_round_def by (intro preserves_rules keeps_calls)

lemma keeps_record_results: "preservesS I (record_results setup results errors)"
proof -
  have fail: "preservesS I (writeS (fold (fail_claim setup provider_only failure) claims))" for provider_only failure claims
  proof (rule keeps_fold)
    fix c d assume "I d"
    then have "I (set_claim_state c (if provider_only then INVALIDATED else FAILED_TECHNICAL) r action failure False d)" for r action
      by (intro state) auto
    then show "I (fail_claim setup provider_only failure c d)"
      using \<open>I d\<close> preservesSD [OF keeps_writes(1)] by (auto simp: fail_claim_def Let_def writeS_def split: option.split)
  qed
  have "preservesS I (provider_failed setup r errors)" for r errors
    unfolding provider_failed_def by (intro store_rules)
  moreover have "preservesS I (batch_failed setup r failed errors)" for r failed errors
    unfolding batch_failed_def Let_def by (intro store_rules fail)
  ultimately show ?thesis by (induction results arbitrary: errors) (auto intro!: preservesS_bindS preservesS_simps(1) simp del: op_simps)
qed

lemma keeps_finish_round: "preservesS I (finish_round setup host round_index ready acc)"
proof -
  have "preservesS I (modifyS (\<lambda>db. certify_current_correspondence (cx db) db))" for cx
    by (rule preserves_modify) (rule certify)
  moreover have "preservesS I (writeS (fold (mark_unresolved setup) ready))"
    by (rule keeps_fold) (auto simp: mark_unresolved_def intro: state split: option.split)
  ultimately show ?thesis
    unfolding finish_round_def report_mutation_def report_build_failure_def certify_round_def Let_def
    by (intro store_rules)
qed

lemma keeps_block: "preservesS I (block_dependents N setup edges states selected)"
  unfolding block_dependents_def Let_def by (intro store_rules) simp

section \<open>The rest of a run\<close>

lemma keeps_initial: "preservesS I (certify_initially setup lean_version environment_hash declarations)"
proof -
  have loop: "I d \<Longrightarrow> I (fst (certify_until_stable cx d certified reconciled counterexamples))" for cx d certified reconciled counterexamples
  proof (induction cx d certified reconciled counterexamples rule: certify_until_stable.induct)
    case (1 cx d certified reconciled counterexamples)
    obtain d' current where run: "certify_current_correspondence (cx d) d = (d', current)" by fastforce
    have "I d'" using certify [OF 1(2), of "cx d"] run by simp
    with 1(1) [OF run [symmetric]] run show ?case
      by (subst certify_until_stable.simps) auto
  qed
  have "preservesS I (modifyS (\<lambda>db. certify_until_stable cx db certified reconciled counterexamples))" for cx certified reconciled counterexamples
    by (rule preserves_modify) (rule loop)
  moreover have "preservesS I (modifyS (\<lambda>db. revalidate_unchanged_certificates (cx db) db))" for cx
    by (rule preserves_modify) (rule revalidate)
  ultimately show ?thesis
    unfolding certify_initially_def by (intro store_rules)
qed

lemma keeps_preflight: "preservesS I (preflight_proof_batches setup failure)"
proof -
  have "preservesS I (writeS (fold (retry_technical setup) claims))" for claims
    by (rule keeps_fold) (auto simp: retry_technical_def intro: state split: option.split)
  then show ?thesis unfolding preflight_proof_batches_def Let_def by (intro store_rules)
qed

lemma keeps_close: "preservesS I (close_run host setup errors build_ok)"
proof -
  have "preservesS I (writeS (reset_on_errors setup errors build_ok))"
    by (rule preserves_write) (simp add: reset_on_errors_def reset)
  then show ?thesis unfolding close_run_def by (intro store_rules)
qed

lemma keeps_finish: "preservesS I (finish_verification host setup reused acc)"
  unfolding finish_verification_def final_errors_def report_build_failure_def by (intro store_rules keeps_close)

lemma keeps_handler: "preservesS I (handle_failure host prepared e)"
proof -
  have "I d \<Longrightarrow> I (close_failed_run host run_id e d)" for d run_id
    unfolding close_failed_run_def Let_def
    by (cases "pi_describe (vh_input host) e")
      (auto intro!: preservesSD [OF keeps_writes(6), unfolded writeS_def, simplified] preservesSD [OF keeps_writes(7), unfolded writeS_def, simplified] reset)
  then have "preservesS I (writeS (close_failed_run host run_id e))" for run_id by (rule preserves_write)
  then show ?thesis unfolding handle_failure_def by (intro store_rules)
qed

end

section \<open>Rounds and whole runs\<close>

text \<open>A predicate that also survives the claims a run schedules.\<close>

locale run_keeper = claim_keeper +
  fixes run_id :: int
  assumes proving: "I d \<Longrightarrow> I (set_claim_state c PROVING run_id action reason reused d)"
begin

lemma keeps_start: "rs_run_id setup = run_id \<Longrightarrow> preservesS I (writeS (start_proving setup round_index ready))"
  unfolding start_proving_def by (rule keeps_fold) (simp add: proving)

lemma keeps_schedule: "rs_run_id setup = run_id \<Longrightarrow> preservesS I (schedule_round N setup round_index)"
  unfolding schedule_round_def Let_def by (intro store_rules keeps_block keeps_start)

lemma keeps_round: "rs_run_id setup = run_id \<Longrightarrow> preservesS I (proof_round N setup host round_index acc)"
  unfolding proof_round_def by (intro store_rules keeps_schedule keeps_batches keeps_record_results keeps_finish_round)

lemma keeps_rounds: "rs_run_id setup = run_id \<Longrightarrow> preservesS I (proof_rounds fuel N setup hosts round_index acc)"
proof (induction fuel arbitrary: round_index acc)
  case (Suc fuel)
  then show ?case unfolding proof_rounds.simps by (intro store_rules keeps_round)
qed (simp add: preservesS_def)

lemma keeps_body: "pp_run_id prepared = run_id \<Longrightarrow> preservesS I (run_body N host options prepared)"
  unfolding run_body_def check_setup_def all_rounds_def Let_def
  by (intro store_rules keeps_initial keeps_preflight keeps_rounds keeps_finish) (simp_all add: run_setup_of_def)

lemma keeps_run: "pp_run_id prepared = run_id \<Longrightarrow> preservesS I (tryS (run_body N host options prepared) (handle_failure host prepared))"
  by (rule preserves_try) (erule keeps_body, rule keeps_handler)

end

section \<open>Preparing a pass\<close>

text \<open>A predicate that also survives the replacement of the claims by those of a new snapshot.\<close>

locale pass_keeper = claim_keeper +
  assumes replace_claims: "I d \<Longrightarrow> (\<And>c s. updates c = Some s \<Longrightarrow> s \<in> {DIRTY_SOURCE, INVALIDATED})
      \<Longrightarrow> replace_current_claims snapshot objects run_id updates d = Inr d' \<Longrightarrow> I d'"
begin

lemma keeps_after_replacement: "preservesS I (after_replacement N inp files r snapshot objects im)"
proof -
  have "preservesS I (apply_reproof_policy task r selected)" for task selected
    unfolding apply_reproof_policy_def by (intro store_rules keeps_fold) (rule reproof)
  then show ?thesis
    unfolding after_replacement_def apply_impact_def supersede_changed_def diagnose_graph_def select_claims_def record_cycles_def Let_def
    by (intro store_rules)
qed

lemma keeps_pass_body: "preservesS I (pass_body N inp files r previous)"
proof -
  have "preservesS I (index_manuscript copy main)" for copy main
    by (rule preserves_index) (metis inv other allocate_claim_id_inv same_proved_results(8))
  moreover have "preservesS I (voidS (replace_current_claims commit objects r (state_updates im ids)))" for commit objects im ids
    by (rule preserves_void) (rule replace_claims, auto simp: state_updates_def split: if_splits)
  ultimately show ?thesis
    unfolding pass_body_def observe_source_def by (intro store_rules keeps_after_replacement)
qed

lemma keeps_fail_pass: "preservesS I (fail_pass inp r e)"
  unfolding fail_pass_def by (intro store_rules)

lemma keeps_attempt: "preservesS I (tryS (pass_body N inp files r previous) (fail_pass inp r))"
  by (rule preserves_try) (rule keeps_pass_body keeps_fail_pass)+

end

section \<open>Laws on single rows\<close>

text \<open>The predicates of interest say something of each claim and the certificate stored for it. What the steps do to
  one such pair is enough to know.\<close>

definition rows_satisfy :: "(claim_row \<Rightarrow> certificate_row option \<Rightarrow> bool) \<Rightarrow> store_db \<Rightarrow> bool" where
  "rows_satisfy Q d \<longleftrightarrow> store_inv d \<and> (\<forall>c\<in>set (t_claims d). Q c (certificate (c_claim_id c) d))"

lemma claim_row_mem: "store_inv d \<Longrightarrow> claim_row_of k d = Some c \<longleftrightarrow> c \<in> set (t_claims d) \<and> c_claim_id c = k"
  using lookup_row_unique [OF store_invD(4)] by (auto simp: claim_row_of_def dest: lookup_row_SomeD)

lemma rows_satisfy_iff:
  "rows_satisfy Q d \<longleftrightarrow> store_inv d \<and> (\<forall>k c. claim_row_of k d = Some c \<longrightarrow> Q c (certificate k d))"
  unfolding rows_satisfy_def by (rule conj_cong [OF refl]) (auto simp: claim_row_mem)

lemma rows_satisfy_same: "rows_satisfy Q d \<Longrightarrow> store_inv d' \<Longrightarrow> proved_rows d' = proved_rows d \<Longrightarrow> rows_satisfy Q d'"
  by (simp add: rows_satisfy_def proved_rows_def certificate_def)

lemma revalidated_store:
  assumes "renewable cx cert (fst acc) = Some p"
  shows "\<exists>row r action reason reused. fst (revalidate_certificate cx cert acc)
      = set_claim_state (ct_claim_id cert) CERTIFIED r action reason reused (upsert_certificate row (fst acc))
    \<and> ct_claim_id row = ct_claim_id cert \<and> ct_status row = ct_status cert"
proof (cases acc, cases p)
  fix db reused source decl assume "acc = (db, reused)" "p = (source, decl)"
  with assms show ?thesis
    by (simp add: revalidate_certificate_def) (rule exI, rule conjI, (rule exI)+, rule refl, simp)
qed

lemma rows_satisfy_state:
  assumes "rows_satisfy Q d"
    and "\<And>c. claim_row_of k d = Some c \<Longrightarrow> Q c (certificate k d) \<Longrightarrow> Q (c\<lparr>c_status := s, c_last_changed_run := Some r\<rparr>) (certificate k d')"
    and "store_inv d'" and "\<And>j. claim_row_of j d' = claim_row_of j d" and "\<And>j. j \<noteq> k \<Longrightarrow> certificate j d' = certificate j d"
  shows "rows_satisfy Q (set_claim_state k s r action reason reused d')"
proof -
  have "Q c (certificate j d')" if "claim_row_of j (set_claim_state k s r action reason reused d') = Some c" for j c
  proof (cases "j = k")
    case True
    then show ?thesis using that assms(1,2,4) by (auto simp: rows_satisfy_iff certify_simps)
  next
    case False
    then show ?thesis using that assms(1,4,5) by (auto simp: rows_satisfy_iff certify_simps option.map_ident)
  qed
  then show ?thesis using set_claim_state_inv [OF assms(3)] by (simp add: rows_satisfy_iff certify_simps)
qed

locale row_law =
  fixes Q :: "claim_row \<Rightarrow> certificate_row option \<Rightarrow> bool"
  assumes settled: "Q c cert \<Longrightarrow> s \<notin> {CERTIFIED, COUNTEREXAMPLE_FOUND, PROVING}
      \<Longrightarrow> Q (c\<lparr>c_status := s, c_last_changed_run := Some r\<rparr>) cert'"
    and relabelled: "Q c cert \<Longrightarrow> Q (c\<lparr>c_lean_declaration := decl\<rparr>) cert"
    and granted: "Q c cert \<Longrightarrow> (s, ct_status row) \<in> {(CERTIFIED, ''CERTIFIED''), (COUNTEREXAMPLE_FOUND, ''COUNTEREXAMPLE'')}
      \<Longrightarrow> Q (c\<lparr>c_status := s, c_last_changed_run := Some r\<rparr>) (Some row)"
    and renewed: "Q c (Some old) \<Longrightarrow> c_status c = CERTIFIED \<Longrightarrow> ct_status row = ct_status old
      \<Longrightarrow> Q (c\<lparr>c_status := CERTIFIED, c_last_changed_run := Some r\<rparr>) (Some row)"
begin

lemma settles: "rows_satisfy Q d \<Longrightarrow> s \<notin> {CERTIFIED, COUNTEREXAMPLE_FOUND, PROVING}
    \<Longrightarrow> rows_satisfy Q (set_claim_state k s r action reason reused d)"
  by (rule rows_satisfy_state) (auto intro: settled simp: rows_satisfy_def)

lemma renews:
  assumes "rows_satisfy Q d" and "\<And>k. map_option ct_status (certificate k d) = map_option ct_status (certificate k d0)"
    and "certificate (ct_claim_id cert) d0 = Some cert" and "renewable cx cert d = Some (source, decl)" and "ct_claim_id row = ct_claim_id cert"
    and "ct_status row = ct_status cert"
  shows "rows_satisfy Q (set_claim_state (ct_claim_id row) CERTIFIED r action reason reused (upsert_certificate row d))"
proof (rule rows_satisfy_state [OF assms(1)])
  fix c assume row: "claim_row_of (ct_claim_id row) d = Some c" and Q: "Q c (certificate (ct_claim_id row) d)"
  have "c_status c = CERTIFIED" using assms(4,5) row by (auto simp: renewable_def split: option.splits if_splits)
  moreover obtain old where "certificate (ct_claim_id row) d = Some old" "ct_status old = ct_status cert"
    using assms(2) [of "ct_claim_id cert"] assms(3,5) by auto
  ultimately show "Q (c\<lparr>c_status := CERTIFIED, c_last_changed_run := Some r\<rparr>) (certificate (ct_claim_id row) (upsert_certificate row d))"
    using Q assms(6) by (simp add: certify_simps renewed)
qed (use assms(1) in \<open>simp_all add: certify_simps rows_satisfy_def certificate_inv\<close>)

lemma renewal: "rows_satisfy Q d \<Longrightarrow> rows_satisfy Q (fst (revalidate_unchanged_certificates cx d))"
proof -
  assume d: "rows_satisfy Q d"
  let ?same = "\<lambda>d'. \<forall>k. map_option ct_status (certificate k d') = map_option ct_status (certificate k d)"
  let ?I = "\<lambda>acc. rows_satisfy Q (fst acc) \<and> ?same (fst acc)"
  have step: "?I (revalidate_certificate cx cert acc)" if "certificate (ct_claim_id cert) d = Some cert" and "?I acc" for cert acc
  proof (cases "renewable cx cert (fst acc)")
    case (Some p)
    then obtain row r action reason reused where
        next_store: "fst (revalidate_certificate cx cert acc)
          = set_claim_state (ct_claim_id cert) CERTIFIED r action reason reused (upsert_certificate row (fst acc))"
        and row: "ct_claim_id row = ct_claim_id cert" "ct_status row = ct_status cert"
      using revalidated_store by blast
    have "rows_satisfy Q (fst (revalidate_certificate cx cert acc))"
      using renews [of "fst acc" d cert cx "fst p" "snd p" row] Some row that unfolding next_store row(1) [symmetric] by simp
    moreover have "?same (fst (revalidate_certificate cx cert acc))"
      using that row by (auto simp: next_store certify_simps)
    ultimately show ?thesis by blast
  next
    case None
    then have "fst (revalidate_certificate cx cert acc) = fst acc" by (cases acc) (simp add: revalidate_certificate_def)
    with that show ?thesis by simp
  qed
  have "certificate (ct_claim_id cert) d = Some cert" if "cert \<in> set (certificate_rows d)" for cert
    using that d lookup_row_unique [of ct_claim_id "t_certificates d"]
    by (auto simp: certificate_rows_def certificate_def rows_satisfy_def store_inv_def)
  then have "?I (fold (revalidate_certificate cx) (certificate_rows d) (d, []))"
    using d by (intro fold_invariant_on [where I = ?I] step) simp_all
  then show ?thesis by (simp add: revalidate_unchanged_certificates_def case_prod_beta)
qed

lemma resets: "rows_satisfy Q d \<Longrightarrow> rows_satisfy Q (fst (reset_in_flight_claims r action reason d))"
proof -
  have step: "rows_satisfy Q (reset_claim r action reason k d)" if "rows_satisfy Q d" for k d
  proof (rule rows_satisfy_same [OF settles [OF that]])
    show "store_inv (reset_claim r action reason k d)" using that by (simp add: rows_satisfy_def reset_claim_inv)
    show "proved_rows (reset_claim r action reason k d) = proved_rows (set_claim_state k INVALIDATED r action reason False d)"
      by (simp add: proved_rows_def reset_claim_def set_claim_state_def Let_def)
  qed simp
  then show "rows_satisfy Q d \<Longrightarrow> rows_satisfy Q (fst (reset_in_flight_claims r action reason d))"
    unfolding reset_in_flight_claims_def Let_def fst_conv by - (erule fold_invariant_on, rule step)
qed

end

sublocale row_law \<subseteq> claim_keeper "rows_satisfy Q"
proof unfold_locales
  fix d d' c s r action reason reused decl status provenance approved row cx
  assume d: "rows_satisfy Q d"
  then show "store_inv d" by (simp add: rows_satisfy_def)
  show "store_inv d' \<Longrightarrow> proved_rows d' = proved_rows d \<Longrightarrow> rows_satisfy Q d'" using d by (rule rows_satisfy_same)
  show "s \<notin> {CERTIFIED, COUNTEREXAMPLE_FOUND, PROVING} \<Longrightarrow> rows_satisfy Q (set_claim_state c s r action reason reused d)"
    using d by (rule settles)
  show "rows_satisfy Q (fst (revalidate_unchanged_certificates cx d))" using d by (rule renewal)
  show "rows_satisfy Q (fst (reset_in_flight_claims r action reason d))" using d by (rule resets)
  show "rows_satisfy Q (set_claim_state (ct_claim_id row) s r action reason reused (upsert_certificate row d))"
    if "(s, ct_status row) \<in> {(CERTIFIED, ''CERTIFIED''), (COUNTEREXAMPLE_FOUND, ''COUNTEREXAMPLE'')}"
    using d granted [OF _ that] by (intro rows_satisfy_state) (auto simp: certify_simps rows_satisfy_def certificate_inv)
  show "rows_satisfy Q d'" if "set_correspondence c decl r status provenance approved d = Inr d'"
  proof -
    have "t_certificates d' = t_certificates d"
      "t_claims d' = update_where (\<lambda>x. c_claim_id x = c) (\<lambda>x. x\<lparr>c_lean_declaration := Some decl\<rparr>) (t_claims d)"
      using that by (auto simp: set_correspondence_def split: if_splits)
    then show ?thesis
      using d relabelled correspondence_inv [OF _ that] by (auto simp: rows_satisfy_def certificate_def update_where_def)
  qed
  show "rows_satisfy Q (reproof_claim r c d)"
  proof -
    have "unique_on ct_claim_id (t_certificates d)" using d by (simp add: rows_satisfy_def store_inv_def)
    then have "certificate j (discard_certificate_for_reproof c r d) = certificate j d" if "j \<noteq> c" for j
      using that by (auto simp: certificate_def discard_certificate_for_reproof_def lookup_row_delete_where
          dest: lookup_row_SomeD split: option.split)
    then have "rows_satisfy Q (set_claim_state c INVALIDATED r a w u (discard_certificate_for_reproof c r d))" for a w u
      using d certificate_inv(2) [of d c r] by (intro rows_satisfy_state)
        (auto simp: rows_satisfy_def claim_row_of_def discard_certificate_for_reproof_def intro: settled)
    then show ?thesis using d by (simp add: reproof_claim_def)
  qed
qed

locale pass_law = row_law +
  assumes same_status: "Q c cert \<Longrightarrow> c_status c' = c_status c \<Longrightarrow> Q c' cert"
    and fresh: "c_status c \<in> {DISCOVERED, DIRTY_SOURCE, INVALIDATED} \<Longrightarrow> Q c cert"
begin

lemma retires: "rows_satisfy Q d \<Longrightarrow> rows_satisfy Q (d\<lparr>t_claims := update_where P (\<lambda>c. c\<lparr>c_retired := True\<rparr>) (t_claims d)\<rparr>)"
proof -
  have "Q c cert \<Longrightarrow> Q (c\<lparr>c_retired := True\<rparr>) cert" for c cert by (erule same_status) simp
  then show "rows_satisfy Q d \<Longrightarrow> rows_satisfy Q (d\<lparr>t_claims := update_where P (\<lambda>c. c\<lparr>c_retired := True\<rparr>) (t_claims d)\<rparr>)"
    using update_claims_inv [of d "\<lambda>c. c\<lparr>c_retired := True\<rparr>" P] by (auto simp: rows_satisfy_def certificate_def update_where_def)
qed

lemma upserts:
  assumes "rows_satisfy Q d" and "upsert_claim snapshot r updates item d = Inr d'"
    and "\<And>c s. updates c = Some s \<Longrightarrow> s \<in> {DIRTY_SOURCE, INVALIDATED}"
  shows "rows_satisfy Q d'"
proof -
  have "Q (claim_for snapshot r updates item prior) (certificate (so_claim_id item) d)"
    if "prior = claim_row_of (so_claim_id item) d" for prior
    using assms(1,3) that
    by (cases "updates (so_claim_id item)"; cases prior)
      (force simp: claim_for_def rows_satisfy_iff intro: fresh same_status)+
  moreover have "certificate k d' = certificate k d" for k
    using upsert_claim_frame(1) [OF assms(2)] by (simp add: certificate_def)
  ultimately show ?thesis
    using assms(1) upsert_claim_inv [OF _ assms(2)] upsert_claim_lookup [OF assms(2)] by (auto simp: rows_satisfy_iff)
qed

end

sublocale pass_law \<subseteq> pass_keeper "rows_satisfy Q"
proof unfold_locales
  fix d d' snapshot objects r updates
  assume d: "rows_satisfy Q d" and updates: "\<And>c s. updates c = Some s \<Longrightarrow> s \<in> {DIRTY_SOURCE, INVALIDATED}"
    and replaced: "replace_current_claims snapshot objects r updates d = Inr d'"
  from replaced obtain x where x: "foldE (upsert_claim snapshot r updates) objects
      (d\<lparr>t_claims := update_where (\<lambda>_. True) (\<lambda>c. c\<lparr>c_retired := True\<rparr>) (t_claims d)\<rparr>) = Inr x"
    by (auto simp: replace_current_claims_def Let_def bindE_Inr_iff)
  have "rows_satisfy Q x"
    by (rule foldE_invariant [where I = "rows_satisfy Q", OF x retires [OF d]]) (rule upserts [OF _ _ updates])
  then have "rows_satisfy Q (set_metadata ''current_snapshot'' snapshot
      (if objects = [] then x else x\<lparr>t_claims := update_where P (\<lambda>c. c\<lparr>c_retired := True\<rparr>) (t_claims x)\<rparr>))" for P
    using retires [of x P] by (intro other [OF _ set_metadata_inv same_proved_writes(4)]) (simp_all add: inv)
  then show "rows_satisfy Q d'" using replaced x by (auto simp: replace_current_claims_def Let_def)
qed

section \<open>The predicates\<close>

text \<open>A row says it is certified only next to the certificate that says so.\<close>

definition backed_row :: "claim_row \<Rightarrow> certificate_row option \<Rightarrow> bool" where
  "backed_row c cert \<longleftrightarrow>
     (c_status c = CERTIFIED \<longrightarrow> map_option ct_status cert = Some ''CERTIFIED'')
     \<and> (c_status c = COUNTEREXAMPLE_FOUND \<longrightarrow> map_option ct_status cert = Some ''COUNTEREXAMPLE'')"

text \<open>No row is in flight, not even a retired one; and: a row in flight belongs to the run and to a set of claims.\<close>

definition resting_row :: "claim_row \<Rightarrow> certificate_row option \<Rightarrow> bool" where
  "resting_row c cert \<longleftrightarrow> c_status c \<noteq> PROVING"

definition flight_row :: "int \<Rightarrow> string set \<Rightarrow> claim_row \<Rightarrow> certificate_row option \<Rightarrow> bool" where
  "flight_row run_id A c cert \<longleftrightarrow> (c_status c = PROVING \<and> \<not> c_retired c \<longrightarrow> c_last_changed_run c = Some run_id \<and> c_claim_id c \<in> A)"

interpretation backed: pass_law backed_row
  by unfold_locales (auto simp: backed_row_def)

interpretation resting: pass_law resting_row
  by unfold_locales (auto simp: resting_row_def)

interpretation flight: row_law "flight_row run_id A" for run_id A
  by unfold_locales (auto simp: flight_row_def)

interpretation backed_run: run_keeper "rows_satisfy backed_row" run_id for run_id
proof unfold_locales
  show "rows_satisfy backed_row d \<Longrightarrow> rows_satisfy backed_row (set_claim_state c PROVING run_id action reason reused d)"
    for d c action reason reused
    by (rule rows_satisfy_state) (auto simp: rows_satisfy_def backed_row_def)
qed

interpretation flight_run: run_keeper "rows_satisfy (flight_row run_id UNIV)" run_id for run_id
proof unfold_locales
  show "rows_satisfy (flight_row run_id UNIV) d \<Longrightarrow> rows_satisfy (flight_row run_id UNIV) (set_claim_state c PROVING run_id action reason reused d)"
    for d c action reason reused
    by (rule rows_satisfy_state) (auto simp: rows_satisfy_def flight_row_def)
qed

end
