(* ===== verification/Run_Outcomes.thy ===== *)
theory Run_Outcomes
  imports Run_Invariants
begin

text \<open>
  What a whole verification run leaves behind: no claim in flight, certificates for what is certified, a verdict that
  the stored states bear out, and a project that only guarded batches have changed.
\<close>

section \<open>Where an operation lands\<close>

text \<open>From a store in \<open>P\<close>, an operation that returns \<open>x\<close> ends in a store in \<open>Q x\<close>.\<close>

definition lands :: "('s \<Rightarrow> bool) \<Rightarrow> ('s, 'a) op \<Rightarrow> ('a \<Rightarrow> 's \<Rightarrow> bool) \<Rightarrow> bool" where
  "lands P m Q \<longleftrightarrow> (\<forall>s t x. P s \<longrightarrow> m s = (t, Inr x) \<longrightarrow> Q x t)"

lemma landsD: "lands P m Q \<Longrightarrow> P s \<Longrightarrow> m s = (t, Inr x) \<Longrightarrow> Q x t"
  by (simp add: lands_def)

lemma lands_keep: "preservesS P m \<Longrightarrow> lands P m (\<lambda>_. P)"
  by (metis lands_def preservesSD fst_conv)

lemma lands_bind: "lands P m R \<Longrightarrow> (\<And>x. lands (R x) (f x) Q) \<Longrightarrow> lands P (bindS m f) Q"
  unfolding lands_def bindS_Inr_iff by blast

lemma lands_read: "(\<And>x. lands P (f x) Q) \<Longrightarrow> lands P (bindS (readS g) f) Q"
  by (rule lands_bind [OF lands_keep]) simp_all

lemma lands_return: "(\<And>s. P s \<Longrightarrow> Q x s) \<Longrightarrow> lands P (returnS x) Q"
  by (simp add: lands_def returnS_def)

lemma lands_if: "(b \<Longrightarrow> lands P m Q) \<Longrightarrow> (\<not> b \<Longrightarrow> lands P n Q) \<Longrightarrow> lands P (if b then m else n) Q"
  by simp

lemma lands_write: "(\<And>s. P s \<Longrightarrow> Q () (f s)) \<Longrightarrow> lands P (writeS f) Q"
  by (auto simp: lands_def writeS_def)

lemma lands_prod: "(\<And>a b. x = (a, b) \<Longrightarrow> lands P (f a b) Q) \<Longrightarrow> lands P (case x of (a, b) \<Rightarrow> f a b) Q"
  by (cases x) simp

lemma lands_option: "(x = None \<Longrightarrow> lands P m Q) \<Longrightarrow> (\<And>y. x = Some y \<Longrightarrow> lands P (n y) Q) \<Longrightarrow> lands P (case x of None \<Rightarrow> m | Some y \<Rightarrow> n y) Q"
  by (cases x) simp_all

lemma lands_raise: "lands P (raiseS e) Q"
  by (simp add: lands_def)

lemma lands_both: "lands P m Q \<Longrightarrow> preservesS J m \<Longrightarrow> lands (\<lambda>s. J s \<and> P s) m (\<lambda>x s. J s \<and> Q x s)"
  by (fastforce simp: lands_def preservesS_def)

lemma lands_pre: "lands P m Q \<Longrightarrow> (\<And>s. R s \<Longrightarrow> P s) \<Longrightarrow> lands R m Q"
  by (auto simp: lands_def)

lemmas lands_rules = lands_read lands_prod lands_if

section \<open>Claims in flight\<close>

abbreviation in_flight_only :: "int \<Rightarrow> string set \<Rightarrow> store_db \<Rightarrow> bool" where
  "in_flight_only run_id A \<equiv> rows_satisfy (flight_row run_id A)"

lemma in_flight_only_mono: "in_flight_only run_id A d \<Longrightarrow> A \<subseteq> B \<Longrightarrow> in_flight_only run_id B d"
  by (auto simp: rows_satisfy_def flight_row_def)

lemma resting_flight: "rows_satisfy resting_row d \<Longrightarrow> in_flight_only run_id A d"
  by (auto simp: rows_satisfy_def flight_row_def resting_row_def)

lemma in_flight_none: "in_flight_only run_id {} d \<Longrightarrow> in_flight_ids r d = []"
  by (auto simp: rows_satisfy_def flight_row_def in_flight_ids_def in_flight_def filter_empty_conv)

lemma start_flight: "in_flight_only (rs_run_id setup) A d \<Longrightarrow> in_flight_only (rs_run_id setup) (A \<union> set ready) (start_proving setup k ready d)"
  unfolding start_proving_def
proof (induction ready arbitrary: A d)
  case (Cons c ready)
  have "in_flight_only (rs_run_id setup) (insert c A) (set_claim_state c PROVING (rs_run_id setup) a w u d)" for a w u
  proof (rule rows_satisfy_state)
    show "in_flight_only (rs_run_id setup) (insert c A) d" using Cons.prems by (rule in_flight_only_mono) blast
    then show "store_inv d" by (rule flight.inv)
    fix x assume "claim_row_of c d = Some x"
    then show "flight_row (rs_run_id setup) (insert c A) (x\<lparr>c_status := PROVING, c_last_changed_run := Some (rs_run_id setup)\<rparr>) (certificate c d)"
      using claim_row_mem [OF flight.inv [OF Cons.prems]] by (auto simp: flight_row_def)
  qed simp_all
  from Cons.IH [OF this] show ?case by simp
qed simp

lemma mark_lands: "in_flight_only run_id A d \<Longrightarrow> in_flight_only run_id (A - {c}) (mark_unresolved setup c d)"
proof -
  assume d: "in_flight_only run_id A d"
  show ?thesis
  proof (cases "\<exists>row. claim_row_of c d = Some row \<and> c_status row = PROVING")
    case True
    then have "mark_unresolved setup c d = set_claim_state c UNRESOLVED (rs_run_id setup) ''missing_result''
        ''Proof batch produced no host-valid certificate or clarification'' False d" by (auto simp: mark_unresolved_def)
    moreover have "in_flight_only run_id (A - {c}) (set_claim_state c UNRESOLVED r a w u d)" for r a w u
      unfolding rows_satisfy_iff
    proof (intro conjI allI impI)
      show "store_inv (set_claim_state c UNRESOLVED r a w u d)" by (rule set_claim_state_inv [OF flight.inv [OF d]])
      fix j row assume row: "claim_row_of j (set_claim_state c UNRESOLVED r a w u d) = Some row"
      show "flight_row run_id (A - {c}) row (certificate j (set_claim_state c UNRESOLVED r a w u d))"
        using row d claim_row_mem [OF flight.inv [OF d]]
        by (cases "j = c") (auto simp: certify_simps rows_satisfy_iff flight_row_def option.map_ident)
    qed
    ultimately show ?thesis by simp
  next
    case False
    then have "mark_unresolved setup c d = d" by (auto simp: mark_unresolved_def split: option.split)
    then show ?thesis using d False claim_row_mem [OF flight.inv [OF d]] by (auto simp: rows_satisfy_iff flight_row_def)
  qed
qed

lemma marks_land: "in_flight_only run_id (set ready) d \<Longrightarrow> in_flight_only run_id {} (fold (mark_unresolved setup) ready d)"
proof -
  have "in_flight_only run_id A d \<Longrightarrow> in_flight_only run_id (A - set ready) (fold (mark_unresolved setup) ready d)" for A
  proof (induction ready arbitrary: A d)
    case (Cons c ready)
    show ?case using Cons.IH [OF mark_lands [OF Cons.prems]] by (simp add: Diff_insert2 [symmetric])
  qed simp
  then show "in_flight_only run_id (set ready) d \<Longrightarrow> in_flight_only run_id {} (fold (mark_unresolved setup) ready d)" by fastforce
qed

lemma reset_lands: "in_flight_only run_id UNIV d \<Longrightarrow> in_flight_only run_id {} (fst (reset_in_flight_claims run_id action reason d))"
  using reset_in_flight_claims_effect [OF store_invD(4)] reset_in_flight_inv
  by (auto simp: rows_satisfy_def flight_row_def in_flight_def)

section \<open>Rounds\<close>

definition has_errors :: "round_acc \<Rightarrow> bool" where
  "has_errors acc \<longleftrightarrow> rx_technical (ra_errors acc) \<noteq> [] \<or> rx_provider (ra_errors acc) \<noteq> []"

lemma add_technical_errors: "has_errors (add_technical message acc)"
  by (simp add: has_errors_def add_technical_def)

lemma schedule_lands:
  "lands (in_flight_only (rs_run_id setup) {}) (schedule_round N setup k) (\<lambda>ready. in_flight_only (rs_run_id setup) (set ready))"
  unfolding schedule_round_def Let_def
proof (intro lands_rules lands_bind [OF lands_keep [OF flight.keeps_block]])
  fix ready
  show "lands (in_flight_only (rs_run_id setup) {}) (bindS (writeS (start_proving setup k ready)) (\<lambda>_. returnS ready))
      (\<lambda>ready. in_flight_only (rs_run_id setup) (set ready))"
    using start_flight [of _ "{}"] by (auto simp: lands_def writeS_def bindS_Inr_iff)
qed

lemma finish_round_lands:
  "lands (in_flight_only run_id (set ready)) (finish_round setup host k ready acc)
     (\<lambda>(continue, acc') d. if continue then in_flight_only run_id {} d else has_errors acc')"
proof -
  have certify: "preservesS (in_flight_only run_id A) (modifyS (\<lambda>d. certify_current_correspondence (cx d) d))" for cx A
    by (rule preserves_modify) (rule flight.certify)
  have "lands (in_flight_only run_id (set ready)) (certify_round setup host ready) (\<lambda>_. in_flight_only run_id {})"
    unfolding certify_round_def
    by (intro lands_rules lands_bind [OF lands_keep [OF flight.keeps_writes(8)]] lands_bind [OF lands_keep [OF certify]]
        lands_bind [OF lands_write lands_return]) (auto intro: marks_land)
  then have certified: "certify_round setup host ready d = (t, Inr x) \<Longrightarrow> in_flight_only run_id (set ready) d \<Longrightarrow> in_flight_only run_id {} t"
    for d t x by (simp add: lands_def)
  show ?thesis
    unfolding lands_def finish_round_def report_mutation_def Let_def
    by (auto simp: bindS_Inr_iff add_technical_errors split: if_splits dest: certified)
qed

lemma proof_round_lands:
  "lands (in_flight_only (rs_run_id setup) {}) (proof_round N setup host k acc)
     (\<lambda>(continue, acc') d. if continue then in_flight_only (rs_run_id setup) {} d
        else has_errors acc' \<or> in_flight_only (rs_run_id setup) {} d)"
proof -
  let ?after = "\<lambda>ready d. in_flight_only (rs_run_id setup) (set ready) d"
  let ?Q = "\<lambda>(continue, acc') d. if continue then in_flight_only (rs_run_id setup) {} d
        else has_errors acc' \<or> in_flight_only (rs_run_id setup) {} d"
  have finish: "lands (?after ready) (finish_round setup host k ready acc') ?Q" for ready acc'
    using finish_round_lands [of _ ready] by (fastforce simp: lands_def)
  show ?thesis
    unfolding proof_round_def
    by (intro lands_rules lands_return lands_bind [OF schedule_lands] lands_bind [OF lands_keep [OF flight.keeps_batches]]
        lands_bind [OF lands_keep [OF flight.keeps_record_results]] finish) auto
qed

lemma proof_rounds_land:
  "lands (in_flight_only (rs_run_id setup) {}) (proof_rounds fuel N setup hosts k acc)
     (\<lambda>acc' d. has_errors acc' \<or> in_flight_only (rs_run_id setup) {} d)"
proof (induction fuel arbitrary: k acc)
  case (Suc fuel)
  have "lands (\<lambda>d. if fst r then in_flight_only (rs_run_id setup) {} d else has_errors (snd r) \<or> in_flight_only (rs_run_id setup) {} d)
      (if fst r then proof_rounds fuel N setup hosts (k + 1) (snd r) else returnS (snd r))
      (\<lambda>acc' d. has_errors acc' \<or> in_flight_only (rs_run_id setup) {} d)" for r
    using Suc.IH by (auto intro: lands_return)
  then show ?case
    unfolding proof_rounds.simps
    by (intro lands_bind [OF proof_round_lands]) (simp add: case_prod_beta)
qed (auto simp: lands_def)

section \<open>Closing the run\<close>

abbreviation run_in_flight :: "run_setup \<Rightarrow> run_errors \<Rightarrow> bool \<Rightarrow> store_db \<Rightarrow> bool" where
  "run_in_flight setup errors build_ok d \<equiv> in_flight_only (rs_run_id setup) UNIV d
     \<and> (rx_technical errors \<noteq> [] \<or> rx_provider errors \<noteq> [] \<or> \<not> build_ok \<or> in_flight_only (rs_run_id setup) {} d)"

lemma reset_on_errors_lands: "run_in_flight setup errors build_ok d \<Longrightarrow> in_flight_only (rs_run_id setup) {} (reset_on_errors setup errors build_ok d)"
  by (auto simp: reset_on_errors_def reset_lands)

lemma run_in_flight_keeps:
  "(\<And>A. preservesS (in_flight_only (rs_run_id setup) A) m) \<Longrightarrow> preservesS (run_in_flight setup errors build_ok) m"
  by (auto simp: preservesS_def)

lemma lands_set: "(\<And>s. P s \<Longrightarrow> F (f s)) \<Longrightarrow> preservesS F (g ()) \<Longrightarrow> lands P (bindS (writeS f) g) (\<lambda>_. F)"
  by (rule lands_bind [OF lands_write [of _ "\<lambda>_. F"]]) (simp_all add: lands_keep)

lemma close_run_lands: "lands (run_in_flight setup errors build_ok) (close_run host setup errors build_ok) (\<lambda>_. in_flight_only (rs_run_id setup) {})"
  unfolding close_run_def
  by (intro lands_read lands_bind [OF lands_keep [OF run_in_flight_keeps [OF flight.keeps_results(6)]]])
    (rule lands_set, erule reset_on_errors_lands, intro flight.store_rules)

lemma final_errors_land:
  "lands (run_in_flight setup errors True) (final_errors host setup build errors) (\<lambda>errors'. run_in_flight setup errors' (succeeded build))"
proof -
  have *: "preservesS (run_in_flight setup errors True) (report_build_failure setup a b c d e build)" for a b c d e
    unfolding report_build_failure_def by (intro run_in_flight_keeps flight.keeps_incident)
  show ?thesis
    unfolding final_errors_def by (intro lands_if lands_return lands_bind [OF lands_keep [OF *]]) auto
qed

lemma finish_lands: "lands (run_in_flight setup (ra_errors acc) True) (finish_verification host setup reused acc) (\<lambda>_. in_flight_only (rs_run_id setup) {})"
  unfolding finish_verification_def
  by (intro lands_rules lands_bind [OF final_errors_land] lands_bind [OF close_run_lands] lands_return
      lands_bind [OF lands_keep [OF run_in_flight_keeps [OF flight.keeps_writes(8)]]])

section \<open>The whole run\<close>

lemma handler_lands:
  assumes "in_flight_only (pp_run_id prepared) UNIV d"
  shows "in_flight_only (pp_run_id prepared) {} (fst (handle_failure host prepared e d))"
proof -
  let ?F = "in_flight_only (pp_run_id prepared) {}"
  have closed: "?F (close_failed_run host (pp_run_id prepared) e d)"
    unfolding close_failed_run_def Let_def case_prod_beta
    by (rule preserves_writeD [OF flight.keeps_writes(7)], rule preserves_writeD [OF flight.keeps_writes(6)], rule reset_lands, rule assms)
  show ?thesis
    unfolding handle_failure_def case_prod_beta bindS_writeS
    by (rule preservesSD [where I = ?F], intro flight.store_rules) (rule closed)
qed

lemma all_rounds_land:
  "lands (in_flight_only (rs_run_id setup) {}) (all_rounds N setup hosts acc) (\<lambda>acc'. run_in_flight setup (ra_errors acc') True)"
proof -
  have "lands (\<lambda>d. in_flight_only (rs_run_id setup) UNIV d \<and> in_flight_only (rs_run_id setup) {} d) (all_rounds N setup hosts acc)
      (\<lambda>acc' d. in_flight_only (rs_run_id setup) UNIV d \<and> (has_errors acc' \<or> in_flight_only (rs_run_id setup) {} d))"
    unfolding all_rounds_def by (intro lands_both proof_rounds_land flight_run.keeps_rounds refl)
  moreover have "in_flight_only (rs_run_id setup) {} d \<Longrightarrow> in_flight_only (rs_run_id setup) UNIV d" for d
    by (erule in_flight_only_mono) simp
  ultimately show ?thesis unfolding lands_def has_errors_def by blast
qed

lemma rounds_finish:
  assumes "rs_run_id setup = run_id"
  shows "lands (in_flight_only run_id {}) (bindS (all_rounds N setup hosts acc) (finish_verification host setup reused)) (\<lambda>_. in_flight_only run_id {})"
  unfolding assms [symmetric] by (rule lands_bind [OF all_rounds_land finish_lands])

lemma body_lands:
  assumes "in_flight_only (pp_run_id prepared) {} d"
  shows "in_flight_only (pp_run_id prepared) {} (fst (tryS (run_body N host options prepared) (handle_failure host prepared) d))"
proof -
  let ?F = "\<lambda>A. in_flight_only (pp_run_id prepared) A"
  have wide: "?F UNIV d" using assms by (rule in_flight_only_mono) simp
  have check: "preservesS (?F {}) (check_setup s r)" for s r
    unfolding check_setup_def Let_def by (intro flight.store_rules)
  have "lands (?F {}) (run_body N host options prepared) (\<lambda>_. ?F {})"
    unfolding run_body_def Let_def
    by (intro lands_rules rounds_finish lands_bind [OF lands_keep [OF flight.keeps_results(8)]] lands_bind [OF lands_keep [OF check]]
        lands_bind [OF lands_keep [OF flight.keeps_initial]] lands_bind [OF lands_keep [OF flight.keeps_preflight]])
      (simp add: run_setup_of_def)
  then show ?thesis
    using assms handler_lands preservesSD [OF flight_run.keeps_body [OF refl] wide, of N host options]
    by (auto simp: tryS_def lands_def split: prod.split sum.split)
qed

lemma recover_rests:
  assumes "store_inv db" and "\<And>c. c \<in> set (t_claims db) \<Longrightarrow> c_retired c \<Longrightarrow> c_status c \<noteq> PROVING"
  shows "rows_satisfy resting_row (fst (recover_interrupted_runs t db))"
proof -
  have "finite (proving_run_ids db)" unfolding proving_run_ids_def by (rule List.finite_set)
  moreover have "\<exists>r\<in>proving_run_ids db. in_flight r c" if "c \<in> set (t_claims db)" "c_status c = PROVING" "c_last_changed_run c = Some r" for c r
    using that assms(2) by (auto simp: proving_run_ids_def in_flight_def intro!: bexI [of _ c])
  moreover have "t_claims (fold (\<lambda>r db. fst (reset_in_flight_claims r (act r) (why r) db)) (sorted_list_of_set (proving_run_ids db)) db)
      = map (\<lambda>c. if \<exists>r\<in>set (sorted_list_of_set (proving_run_ids db)). in_flight r c then c\<lparr>c_status := INVALIDATED\<rparr> else c) (t_claims db)" for act why
    using recover_fold [OF store_invD(4) [OF assms(1)] distinct_sorted_list_of_set refl] by blast
  ultimately show ?thesis
    using recover_inv [OF assms(1)] assms(2)
    by (auto simp: rows_satisfy_def resting_row_def recover_interrupted_runs_def Let_def update_where_def) blast
qed

text \<open>What a run does to a predicate on rows, before the run's own claims are scheduled.\<close>

context pass_law
begin

lemma prepares:
  assumes "rows_satisfy Q (fst (recover_interrupted_runs (pi_now inp) db))" and "resolve_latex_closure (pi_source inp) (pi_main_file inp) = Inr files"
  shows "rows_satisfy Q (fst (prepare_pass N inp db))"
proof -
  obtain b run_id where b: "begin_run ''manuscript verify'' (pi_now inp) None (previous_snapshot db) (Some (pi_task_sha256 inp))
           (Some (ts_mode (pi_task inp))) (pi_environment_hash inp) (fst (recover_interrupted_runs (pi_now inp) db)) = (b, run_id)"
    by fastforce
  have "rows_satisfy Q b"
    using other [OF assms(1) begin_run_inv [OF inv [OF assms(1)]] same_proved_writes(9)] b by (metis fst_conv)
  then show ?thesis unfolding prepare_pass_run [OF assms(2) b] by (rule preservesSD [OF keeps_attempt])
qed

lemma recovers: "rows_satisfy Q d \<Longrightarrow> rows_satisfy Q (fst (recover_interrupted_runs t d))"
proof -
  assume d: "rows_satisfy Q d"
  have fold: "rows_satisfy Q (fold (\<lambda>r db. fst (reset_in_flight_claims r (act r) (why r) db)) ids d)" for act why ids
    by (rule fold_invariant_on [where I = "rows_satisfy Q", OF d]) (rule resets)
  have clear: "rows_satisfy Q (d\<lparr>t_claims := update_where P (\<lambda>c. c\<lparr>c_status := INVALIDATED\<rparr>) (t_claims d), t_runs := rs\<rparr>)"
    if "rows_satisfy Q d" "store_inv (d\<lparr>t_claims := update_where P (\<lambda>c. c\<lparr>c_status := INVALIDATED\<rparr>) (t_claims d), t_runs := rs\<rparr>)" for d P rs
    using that by (auto simp: rows_satisfy_def certificate_def update_where_def intro: fresh)
  show ?thesis
    using recover_inv [OF inv [OF d], of t] unfolding recover_interrupted_runs_def Let_def fst_conv
    by (intro clear [OF fold, unfolded store_db.simps] ) (simp add: store_db.simps)
qed

end

section \<open>Properties\<close>

lemma verify_project_cases:
  assumes "\<And>e. verify_project N host options db = (db, Inl e) \<Longrightarrow> P db"
    and "\<And>files d e. resolve_latex_closure (pi_source (vh_input host)) (pi_main_file (vh_input host)) = Inr files
      \<Longrightarrow> prepare_pass N (vh_input host) db = (d, Inl e) \<Longrightarrow> P d"
    and "\<And>files d prepared. resolve_latex_closure (pi_source (vh_input host)) (pi_main_file (vh_input host)) = Inr files
      \<Longrightarrow> prepare_pass N (vh_input host) db = (d, Inr prepared)
      \<Longrightarrow> P (fst (tryS (run_body N host options prepared) (handle_failure host prepared) d))"
  shows "P (fst (verify_project N host options db))"
proof (cases "validate_options options = Inr () \<and> vh_enter host = Inr ()")
  case False
  then obtain e where "verify_project N host options db = (db, Inl e)"
    unfolding verify_project_def bindS_readS by (cases "validate_options options"; cases "vh_enter host") auto
  then show ?thesis using assms(1) by simp
next
  case True
  then have run: "verify_project N host options db = bindS (prepare_pass N (vh_input host)) (\<lambda>prepared.
      tryS (run_body N host options prepared) (handle_failure host prepared)) db"
    unfolding verify_project_def bindS_readS by simp
  show ?thesis
  proof (cases "resolve_latex_closure (pi_source (vh_input host)) (pi_main_file (vh_input host))")
    case (Inl e)
    then have "verify_project N host options db = (db, Inl e)" unfolding run prepare_pass_def by (simp add: bindS_def)
    then show ?thesis using assms(1) by simp
  next
    case (Inr files)
    show ?thesis
      using assms(2,3) [OF Inr] unfolding run by (auto simp: bindS_def split: prod.split sum.split)
  qed
qed

text \<open>C5. A run strands no claim. Whatever way a run that has begun to prepare ends - with a verdict, with an error of any
  step or cancelled - no claim is left in flight for it or for any earlier run: each claim it scheduled has been settled
  by the certification, the batch results or the clean-up, or was made retryable.\<close>

theorem nothing_left_in_flight:
  assumes "store_inv db" and "\<And>c. c \<in> set (t_claims db) \<Longrightarrow> c_retired c \<Longrightarrow> c_status c \<noteq> PROVING"
    and "validate_options options = Inr ()" and "vh_enter host = Inr ()"
    and "resolve_latex_closure (pi_source (vh_input host)) (pi_main_file (vh_input host)) = Inr files"
  shows "in_flight_ids r (fst (verify_project N host options db)) = []"
proof -
  have rest: "rows_satisfy resting_row (fst (prepare_pass N (vh_input host) db))"
    by (rule resting.prepares [OF recover_rests [OF assms(1,2)] assms(5)])
  have run: "verify_project N host options db = bindS (prepare_pass N (vh_input host)) (\<lambda>prepared.
      tryS (run_body N host options prepared) (handle_failure host prepared)) db"
    unfolding verify_project_def bindS_readS assms(3,4) by simp
  show ?thesis
  proof (cases "prepare_pass N (vh_input host) db")
    case (Pair d result)
    show ?thesis
    proof (cases result)
      case (Inl e)
      then show ?thesis using rest resting_flight in_flight_none unfolding run Pair by (auto simp: bindS_def Pair)
    next
      case (Inr prepared)
      have "in_flight_only (pp_run_id prepared) {} d" using rest Pair by (simp add: resting_flight)
      from in_flight_none [OF body_lands [OF this]] show ?thesis unfolding run by (simp add: bindS_def Pair Inr)
    qed
  qed
qed

text \<open>C4. What is certified has its certificate. If every claim stored as CERTIFIED, or with a counterexample, stands next to
  a certificate of that status, then this still holds after a whole run, however it ends: no step of a run certifies a
  claim without storing the certificate, and none drops a certificate of a claim that stays certified.\<close>

theorem certified_claims_hold_certificates:
  assumes "rows_satisfy backed_row db"
  shows "rows_satisfy backed_row (fst (verify_project N host options db))"
proof (rule verify_project_cases)
  note prepared = backed.prepares [OF backed.recovers [OF assms]]
  show "rows_satisfy backed_row db" by (rule assms)
  show "rows_satisfy backed_row d"
    if "resolve_latex_closure (pi_source (vh_input host)) (pi_main_file (vh_input host)) = Inr files"
      "prepare_pass N (vh_input host) db = (d, Inl e)" for files d e
    using prepared [OF that(1), of N] that(2) by simp
  show "rows_satisfy backed_row (fst (tryS (run_body N host options prepared) (handle_failure host prepared) d))"
    if "resolve_latex_closure (pi_source (vh_input host)) (pi_main_file (vh_input host)) = Inr files"
      "prepare_pass N (vh_input host) db = (d, Inr prepared)" for files d prepared
    using prepared [OF that(1), of N] that(2) by (intro preservesSD [OF backed_run.keeps_run [OF refl]]) simp
qed

lemma close_run_verdict:
  assumes "close_run host setup errors build_ok d = (d', Inr (verdict, questions))"
  shows "verdict = run_verdict errors build_ok (current_states d') (pp_targets (rs_pass setup)) questions
    \<and> questions = map q_question_id (open_questions d')"
proof -
  have same: "t_claims x = t_claims y \<Longrightarrow> current_states x = current_states y" "t_clarifications x = t_clarifications y \<Longrightarrow> open_questions x = open_questions y"
    for x y by (simp_all add: current_states_def current_claim_rows_def open_questions_def)
  have nodes: "record_run_claim_nodes r x = Inr y \<Longrightarrow> t_claims y = t_claims x \<and> t_clarifications y = t_clarifications x" for r x y
    by (auto simp: record_run_claim_nodes_def Let_def bindE_Inr_iff)
  have frame: "t_claims (finish_run r a b c e x) = t_claims x" "t_clarifications (finish_run r a b c e x) = t_clarifications x"
    "t_claims (finish_run_concurrency r a b x) = t_claims x" "t_clarifications (finish_run_concurrency r a b x) = t_clarifications x" for r a b c e x
    by (simp_all add: finish_run_def finish_run_concurrency_def)
  obtain x where "verdict = run_verdict errors build_ok (current_states x) (pp_targets (rs_pass setup)) (map q_question_id (open_questions x))"
    and "questions = map q_question_id (open_questions x)" and x: "t_claims d' = t_claims x" "t_clarifications d' = t_clarifications x"
    using assms unfolding close_run_def
    by (auto simp: bindS_Inr_iff writeS_def voidS_Inr_iff case_prod_beta frame dest!: nodes)
  then show ?thesis using same(1) [OF x(1)] same(2) [OF x(2)] by simp
qed

lemma verified_verdict:
  assumes "fst (run_verdict errors build_ok states goals questions) = ''verified''"
  shows "rx_provider errors = [] \<and> rx_technical errors = [] \<and> build_ok \<and> questions = [] \<and> goals \<noteq> {} \<and> (\<forall>c\<in>goals. states c = Some CERTIFIED)
    \<and> snd (snd (run_verdict errors build_ok states goals questions)) = 0"
  using assms by (auto simp: run_verdict_def Let_def dict_get_def split: if_splits option.splits)

text \<open>C3. The verdict \<open>verified\<close> is borne out by the store. When a run ends with it, the run has a target, each target is
  stored as CERTIFIED with a certificate of that status, no question is open, no provider or technical error
  was recorded, the independent last build succeeded and the exit code is 0.\<close>

theorem verified_means_certified:
  assumes "rows_satisfy backed_row d" and "finish_verification host setup reused acc d = (d', Inr r)" and "vr_outcome r = ''verified''"
  shows "pp_targets (rs_pass setup) \<noteq> {} \<and> (\<forall>c\<in>pp_targets (rs_pass setup). current_states d' c = Some CERTIFIED
      \<and> (\<exists>cert. certificate c d' = Some cert \<and> ct_status cert = ''CERTIFIED''))
    \<and> open_questions d' = [] \<and> ra_errors acc = \<lparr>rx_provider = [], rx_technical = []\<rparr>
    \<and> (\<exists>build. vh_final_build host = Inr build \<and> succeeded build) \<and> vr_exit_code r = 0"
proof -
  obtain build d1 d2 errors verdict questions where build: "vh_final_build host = Inr build"
    and errors: "final_errors host setup build (ra_errors acc) d = (d1, Inr errors)"
    and close: "close_run host setup errors (succeeded build) d2 = (d', Inr (verdict, questions))"
    and r: "vr_outcome r = fst verdict" "vr_exit_code r = snd (snd verdict)"
    using assms(2) unfolding finish_verification_def
    by (auto simp: bindS_Inr_iff split: prod.splits)
  note verdict = close_run_verdict [OF close]
  have ok: "rx_provider errors = []" "rx_technical errors = []" "succeeded build" "questions = []" "pp_targets (rs_pass setup) \<noteq> {}"
      "\<forall>c\<in>pp_targets (rs_pass setup). current_states d' c = Some CERTIFIED" "snd (snd verdict) = 0"
    using verified_verdict [of errors "succeeded build" "current_states d'" "pp_targets (rs_pass setup)" questions] verdict assms(3) r(1) by auto
  have "errors = ra_errors acc" using errors ok(3) by (simp add: final_errors_def)
  moreover have backed: "rows_satisfy backed_row d'"
    using preservesSD [OF backed.keeps_finish assms(1), of host _ reused acc] assms(2) by (metis fst_conv)
  have "\<exists>cert. certificate c d' = Some cert \<and> ct_status cert = ''CERTIFIED''" if "current_states d' c = Some CERTIFIED" for c
    using that backed unfolding current_states_eq [OF store_invD(4) [OF backed.inv [OF backed]]]
    by (auto simp: rows_satisfy_iff backed_row_def state_in_force_def split: option.splits if_splits)
  ultimately show ?thesis using ok build r(2) verdict by auto
qed

text \<open>C13. The project changes only through guarded batches. A commit of a batch is applied only when the batch reported no
  provider failure and no error, its build succeeded, its tree is clean and every path it changed is the Lean module of
  one of its own claims; the commits are applied in order without gaps, up to the first conflict.\<close>

theorem merge_is_guarded:
  assumes "merge_batch hash8 git r = (picked, outcome)" and "picked \<noteq> []"
  shows "\<not> nonempty (br_provider_failure r) \<and> \<not> nonempty (br_error r) \<and> br_build_succeeded r \<and> br_git_status r = []
    \<and> (\<exists>paths. gv_changed_paths git = Inr paths \<and> set paths \<subseteq> claim_module_path hash8 ` set (br_claims r))
    \<and> (\<exists>commits rest. gv_commits git = Inr commits \<and> commits = picked @ rest \<and> (\<forall>c\<in>set picked. gv_pick git c = Inr None)
        \<and> (outcome = Inr None \<longleftrightarrow> rest = []))"
proof -
  have pick: "\<exists>rest. commits = picked @ rest \<and> (\<forall>c\<in>set picked. pick c = Inr None) \<and> (outcome = Inr None \<longleftrightarrow> rest = [])"
    if "pick_commits pick commits = (picked, outcome)" for pick commits picked outcome
    using that by (induction pick commits arbitrary: picked rule: pick_commits.induct)
      (fastforce split: sum.splits option.splits prod.splits)+
  from assms obtain paths commits where "batch_failure r = None" "gv_changed_paths git = Inr paths"
      "set paths \<subseteq> claim_module_path hash8 ` set (br_claims r)" "gv_commits git = Inr commits" "pick_commits (gv_pick git) commits = (picked, outcome)"
    by (auto simp: merge_batch_def Let_def split: if_splits sum.splits)
  then show ?thesis using pick [of "gv_pick git" commits picked outcome] by (auto simp: batch_failure_def nonempty_def split: if_splits option.splits)
qed

section \<open>Concrete runs\<close>

definition ex_build :: command_record where
  "ex_build = \<lparr>cm_argv = [''lake'', ''build''], cm_returncode = 0, cm_stdout = [], cm_stderr = [], cm_required = True\<rparr>"

definition ex_round :: round_host where
  "ex_round = \<lparr>rh_checkpoint = Inr (), rh_worktrees = Inr (), rh_calls = (\<lambda>_. []), rh_results = (\<lambda>_. Inr []), rh_merge_checkpoint = Inr (),
     rh_git = (\<lambda>_. \<lparr>gv_changed_paths = Inr [], gv_commits = Inr [], gv_pick = (\<lambda>_. Inr None)\<rparr>), rh_source_mutation = Inr [],
     rh_build = Inr ex_build, rh_extract = Inr (''4'', []), rh_environment_hash = Inr ''e''\<rparr>"

text \<open>A host on which everything succeeds, and one whose user cancels the run at the first checkpoint.\<close>

definition ex_host :: run_host where
  "ex_host = \<lparr>vh_enter = Inr (), vh_input = ex_input, vh_configured = [], vh_initial_effective = [], vh_final_effective = [],
     vh_telemetry = [], vh_checkpoint = Inr (), vh_setup = Inr [ex_build], vh_setup_checkpoint = Inr (), vh_bootstrap_commit = Inr (),
     vh_baseline = Inr (''4'', []), vh_baseline_checkpoint = Inr (), vh_environment_hash = Inr ''e'', vh_mathlib_revision = None,
     vh_repoprover_error = None, vh_rounds = (\<lambda>_. ex_round), vh_final_build = Inr ex_build, vh_final_checkpoint = Inr (),
     vh_final_extract = Inr (''4'', []), vh_publish = Inr (), vh_exception_artifacts = [], vh_dependency_priority = False,
     vh_order = sorted_list_of_set, vh_run_directory = ''runs/1'', vh_digest = (\<lambda>_. None), vh_hash8 = id, vh_printed = (\<lambda>_. []),
     vh_dumps = (\<lambda>_. [])\<rparr>"

definition ex_cancelled :: run_host where
  "ex_cancelled = ex_host\<lparr>vh_checkpoint := Inl (VerificationCancelled ''stop'')\<rparr>"

definition ex_options :: verify_options where
  "ex_options = \<lparr>vo_model = ''m'', vo_ai_driver = ''codex_cli'', vo_jobs = 1, vo_batch_size = 1, vo_lean_pool_size = 1\<rparr>"

theorem nothing_left_in_flight_witness:
  "in_flight_ids 1 ex_store = [''a''] \<and> in_flight_ids 1 (fst (verify_project list_nx ex_cancelled ex_options ex_store)) = []"
proof
  show "in_flight_ids 1 ex_store = [''a'']" by code_simp
  have options: "validate_options ex_options = Inr ()" by code_simp
  have enter: "vh_enter ex_cancelled = Inr ()" "vh_input ex_cancelled = ex_input" by (simp_all add: ex_cancelled_def ex_host_def)
  have closure: "resolve_latex_closure (pi_source ex_input) (pi_main_file ex_input) = Inr [''m'']" by code_simp
  show "in_flight_ids 1 (fst (verify_project list_nx ex_cancelled ex_options ex_store)) = []"
    by (rule nothing_left_in_flight [OF ex_store_inv _ options enter(1) closure [folded enter(2)]])
      (auto simp: ex_store_def ex_claim_def)
qed

definition ex_backed :: store_db where
  "ex_backed = ex_certified\<lparr>t_certificates := [\<lparr>ct_claim_id = ''d'', ct_status = ''CERTIFIED'', ct_manuscript_snapshot = ''s1'',
     ct_statement_hash = ''ab'', ct_formal_type_hash = ''t'', ct_lean_declaration = ''D'', ct_lean_value_hash = Some ''v'', ct_dependencies = [],
     ct_lean_dependencies = [], ct_axioms = [], ct_environment_hash = ''e'', ct_lean_version = ''4'', ct_mathlib_revision = None,
     ct_last_verified_run = 1\<rparr>]\<rparr>"

lemma ex_backed_rows: "rows_satisfy backed_row ex_backed"
  using ex_certified_inv
  by (simp add: rows_satisfy_def store_inv_def ex_backed_def unique_on_def backed_row_def certificate_def lookup_row_Cons ex_certified_def ex_claim_def)

theorem certified_claims_hold_certificates_witness:
  "map c_status (t_claims ex_backed) = [CERTIFIED] \<and> rows_satisfy backed_row (fst (verify_project list_nx ex_cancelled ex_options ex_backed))"
  by (rule conjI [OF _ certified_claims_hold_certificates [OF ex_backed_rows]]) (simp add: ex_backed_def ex_certified_def ex_claim_def)

definition ex_setup :: run_setup where
  "ex_setup = run_setup_of ex_host ex_options
     \<lparr>pp_run_id = 1, pp_snapshot = projr (pi_snapshot ex_input), pp_task = default_task_spec, pp_task_sha256 = [], pp_objects = [ex_definition],
      pp_edges = [], pp_targets = {''d''}, pp_selected = {''d''}, pp_skipped_unproved = {}, pp_directly_changed = {},
      pp_proof_only_changed = {}, pp_affected = {}, pp_deleted = {}, pp_unresolved_references = [], pp_cycles = [],
      pp_source_diff = [], pp_baseline_commit = [], pp_main_file = ''m'', pp_input_files = []\<rparr> {}"

definition ex_acc :: round_acc where
  "ex_acc = \<lparr>ra_certified = {}, ra_reconciled = {}, ra_counterexamples = {}, ra_errors = \<lparr>rx_provider = [], rx_technical = []\<rparr>\<rparr>"

lemma ex_verified: "case finish_verification ex_host ex_setup [] ex_acc ex_backed of (d, Inl _) \<Rightarrow> False | (d, Inr r) \<Rightarrow> vr_outcome r = ''verified''"
  by code_simp

theorem verified_means_certified_witness:
  "\<exists>d r cert. finish_verification ex_host ex_setup [] ex_acc ex_backed = (d, Inr r) \<and> vr_outcome r = ''verified''
     \<and> certificate ''d'' d = Some cert \<and> ct_status cert = ''CERTIFIED''"
proof -
  obtain d r where run: "finish_verification ex_host ex_setup [] ex_acc ex_backed = (d, Inr r)" "vr_outcome r = ''verified''"
    using ex_verified by (auto split: prod.splits sum.splits)
  have "''d'' \<in> pp_targets (rs_pass ex_setup)" by (simp add: ex_setup_def run_setup_of_def)
  with verified_means_certified [OF ex_backed_rows run] run show ?thesis by blast
qed

definition ex_result :: batch_result where
  "ex_result = \<lparr>br_index = 1001, br_claims = [''d''], br_base_commit = ''b'', br_final_commit = ''f'', br_git_status = [], br_build_succeeded = True,
     br_provider_failure = None, br_error = None, br_build_returncode = Some 0, br_build_timed_out = False, br_build_log = None\<rparr>"

definition ex_git :: git_view where
  "ex_git = \<lparr>gv_changed_paths = Inr [claim_module_path id ''d''], gv_commits = Inr [''c1'', ''c2''],
     gv_pick = (\<lambda>c. Inr (if c = ''c2'' then Some ''conflict'' else None))\<rparr>"

theorem merge_is_guarded_witness:
  "merge_batch id ex_git ex_result = ([''c1''], Inr (Some ''Deterministic batch merge conflict at c2: conflict''))
     \<and> br_build_succeeded ex_result \<and> gv_pick ex_git ''c1'' = Inr None"
proof -
  have run: "merge_batch id ex_git ex_result = ([''c1''], Inr (Some ''Deterministic batch merge conflict at c2: conflict''))" by code_simp
  from merge_is_guarded [OF run] run show ?thesis by auto
qed

end
