(* ===== verification/Failure_Graph.thy ===== *)
theory Failure_Graph
  imports DepGraph
begin

text \<open>
  The graph part of the failure report, \<^verbatim>\<open>incremental/failures.py\<close>: canonical paths from a target to the claims that
  block it, found by breadth-first search. The records are those of \<^verbatim>\<open>workflow/contracts.py\<close>.
\<close>

section \<open>The records of a report\<close>

datatype failure_scope = RUN_SCOPE | BATCH_SCOPE | CLAIM_SCOPE | COMPONENT_SCOPE

datatype failure_kind =
  CLAIM_TECHNICAL_KIND | BATCH_TECHNICAL_KIND | PROVIDER_KIND | INFRASTRUCTURE_KIND | SOURCE_INTEGRITY_KIND
  | DEPENDENCY_CYCLE_KIND | UNKNOWN_KIND

primrec scope_text :: "failure_scope \<Rightarrow> string" where
  "scope_text RUN_SCOPE = ''RUN''"
| "scope_text BATCH_SCOPE = ''BATCH''"
| "scope_text CLAIM_SCOPE = ''CLAIM''"
| "scope_text COMPONENT_SCOPE = ''COMPONENT''"

primrec kind_text :: "failure_kind \<Rightarrow> string" where
  "kind_text CLAIM_TECHNICAL_KIND = ''CLAIM_TECHNICAL''"
| "kind_text BATCH_TECHNICAL_KIND = ''BATCH_TECHNICAL''"
| "kind_text PROVIDER_KIND = ''PROVIDER''"
| "kind_text INFRASTRUCTURE_KIND = ''INFRASTRUCTURE''"
| "kind_text SOURCE_INTEGRITY_KIND = ''SOURCE_INTEGRITY''"
| "kind_text DEPENDENCY_CYCLE_KIND = ''DEPENDENCY_CYCLE''"
| "kind_text UNKNOWN_KIND = ''UNKNOWN''"

record failure_artifact =
  fa_path :: string
  fa_label :: string
  fa_sha256 :: "string option"
  fa_command :: "string list"
  fa_exit_code :: "int option"
  fa_timed_out :: bool

record failure_incident =
  in_incident_id :: int
  in_run_id :: int
  in_scope :: failure_scope
  in_kind :: failure_kind
  in_phase :: string
  in_category :: string
  in_message :: string
  in_detail :: "string option"
  in_provenance :: string
  in_claim_ids :: "string list"
  in_batch_index :: "int option"
  in_retryable :: bool
  in_artifacts :: "failure_artifact list"

record failure_node =
  fn_claim_id :: string
  fn_kind :: string
  fn_source_file :: string
  fn_statement_start :: int
  fn_statement_end :: int
  fn_state :: string
  fn_incident_ids :: "int list"

record failure_edge =
  fe_dependent :: string
  fe_dependency :: string
  fe_kinds :: "string list"
  fe_provenances :: "string list"

record failure_path =
  fp_target :: string
  fp_blocker :: string
  fp_claims :: "string list"

record failure_component =
  fc_component_id :: string
  fc_members :: "string list"
  fc_cyclic :: bool
  fc_blocker :: bool
  fc_incident_ids :: "int list"

definition is_global :: "failure_incident \<Rightarrow> bool" where
  "is_global incident \<longleftrightarrow> in_scope incident \<in> {RUN_SCOPE, BATCH_SCOPE}"

section \<open>The graph\<close>

definition failure_graph :: "'g nx_api \<Rightarrow> failure_node list \<Rightarrow> failure_edge list \<Rightarrow> 'g" where
  "failure_graph N nodes edges =
     (let graph = nx_add_nodes_from N (nx_empty N) (map fn_claim_id nodes)
      in nx_add_edges_from N graph (map (\<lambda>e. (fe_dependent e, fe_dependency e))
           (filter (\<lambda>e. nx_contains N graph (fe_dependent e) \<and> nx_contains N graph (fe_dependency e)) edges)))"

section \<open>Paths\<close>

text \<open>One turn of the inner loop: the children of a node that have no predecessor yet.\<close>

definition discover :: "string \<Rightarrow> string \<Rightarrow> (string \<Rightarrow> string option option) \<times> string list \<Rightarrow> (string \<Rightarrow> string option option) \<times> string list" where
  "discover node child acc =
     (case acc of (predecessor, queue) \<Rightarrow>
        if predecessor child \<noteq> None then (predecessor, queue)
        else (predecessor(child \<mapsto> Some node), queue @ [child]))"

text \<open>The \<open>while queue\<close> loop. A node enters the queue once, so the number of nodes bounds the turns.\<close>

primrec predecessors ::
    "nat \<Rightarrow> (string \<Rightarrow> string list) \<Rightarrow> (string \<Rightarrow> string option option) \<Rightarrow> string list \<Rightarrow> string \<Rightarrow> string option option" where
  "predecessors 0 children predecessor queue = predecessor"
| "predecessors (Suc fuel) children predecessor queue =
     (case queue of [] \<Rightarrow> predecessor
      | node # rest \<Rightarrow> (case fold (discover node) (children node) (predecessor, rest) of
          (predecessor, queue) \<Rightarrow> predecessors fuel children predecessor queue))"

text \<open>\<open>while cursor is not None\<close>.\<close>

primrec reverse_path :: "nat \<Rightarrow> (string \<Rightarrow> string option option) \<Rightarrow> string \<Rightarrow> string list" where
  "reverse_path 0 predecessor cursor = []"
| "reverse_path (Suc fuel) predecessor cursor =
     cursor # (case predecessor cursor of Some (Some previous) \<Rightarrow> reverse_path fuel predecessor previous | _ \<Rightarrow> [])"

definition sorted_successors :: "'g nx_api \<Rightarrow> 'g \<Rightarrow> string \<Rightarrow> string list" where
  "sorted_successors N graph node = sort (nx_successors N graph node)"

definition target_paths :: "'g nx_api \<Rightarrow> nat \<Rightarrow> 'g \<Rightarrow> string set \<Rightarrow> string \<Rightarrow> failure_path list" where
  "target_paths N fuel graph blockers target =
     (if \<not> nx_contains N graph target then []
      else let predecessor = predecessors fuel (sorted_successors N graph) [target \<mapsto> None] [target]
           in map (\<lambda>blocker. \<lparr>fp_target = target, fp_blocker = blocker, fp_claims = rev (reverse_path fuel predecessor blocker)\<rparr>)
                (filter (\<lambda>blocker. predecessor blocker \<noteq> None) (sorted_list_of_set blockers)))"

definition index_of :: "'a list \<Rightarrow> 'a \<Rightarrow> nat" where
  "index_of xs x = length (takeWhile (\<lambda>y. y \<noteq> x) xs)"

definition path_rank :: "string list \<Rightarrow> failure_path \<Rightarrow> nat \<times> nat \<times> string list \<times> string" where
  "path_rank targets p = (index_of targets (fp_target p), length (fp_claims p), fp_claims p, fp_blocker p)"

definition failure_paths :: "'g nx_api \<Rightarrow> nat \<Rightarrow> 'g \<Rightarrow> string list \<Rightarrow> string set \<Rightarrow> failure_path list" where
  "failure_paths N fuel graph targets blockers =
     sort_key (path_rank targets) (concat (map (target_paths N fuel graph blockers) targets))"

section \<open>Breadth-first search finds shortest paths\<close>

text \<open>A walk \<open>xs\<close> along a relation, and walks read backwards, the way the predecessors give them.\<close>

fun walk :: "('a \<times> 'a) set \<Rightarrow> 'a list \<Rightarrow> bool" where
  "walk R [] = False"
| "walk R [x] = True"
| "walk R (x # y # zs) = ((x, y) \<in> R \<and> walk R (y # zs))"

lemma walk_append: "walk R (xs @ [y]) \<Longrightarrow> (y, z) \<in> R \<Longrightarrow> walk R (xs @ [y, z])"
  by (induction R xs rule: walk.induct) auto

lemma walk_snocD: "walk R (xs @ [y, z]) \<Longrightarrow> (y, z) \<in> R \<and> walk R (xs @ [y])"
  by (induction R xs rule: walk.induct) auto

lemma reachable_walk: "(x, y) \<in> R\<^sup>* \<Longrightarrow> \<exists>xs. walk R xs \<and> hd xs = x \<and> last xs = y"
proof (induction rule: converse_rtrancl_induct)
  case base
  show ?case by (rule exI [of _ "[y]"]) simp
next
  case (step a b)
  then obtain xs where "walk R xs" "hd xs = b" "last xs = y" by blast
  with step(1) show ?case by (intro exI [of _ "a # xs"]) (cases xs, auto)
qed

text \<open>\<open>trail v\<close> is the path from \<open>v\<close> back to the start. The nodes that have left the queue are finished: their children are
  known, none of them deeper than one level below; the queue is ordered by depth and spans two levels.\<close>

definition known :: "(string \<Rightarrow> string option option) \<Rightarrow> string set" where
  "known predecessor = dom predecessor"

definition trail_ok :: "(string \<times> string) set \<Rightarrow> string \<Rightarrow> (string \<Rightarrow> string option option) \<Rightarrow> (string \<Rightarrow> string list) \<Rightarrow> bool" where
  "trail_ok R start predecessor trail \<longleftrightarrow>
     (\<forall>v\<in>dom predecessor. (\<exists>vs. trail v = v # vs) \<and> walk R (rev (trail v)) \<and> last (trail v) = start \<and> distinct (trail v)
        \<and> set (trail v) \<subseteq> dom predecessor
        \<and> (case predecessor v of Some (Some u) \<Rightarrow> trail v = v # trail u \<and> u \<in> dom predecessor | _ \<Rightarrow> trail v = [v]))"

abbreviation depth :: "(string \<Rightarrow> string list) \<Rightarrow> string \<Rightarrow> nat" where
  "depth trail v \<equiv> length (trail v)"

definition queue_ok :: "(string \<Rightarrow> string option option) \<Rightarrow> string list \<Rightarrow> (string \<Rightarrow> string list) \<Rightarrow> nat \<Rightarrow> bool" where
  "queue_ok predecessor queue trail level \<longleftrightarrow>
     distinct queue \<and> set queue \<subseteq> dom predecessor \<and> sorted (map (depth trail) queue)
     \<and> (\<forall>v\<in>set queue. level \<le> depth trail v \<and> depth trail v \<le> Suc level)
     \<and> (\<forall>v\<in>dom predecessor - set queue. depth trail v \<le> level)"

lemma discover_step:
  assumes "trail_ok R start predecessor trail" and "queue_ok predecessor queue trail level"
    and "node \<in> dom predecessor" and "depth trail node = level" and "(node, child) \<in> R"
    and "discover node child (predecessor, queue) = (predecessor', queue')"
  obtains trail' where "trail_ok R start predecessor' trail'" "queue_ok predecessor' queue' trail' level"
    "\<And>v. v \<in> dom predecessor \<Longrightarrow> trail' v = trail v" "dom predecessor \<subseteq> dom predecessor'"
    "child \<in> dom predecessor'" "depth trail' child \<le> Suc level" "dom predecessor' - set queue' = dom predecessor - set queue"
proof (cases "predecessor child")
  case (Some x)
  then have "depth trail child \<le> Suc level" using assms(2) by (auto simp: queue_ok_def) (metis DiffI domI le_SucI)
  then show ?thesis using assms Some by (intro that [of trail]) (auto simp: discover_def)
next
  case None
  let ?trail = "trail(child := child # trail node)"
  have eqs: "predecessor' = predecessor(child \<mapsto> Some node)" "queue' = queue @ [child]"
    using assms(6) None by (simp_all add: discover_def)
  have fresh: "v \<in> dom predecessor \<Longrightarrow> v \<noteq> child" for v using None by auto
  obtain vs where vs: "trail node = node # vs" using assms(1,3) by (auto simp: trail_ok_def)
  have node: "walk R (rev (trail node))" "last (trail node) = start" "distinct (trail node)" "set (trail node) \<subseteq> dom predecessor"
    using assms(1,3) by (auto simp: trail_ok_def)
  have walk: "walk R (rev (trail node) @ [child])"
    using node(1) walk_append [of R "rev vs" node child] assms(5) by (simp add: vs)
  have "trail_ok R start predecessor' ?trail"
    unfolding trail_ok_def
  proof
    fix v assume v: "v \<in> dom predecessor'"
    show "(\<exists>vs. ?trail v = v # vs) \<and> walk R (rev (?trail v)) \<and> last (?trail v) = start \<and> distinct (?trail v)
        \<and> set (?trail v) \<subseteq> dom predecessor'
        \<and> (case predecessor' v of Some (Some u) \<Rightarrow> ?trail v = v # ?trail u \<and> u \<in> dom predecessor' | _ \<Rightarrow> ?trail v = [v])"
    proof (cases "v = child")
      case True
      then show ?thesis using node walk vs fresh assms(3) by (auto simp: eqs)
    next
      case False
      then have "v \<in> dom predecessor" using v by (auto simp: eqs)
      then have "(\<exists>vs. trail v = v # vs) \<and> walk R (rev (trail v)) \<and> last (trail v) = start \<and> distinct (trail v)
        \<and> set (trail v) \<subseteq> dom predecessor
        \<and> (case predecessor v of Some (Some u) \<Rightarrow> trail v = v # trail u \<and> u \<in> dom predecessor | _ \<Rightarrow> trail v = [v])"
        using assms(1) by (simp add: trail_ok_def)
      then show ?thesis using False fresh by (auto simp: eqs split: option.splits)
    qed
  qed
  moreover have "queue_ok predecessor' queue' ?trail level"
  proof -
    have new: "child \<notin> set queue"
    proof
      assume "child \<in> set queue"
      then have "child \<in> dom predecessor" using assms(2) by (blast dest: queue_ok_def [THEN iffD1])
      then show False using None by (simp add: domIff)
    qed
    then have same: "map (depth ?trail) queue = map (depth trail) queue" by auto
    have "sorted (map (depth ?trail) queue)" unfolding same using assms(2) by (simp add: queue_ok_def)
    with new show ?thesis using assms(2,4) None by (auto simp: queue_ok_def eqs sorted_append)
  qed
  ultimately show ?thesis using None assms(4) fresh by (intro that [of ?trail]) (auto simp: eqs)
qed

lemma discover_children:
  assumes "trail_ok R start predecessor trail" and "queue_ok predecessor queue trail level"
    and "node \<in> dom predecessor" and "depth trail node = level" and "\<And>c. c \<in> set children \<Longrightarrow> (node, c) \<in> R"
    and "fold (discover node) children (predecessor, queue) = (predecessor', queue')"
  shows "\<exists>trail'. trail_ok R start predecessor' trail' \<and> queue_ok predecessor' queue' trail' level
    \<and> (\<forall>v\<in>dom predecessor. trail' v = trail v) \<and> dom predecessor \<subseteq> dom predecessor'
    \<and> (\<forall>c\<in>set children. c \<in> dom predecessor' \<and> depth trail' c \<le> Suc level) \<and> dom predecessor' - set queue' = dom predecessor - set queue"
  using assms
proof (induction children arbitrary: predecessor queue trail)
  case (Cons c cs)
  obtain p q where step: "discover node c (predecessor, queue) = (p, q)" by fastforce
  obtain t where t: "trail_ok R start p t" "queue_ok p q t level" "\<And>v. v \<in> dom predecessor \<Longrightarrow> t v = trail v"
      "dom predecessor \<subseteq> dom p" "c \<in> dom p" "depth t c \<le> Suc level" "dom p - set q = dom predecessor - set queue"
    by (rule discover_step [OF Cons.prems(1-4) _ step]) (use Cons.prems(5) in auto)
  have "fold (discover node) cs (p, q) = (predecessor', queue')" using Cons.prems(6) step by simp
  moreover have "node \<in> dom p" "depth t node = level" using Cons.prems(3,4) t(3,4) by auto
  ultimately obtain t' where t': "trail_ok R start predecessor' t'" "queue_ok predecessor' queue' t' level"
      "\<forall>v\<in>dom p. t' v = t v" "dom p \<subseteq> dom predecessor'" "\<forall>c\<in>set cs. c \<in> dom predecessor' \<and> depth t' c \<le> Suc level"
      "dom predecessor' - set queue' = dom p - set q"
    using Cons.IH [OF t(1,2)] Cons.prems(5) by auto
  show ?case
  proof (intro exI [of _ t'] conjI ballI)
    show "trail_ok R start predecessor' t'" "queue_ok predecessor' queue' t' level" by (fact t')+
    show "t' v = trail v" if "v \<in> dom predecessor" for v
      using t(3) [OF that] bspec [OF t'(3) subsetD [OF t(4) that]] by simp
    show "dom predecessor \<subseteq> dom predecessor'" using t(4) t'(4) by (rule subset_trans)
    show "x \<in> dom predecessor'" "depth t' x \<le> Suc level" if "x \<in> set (c # cs)" for x
      using that t(5,6) bspec [OF t'(3) t(5)] subsetD [OF t'(4) t(5)] t'(5) by (cases "x = c"; simp)+
    show "dom predecessor' - set queue' = dom predecessor - set queue" using t(7) t'(6) by simp
  qed
qed auto

text \<open>The state between two turns of the loop.\<close>

definition search_ok ::
    "(string \<times> string) set \<Rightarrow> string \<Rightarrow> (string \<Rightarrow> string option option) \<Rightarrow> string list \<Rightarrow> (string \<Rightarrow> string list) \<Rightarrow> bool" where
  "search_ok R start predecessor queue trail \<longleftrightarrow>
     trail_ok R start predecessor trail \<and> start \<in> dom predecessor \<and> depth trail start = 1
     \<and> (\<forall>v\<in>dom predecessor - set queue. \<forall>w. (v, w) \<in> R \<longrightarrow> w \<in> dom predecessor \<and> depth trail w \<le> Suc (depth trail v))
     \<and> (queue = [] \<or> queue_ok predecessor queue trail (depth trail (hd queue)))"

lemma search_turn:
  assumes "search_ok R start predecessor (node # rest) trail" and "\<And>c. c \<in> set cs \<longleftrightarrow> (node, c) \<in> R"
    and "fold (discover node) cs (predecessor, rest) = (predecessor', queue')"
  shows "\<exists>trail'. search_ok R start predecessor' queue' trail'"
    and "card (dom predecessor' - set queue') = Suc (card (dom predecessor - set (node # rest))) \<or> infinite (dom predecessor - set (node # rest))"
proof -
  let ?level = "depth trail node"
  have ok: "trail_ok R start predecessor trail" "queue_ok predecessor (node # rest) trail ?level"
    using assms(1) by (auto simp: search_ok_def)
  then have node: "node \<in> dom predecessor" "node \<notin> set rest" "queue_ok predecessor rest trail ?level"
    by (auto simp: queue_ok_def)
  obtain t where t: "trail_ok R start predecessor' t" "queue_ok predecessor' queue' t ?level" "\<forall>v\<in>dom predecessor. t v = trail v"
      "dom predecessor \<subseteq> dom predecessor'" "\<forall>c\<in>set cs. c \<in> dom predecessor' \<and> depth t c \<le> Suc ?level"
      "dom predecessor' - set queue' = dom predecessor - set rest"
    using discover_children [OF ok(1) node(3,1) refl assms(2) [THEN iffD1] assms(3), simplified] by (elim exE conjE) (rule that)
  have finished: "dom predecessor' - set queue' = insert node (dom predecessor - set (node # rest))" using t(6) node(1,2) by auto
  have "search_ok R start predecessor' queue' t"
    unfolding search_ok_def
  proof (intro conjI ballI allI impI)
    show "trail_ok R start predecessor' t" by (rule t(1))
    have start: "start \<in> dom predecessor" "depth trail start = 1" using assms(1) by (simp_all add: search_ok_def)
    show "start \<in> dom predecessor'" using t(4) start(1) by (rule subsetD)
    show "depth t start = 1" using bspec [OF t(3) start(1)] start(2) by simp
    show "w \<in> dom predecessor'" "depth t w \<le> Suc (depth t v)" if "v \<in> dom predecessor' - set queue'" "(v, w) \<in> R" for v w
    proof -
      have "w \<in> dom predecessor' \<and> depth t w \<le> Suc (depth t v)"
      proof (cases "v = node")
        case True
        then have "w \<in> set cs" using assms(2) that(2) by simp
        then show ?thesis using bspec [OF t(5)] bspec [OF t(3) node(1)] True by simp
      next
        case False
        then have v: "v \<in> dom predecessor - set (node # rest)" using that(1) finished by auto
        then have "w \<in> dom predecessor \<and> depth trail w \<le> Suc (depth trail v)"
          using assms(1) that(2) unfolding search_ok_def by blast
        then show ?thesis using bspec [OF t(3), of w] bspec [OF t(3), of v] subsetD [OF t(4), of w] v by simp
      qed
      then show "w \<in> dom predecessor'" "depth t w \<le> Suc (depth t v)" by blast+
    qed
    show "queue' = [] \<or> queue_ok predecessor' queue' t (depth t (hd queue'))"
    proof (cases queue')
      case (Cons a list)
      have level: "?level \<le> depth t a" using t(2) Cons by (simp add: queue_ok_def)
      then have "\<forall>v\<in>dom predecessor' - set queue'. depth t v \<le> depth t a" using t(2) le_trans unfolding queue_ok_def by blast
      moreover have "\<forall>v\<in>set queue'. depth t a \<le> depth t v" using t(2) Cons by (simp add: queue_ok_def)
      moreover have "\<forall>v\<in>set queue'. depth t v \<le> Suc (depth t a)" using t(2) level le_trans Suc_le_mono unfolding queue_ok_def by blast
      ultimately show ?thesis using t(2) Cons unfolding queue_ok_def by simp
    qed simp
  qed
  then show "\<exists>trail'. search_ok R start predecessor' queue' trail'" by blast
  have "node \<notin> dom predecessor - set (node # rest)" by simp
  then show "card (dom predecessor' - set queue') = Suc (card (dom predecessor - set (node # rest))) \<or> infinite (dom predecessor - set (node # rest))"
    unfolding finished by (cases "finite (dom predecessor - set (node # rest))") auto
qed

lemma predecessors_search:
  assumes "search_ok R start predecessor queue trail" and "\<And>v c. c \<in> set (children v) \<longleftrightarrow> (v, c) \<in> R"
    and "finite V" and "dom predecessor \<subseteq> V" and "R \<subseteq> V \<times> V" and "card V \<le> fuel + card (dom predecessor - set queue)"
  shows "\<exists>trail'. search_ok R start (predecessors fuel children predecessor queue) [] trail' \<and> dom (predecessors fuel children predecessor queue) \<subseteq> V"
  using assms
proof (induction fuel arbitrary: predecessor queue trail)
  case 0
  have "dom predecessor - set queue = V" using 0 by (intro card_seteq) auto
  then have "set queue \<inter> dom predecessor = {}" using 0 by auto
  then have "queue = []" using 0(1) by (cases queue) (auto simp: search_ok_def queue_ok_def)
  then show ?case using 0 by auto
next
  case (Suc fuel)
  show ?case
  proof (cases queue)
    case Nil
    then show ?thesis using Suc.prems by auto
  next
    case (Cons node rest)
    obtain p q where turn: "fold (discover node) (children node) (predecessor, rest) = (p, q)" by fastforce
    obtain t where t: "search_ok R start p q t"
      using search_turn(1) [OF Suc.prems(1) [unfolded Cons] Suc.prems(2) [of _ node] turn] by blast
    have fin: "finite (dom predecessor - set (node # rest))" using Suc.prems(3,4) by (auto intro: finite_subset)
    have "card (dom p - set q) = Suc (card (dom predecessor - set queue))"
      using search_turn(2) [OF Suc.prems(1) [unfolded Cons] Suc.prems(2) [of _ node] turn] fin Cons by auto
    moreover have "dom p \<subseteq> V"
    proof -
      have "fst (fold (discover node) cs (d, q0)) = d' \<Longrightarrow> set cs \<subseteq> V \<Longrightarrow> dom d \<subseteq> V \<Longrightarrow> dom d' \<subseteq> V" for cs d q0 d'
        by (induction cs arbitrary: d q0) (auto simp: discover_def split: if_splits prod.splits)
      moreover have "set (children node) \<subseteq> V" using Suc.prems(2,5) by auto
      ultimately show ?thesis using turn Suc.prems(4) by (metis fst_conv)
    qed
    ultimately show ?thesis
      using Suc.IH [OF t Suc.prems(2,3) _ Suc.prems(5)] Suc.prems(6) turn Cons by simp
  qed
qed

lemma reverse_trail:
  "trail_ok R start predecessor trail \<Longrightarrow> v \<in> dom predecessor \<Longrightarrow> depth trail v \<le> fuel \<Longrightarrow> reverse_path fuel predecessor v = trail v"
proof (induction fuel arbitrary: v)
  case 0
  then show ?case by (auto simp: trail_ok_def)
next
  case (Suc fuel)
  have v: "case predecessor v of Some (Some u) \<Rightarrow> trail v = v # trail u \<and> u \<in> dom predecessor | _ \<Rightarrow> trail v = [v]"
    using Suc.prems(1,2) by (simp add: trail_ok_def)
  show ?case using Suc.IH [OF Suc.prems(1)] Suc.prems(3) v by (auto split: option.splits)
qed

lemma search_shortest:
  assumes "search_ok R start predecessor [] trail"
  shows "walk R xs \<Longrightarrow> hd xs = start \<Longrightarrow> last xs \<in> dom predecessor \<and> depth trail (last xs) \<le> length xs"
proof (induction xs rule: rev_induct)
  case (snoc y xs)
  note IH = snoc.IH
  show ?case
  proof (cases xs rule: rev_exhaust)
    case Nil
    then show ?thesis using snoc.prems assms by (simp add: search_ok_def)
  next
    case (snoc ys x)
    then have "(x, y) \<in> R" "walk R xs" "hd xs = start" using snoc.prems walk_snocD [of R ys x y] by (auto simp: hd_append)
    then have "x \<in> dom predecessor" "depth trail x \<le> length xs" using IH snoc by auto
    then show ?thesis using assms \<open>(x, y) \<in> R\<close> by (fastforce simp: search_ok_def)
  qed
qed simp

context networkx
begin

lemma failure_graph_facts:
  "nx_contains N (failure_graph N nodes edges) c \<longleftrightarrow> c \<in> fn_claim_id ` set nodes"
  "nx_rel N (failure_graph N nodes edges) = {(fe_dependent e, fe_dependency e) | e. e \<in> set edges
     \<and> fe_dependent e \<in> fn_claim_id ` set nodes \<and> fe_dependency e \<in> fn_claim_id ` set nodes}"
  by (auto simp: failure_graph_def Let_def contains_simps nx_rel_simps image_iff)

lemma predecessor_search:
  assumes "graph = failure_graph N nodes edges" and "start \<in> fn_claim_id ` set nodes"
  obtains predecessor trail where "predecessors (length nodes) (sorted_successors N graph) [start \<mapsto> None] [start] = predecessor"
    "search_ok (nx_rel N graph) start predecessor [] trail" "dom predecessor \<subseteq> fn_claim_id ` set nodes"
proof -
  have R: "c \<in> set (sorted_successors N graph v) \<longleftrightarrow> (v, c) \<in> nx_rel N graph" for v c
    by (simp add: sorted_successors_def set_successors nx_rel_def)
  have "search_ok (nx_rel N graph) start [start \<mapsto> None] [start] (\<lambda>_. [start])"
    by (simp add: search_ok_def trail_ok_def queue_ok_def)
  moreover have "card (fn_claim_id ` set nodes) \<le> length nodes"
    using card_image_le [of "set nodes" fn_claim_id] card_length [of nodes] by simp
  ultimately show thesis
    using predecessors_search [of "nx_rel N graph" start "[start \<mapsto> None]" "[start]" _ "sorted_successors N graph"
        "fn_claim_id ` set nodes" "length nodes"] R assms that failure_graph_facts(2) [of nodes edges]
    by fastforce
qed

lemma target_paths_shortest:
  assumes "graph = failure_graph N nodes edges" and "finite blockers"
    and "p \<in> set (target_paths N (length nodes) graph blockers target)"
  shows "fp_target p = target" "fp_blocker p \<in> blockers" "walk (nx_rel N graph) (fp_claims p)" "hd (fp_claims p) = target"
    "last (fp_claims p) = fp_blocker p"
    "walk (nx_rel N graph) xs \<Longrightarrow> hd xs = target \<Longrightarrow> last xs = fp_blocker p \<Longrightarrow> length (fp_claims p) \<le> length xs"
proof -
  have "target \<in> fn_claim_id ` set nodes"
    using assms(1,3) failure_graph_facts(1) by (auto simp: target_paths_def split: if_splits)
  then obtain predecessor trail where run: "predecessors (length nodes) (sorted_successors N graph) [target \<mapsto> None] [target] = predecessor"
    and ok: "search_ok (nx_rel N graph) target predecessor [] trail" and dom: "dom predecessor \<subseteq> fn_claim_id ` set nodes"
    by (rule predecessor_search [OF assms(1)])
  have p: "fp_target p = target" "fp_blocker p \<in> blockers" "fp_blocker p \<in> dom predecessor"
    "fp_claims p = rev (reverse_path (length nodes) predecessor (fp_blocker p))"
    using assms(2,3) run by (auto simp: target_paths_def Let_def split: if_splits)
  have trail: "trail_ok (nx_rel N graph) target predecessor trail" using ok by (simp add: search_ok_def)
  have t: "walk (nx_rel N graph) (rev (trail (fp_blocker p)))" "last (trail (fp_blocker p)) = target" "distinct (trail (fp_blocker p))"
    "set (trail (fp_blocker p)) \<subseteq> dom predecessor" "\<exists>vs. trail (fp_blocker p) = fp_blocker p # vs"
    using trail p(3) by (simp_all add: trail_ok_def)
  have "depth trail (fp_blocker p) \<le> card (fn_claim_id ` set nodes)"
    using t(3,4) dom card_mono [of "fn_claim_id ` set nodes" "set (trail (fp_blocker p))"] by (auto simp: distinct_card)
  also have "\<dots> \<le> length nodes" using card_image_le [of "set nodes" fn_claim_id] card_length [of nodes] by simp
  finally have claims: "fp_claims p = rev (trail (fp_blocker p))" using reverse_trail [OF trail p(3)] p(4) by simp
  show "fp_target p = target" "fp_blocker p \<in> blockers" by (fact p)+
  show "walk (nx_rel N graph) (fp_claims p)" "hd (fp_claims p) = target" "last (fp_claims p) = fp_blocker p"
    using t by (auto simp: claims hd_rev)
  show "walk (nx_rel N graph) xs \<Longrightarrow> hd xs = target \<Longrightarrow> last xs = fp_blocker p \<Longrightarrow> length (fp_claims p) \<le> length xs"
    using search_shortest [OF ok, of xs] by (metis claims length_rev)
qed

lemma target_paths_complete:
  assumes "graph = failure_graph N nodes edges" and "finite blockers"
    and "target \<in> fn_claim_id ` set nodes" and "blocker \<in> blockers" and "(target, blocker) \<in> (nx_rel N graph)\<^sup>*"
  shows "\<exists>p\<in>set (target_paths N (length nodes) graph blockers target). fp_blocker p = blocker"
proof -
  obtain predecessor trail where run: "predecessors (length nodes) (sorted_successors N graph) [target \<mapsto> None] [target] = predecessor"
    and ok: "search_ok (nx_rel N graph) target predecessor [] trail"
    by (rule predecessor_search [OF assms(1,3)])
  obtain xs where "walk (nx_rel N graph) xs" "hd xs = target" "last xs = blocker" using reachable_walk [OF assms(5)] by blast
  then have "blocker \<in> dom predecessor" using search_shortest [OF ok] by blast
  moreover have "nx_contains N graph target" using assms(1,3) failure_graph_facts(1) by simp
  ultimately show ?thesis using assms(2,4) run by (auto simp: target_paths_def Let_def image_iff)
qed

end

lemma walk_reachable: "walk R xs \<Longrightarrow> (hd xs, last xs) \<in> R\<^sup>*"
  by (induction R xs rule: walk.induct) (auto intro: converse_rtrancl_into_rtrancl)

context networkx
begin

lemma failure_paths_exact:
  assumes "graph = failure_graph N nodes edges" and "finite blockers"
    and "paths = failure_paths N (length nodes) graph targets blockers"
  shows "(\<forall>p\<in>set paths. fp_target p \<in> set targets \<and> fp_blocker p \<in> blockers
      \<and> walk (nx_rel N graph) (fp_claims p) \<and> hd (fp_claims p) = fp_target p \<and> last (fp_claims p) = fp_blocker p
      \<and> (\<forall>xs. walk (nx_rel N graph) xs \<and> hd xs = fp_target p \<and> last xs = fp_blocker p \<longrightarrow> length (fp_claims p) \<le> length xs))
    \<and> (\<forall>t\<in>set targets \<inter> fn_claim_id ` set nodes. \<forall>b\<in>blockers.
        (\<exists>p\<in>set paths. fp_target p = t \<and> fp_blocker p = b) \<longleftrightarrow> (t, b) \<in> (nx_rel N graph)\<^sup>*)"
proof -
  have set: "set paths = (\<Union>t\<in>set targets. set (target_paths N (length nodes) graph blockers t))"
    by (simp add: assms(3) failure_paths_def)
  note exact = target_paths_shortest [OF assms(1,2)]
  have one: "fp_target p \<in> set targets \<and> fp_blocker p \<in> blockers \<and> walk (nx_rel N graph) (fp_claims p) \<and> hd (fp_claims p) = fp_target p
      \<and> last (fp_claims p) = fp_blocker p
      \<and> (\<forall>xs. walk (nx_rel N graph) xs \<and> hd xs = fp_target p \<and> last xs = fp_blocker p \<longrightarrow> length (fp_claims p) \<le> length xs)"
    if "p \<in> set paths" for p
  proof -
    from that obtain t where t: "t \<in> set targets" "p \<in> set (target_paths N (length nodes) graph blockers t)"
      unfolding set by blast
    note facts = exact [OF t(2)]
    show ?thesis
    proof (intro conjI allI impI)
      show "fp_target p \<in> set targets" using t(1) facts(1) by simp
      show "hd (fp_claims p) = fp_target p" using facts(1,4) by simp
      show "length (fp_claims p) \<le> length xs"
        if "walk (nx_rel N graph) xs \<and> hd xs = fp_target p \<and> last xs = fp_blocker p" for xs
        using that facts(1) by (intro facts(6)) auto
    qed (fact facts)+
  qed
  moreover have "(\<exists>p\<in>set paths. fp_target p = t \<and> fp_blocker p = b) \<longleftrightarrow> (t, b) \<in> (nx_rel N graph)\<^sup>*"
    if t: "t \<in> set targets \<inter> fn_claim_id ` set nodes" "b \<in> blockers" for t b
  proof
    assume "\<exists>p\<in>set paths. fp_target p = t \<and> fp_blocker p = b"
    then obtain p where p: "p \<in> set paths" "fp_target p = t" "fp_blocker p = b" by blast
    show "(t, b) \<in> (nx_rel N graph)\<^sup>*"
      using walk_reachable [of "nx_rel N graph" "fp_claims p"] one [OF p(1)] p(2,3) by simp
  next
    assume "(t, b) \<in> (nx_rel N graph)\<^sup>*"
    then obtain p where p: "p \<in> set (target_paths N (length nodes) graph blockers t)" "fp_blocker p = b"
      using target_paths_complete [OF assms(1,2), of t b] t by blast
    then have "p \<in> set paths" using t(1) unfolding set by blast
    with p(2) exact(1) [OF p(1)] show "\<exists>p\<in>set paths. fp_target p = t \<and> fp_blocker p = b" by blast
  qed
  ultimately show ?thesis by blast
qed

end

text \<open>C19. The paths of a failure report are exact. For each target and each blocker in the graph there is a path in the
  report if and only if the target depends on the blocker, directly or not; and every path of the report leads along
  dependencies from its target to its blocker, and no such path is shorter.\<close>

theorem failure_paths_shortest:
  assumes "networkx N" and "graph = failure_graph N nodes edges" and "finite blockers"
    and "paths = failure_paths N (length nodes) graph targets blockers"
  shows "(\<forall>p\<in>set paths. fp_target p \<in> set targets \<and> fp_blocker p \<in> blockers
      \<and> walk (nx_rel N graph) (fp_claims p) \<and> hd (fp_claims p) = fp_target p \<and> last (fp_claims p) = fp_blocker p
      \<and> (\<forall>xs. walk (nx_rel N graph) xs \<and> hd xs = fp_target p \<and> last xs = fp_blocker p \<longrightarrow> length (fp_claims p) \<le> length xs))
    \<and> (\<forall>t\<in>set targets \<inter> fn_claim_id ` set nodes. \<forall>b\<in>blockers.
        (\<exists>p\<in>set paths. fp_target p = t \<and> fp_blocker p = b) \<longleftrightarrow> (t, b) \<in> (nx_rel N graph)\<^sup>*)"
  using networkx.failure_paths_exact [OF assms] .

definition ex_failure_node :: "string \<Rightarrow> string \<Rightarrow> int list \<Rightarrow> failure_node" where
  "ex_failure_node claim_id state ids = \<lparr>fn_claim_id = claim_id, fn_kind = ''lemma'', fn_source_file = ''a.tex'',
     fn_statement_start = 1, fn_statement_end = 2, fn_state = state, fn_incident_ids = ids\<rparr>"

definition ex_failure_nodes :: "failure_node list" where
  "ex_failure_nodes = [ex_failure_node ''def'' ''FAILED_TECHNICAL'' [7], ex_failure_node ''lem'' ''READY_TO_PROVE'' [],
     ex_failure_node ''thm'' ''FAILED_TECHNICAL'' []]"

definition ex_failure_edges :: "failure_edge list" where
  "ex_failure_edges = map (\<lambda>(a, b). \<lparr>fe_dependent = a, fe_dependency = b, fe_kinds = [''reference''], fe_provenances = [''tex'']\<rparr>)
     [(''lem'', ''def''), (''thm'', ''def''), (''thm'', ''lem'')]"

theorem failure_paths_shortest_witness:
  "map fp_claims (failure_paths list_nx 3 (failure_graph list_nx ex_failure_nodes ex_failure_edges) [''thm''] {''def''})
     = [[''thm'', ''def'']]
   \<and> (''thm'', ''def'') \<in> (nx_rel list_nx (failure_graph list_nx ex_failure_nodes ex_failure_edges))\<^sup>*"
proof -
  let ?graph = "failure_graph list_nx ex_failure_nodes ex_failure_edges"
  have run: "failure_paths list_nx (length ex_failure_nodes) ?graph [''thm''] (set [''def''])
      = [\<lparr>fp_target = ''thm'', fp_blocker = ''def'', fp_claims = [''thm'', ''def'']\<rparr>]"
    by code_simp
  moreover have "length ex_failure_nodes = 3" "''thm'' \<in> fn_claim_id ` set ex_failure_nodes" by code_simp+
  ultimately show ?thesis
    using failure_paths_shortest [OF list_graphs.networkx_axioms refl, of "set [''def'']" _ ex_failure_nodes ex_failure_edges "[''thm'']",
        OF _ refl]
    by simp
qed

end
