(* ===== verification/Failure_Outline.thy ===== *)
theory Failure_Outline
  imports Failure_Graph Decimal
begin

text \<open>
  The tree outline of a failure report, \<^verbatim>\<open>_outline\<close> of \<^verbatim>\<open>incremental/failures.py\<close>, for an acyclic graph: a depth-first
  walk with an explicit stack, where a claim met again is a leaf that refers to its first place. The recursion it
  stands for is an inductive relation; the stack refines it, and every reachable claim is expanded once.
\<close>

section \<open>The outline\<close>

datatype outline_node =
  Outline (ol_claim_id: string) (ol_state: string) (ol_blocker: bool) (ol_incident_ids: "int list") (ol_shared: bool)
    (ol_children: "outline_node list")

definition globally_affected :: "string list \<Rightarrow> failure_incident list \<Rightarrow> string set" where
  "globally_affected targets incidents =
     set (concat (map (\<lambda>i. if in_claim_ids i = [] then targets else in_claim_ids i) (filter is_global incidents)))"

definition display_state :: "string set \<Rightarrow> string set \<Rightarrow> string \<Rightarrow> failure_node \<Rightarrow> string" where
  "display_state affected blockers claim_id node =
     (if claim_id \<in> affected \<and> claim_id \<notin> blockers \<and> fn_state node = claim_state_text FAILED_TECHNICAL
      then ''BLOCKED_BY_GLOBAL_INCIDENT'' else fn_state node)"

text \<open>What the closures \<open>visit\<close> and \<open>display_state\<close> capture.\<close>

record outline_context =
  oc_children :: "string \<Rightarrow> string list"
  oc_nodes :: "failure_node list"
  oc_affected :: "string set"
  oc_blockers :: "string set"

abbreviation node_of :: "outline_context \<Rightarrow> string \<Rightarrow> failure_node option" where
  "node_of oc \<equiv> dict_by fn_claim_id (oc_nodes oc)"

definition shared_leaf :: "outline_context \<Rightarrow> string \<Rightarrow> failure_node \<Rightarrow> outline_node" where
  "shared_leaf oc claim_id node =
     Outline claim_id (display_state (oc_affected oc) (oc_blockers oc) claim_id node) (claim_id \<in> oc_blockers oc)
       (fn_incident_ids node) True []"

definition expanded_node :: "outline_context \<Rightarrow> string \<Rightarrow> failure_node \<Rightarrow> outline_node list \<Rightarrow> outline_node" where
  "expanded_node oc claim_id node built =
     Outline claim_id (display_state (oc_affected oc) (oc_blockers oc) claim_id node) (claim_id \<in> oc_blockers oc)
       (fn_incident_ids node) False built"

text \<open>A frame: the claim, its children in order, the index of the next one, what is built.\<close>

type_synonym outline_frame = "string \<times> string list \<times> nat \<times> outline_node list"

definition frame_work :: "outline_frame \<Rightarrow> nat" where
  "frame_work frame = (case frame of (_, children, i, _) \<Rightarrow> Suc (length children - i))"

lemma node_of_mem: "dict_by fn_claim_id nodes c = Some n \<Longrightarrow> c \<in> fn_claim_id ` set nodes"
  by (induction nodes rule: rev_induct) (auto simp: dict_by_def split: if_splits)

text \<open>The \<open>while stack\<close> loop with the claims expanded so far. Its top frame is the head of the list. The loop ends:
  a turn that pushes a frame expands a claim of the report, and the others shrink the work left on the stack.\<close>

function outline_loop ::
    "outline_context \<Rightarrow> outline_frame list \<Rightarrow> string set \<Rightarrow> (outline_node \<times> string set) result" where
  "outline_loop oc [] expanded = Inl (AssertionError ''outline stack unexpectedly exhausted'')"
| "outline_loop oc ((current, children, child_index, built) # stack) expanded =
     (if child_index < length children
      then let child = children ! child_index
           in case node_of oc child of
             None \<Rightarrow> Inl (KeyError child)
           | Some child_node \<Rightarrow>
               if child \<in> expanded
               then outline_loop oc ((current, children, child_index + 1, built @ [shared_leaf oc child child_node]) # stack) expanded
               else outline_loop oc ((child, oc_children oc child, 0, []) # (current, children, child_index + 1, built) # stack)
                      (insert child expanded)
      else case node_of oc current of
             None \<Rightarrow> Inl (KeyError current)
           | Some current_node \<Rightarrow>
               let completed = expanded_node oc current current_node built
               in case stack of [] \<Rightarrow> Inr (completed, expanded)
                  | (parent, siblings, sibling_index, parent_built) # rest \<Rightarrow>
                      outline_loop oc ((parent, siblings, sibling_index, parent_built @ [completed]) # rest) expanded)"
  by pat_completeness auto
termination
proof (relation "measures [\<lambda>(oc, stack, expanded). card (fn_claim_id ` set (oc_nodes oc) - expanded),
    \<lambda>(oc, stack, expanded). sum_list (map frame_work stack)]")
qed (auto simp: frame_work_def dest!: node_of_mem intro!: psubset_card_mono)

declare outline_loop.simps [simp del]

definition visit_outline :: "outline_context \<Rightarrow> string \<Rightarrow> string set \<Rightarrow> (outline_node \<times> string set) result" where
  "visit_outline oc claim_id expanded =
     (if claim_id \<in> expanded
      then (case node_of oc claim_id of None \<Rightarrow> Inl (KeyError claim_id)
            | Some node \<Rightarrow> Inr (shared_leaf oc claim_id node, expanded))
      else outline_loop oc [(claim_id, oc_children oc claim_id, 0, [])] (insert claim_id expanded))"

primrec visit_all :: "outline_context \<Rightarrow> string list \<Rightarrow> string set \<Rightarrow> (outline_node list \<times> string set) result" where
  "visit_all oc [] expanded = Inr ([], expanded)"
| "visit_all oc (c # cs) expanded =
     bindE (visit_outline oc c expanded) (\<lambda>(node, expanded).
     bindE (visit_all oc cs expanded) (\<lambda>(nodes, expanded). Inr (node # nodes, expanded)))"

text \<open>A root per incident of the run or of a batch.\<close>

definition affected_of :: "outline_context \<Rightarrow> string list \<Rightarrow> failure_incident \<Rightarrow> string list" where
  "affected_of oc targets incident =
     filter (\<lambda>c. node_of oc c \<noteq> None) (if in_claim_ids incident = [] then targets else in_claim_ids incident)"

definition incident_root :: "failure_incident \<Rightarrow> outline_node list \<Rightarrow> outline_node" where
  "incident_root incident children =
     Outline (''incident:'' @ int_text (in_incident_id incident))
       (scope_text (in_scope incident) @ '':'' @ kind_text (in_kind incident)) True [in_incident_id incident] False children"

primrec incident_roots ::
    "outline_context \<Rightarrow> string list \<Rightarrow> failure_incident list \<Rightarrow> string set
     \<Rightarrow> (outline_node list \<times> string set) result" where
  "incident_roots oc targets [] expanded = Inr ([], expanded)"
| "incident_roots oc targets (i # incidents) expanded =
     bindE (visit_all oc (affected_of oc targets i) expanded) (\<lambda>(children, expanded).
     bindE (incident_roots oc targets incidents expanded) (\<lambda>(roots, expanded).
     Inr (incident_root i children # roots, expanded)))"

definition failure_outline ::
    "'g nx_api \<Rightarrow> 'g \<Rightarrow> string list \<Rightarrow> failure_node list \<Rightarrow> string set \<Rightarrow> failure_incident list
     \<Rightarrow> outline_node list result" where
  "failure_outline N graph targets nodes blockers incidents =
     (let oc = \<lparr>oc_children = sorted_successors N graph, oc_nodes = nodes, oc_affected = globally_affected targets incidents,
                oc_blockers = blockers\<rparr>
      in bindE (incident_roots oc targets (filter is_global incidents) {}) (\<lambda>(roots, expanded).
         bindE (visit_all oc (filter (\<lambda>c. node_of oc c \<noteq> None) targets) expanded) (\<lambda>(trees, _).
         Inr (roots @ trees))))"

section \<open>The recursion the stack stands for\<close>

text \<open>\<open>unfolds oc cs E ts E'\<close>: with the claims \<open>E\<close> expanded so far, the children \<open>cs\<close> become the trees \<open>ts\<close>, and then
  \<open>E'\<close> is expanded. A claim met before is a shared leaf; any other is expanded on the spot, before its siblings.\<close>

inductive unfolds :: "outline_context \<Rightarrow> string list \<Rightarrow> string set \<Rightarrow> outline_node list \<Rightarrow> string set \<Rightarrow> bool" for oc where
  nothing: "unfolds oc [] E [] E"
| shared: "unfolds oc (c # cs) E (shared_leaf oc c node # ts) E'"
    if "c \<in> E" "node_of oc c = Some node" "unfolds oc cs E ts E'"
| expand: "unfolds oc (c # cs) E (expanded_node oc c node built # ts) E''"
    if "c \<notin> E" "node_of oc c = Some node" "unfolds oc (oc_children oc c) (insert c E) built E'" "unfolds oc cs E' ts E''"

inductive_cases unfolds_nilE: "unfolds oc [] E ts E'"
inductive_cases unfolds_consE: "unfolds oc (c # cs) E ts E'"

lemma unfolds_loop:
  "unfolds oc cs E ts E' \<Longrightarrow> outline_loop oc ((current, before @ cs, length before, built) # stack) E
     = outline_loop oc ((current, before @ cs, length (before @ cs), built @ ts) # stack) E'"
proof (induction arbitrary: current before built stack rule: unfolds.induct)
  case (shared c E node cs ts E')
  then show ?case using shared.IH [of current "before @ [c]" "built @ [shared_leaf oc c node]" stack]
    by (simp add: outline_loop.simps(2) [of oc current "before @ c # cs" "length before"])
next
  case (expand c E node inner E' cs ts E'')
  have "outline_loop oc ((current, before @ c # cs, length before, built) # stack) E
    = outline_loop oc ((c, oc_children oc c, 0, []) # (current, before @ c # cs, Suc (length before), built) # stack) (insert c E)"
    using expand.hyps(1,2) by (simp add: outline_loop.simps(2) [of oc current "before @ c # cs" "length before"])
  also have "\<dots> = outline_loop oc ((current, before @ c # cs, Suc (length before), built @ [expanded_node oc c node inner]) # stack) E'"
    using expand.IH(1) [of c "[]" "[]"] expand.hyps(2)
    by (simp add: outline_loop.simps(2) [of oc c "oc_children oc c" "length (oc_children oc c)"])
  also have "\<dots> = outline_loop oc ((current, before @ c # cs, length (before @ c # cs), built @ expanded_node oc c node inner # ts) # stack) E''"
    using expand.IH(2) [of current "before @ [c]" "built @ [expanded_node oc c node inner]" stack] by simp
  finally show ?case .
qed simp

lemma unfolds_visit:
  assumes "unfolds oc [c] E [t] E'"
  shows "visit_outline oc c E = Inr (t, E')"
  using assms
proof (rule unfolds_consE)
  fix node ts
  assume "[t] = shared_leaf oc c node # ts" "c \<in> E" "node_of oc c = Some node" "unfolds oc [] E ts E'"
  then show ?thesis by (auto simp: visit_outline_def elim: unfolds_nilE)
next
  fix node built E1 ts
  assume "[t] = expanded_node oc c node built # ts" "c \<notin> E" "node_of oc c = Some node"
    "unfolds oc (oc_children oc c) (insert c E) built E1" "unfolds oc [] E1 ts E'"
  then show ?thesis
    using unfolds_loop [of oc "oc_children oc c" "insert c E" built E1 c "[]" "[]" "[]"]
    by (auto simp: visit_outline_def outline_loop.simps(2) [of oc c "oc_children oc c" "length (oc_children oc c)"] elim: unfolds_nilE)
qed

lemma unfolds_visit_all: "unfolds oc cs E ts E' \<Longrightarrow> visit_all oc cs E = Inr (ts, E')"
proof (induction cs arbitrary: E ts)
  case Nil
  then show ?case by (auto elim: unfolds_nilE)
next
  case (Cons c cs)
  obtain t ts' E1 where parts: "ts = t # ts'" "unfolds oc [c] E [t] E1" "unfolds oc cs E1 ts' E'"
    using Cons.prems by (elim unfolds_consE) (blast intro: unfolds.intros)+
  show ?case using Cons.IH [OF parts(3)] unfolds_visit [OF parts(2)] by (simp add: parts(1))
qed

text \<open>Every claim of a closed set unfolds, so the loop never meets a claim without a node.\<close>

lemma unfolds_subset: "unfolds oc cs E ts E' \<Longrightarrow> E \<subseteq> E'"
  by (induction rule: unfolds.induct) auto

definition outline_closed :: "outline_context \<Rightarrow> bool" where
  "outline_closed oc \<longleftrightarrow> (\<forall>n\<in>set (oc_nodes oc). set (oc_children oc (fn_claim_id n)) \<subseteq> fn_claim_id ` set (oc_nodes oc))"

lemma unfolds_total:
  assumes "outline_closed oc" and "set cs \<subseteq> fn_claim_id ` set (oc_nodes oc)"
  shows "\<exists>ts E'. unfolds oc cs E ts E'"
proof -
  let ?V = "fn_claim_id ` set (oc_nodes oc)"
  have "card (?V - E) \<le> k \<Longrightarrow> set cs \<subseteq> ?V \<Longrightarrow> \<exists>ts E'. unfolds oc cs E ts E'" for k
  proof (induction k arbitrary: cs E)
    case (Suc k)
    show ?case using Suc.prems
    proof (induction cs arbitrary: E)
      case (Cons c cs)
      then obtain node where node: "node_of oc c = Some node" using dict_by_None_iff [of fn_claim_id "oc_nodes oc" c] by auto
      show ?case
      proof (cases "c \<in> E")
        case True
        then show ?thesis using Cons.IH [of E] Cons.prems node by (auto intro: unfolds.shared)
      next
        case False
        have "card (?V - insert c E) < card (?V - E)"
          using Cons.prems(2) False by (intro psubset_card_mono) auto
        moreover have "set (oc_children oc c) \<subseteq> ?V" using assms(1) Cons.prems(2) by (auto simp: outline_closed_def)
        ultimately obtain built E1 where inner: "unfolds oc (oc_children oc c) (insert c E) built E1"
          using Suc.IH [of "insert c E" "oc_children oc c"] Cons.prems(1) by auto
        have "card (?V - E1) \<le> Suc k"
          using card_mono [of "?V - E" "?V - E1"] unfolds_subset [OF inner] Cons.prems(1) by fastforce
        then obtain ts E2 where "unfolds oc cs E1 ts E2" using Cons.IH [of E1] Cons.prems(2) by auto
        then show ?thesis using unfolds.expand [OF False node inner] by blast
      qed
    qed (auto intro: unfolds.nothing)
  next
    case 0
    then have "?V \<subseteq> E" by simp
    then show ?case using 0(2)
    proof (induction cs)
      case (Cons c cs)
      then obtain node where node: "node_of oc c = Some node" using dict_by_None_iff [of fn_claim_id "oc_nodes oc" c] by auto
      obtain ts E' where rest: "unfolds oc cs E ts E'" using Cons by auto
      have "c \<in> E" using Cons.prems by auto
      then show ?case using unfolds.shared [OF _ node rest] by blast
    qed (auto intro: unfolds.nothing)
  qed
  then show ?thesis using assms(2) by blast
qed


lemma unfolds_append:
  "unfolds oc cs E ts E' \<Longrightarrow> unfolds oc ds E' us E'' \<Longrightarrow> unfolds oc (cs @ ds) E (ts @ us) E''"
  by (induction rule: unfolds.induct) (auto intro: unfolds.intros)

section \<open>What an outline shows\<close>

text \<open>The claims expanded in a tree, and a tree that shows the graph: an expanded claim has exactly its dependencies below it.\<close>

fun expanded_claims :: "outline_node \<Rightarrow> string list" where
  "expanded_claims (Outline c state blocker ids shared children) =
     (if shared then [] else [c]) @ concat (map expanded_claims children)"

fun outline_faithful :: "outline_context \<Rightarrow> outline_node \<Rightarrow> bool" where
  "outline_faithful oc (Outline c state blocker ids shared children) \<longleftrightarrow>
     (case node_of oc c of None \<Rightarrow> False
      | Some node \<Rightarrow> state = display_state (oc_affected oc) (oc_blockers oc) c node \<and> ids = fn_incident_ids node)
     \<and> (blocker \<longleftrightarrow> c \<in> oc_blockers oc)
     \<and> map ol_claim_id children = (if shared then [] else oc_children oc c) \<and> (\<forall>t\<in>set children. outline_faithful oc t)"

abbreviation forest_claims :: "outline_node list \<Rightarrow> string list" where
  "forest_claims ts \<equiv> concat (map expanded_claims ts)"

lemma unfolds_faithful: "unfolds oc cs E ts E' \<Longrightarrow> map ol_claim_id ts = cs \<and> (\<forall>t\<in>set ts. outline_faithful oc t)"
  by (induction rule: unfolds.induct) (auto simp: shared_leaf_def expanded_node_def)

lemma unfolds_claims:
  "unfolds oc cs E ts E' \<Longrightarrow> E \<subseteq> E' \<and> distinct (forest_claims ts) \<and> set (forest_claims ts) = E' - E"
proof (induction rule: unfolds.induct)
  case (expand c E node built E' cs ts E'')
  then have "forest_claims (expanded_node oc c node built # ts) = c # forest_claims built @ forest_claims ts"
    by (simp add: expanded_node_def)
  then show ?case using expand by auto
qed (auto simp: shared_leaf_def)

text \<open>The expanded claims are those reached from the ones asked for.\<close>

definition child_rel :: "outline_context \<Rightarrow> (string \<times> string) set" where
  "child_rel oc = {(v, c). c \<in> set (oc_children oc v)}"

lemma unfolds_closed:
  "unfolds oc cs E ts E' \<Longrightarrow> set cs \<subseteq> E' \<and> child_rel oc `` (E' - E) \<subseteq> E'"
proof (induction rule: unfolds.induct)
  case (expand c E node built E' cs ts E'')
  have "E' \<subseteq> E''" "insert c E \<subseteq> E'" using unfolds_subset expand.hyps by blast+
  moreover have "child_rel oc `` {c} = set (oc_children oc c)" by (auto simp: child_rel_def)
  moreover have "E'' - E \<subseteq> {c} \<union> (E' - insert c E) \<union> (E'' - E')" by blast
  ultimately show ?case using expand.IH by (simp add: Image_Un) blast
qed (auto dest: unfolds_subset)

lemma unfolds_reached: "unfolds oc cs E ts E' \<Longrightarrow> E' - E \<subseteq> (child_rel oc)\<^sup>* `` set cs"
proof (induction rule: unfolds.induct)
  case (expand c E node built E' cs ts E'')
  have "set (oc_children oc c) \<subseteq> child_rel oc `` {c}" by (auto simp: child_rel_def)
  then have "(child_rel oc)\<^sup>* `` set (oc_children oc c) \<subseteq> (child_rel oc)\<^sup>* `` {c}" by (auto intro: converse_rtrancl_into_rtrancl)
  then have "E'' - E \<subseteq> {c} \<union> (child_rel oc)\<^sup>* `` {c} \<union> (child_rel oc)\<^sup>* `` set cs" using expand.IH by blast
  then show ?case by auto
qed auto

lemma unfolds_reach:
  assumes "unfolds oc cs {} ts E"
  shows "E = (child_rel oc)\<^sup>* `` set cs"
proof
  show "E \<subseteq> (child_rel oc)\<^sup>* `` set cs" using unfolds_reached [OF assms] by simp
  have "v \<in> E" if "(c, v) \<in> (child_rel oc)\<^sup>*" "c \<in> E" for c v
    using that unfolds_closed [OF assms] by (induction rule: rtrancl_induct) auto
  then show "(child_rel oc)\<^sup>* `` set cs \<subseteq> E" using unfolds_closed [OF assms] by blast
qed


definition outline_of :: "'g nx_api \<Rightarrow> 'g \<Rightarrow> string list \<Rightarrow> failure_node list \<Rightarrow> string set \<Rightarrow> failure_incident list \<Rightarrow> outline_context" where
  "outline_of N graph targets nodes blockers incidents =
     \<lparr>oc_children = sorted_successors N graph, oc_nodes = nodes, oc_affected = globally_affected targets incidents,
      oc_blockers = blockers\<rparr>"

lemma incident_roots_unfold:
  assumes "outline_closed oc"
  shows "\<exists>roots E'. incident_roots oc targets incidents E = Inr (roots, E')
    \<and> unfolds oc (concat (map (affected_of oc targets) incidents)) E (concat (map ol_children roots)) E'
    \<and> length roots = length incidents
    \<and> (\<forall>k<length roots. roots ! k = incident_root (incidents ! k) (ol_children (roots ! k)))"
proof (induction incidents arbitrary: E)
  case Nil
  show ?case by (auto intro: unfolds.nothing)
next
  case (Cons i incidents)
  have "set (affected_of oc targets i) \<subseteq> fn_claim_id ` set (oc_nodes oc)"
    by (auto simp: affected_of_def dest: node_of_mem)
  then obtain ts E1 where first: "unfolds oc (affected_of oc targets i) E ts E1" using unfolds_total [OF assms] by blast
  obtain roots E2 where rest: "incident_roots oc targets incidents E1 = Inr (roots, E2)"
      "unfolds oc (concat (map (affected_of oc targets) incidents)) E1 (concat (map ol_children roots)) E2"
      "length roots = length incidents"
      "\<forall>k<length roots. roots ! k = incident_root (incidents ! k) (ol_children (roots ! k))"
    using Cons.IH by blast
  let ?root = "incident_root i ts"
  have "incident_roots oc targets (i # incidents) E = Inr (?root # roots, E2)"
    using unfolds_visit_all [OF first] rest(1) by simp
  moreover have children: "ol_children ?root = ts" by (simp add: incident_root_def)
  moreover have "unfolds oc (concat (map (affected_of oc targets) (i # incidents))) E (concat (map ol_children (?root # roots))) E2"
    using unfolds_append [OF first rest(2)] children by simp
  moreover have "(?root # roots) ! k = incident_root ((i # incidents) ! k) (ol_children ((?root # roots) ! k))"
    if "k < length (?root # roots)" for k
    using that rest(4) children by (cases k) auto
  ultimately show ?case using rest(3) by (intro exI [of _ "?root # roots"] exI [of _ E2]) simp
qed

context networkx
begin

lemma outline_of_closed: "outline_closed (outline_of N (failure_graph N nodes edges) targets nodes blockers incidents)"
proof -
  have "x \<in> fn_claim_id ` set nodes" if "nx_has_edge N (failure_graph N nodes edges) v x" for v x
    using has_edge_contains [OF that] failure_graph_facts(1) by simp
  then show ?thesis by (auto simp: outline_closed_def outline_of_def sorted_successors_def set_successors)
qed

lemma outline_of_rel: "child_rel (outline_of N graph targets nodes blockers incidents) = nx_rel N graph"
  by (auto simp: child_rel_def outline_of_def sorted_successors_def set_successors nx_rel_def)

lemma failure_outline_unfold:
  fixes targets nodes edges blockers incidents
  defines "oc \<equiv> outline_of N (failure_graph N nodes edges) targets nodes blockers incidents"
  shows "\<exists>roots trees E. failure_outline N (failure_graph N nodes edges) targets nodes blockers incidents = Inr (roots @ trees)
    \<and> unfolds oc (concat (map (affected_of oc targets) (filter is_global incidents)) @ filter (\<lambda>c. c \<in> fn_claim_id ` set nodes) targets)
        {} (concat (map ol_children roots) @ trees) E
    \<and> length roots = length (filter is_global incidents)
    \<and> (\<forall>k<length roots. roots ! k = incident_root (filter is_global incidents ! k) (ol_children (roots ! k)))"
proof -
  let ?graph = "failure_graph N nodes edges" and ?trees = "filter (\<lambda>c. c \<in> fn_claim_id ` set nodes) targets"
  have closed: "outline_closed oc" unfolding oc_def by (rule outline_of_closed)
  have known: "node_of oc c \<noteq> None \<longleftrightarrow> c \<in> fn_claim_id ` set nodes" for c
    by (simp add: oc_def outline_of_def dict_by_None_iff)
  obtain roots E1 where roots: "incident_roots oc targets (filter is_global incidents) {} = Inr (roots, E1)"
      "unfolds oc (concat (map (affected_of oc targets) (filter is_global incidents))) {} (concat (map ol_children roots)) E1"
      "length roots = length (filter is_global incidents)"
      "\<forall>k<length roots. roots ! k = incident_root (filter is_global incidents ! k) (ol_children (roots ! k))"
    using incident_roots_unfold [OF closed] by blast
  have "set ?trees \<subseteq> fn_claim_id ` set (oc_nodes oc)" by (auto simp: oc_def outline_of_def)
  then obtain trees E2 where trees: "unfolds oc ?trees E1 trees E2" using unfolds_total [OF closed] by blast
  have "failure_outline N ?graph targets nodes blockers incidents = Inr (roots @ trees)"
    using roots(1) unfolds_visit_all [OF trees] known
    by (simp add: failure_outline_def Let_def oc_def [unfolded outline_of_def, symmetric])
  then show ?thesis using unfolds_append [OF roots(2) trees] roots(3,4) by blast
qed

end

lemma outline_expands_once_facts:
  assumes "networkx N" and "graph = failure_graph N nodes edges"
    and oc_def: "oc = outline_of N graph targets nodes blockers incidents"
    and shown_def: "shown = concat (map (affected_of oc targets) (filter is_global incidents))
    @ filter (\<lambda>c. c \<in> fn_claim_id ` set nodes) targets"
  shows "\<exists>roots trees. failure_outline N graph targets nodes blockers incidents = Inr (roots @ trees)
    \<and> map ol_incident_ids roots = map (\<lambda>i. [in_incident_id i]) (filter is_global incidents)
    \<and> map ol_claim_id (concat (map ol_children roots) @ trees) = shown
    \<and> (\<forall>t\<in>set (concat (map ol_children roots) @ trees). outline_faithful oc t)
    \<and> distinct (forest_claims (concat (map ol_children roots) @ trees))
    \<and> set (forest_claims (concat (map ol_children roots) @ trees)) = (nx_rel N graph)\<^sup>* `` set shown"
proof -
  obtain roots trees E where run: "failure_outline N graph targets nodes blockers incidents = Inr (roots @ trees)"
    and unfold: "unfolds oc shown {} (concat (map ol_children roots) @ trees) E"
    and len: "length roots = length (filter is_global incidents)"
    and root: "\<forall>k<length roots. roots ! k = incident_root (filter is_global incidents ! k) (ol_children (roots ! k))"
    using networkx.failure_outline_unfold [OF assms(1), where targets = targets and nodes = nodes
        and edges = edges and blockers = blockers and incidents = incidents]
    unfolding oc_def shown_def assms(2) by metis
  have "map ol_incident_ids roots = map (\<lambda>i. [in_incident_id i]) (filter is_global incidents)"
  proof (rule nth_equalityI)
    fix k assume k: "k < length (map ol_incident_ids roots)"
    have "ol_incident_ids (roots ! k) = [in_incident_id (filter is_global incidents ! k)]"
      using arg_cong [OF root [rule_format, of k], of ol_incident_ids] k by (simp add: incident_root_def)
    then show "map ol_incident_ids roots ! k = map (\<lambda>i. [in_incident_id i]) (filter is_global incidents) ! k"
      using k len by simp
  qed (use len in simp)
  moreover have "E = (nx_rel N graph)\<^sup>* `` set shown"
    using unfolds_reach [OF unfold] networkx.outline_of_rel [OF assms(1)] by (simp add: oc_def)
  ultimately show ?thesis
    using run unfolds_faithful [OF unfold] unfolds_claims [OF unfold]
    by (intro exI [of _ roots] exI [of _ trees]) simp
qed

text \<open>C18. The iterative outline refines the recursion it replaces: on the graph of a report the stack machine returns for
  every claim of the graph, it never meets a claim without a node, and its tree and its set of expanded claims are
  exactly those the depth-first recursion specifies, whatever was expanded before.\<close>

theorem outline_refines_recursion:
  assumes "networkx N" and "c \<in> fn_claim_id ` set nodes"
    and oc_def: "oc = outline_of N (failure_graph N nodes edges) targets nodes blockers incidents"
  shows "(\<exists>result. visit_outline oc c E = Inr result) \<and> (visit_outline oc c E = Inr (t, E') \<longleftrightarrow> unfolds oc [c] E [t] E')"
proof -
  have "outline_closed oc" unfolding oc_def by (rule networkx.outline_of_closed [OF assms(1)])
  then obtain ts E1 where run: "unfolds oc [c] E ts E1"
    using unfolds_total [of oc "[c]" E] assms(2) by (auto simp: oc_def outline_of_def)
  then obtain t1 where "ts = [t1]" using unfolds_faithful [OF run] by (cases ts) auto
  then show ?thesis using run unfolds_visit by fastforce
qed

text \<open>C20. An outline shows the whole dependency graph of a report once. It never raises; it has a root for each incident
  of the run or of a batch and then a tree for each target in the graph; every claim that a shown claim
  depends on, directly or not, is expanded exactly once, with its state, its incidents and exactly its dependencies
  below it in order, and every other occurrence is a leaf that refers to it.\<close>

theorem outline_expands_once:
  assumes "networkx N" and "graph = failure_graph N nodes edges"
    and oc_def: "oc = outline_of N graph targets nodes blockers incidents"
    and shown_def: "shown = concat (map (affected_of oc targets) (filter is_global incidents))
    @ filter (\<lambda>c. c \<in> fn_claim_id ` set nodes) targets"
  shows "\<exists>roots trees. failure_outline N graph targets nodes blockers incidents = Inr (roots @ trees)
    \<and> map ol_incident_ids roots = map (\<lambda>i. [in_incident_id i]) (filter is_global incidents)
    \<and> map ol_claim_id (concat (map ol_children roots) @ trees) = shown
    \<and> (\<forall>t\<in>set (concat (map ol_children roots) @ trees). outline_faithful oc t)
    \<and> distinct (forest_claims (concat (map ol_children roots) @ trees))
    \<and> set (forest_claims (concat (map ol_children roots) @ trees)) = (nx_rel N graph)\<^sup>* `` set shown"
  using outline_expands_once_facts [OF assms] .

definition ex_outage :: failure_incident where
  "ex_outage = \<lparr>in_incident_id = 8, in_run_id = 1, in_scope = BATCH_SCOPE, in_kind = PROVIDER_KIND, in_phase = ''PROOF'',
     in_category = ''timeout'', in_message = ''m'', in_detail = None, in_provenance = ''p'', in_claim_ids = [''lem''],
     in_batch_index = Some 0, in_retryable = True, in_artifacts = []\<rparr>"

abbreviation "ex_outline_of \<equiv> outline_of list_nx (failure_graph list_nx ex_failure_nodes ex_failure_edges) [''thm''] ex_failure_nodes
  {''def''} [ex_outage]"

theorem outline_refines_recursion_witness:
  "\<exists>t. visit_outline ex_outline_of ''thm'' {''lem''} = Inr (t, {''thm'', ''lem'', ''def''})
     \<and> unfolds ex_outline_of [''thm''] {''lem''} [t] {''thm'', ''lem'', ''def''}
     \<and> map ol_claim_id (ol_children t) = [''def'', ''lem''] \<and> map ol_shared (ol_children t) = [False, True]"
proof -
  let ?result = "visit_outline ex_outline_of ''thm'' {''lem''}"
  have mem: "''thm'' \<in> fn_claim_id ` set ex_failure_nodes" by code_simp
  have run: "(case ?result of Inl e \<Rightarrow> False | Inr (t, E) \<Rightarrow> E = {''thm'', ''lem'', ''def''}
      \<and> map ol_claim_id (ol_children t) = [''def'', ''lem''] \<and> map ol_shared (ol_children t) = [False, True])"
    by code_simp
  then obtain t where t: "?result = Inr (t, {''thm'', ''lem'', ''def''})" "map ol_claim_id (ol_children t) = [''def'', ''lem'']"
      "map ol_shared (ol_children t) = [False, True]"
    by (auto split: sum.splits)
  show ?thesis
    using t outline_refines_recursion [OF list_graphs.networkx_axioms mem refl, THEN conjunct2, THEN iffD1, OF t(1)]
    by (intro exI [of _ t] conjI)
qed

theorem outline_expands_once_witness:
  "\<exists>trees. failure_outline list_nx (failure_graph list_nx ex_failure_nodes ex_failure_edges) [''thm''] ex_failure_nodes
      {''def''} [ex_outage] = Inr trees
    \<and> map ol_incident_ids trees = [[8], []] \<and> map expanded_claims trees = [[''incident:8'', ''lem'', ''def''], [''thm'']]"
proof -
  let ?graph = "failure_graph list_nx ex_failure_nodes ex_failure_edges"
  let ?result = "failure_outline list_nx ?graph [''thm''] ex_failure_nodes {''def''} [ex_outage]"
  have run: "(case ?result of Inl e \<Rightarrow> False | Inr trees \<Rightarrow> map ol_incident_ids trees = [[8], []]
      \<and> map expanded_claims trees = [[''incident:8'', ''lem'', ''def''], [''thm'']])"
    by code_simp
  moreover have "\<exists>roots trees. ?result = Inr (roots @ trees)"
    using outline_expands_once [OF list_graphs.networkx_axioms refl refl refl, of ex_failure_nodes ex_failure_edges "[''thm'']"
        "{''def''}" "[ex_outage]"] by blast
  ultimately show ?thesis by (auto split: sum.splits)
qed

end
