(* ===== verification/Failure_Report.thy ===== *)
theory Failure_Report
  imports Failure_Outline Agent_Tools
begin

text \<open>
  The failure report of a run, \<^verbatim>\<open>incremental/failures.py\<close>: the recorded incidents, or those reconstructed from an old
  run's transitions; the claims and dependencies of the run's frozen graph; the blockers, the paths to them, the outline
  or, when the graph is cyclic, its components; and the incident shown first. The file system is a parameter: how a path
  is resolved, and the decoded \<^verbatim>\<open>affected-claims.json\<close> of a run, \<open>None\<close> when it cannot be read.
\<close>

section \<open>Incidents\<close>

record report_host =
  rh_artifact_path :: "string \<Rightarrow> string"
  rh_affected_claims :: "int \<Rightarrow> json option"

definition scope_or_unknown :: "string \<Rightarrow> failure_scope" where
  "scope_or_unknown value =
     (case find (\<lambda>s. scope_text s = value) [RUN_SCOPE, BATCH_SCOPE, CLAIM_SCOPE, COMPONENT_SCOPE] of
        Some s \<Rightarrow> s | None \<Rightarrow> RUN_SCOPE)"

definition kind_or_unknown :: "string \<Rightarrow> failure_kind" where
  "kind_or_unknown value =
     (case find (\<lambda>k. kind_text k = value) [CLAIM_TECHNICAL_KIND, BATCH_TECHNICAL_KIND, PROVIDER_KIND, INFRASTRUCTURE_KIND,
        SOURCE_INTEGRITY_KIND, DEPENDENCY_CYCLE_KIND, UNKNOWN_KIND] of
        Some k \<Rightarrow> k | None \<Rightarrow> UNKNOWN_KIND)"

definition artifact_of_row :: "report_host \<Rightarrow> artifact_row \<Rightarrow> failure_artifact" where
  "artifact_of_row h a = \<lparr>fa_path = rh_artifact_path h (ar_path a), fa_label = ar_label a, fa_sha256 = ar_sha256 a,
     fa_command = ar_command a, fa_exit_code = ar_exit_code a, fa_timed_out = ar_timed_out a\<rparr>"

definition incident_of_row :: "report_host \<Rightarrow> store_db \<Rightarrow> int \<Rightarrow> incident_row \<Rightarrow> failure_incident" where
  "incident_of_row h db run_id row =
     \<lparr>in_incident_id = fi_failure_id row, in_run_id = run_id, in_scope = scope_or_unknown (fi_scope row),
      in_kind = kind_or_unknown (fi_failure_kind row), in_phase = fi_phase row, in_category = fi_category row,
      in_message = fi_message row, in_detail = fi_detail row, in_provenance = fi_provenance row,
      in_claim_ids = map ic_claim_id (failure_claim_rows (fi_failure_id row) db), in_batch_index = fi_batch_index row,
      in_retryable = fi_retryable row,
      in_artifacts = map (artifact_of_row h) (failure_artifact_rows (fi_failure_id row) db)\<rparr>"

definition recorded_incidents :: "report_host \<Rightarrow> store_db \<Rightarrow> int \<Rightarrow> failure_incident list" where
  "recorded_incidents h db run_id = map (incident_of_row h db run_id) (failure_incident_rows run_id db)"

section \<open>Incidents of an old run\<close>

definition claim_diagnostics :: "store_db \<Rightarrow> int \<Rightarrow> string \<Rightarrow> diagnostic_row list" where
  "claim_diagnostics db run_id claim_id = filter (\<lambda>d. dg_claim_id d = Some claim_id) (diagnostics_for_run run_id db)"

definition first_diagnostic :: "store_db \<Rightarrow> int \<Rightarrow> string \<Rightarrow> diagnostic_row option" where
  "first_diagnostic db run_id claim_id = (case claim_diagnostics db run_id claim_id of [] \<Rightarrow> None | d # _ \<Rightarrow> Some d)"

definition row_message :: "store_db \<Rightarrow> int \<Rightarrow> string \<Rightarrow> run_claim_row \<Rightarrow> string" where
  "row_message db run_id detail row = text_or (rc_reason row)
     (case first_diagnostic db run_id (rc_claim_id row) of Some d \<Rightarrow> dg_message d | None \<Rightarrow> detail)"

definition failed_rows :: "store_db \<Rightarrow> int \<Rightarrow> run_claim_row list" where
  "failed_rows db run_id = filter (\<lambda>r. rc_state_after r = Some FAILED_TECHNICAL) (run_claim_rows run_id db)"

definition is_batch_row :: "run_claim_row \<Rightarrow> bool" where
  "is_batch_row r \<longleftrightarrow> rc_action r \<in> {''batch_failure'', ''provider_failure''}"

definition batch_key :: "store_db \<Rightarrow> int \<Rightarrow> string \<Rightarrow> run_claim_row \<Rightarrow> string \<times> string" where
  "batch_key db run_id detail row = (rc_action row, row_message db run_id detail row)"

definition is_environment_failure :: "string \<Rightarrow> bool" where
  "is_environment_failure message \<longleftrightarrow> sublist ''repoprover is not importable'' (py_casefold message)
     \<or> sublist (''no module named '' @ [CHR 0x27] @ ''repoprover'' @ [CHR 0x27]) (py_casefold message)"

definition legacy_incident ::
    "int \<Rightarrow> int \<Rightarrow> failure_scope \<Rightarrow> failure_kind \<Rightarrow> string \<Rightarrow> string \<Rightarrow> string \<Rightarrow> string \<Rightarrow> string list \<Rightarrow> failure_incident" where
  "legacy_incident run_id incident_id scope kind category message detail provenance claim_ids =
     \<lparr>in_incident_id = incident_id, in_run_id = run_id, in_scope = scope, in_kind = kind, in_phase = ''LEGACY'',
      in_category = category, in_message = message, in_detail = Some detail, in_provenance = provenance,
      in_claim_ids = claim_ids, in_batch_index = None, in_retryable = True, in_artifacts = []\<rparr>"

definition batch_incident :: "store_db \<Rightarrow> int \<Rightarrow> int \<Rightarrow> (string \<times> string) \<times> run_claim_row list \<Rightarrow> failure_incident" where
  "batch_incident db run_id incident_id entry =
     (case entry of ((action, message), rows) \<Rightarrow>
        let claim_ids = sort (map rc_claim_id rows);
            categories = sorted_list_of_set (set (map dg_category (concat (map (claim_diagnostics db run_id) claim_ids))));
            environment_failure = is_environment_failure message
        in legacy_incident run_id incident_id (if environment_failure then RUN_SCOPE else BATCH_SCOPE)
             (if action = ''provider_failure'' then PROVIDER_KIND
              else if environment_failure then INFRASTRUCTURE_KIND else BATCH_TECHNICAL_KIND)
             (if environment_failure then ''repoprover_import''
              else case categories of [category] \<Rightarrow> category | _ \<Rightarrow> ''legacy_batch'')
             message
             (''Coalesced from legacy batch transitions with the same exact '' @
              ''reason. The old schema copied this shared failure onto every '' @
              ''affected claim and did not preserve a batch identifier.'')
             ''legacy.run_claims.coalesced_batch'' claim_ids)"

definition claim_incident :: "store_db \<Rightarrow> string \<Rightarrow> int \<Rightarrow> int \<Rightarrow> run_claim_row \<Rightarrow> failure_incident" where
  "claim_incident db detail run_id incident_id row =
     legacy_incident run_id incident_id CLAIM_SCOPE CLAIM_TECHNICAL_KIND
       (case first_diagnostic db run_id (rc_claim_id row) of Some d \<Rightarrow> dg_category d | None \<Rightarrow> ''unknown'')
       (row_message db run_id detail row)
       (''Migrated from legacy run_claims; exact original graph and '' @ ''failure phase were not persisted'')
       ''legacy.run_claims'' [rc_claim_id row]"

definition LEGACY_OUTCOMES :: "string set" where
  "LEGACY_OUTCOMES = {''provider_failure'', ''lean_infrastructure_failure'', ''setup_failure''}"

text \<open>The groups of a dict in the order of its sorted keys; the incidents are numbered \<open>-1\<close>, \<open>-2\<close>, \<open>...\<close>.\<close>

definition batch_groups :: "store_db \<Rightarrow> string \<Rightarrow> int \<Rightarrow> ((string \<times> string) \<times> run_claim_row list) list" where
  "batch_groups db detail run_id =
     (let rows = filter is_batch_row (failed_rows db run_id)
      in map (\<lambda>key. (key, filter (\<lambda>r. batch_key db run_id detail r = key) rows))
           (sorted_list_of_set (set (map (batch_key db run_id detail) rows))))"

definition legacy_incidents :: "store_db \<Rightarrow> int \<Rightarrow> string \<Rightarrow> string \<Rightarrow> failure_incident list" where
  "legacy_incidents db run_id outcome detail =
     (let grouped = batch_groups db detail run_id;
          claim_rows = filter (\<lambda>r. \<not> is_batch_row r) (failed_rows db run_id);
          coalesced = map (\<lambda>(k, entry). batch_incident db run_id (- 1 - int k) entry) (enumerate 0 grouped);
          single = map (\<lambda>(k, row). claim_incident db detail run_id (- 1 - int k) row) (enumerate (length grouped) claim_rows);
          incidents = coalesced @ single
      in if incidents = [] \<and> outcome \<in> LEGACY_OUTCOMES
         then [legacy_incident run_id (- 1) RUN_SCOPE (if outcome = ''provider_failure'' then PROVIDER_KIND else INFRASTRUCTURE_KIND)
                 outcome (if detail = [] then outcome else detail)
                 (''Migrated from the legacy run summary; exact artifacts and '' @ ''affected claims were not persisted'')
                 ''legacy.runs'' []]
         else incidents)"

section \<open>Scope, nodes and edges\<close>

definition report_scope :: "store_db \<Rightarrow> int \<Rightarrow> string \<Rightarrow> string list result" where
  "report_scope db run_id role = bindE (run_scope_rows run_id role db) (\<lambda>rows. Inr (map sc_claim_id rows))"

fun json_string :: "json \<Rightarrow> string option" where
  "json_string (JString s) = Some s"
| "json_string _ = None"

text \<open>A payload that is not an object has no method \<open>get\<close>.\<close>

definition legacy_selected :: "report_host \<Rightarrow> int \<Rightarrow> string list result" where
  "legacy_selected h run_id =
     (case rh_affected_claims h run_id of
        None \<Rightarrow> Inr []
      | Some (JObject entries) \<Rightarrow>
          (case map_of entries ''selected'' of
             Some (JArray values) \<Rightarrow>
               Inr (if list_all (\<lambda>v. json_string v \<noteq> None) values
                    then sorted_list_of_set (set (map (the \<circ> json_string) values)) else [])
           | _ \<Rightarrow> Inr [])
      | Some _ \<Rightarrow> Inl (AttributeError ''get''))"

definition is_local :: "failure_incident \<Rightarrow> bool" where
  "is_local incident \<longleftrightarrow> in_scope incident \<in> {CLAIM_SCOPE, COMPONENT_SCOPE}"

definition local_incident_ids :: "failure_incident list \<Rightarrow> string \<Rightarrow> int list" where
  "local_incident_ids incidents claim_id =
     concat (map (\<lambda>i. map (\<lambda>_. in_incident_id i) (filter (\<lambda>c. c = claim_id) (in_claim_ids i))) (filter is_local incidents))"

definition local_claims :: "failure_incident list \<Rightarrow> string set" where
  "local_claims incidents = set (concat (map in_claim_ids (filter is_local incidents)))"

definition record_legacy_state :: "run_claim_row \<Rightarrow> (string \<Rightarrow> claim_state option) \<Rightarrow> string \<Rightarrow> claim_state option" where
  "record_legacy_state row states =
     (case rc_state_after row of
        None \<Rightarrow> states
      | Some state \<Rightarrow>
          if state = FAILED_TECHNICAL \<or> states (rc_claim_id row) = None then states(rc_claim_id row \<mapsto> state) else states)"

definition legacy_states :: "store_db \<Rightarrow> int \<Rightarrow> string \<Rightarrow> claim_state option" where
  "legacy_states db run_id = fold record_legacy_state (run_claim_rows run_id db) Map.empty"

definition unfrozen_state :: "store_db \<Rightarrow> int \<Rightarrow> string \<Rightarrow> string" where
  "unfrozen_state db run_id claim_id =
     (case legacy_states db run_id claim_id of
        Some s \<Rightarrow> claim_state_text s
      | None \<Rightarrow> (case claim_row_of claim_id db of Some c \<Rightarrow> claim_state_text (c_status c) | None \<Rightarrow> ''UNKNOWN''))"

definition report_node :: "store_db \<Rightarrow> int \<Rightarrow> string option \<Rightarrow> failure_incident list \<Rightarrow> string \<Rightarrow> failure_node" where
  "report_node db run_id snapshot incidents claim_id =
     (let ids = sort (local_incident_ids incidents claim_id);
          versions = (case snapshot of None \<Rightarrow> [] | Some s \<Rightarrow> claim_versions s db)
      in case dict_by cn_claim_id (run_claim_node_rows run_id db) claim_id of
           Some row \<Rightarrow> \<lparr>fn_claim_id = claim_id, fn_kind = cn_kind row, fn_source_file = cn_source_file row,
             fn_statement_start = cn_statement_start row, fn_statement_end = cn_statement_end row,
             fn_state = claim_state_text (cn_state row), fn_incident_ids = ids\<rparr>
         | None \<Rightarrow>
             (case dict_by so_claim_id versions claim_id of
                Some version \<Rightarrow> \<lparr>fn_claim_id = claim_id, fn_kind = so_kind version, fn_source_file = so_source_file version,
                  fn_statement_start = so_statement_start version, fn_statement_end = so_statement_end version,
                  fn_state = unfrozen_state db run_id claim_id, fn_incident_ids = ids\<rparr>
              | None \<Rightarrow> \<lparr>fn_claim_id = claim_id,
                  fn_kind = (case claim_row_of claim_id db of Some c \<Rightarrow> c_kind c | None \<Rightarrow> ''unknown''),
                  fn_source_file = (case claim_row_of claim_id db of Some c \<Rightarrow> c_source_file c | None \<Rightarrow> []),
                  fn_statement_start = 0, fn_statement_end = 0, fn_state = unfrozen_state db run_id claim_id,
                  fn_incident_ids = ids\<rparr>))"

definition report_nodes ::
    "store_db \<Rightarrow> int \<Rightarrow> string option \<Rightarrow> string list \<Rightarrow> failure_incident list \<Rightarrow> failure_node list" where
  "report_nodes db run_id snapshot selected incidents =
     map (report_node db run_id snapshot incidents) (sorted_list_of_set (set selected \<union> local_claims incidents))"

definition stored_edge :: "edge_row \<Rightarrow> manuscript_edge" where
  "stored_edge r = \<lparr>e_src = er_src r, e_dst = er_dst r, e_kind = er_edge_kind r, e_provenance = er_provenance r,
     e_approved = er_approved r\<rparr>"

definition report_edge_rows :: "store_db \<Rightarrow> int \<Rightarrow> string option \<Rightarrow> manuscript_edge list" where
  "report_edge_rows db run_id snapshot =
     (let rows = map re_edge (run_dependency_edge_rows run_id db)
      in if rows = [] \<and> snapshot = previous_snapshot db then map stored_edge (manuscript_edges True db) else rows)"

definition report_edges :: "store_db \<Rightarrow> int \<Rightarrow> string option \<Rightarrow> failure_edge list" where
  "report_edges db run_id snapshot =
     (let rows = filter e_approved (report_edge_rows db run_id snapshot)
      in map (\<lambda>(src, dst). let same = filter (\<lambda>e. e_src e = src \<and> e_dst e = dst) rows
              in \<lparr>fe_dependent = src, fe_dependency = dst, fe_kinds = sorted_list_of_set (set (map e_kind same)),
                  fe_provenances = sorted_list_of_set (set (map e_provenance same))\<rparr>)
           (sorted_list_of_set (set (map (\<lambda>e. (e_src e, e_dst e)) rows))))"

section \<open>Components\<close>

record component_edge =
  ce_dependent :: string
  ce_dependency :: string

definition component_id_text :: "nat \<Rightarrow> string" where
  "component_id_text index = ''component:'' @ format_padded 4 (int index)"

definition raw_components :: "'g nx_api \<Rightarrow> 'g \<Rightarrow> string list list" where
  "raw_components N graph = sort (map sorted_list_of_set (nx_strongly_connected_components N graph))"

text \<open>\<open>component_for\<close>: the last component that has the claim among its members.\<close>

definition component_for :: "string list list \<Rightarrow> string \<Rightarrow> string option" where
  "component_for raw claim_id =
     map_option snd (dict_by fst (concat (map (\<lambda>(index, members). map (\<lambda>m. (m, component_id_text index)) members) (enumerate 1 raw))) claim_id)"

definition dict_item :: "(string \<Rightarrow> 'v option) \<Rightarrow> string \<Rightarrow> 'v result" where
  "dict_item d key = (case d key of None \<Rightarrow> Inl (KeyError key) | Some v \<Rightarrow> Inr v)"

definition component_of ::
    "'g nx_api \<Rightarrow> 'g \<Rightarrow> (string \<Rightarrow> failure_node option) \<Rightarrow> string set \<Rightarrow> nat \<times> string list \<Rightarrow> failure_component result" where
  "component_of N graph node_map blockers entry =
     (case entry of (index, members) \<Rightarrow>
        bindE (mapE (dict_item node_map) members) (\<lambda>nodes.
        Inr \<lparr>fc_component_id = component_id_text index, fc_members = members,
             fc_cyclic = (1 < length members \<or> nx_has_edge N graph (members ! 0) (members ! 0)),
             fc_blocker = (set members \<inter> blockers \<noteq> {}),
             fc_incident_ids = sorted_list_of_set (set (concat (map fn_incident_ids nodes)))\<rparr>))"

definition component_pair :: "(string \<Rightarrow> string option) \<Rightarrow> string \<times> string \<Rightarrow> (string \<times> string) result" where
  "component_pair component edge =
     (case edge of (src, dst) \<Rightarrow> bindE (dict_item component src) (\<lambda>a. bindE (dict_item component dst) (\<lambda>b. Inr (a, b))))"

definition failure_components ::
    "'g nx_api \<Rightarrow> 'g \<Rightarrow> (string \<Rightarrow> failure_node option) \<Rightarrow> string set
     \<Rightarrow> (failure_component list \<times> component_edge list) result" where
  "failure_components N graph node_map blockers =
     (let raw = raw_components N graph
      in bindE (mapE (component_of N graph node_map blockers) (enumerate 1 raw)) (\<lambda>components.
         bindE (mapE (component_pair (component_for raw)) (nx_edges N graph)) (\<lambda>pairs.
         Inr (components, map (\<lambda>(a, b). \<lparr>ce_dependent = a, ce_dependency = b\<rparr>)
                (sorted_list_of_set (set (filter (\<lambda>(a, b). a \<noteq> b) pairs)))))))"

section \<open>The report\<close>

text \<open>\<open>min(candidates, key=...)\<close>: the first of the least.\<close>

fun min_by :: "('a \<Rightarrow> 'k::linorder) \<Rightarrow> 'a \<Rightarrow> 'a list \<Rightarrow> 'a" where
  "min_by key best [] = best"
| "min_by key best (x # xs) = min_by key (if key x < key best then x else best) xs"

definition incident_rank ::
    "failure_incident \<Rightarrow> string \<times> string \<times> string \<times> string \<times> string \<times> string list \<times> int" where
  "incident_rank i = (scope_text (in_scope i), kind_text (in_kind i), in_phase i, in_category i, in_message i, in_claim_ids i,
     in_incident_id i)"

definition or_all :: "'a list \<Rightarrow> 'a list \<Rightarrow> 'a list" where
  "or_all preferred all = (if preferred = [] then all else preferred)"

definition primary_incident :: "failure_incident list \<Rightarrow> failure_path option \<Rightarrow> int option" where
  "primary_incident incidents first_blocker =
     (let candidates = (case first_blocker of
            Some p \<Rightarrow> or_all (filter (\<lambda>i. fp_blocker p \<in> set (in_claim_ids i) \<and> is_local i) incidents) incidents
          | None \<Rightarrow> or_all (filter is_global incidents) incidents)
      in case candidates of [] \<Rightarrow> None | i # rest \<Rightarrow> Some (in_incident_id (min_by incident_rank i rest)))"

record failure_report =
  fr_run_id :: int
  fr_snapshot :: "string option"
  fr_outcome :: string
  fr_detail :: string
  fr_targets :: "string list"
  fr_selected :: "string list"
  fr_nodes :: "failure_node list"
  fr_edges :: "failure_edge list"
  fr_incidents :: "failure_incident list"
  fr_global_incident_ids :: "int list"
  fr_primary_incident_id :: "int option"
  fr_first_blocker :: "failure_path option"
  fr_paths :: "failure_path list"
  fr_has_cycles :: bool
  fr_outline :: "outline_node list"
  fr_components :: "failure_component list"
  fr_component_edges :: "component_edge list"

definition reported_run :: "store_db \<Rightarrow> int option \<Rightarrow> run_row option" where
  "reported_run db run_id =
     (case run_id of
        Some r \<Rightarrow> run_row_of r db
      | None \<Rightarrow> (case latest_failure_run db of
            Some run \<Rightarrow> Some run
          | None \<Rightarrow> (case latest_run db of
                Some latest \<Rightarrow> if r_status latest = ''FAILED'' then Some latest else None
              | None \<Rightarrow> None)))"

definition run_incidents :: "report_host \<Rightarrow> store_db \<Rightarrow> run_row \<Rightarrow> failure_incident list" where
  "run_incidents h db run =
     (let incidents = recorded_incidents h db (r_run_id run)
      in if incidents = []
         then legacy_incidents db (r_run_id run) (text_or (r_outcome run) (r_status run))
                (text_or (r_detail run) ''No further detail was persisted'')
         else incidents)"

definition build_report ::
    "'g nx_api \<Rightarrow> run_row \<Rightarrow> string option \<Rightarrow> failure_incident list \<Rightarrow> string list \<Rightarrow> string list
     \<Rightarrow> failure_node list \<Rightarrow> failure_edge list \<Rightarrow> failure_report result" where
  "build_report N run snapshot incidents target_ids selected nodes all_edges =
     (let node_ids = fn_claim_id ` set nodes;
          edges = filter (\<lambda>e. fe_dependent e \<in> node_ids \<and> fe_dependency e \<in> node_ids) all_edges;
          graph = failure_graph N nodes edges;
          blockers = set (filter (nx_contains N graph) (concat (map in_claim_ids (filter is_local incidents))));
          paths = failure_paths N (length nodes) graph target_ids blockers;
          first_blocker = (case paths of [] \<Rightarrow> None | p # _ \<Rightarrow> Some p);
          has_cycles = (\<not> nx_is_directed_acyclic_graph N graph)
      in bindE (if has_cycles
                then bindE (failure_components N graph (dict_by fn_claim_id nodes) blockers) (\<lambda>(components, edges).
                     Inr ([], components, edges))
                else bindE (failure_outline N graph target_ids nodes blockers incidents) (\<lambda>outline. Inr (outline, [], [])))
           (\<lambda>(outline, components, component_edges).
         Inr \<lparr>fr_run_id = r_run_id run, fr_snapshot = snapshot, fr_outcome = text_or (r_outcome run) (r_status run),
              fr_detail = text_or (r_detail run) ''No further detail was persisted'', fr_targets = target_ids,
              fr_selected = selected, fr_nodes = nodes, fr_edges = edges, fr_incidents = incidents,
              fr_global_incident_ids = map in_incident_id (filter is_global incidents),
              fr_primary_incident_id = primary_incident incidents first_blocker, fr_first_blocker = first_blocker,
              fr_paths = paths, fr_has_cycles = has_cycles, fr_outline = outline, fr_components = components,
              fr_component_edges = component_edges\<rparr>))"

definition nonempty_text :: "string option \<Rightarrow> string option" where
  "nonempty_text v = (case v of Some t \<Rightarrow> if t = [] then None else Some t | None \<Rightarrow> None)"

definition build_failure_report ::
    "'g nx_api \<Rightarrow> report_host \<Rightarrow> store_db \<Rightarrow> int option \<Rightarrow> failure_report option result" where
  "build_failure_report N h db run_id =
     (case reported_run db run_id of
        None \<Rightarrow> Inr None
      | Some run \<Rightarrow>
          let incidents = run_incidents h db run; snapshot = nonempty_text (r_snapshot_commit run)
          in if incidents = [] then Inr None
             else bindE (report_scope db (r_run_id run) ''TARGET'') (\<lambda>scope_targets.
                  bindE (report_scope db (r_run_id run) ''SELECTED'') (\<lambda>scope_selected.
                  bindE (if scope_selected = [] then legacy_selected h (r_run_id run) else Inr scope_selected) (\<lambda>recorded.
                  let incident_ids = sorted_list_of_set (set (concat (map in_claim_ids incidents)));
                      selected = or_all recorded incident_ids;
                      target_ids = or_all scope_targets (or_all incident_ids selected);
                      nodes = report_nodes db (r_run_id run) snapshot selected incidents
                  in bindE (build_report N run snapshot incidents target_ids selected nodes (report_edges db (r_run_id run) snapshot))
                       (\<lambda>report. Inr (Some report))))))"

section \<open>Which runs have a report\<close>

lemma latest_where_Some: "latest_where P db = Some r \<Longrightarrow> r \<in> set (t_runs db) \<and> P r"
proof -
  assume "latest_where P db = Some r"
  then obtain rest where "rev (sort_key r_run_id (filter P (t_runs db))) = r # rest"
    by (auto simp: latest_where_def split: list.splits)
  then have "r \<in> set (rev (sort_key r_run_id (filter P (t_runs db))))" by simp
  then show ?thesis by simp
qed

lemma legacy_incidents_nil_iff:
  "legacy_incidents db run_id outcome detail = [] \<longleftrightarrow> failed_rows db run_id = [] \<and> outcome \<notin> LEGACY_OUTCOMES"
proof -
  have "batch_groups db detail run_id = [] \<longleftrightarrow> filter is_batch_row (failed_rows db run_id) = []"
    by (auto simp: batch_groups_def Let_def filter_empty_conv)
  moreover have "failed_rows db run_id = [] \<longleftrightarrow> filter is_batch_row (failed_rows db run_id) = []
      \<and> filter (\<lambda>r. \<not> is_batch_row r) (failed_rows db run_id) = []"
    by (auto simp: filter_empty_conv)
  ultimately show ?thesis by (auto simp: legacy_incidents_def Let_def enumerate_eq_zip)
qed

lemma failure_run_has_incidents:
  assumes "latest_failure_run db = Some run"
  shows "run_incidents h db run \<noteq> []"
proof -
  consider f where "f \<in> set (t_failure_incidents db)" "fi_run_id f = r_run_id run"
    | c where "c \<in> set (t_run_claims db)" "rc_run_id c = r_run_id run" "rc_state_after c = Some FAILED_TECHNICAL"
    | "r_outcome run \<in> {Some ''provider_failure'', Some ''lean_infrastructure_failure'', Some ''setup_failure''}"
    using latest_where_Some [OF assms [unfolded latest_failure_run_def]] by blast
  then show ?thesis
  proof cases
    case 1
    then have "recorded_incidents h db (r_run_id run) \<noteq> []"
      by (auto simp: recorded_incidents_def failure_incident_rows_def filter_empty_conv)
    then show ?thesis by (simp add: run_incidents_def)
  next
    case 2
    then have "failed_rows db (r_run_id run) \<noteq> []" by (auto simp: failed_rows_def run_claim_rows_def filter_empty_conv)
    then show ?thesis by (auto simp: run_incidents_def Let_def legacy_incidents_nil_iff)
  next
    case 3
    then have "text_or (r_outcome run) (r_status run) \<in> LEGACY_OUTCOMES" by (auto simp: text_or_def LEGACY_OUTCOMES_def)
    then show ?thesis by (simp add: run_incidents_def Let_def legacy_incidents_nil_iff)
  qed
qed

section \<open>The incident shown first\<close>

lemma min_by_least: "min_by key best xs \<in> set (best # xs) \<and> (\<forall>x\<in>set (best # xs). key (min_by key best xs) \<le> key x)"
proof (induction xs arbitrary: best)
  case (Cons x xs)
  show ?case using Cons.IH [of "if key x < key best then x else best"]
    by (cases "key x < key best") (auto intro: order.trans less_imp_le simp: not_less)
qed simp

lemma primary_incident_Some:
  assumes "incidents \<noteq> []"
  obtains i where "i \<in> set incidents" "primary_incident incidents first_blocker = Some (in_incident_id i)"
    "\<And>p j. first_blocker = Some p \<Longrightarrow> j \<in> set incidents \<Longrightarrow> is_local j \<Longrightarrow> fp_blocker p \<in> set (in_claim_ids j)
       \<Longrightarrow> is_local i \<and> fp_blocker p \<in> set (in_claim_ids i) \<and> incident_rank i \<le> incident_rank j"
    "\<And>j. first_blocker = None \<Longrightarrow> j \<in> set incidents \<Longrightarrow> is_global j \<Longrightarrow> is_global i \<and> incident_rank i \<le> incident_rank j"
proof -
  let ?all = "case first_blocker of
            Some p \<Rightarrow> or_all (filter (\<lambda>i. fp_blocker p \<in> set (in_claim_ids i) \<and> is_local i) incidents) incidents
          | None \<Rightarrow> or_all (filter is_global incidents) incidents"
  obtain best rest where all: "?all = best # rest"
    using assms by (cases ?all) (auto simp: or_all_def split: option.splits if_splits)
  let ?i = "min_by incident_rank best rest"
  have least: "?i \<in> set ?all" "\<forall>x\<in>set ?all. incident_rank ?i \<le> incident_rank x"
    unfolding all using min_by_least [of incident_rank best rest] by blast+
  have "set ?all \<subseteq> set incidents" by (auto simp: or_all_def split: option.splits)
  then have mem: "?i \<in> set incidents" using least(1) by blast
  show thesis
  proof (rule that [of ?i, OF mem])
    show "primary_incident incidents first_blocker = Some (in_incident_id ?i)" unfolding primary_incident_def Let_def all by simp
    show "is_local ?i \<and> fp_blocker p \<in> set (in_claim_ids ?i) \<and> incident_rank ?i \<le> incident_rank j"
      if "first_blocker = Some p" "j \<in> set incidents" "is_local j" "fp_blocker p \<in> set (in_claim_ids j)" for p j
    proof -
      have j: "j \<in> set (filter (\<lambda>i. fp_blocker p \<in> set (in_claim_ids i) \<and> is_local i) incidents)" using that by simp
      then have "?all = filter (\<lambda>i. fp_blocker p \<in> set (in_claim_ids i) \<and> is_local i) incidents"
        using that(1) unfolding or_all_def by (auto simp: filter_empty_conv)
      with least j show ?thesis by auto
    qed
    show "is_global ?i \<and> incident_rank ?i \<le> incident_rank j"
      if "first_blocker = None" "j \<in> set incidents" "is_global j" for j
    proof -
      have j: "j \<in> set (filter is_global incidents)" using that by simp
      then have "?all = filter is_global incidents" using that(1) unfolding or_all_def by (auto simp: filter_empty_conv)
      with least j show ?thesis by auto
    qed
  qed
qed

section \<open>Components partition the claims\<close>

lemma mapE_total: "(\<And>x. x \<in> set xs \<Longrightarrow> \<exists>y. f x = Inr y) \<Longrightarrow> \<exists>ys. mapE f xs = Inr ys"
proof (induction xs)
  case (Cons x xs)
  obtain y where "f x = Inr y" using Cons.prems [of x] by auto
  moreover obtain ys where "mapE f xs = Inr ys" using Cons.IH Cons.prems by auto
  ultimately show ?case by simp
qed simp

lemma component_id_text_inj: "component_id_text i = component_id_text j \<longleftrightarrow> i = j"
proof
  assume "component_id_text i = component_id_text j"
  then have "sql_cast_integer (format_padded 4 (int i)) = sql_cast_integer (format_padded 4 (int j))"
    by (simp add: component_id_text_def del: sql_cast_format)
  then show "i = j" by simp
qed simp

definition component_entries :: "nat \<Rightarrow> string list list \<Rightarrow> (string \<times> string) list" where
  "component_entries start raw = concat (map (\<lambda>(index, members). map (\<lambda>m. (m, component_id_text index)) members) (enumerate start raw))"

lemma component_entries_keys: "map fst (component_entries start raw) = concat raw"
  by (induction raw arbitrary: start) (auto simp: component_entries_def comp_def)

lemma component_entries_mem:
  "(c, a) \<in> set (component_entries start raw) \<longleftrightarrow> (\<exists>k<length raw. c \<in> set (raw ! k) \<and> a = component_id_text (start + k))"
proof (induction raw arbitrary: start)
  case (Cons members raw)
  have "(c, a) \<in> set (component_entries start (members # raw)) \<longleftrightarrow>
      c \<in> set members \<and> a = component_id_text start \<or> (c, a) \<in> set (component_entries (Suc start) raw)"
    by (auto simp: component_entries_def)
  also have "\<dots> \<longleftrightarrow> (\<exists>k<length (members # raw). c \<in> set ((members # raw) ! k) \<and> a = component_id_text (start + k))"
    unfolding Cons.IH by (simp add: Ex_less_Suc2)
  finally show ?case .
qed (simp add: component_entries_def)

lemma component_for_iff:
  assumes "distinct (concat raw)"
  shows "component_for raw c = Some a \<longleftrightarrow> (\<exists>k<length raw. c \<in> set (raw ! k) \<and> a = component_id_text (Suc k))"
proof -
  have eq: "component_for raw c = map_option snd (dict_by fst (component_entries 1 raw) c)"
    by (simp add: component_for_def component_entries_def)
  have "dict_by fst (component_entries 1 raw) c = Some p \<longleftrightarrow> p \<in> set (component_entries 1 raw) \<and> fst p = c" for p
    using dict_by_Some [of fst "component_entries 1 raw" c p] dict_by_distinct [of fst "component_entries 1 raw" p] assms
    by (auto simp: component_entries_keys)
  then have "component_for raw c = Some a \<longleftrightarrow> (c, a) \<in> set (component_entries 1 raw)" by (auto simp: eq)
  then show ?thesis by (simp add: component_entries_mem)
qed

context networkx
begin

lemma raw_components_facts:
  "set ` set (raw_components N g) = set (nx_strongly_connected_components N g)"
  "distinct (concat (raw_components N g))"
  "m \<in> set (raw_components N g) \<Longrightarrow> set m \<in> set (nx_strongly_connected_components N g) \<and> sorted m \<and> distinct m \<and> m \<noteq> []"
proof -
  have comp: "set (sorted_list_of_set C) = C" if "C \<in> set (nx_strongly_connected_components N g)" for C
    using finite_component [OF that] by simp
  then show sets: "set ` set (raw_components N g) = set (nx_strongly_connected_components N g)"
    by (auto simp: raw_components_def image_image intro!: image_eqI)
  show m: "m \<in> set (raw_components N g) \<Longrightarrow> set m \<in> set (nx_strongly_connected_components N g) \<and> sorted m \<and> distinct m \<and> m \<noteq> []" for m
    using comp scc_nonempty by (fastforce simp: raw_components_def)
  have "inj_on sorted_list_of_set (set (nx_strongly_connected_components N g))"
    using comp by (metis inj_onI)
  then have "distinct (raw_components N g)" by (simp add: raw_components_def distinct_map distinct_scc)
  moreover have "set m \<inter> set n = {}" if "m \<in> set (raw_components N g)" "n \<in> set (raw_components N g)" "m \<noteq> n" for m n
  proof (rule ccontr)
    assume "set m \<inter> set n \<noteq> {}"
    then obtain v where "v \<in> set m" "v \<in> set n" by blast
    then have "set m = set n" using scc_member(1) m that by blast
    then show False using m [OF that(1)] m [OF that(2)] that(3) by (metis sorted_distinct_set_unique)
  qed
  ultimately show "distinct (concat (raw_components N g))" using m by (intro distinct_concat) auto
qed

lemma component_for_facts:
  "nx_contains N g v \<longleftrightarrow> (\<exists>a. component_for (raw_components N g) v = Some a)"
  "component_for (raw_components N g) u = Some a \<Longrightarrow> component_for (raw_components N g) v = Some b
    \<Longrightarrow> a = b \<longleftrightarrow> same_component (nx_rel N g) u v"
proof -
  let ?raw = "raw_components N g"
  note iff = component_for_iff [OF raw_components_facts(2), of g]
  show "nx_contains N g v \<longleftrightarrow> (\<exists>a. component_for ?raw v = Some a)"
  proof
    assume "nx_contains N g v"
    then have "{w. same_component (nx_rel N g) v w} \<in> set ` set ?raw" unfolding raw_components_facts(1) by (auto simp: set_scc)
    then obtain m where "m \<in> set ?raw" "set m = {w. same_component (nx_rel N g) v w}" by (metis imageE)
    moreover have "same_component (nx_rel N g) v v" by (simp add: same_component_def)
    ultimately obtain k where "k < length ?raw" "v \<in> set (?raw ! k)" by (metis in_set_conv_nth mem_Collect_eq)
    then show "\<exists>a. component_for ?raw v = Some a" using iff by blast
  next
    assume "\<exists>a. component_for ?raw v = Some a"
    then show "nx_contains N g v" using iff raw_components_facts(3) [OF nth_mem] scc_member(2) by blast
  qed
  assume "component_for ?raw u = Some a" "component_for ?raw v = Some b"
  then obtain k l where k: "k < length ?raw" "u \<in> set (?raw ! k)" "a = component_id_text (Suc k)"
      and l: "l < length ?raw" "v \<in> set (?raw ! l)" "b = component_id_text (Suc l)"
    using iff by blast
  have comp: "set (?raw ! k) = {w. same_component (nx_rel N g) u w}"
    using scc_member(1) raw_components_facts(3) [OF nth_mem] k by blast
  show "a = b \<longleftrightarrow> same_component (nx_rel N g) u v"
  proof
    assume "a = b"
    then show "same_component (nx_rel N g) u v" using comp k(3) l by (auto simp: component_id_text_inj)
  next
    assume "same_component (nx_rel N g) u v"
    then have "component_for ?raw v = Some a" using comp k iff by blast
    then show "a = b" using \<open>component_for ?raw v = Some b\<close> by simp
  qed
qed

lemma component_cyclic:
  assumes "m \<in> set (raw_components N g)" and "u \<in> set m"
  shows "1 < length m \<or> nx_has_edge N g (m ! 0) (m ! 0) \<longleftrightarrow> (u, u) \<in> (nx_rel N g)\<^sup>+"
proof
  have m: "set m \<in> set (nx_strongly_connected_components N g)" "distinct m" "m \<noteq> []"
    using raw_components_facts(3) [OF assms(1)] by simp_all
  have comp: "set m = {w. same_component (nx_rel N g) v w}" if "v \<in> set m" for v using scc_member(1) [OF m(1) that] .
  show "(u, u) \<in> (nx_rel N g)\<^sup>+" if "1 < length m \<or> nx_has_edge N g (m ! 0) (m ! 0)"
  proof (cases "\<exists>w\<in>set m. w \<noteq> u")
    case True
    then obtain w where "same_component (nx_rel N g) u w" "w \<noteq> u" using comp [OF assms(2)] by blast
    then show ?thesis by (auto simp: same_component_def dest!: rtranclD intro: trancl_trans)
  next
    case False
    then have "set m = {u}" using assms(2) by blast
    then have "m = [u]" using m(2) by (metis distinct_card One_nat_def card.empty card_insert_disjoint distinct.simps(2)
          empty_iff finite.emptyI length_0_conv length_Suc_conv list.set_intros(1) singletonD)
    then show ?thesis using that by (auto simp: nx_rel_def)
  qed
  show "1 < length m \<or> nx_has_edge N g (m ! 0) (m ! 0)" if cycle: "(u, u) \<in> (nx_rel N g)\<^sup>+"
  proof -
    obtain C where C: "C \<in> set (nx_strongly_connected_components N g)" "u \<in> C" "1 < card C \<or> C = {u} \<and> nx_has_edge N g u u"
      by (rule cyclic_component [OF cycle])
    have "C = set m" using scc_member(1) [OF C(1,2)] comp [OF assms(2)] by simp
    then show ?thesis
    proof (cases "1 < length m")
      case False
      then have "set m = {u}" "nx_has_edge N g u u" using C(3) distinct_card [OF m(2)] \<open>C = set m\<close> by auto
      moreover have "m ! 0 \<in> set m" using m(3) by simp
      ultimately show ?thesis by simp
    qed simp
  qed
qed

lemma condensation_reach:
  assumes "(a, b) \<in> {(a, b). \<exists>u v. (u, v) \<in> nx_rel N g \<and> component_for (raw_components N g) u = Some a
      \<and> component_for (raw_components N g) v = Some b \<and> a \<noteq> b}\<^sup>*"
    and "component_for (raw_components N g) u = Some a" and "component_for (raw_components N g) v = Some b"
  shows "(u, v) \<in> (nx_rel N g)\<^sup>*"
  using assms
proof (induction arbitrary: v rule: rtrancl_induct)
  case base
  show ?case using component_for_facts(2) [OF base.prems] by (simp add: same_component_def)
next
  case (step y z)
  then obtain s t where st: "(s, t) \<in> nx_rel N g" "component_for (raw_components N g) s = Some y"
      "component_for (raw_components N g) t = Some z"
    by blast
  have "(t, v) \<in> (nx_rel N g)\<^sup>*" using component_for_facts(2) [OF st(3) step.prems(2)] by (simp add: same_component_def)
  moreover have "(u, s) \<in> (nx_rel N g)\<^sup>*" by (rule step.IH [OF step.prems(1) st(2)])
  ultimately show ?case using st(1) by (meson rtrancl.rtrancl_into_rtrancl rtrancl_trans)
qed

lemma condensation_acyclic:
  "acyclic {(a, b). \<exists>u v. (u, v) \<in> nx_rel N g \<and> component_for (raw_components N g) u = Some a
      \<and> component_for (raw_components N g) v = Some b \<and> a \<noteq> b}" (is "acyclic ?E")
proof (rule acyclicI, rule allI, rule notI)
  fix a assume "(a, a) \<in> ?E\<^sup>+"
  then obtain b where ab: "(a, b) \<in> ?E" "(b, a) \<in> ?E\<^sup>*" by (meson tranclD)
  then obtain u v where uv: "(u, v) \<in> nx_rel N g" "component_for (raw_components N g) u = Some a"
      "component_for (raw_components N g) v = Some b" "a \<noteq> b" by blast
  have "(v, u) \<in> (nx_rel N g)\<^sup>*" by (rule condensation_reach [OF ab(2) uv(3,2)])
  then have "same_component (nx_rel N g) u v" using uv(1) by (auto simp: same_component_def)
  with component_for_facts(2) [OF uv(2,3)] uv(4) show False by simp
qed

lemma failure_components_run:
  assumes "\<forall>v. nx_contains N g v \<longrightarrow> node_map v \<noteq> None"
  shows "\<exists>cs es. failure_components N g node_map blockers = Inr (cs, es) \<and> map fc_members cs = raw_components N g
    \<and> map fc_component_id cs = map component_id_text [1..<Suc (length cs)]
    \<and> (\<forall>c\<in>set cs. fc_cyclic c \<longleftrightarrow> 1 < length (fc_members c) \<or> nx_has_edge N g (fc_members c ! 0) (fc_members c ! 0))
    \<and> (\<forall>c\<in>set cs. fc_blocker c \<longleftrightarrow> set (fc_members c) \<inter> blockers \<noteq> {})
    \<and> {(ce_dependent e, ce_dependency e) | e. e \<in> set es} =
        {(a, b). \<exists>u v. (u, v) \<in> nx_rel N g \<and> component_for (raw_components N g) u = Some a
          \<and> component_for (raw_components N g) v = Some b \<and> a \<noteq> b}"
proof -
  let ?raw = "raw_components N g"
  have known: "node_map v \<noteq> None" if "m \<in> set ?raw" "v \<in> set m" for m v
    using raw_components_facts(3) [OF that(1)] scc_member(2) [OF _ that(2)] assms by blast
  have member: "\<exists>nodes. mapE (dict_item node_map) m = Inr nodes" if "m \<in> set ?raw" for m
    using known [OF that] by (intro mapE_total) (auto simp: dict_item_def split: option.splits)
  have "\<exists>cs. mapE (component_of N g node_map blockers) (enumerate k ms) = Inr cs \<and> map fc_members cs = ms
      \<and> map fc_component_id cs = map component_id_text [k..<k + length cs]
      \<and> (\<forall>c\<in>set cs. fc_cyclic c \<longleftrightarrow> 1 < length (fc_members c) \<or> nx_has_edge N g (fc_members c ! 0) (fc_members c ! 0))
      \<and> (\<forall>c\<in>set cs. fc_blocker c \<longleftrightarrow> set (fc_members c) \<inter> blockers \<noteq> {})" if "set ms \<subseteq> set ?raw" for ms k
    using that
  proof (induction ms arbitrary: k)
    case (Cons m ms)
    obtain nodes where "mapE (dict_item node_map) m = Inr nodes" using member [of m] Cons.prems by auto
    then obtain c where c: "component_of N g node_map blockers (k, m) = Inr c" "fc_members c = m"
        "fc_component_id c = component_id_text k" "fc_blocker c \<longleftrightarrow> set m \<inter> blockers \<noteq> {}"
        "fc_cyclic c \<longleftrightarrow> 1 < length m \<or> nx_has_edge N g (m ! 0) (m ! 0)"
      by (simp add: component_of_def)
    obtain cs where "mapE (component_of N g node_map blockers) (enumerate (Suc k) ms) = Inr cs" "map fc_members cs = ms"
      "map fc_component_id cs = map component_id_text [Suc k..<Suc k + length cs]"
      "\<forall>c\<in>set cs. fc_cyclic c \<longleftrightarrow> 1 < length (fc_members c) \<or> nx_has_edge N g (fc_members c ! 0) (fc_members c ! 0)"
      "\<forall>c\<in>set cs. fc_blocker c \<longleftrightarrow> set (fc_members c) \<inter> blockers \<noteq> {}"
      using Cons.IH [of "Suc k"] Cons.prems by auto
    then show ?case using c by (intro exI [of _ "c # cs"]) (simp add: upt_conv_Cons del: upt_Suc)
  qed simp
  from this [of ?raw 1] obtain cs where cs: "mapE (component_of N g node_map blockers) (enumerate 1 ?raw) = Inr cs"
      "map fc_members cs = ?raw" "map fc_component_id cs = map component_id_text [1..<1 + length cs]"
      "\<forall>c\<in>set cs. fc_cyclic c \<longleftrightarrow> 1 < length (fc_members c) \<or> nx_has_edge N g (fc_members c ! 0) (fc_members c ! 0)"
      "\<forall>c\<in>set cs. fc_blocker c \<longleftrightarrow> set (fc_members c) \<inter> blockers \<noteq> {}"
    by auto
  have "\<exists>pairs. mapE (component_pair (component_for ?raw)) es = Inr pairs
      \<and> set pairs = {(a, b). \<exists>u v. (u, v) \<in> set es \<and> component_for ?raw u = Some a \<and> component_for ?raw v = Some b}"
    if "set es \<subseteq> nx_rel N g" for es
    using that
  proof (induction es)
    case (Cons e es)
    obtain u v where e: "e = (u, v)" "(u, v) \<in> nx_rel N g" using Cons.prems by (cases e) auto
    then have "nx_contains N g u" "nx_contains N g v" using has_edge_contains by (auto simp: nx_rel_def)
    then obtain a b where ab: "component_for ?raw u = Some a" "component_for ?raw v = Some b" using component_for_facts(1) by blast
    from ab have "component_pair (component_for ?raw) e = Inr (a, b)" by (simp add: component_pair_def dict_item_def e(1))
    moreover obtain pairs where "mapE (component_pair (component_for ?raw)) es = Inr pairs"
        "set pairs = {(a, b). \<exists>u v. (u, v) \<in> set es \<and> component_for ?raw u = Some a \<and> component_for ?raw v = Some b}"
      using Cons by auto
    ultimately show ?case using ab by (intro exI [of _ "(a, b) # pairs"] conjI) (simp, auto simp: e(1))
  qed simp
  from this [of "nx_edges N g"] obtain pairs where pairs: "mapE (component_pair (component_for ?raw)) (nx_edges N g) = Inr pairs"
      "set pairs = {(a, b). \<exists>u v. (u, v) \<in> nx_rel N g \<and> component_for ?raw u = Some a \<and> component_for ?raw v = Some b}"
    by (auto simp: set_edges)
  let ?es = "map (\<lambda>(a, b). \<lparr>ce_dependent = a, ce_dependency = b\<rparr>) (sorted_list_of_set (set (filter (\<lambda>(a, b). a \<noteq> b) pairs)))"
  have "{(ce_dependent e, ce_dependency e) | e. e \<in> set ?es} = (\<lambda>e. (ce_dependent e, ce_dependency e)) ` set ?es" by auto
  also have "\<dots> = set (filter (\<lambda>(a, b). a \<noteq> b) pairs)" by (simp add: image_image case_prod_unfold)
  also have "\<dots> = {(a, b). \<exists>u v. (u, v) \<in> nx_rel N g \<and> component_for ?raw u = Some a \<and> component_for ?raw v = Some b \<and> a \<noteq> b}"
    using pairs(2) by auto
  finally have es: "{(ce_dependent e, ce_dependency e) | e. e \<in> set ?es} = \<dots>" .
  have "failure_components N g node_map blockers = Inr (cs, ?es)" using cs(1) pairs(1) by (simp add: failure_components_def)
  then show ?thesis using cs(2-5) es by (intro exI [of _ cs] exI [of _ ?es] conjI) simp_all
qed

end

section \<open>A report is well formed\<close>

fun tree_ids :: "outline_node \<Rightarrow> string list" where
  "tree_ids (Outline c state blocker ids shared children) = c # concat (map tree_ids children)"

definition report_ids :: "failure_report \<Rightarrow> string set" where
  "report_ids r = fn_claim_id ` set (fr_nodes r)"

definition report_rel :: "failure_report \<Rightarrow> (string \<times> string) set" where
  "report_rel r = (\<lambda>e. (fe_dependent e, fe_dependency e)) ` set (fr_edges r)"

definition report_ok :: "failure_report \<Rightarrow> bool" where
  "report_ok r \<longleftrightarrow>
     sorted_wrt (<) (map fn_claim_id (fr_nodes r)) \<and> report_rel r \<subseteq> report_ids r \<times> report_ids r
     \<and> (\<forall>p\<in>set (fr_paths r). fp_target p \<in> set (fr_targets r) \<and> fp_claims p \<noteq> [] \<and> set (fp_claims p) \<subseteq> report_ids r)
     \<and> fr_first_blocker r = (case fr_paths r of [] \<Rightarrow> None | p # _ \<Rightarrow> Some p)
     \<and> fr_primary_incident_id r \<in> Some ` in_incident_id ` set (fr_incidents r)
     \<and> set (fr_global_incident_ids r) \<subseteq> in_incident_id ` set (fr_incidents r)
     \<and> (fr_has_cycles r \<longleftrightarrow> \<not> acyclic (report_rel r))
     \<and> (if fr_has_cycles r
        then fr_outline r = [] \<and> distinct (concat (map fc_members (fr_components r)))
          \<and> set (concat (map fc_members (fr_components r))) = report_ids r
          \<and> (\<forall>e\<in>set (fr_component_edges r). {ce_dependent e, ce_dependency e} \<subseteq> fc_component_id ` set (fr_components r))
        else fr_components r = [] \<and> fr_component_edges r = []
          \<and> (\<exists>roots trees. fr_outline r = roots @ trees \<and> map ol_incident_ids roots = map (\<lambda>i. [i]) (fr_global_incident_ids r)
              \<and> set (concat (map tree_ids (concat (map ol_children roots) @ trees))) \<subseteq> report_ids r))"

lemma faithful_ids: "outline_faithful oc t \<Longrightarrow> set (tree_ids t) \<subseteq> fn_claim_id ` set (oc_nodes oc)"
  by (induction oc t rule: outline_faithful.induct) (force dest: node_of_mem split: option.splits)

lemma walk_subset: "walk R xs \<Longrightarrow> R \<subseteq> V \<times> V \<Longrightarrow> hd xs \<in> V \<Longrightarrow> set xs \<subseteq> V"
  by (induction R xs rule: walk.induct) auto

lemma report_node_id [simp]: "fn_claim_id (report_node db run_id snapshot incidents c) = c"
  by (simp add: report_node_def Let_def split: option.splits)

lemma report_nodes_ids:
  "map fn_claim_id (report_nodes db run_id snapshot selected incidents) = sorted_list_of_set (set selected \<union> local_claims incidents)"
  by (simp add: report_nodes_def comp_def)

text \<open>The paths of a report stay inside it.\<close>

lemma failure_paths_inside:
  assumes "networkx N" and "graph = failure_graph N nodes edges" and "finite blockers"
    and "p \<in> set (failure_paths N (length nodes) graph goals blockers)"
  shows "fp_target p \<in> set goals" "fp_blocker p \<in> blockers" "fp_claims p \<noteq> []" "set (fp_claims p) \<subseteq> fn_claim_id ` set nodes"
proof -
  obtain t where t: "t \<in> set goals" "p \<in> set (target_paths N (length nodes) graph blockers t)"
    using assms(4) by (auto simp: failure_paths_def)
  note facts = networkx.target_paths_shortest [OF assms(1-3) t(2)]
  show "fp_target p \<in> set goals" "fp_blocker p \<in> blockers" using facts(1,2) t(1) by simp_all
  show "fp_claims p \<noteq> []" using facts(3) by auto
  have "t \<in> fn_claim_id ` set nodes"
    using t(2) networkx.failure_graph_facts(1) [OF assms(1)] assms(2) by (auto simp: target_paths_def split: if_splits)
  moreover have "nx_rel N graph \<subseteq> fn_claim_id ` set nodes \<times> fn_claim_id ` set nodes"
    using networkx.failure_graph_facts(2) [OF assms(1), of nodes edges] assms(2) by auto
  ultimately show "set (fp_claims p) \<subseteq> fn_claim_id ` set nodes" using walk_subset [OF facts(3)] facts(4) by simp
qed

text \<open>What \<open>build_report\<close> computes before it draws the graph.\<close>

definition report_edges_in :: "failure_node list \<Rightarrow> failure_edge list \<Rightarrow> failure_edge list" where
  "report_edges_in nodes all_edges =
     filter (\<lambda>e. fe_dependent e \<in> fn_claim_id ` set nodes \<and> fe_dependency e \<in> fn_claim_id ` set nodes) all_edges"

lemma report_graph_rel:
  assumes "networkx N"
  shows "nx_rel N (failure_graph N nodes (report_edges_in nodes all_edges))
    = (\<lambda>e. (fe_dependent e, fe_dependency e)) ` set (report_edges_in nodes all_edges)"
  by (auto simp: networkx.failure_graph_facts(2) [OF assms] report_edges_in_def)

lemma report_drawing:
  fixes nodes all_edges goals blockers incidents
  assumes N: "networkx N" and graph: "graph = failure_graph N nodes (report_edges_in nodes all_edges)"
  shows "if nx_is_directed_acyclic_graph N graph
    then \<exists>roots trees. failure_outline N graph goals nodes blockers incidents = Inr (roots @ trees)
        \<and> map ol_incident_ids roots = map (\<lambda>i. [i]) (map in_incident_id (filter is_global incidents))
        \<and> set (concat (map tree_ids (concat (map ol_children roots) @ trees))) \<subseteq> fn_claim_id ` set nodes
    else \<exists>cs es. failure_components N graph (dict_by fn_claim_id nodes) blockers = Inr (cs, es)
        \<and> distinct (concat (map fc_members cs)) \<and> set (concat (map fc_members cs)) = fn_claim_id ` set nodes
        \<and> (\<forall>e\<in>set es. {ce_dependent e, ce_dependency e} \<subseteq> fc_component_id ` set cs)"
proof (cases "nx_is_directed_acyclic_graph N graph")
  case True
  obtain roots trees where run: "failure_outline N graph goals nodes blockers incidents = Inr (roots @ trees)"
    and ids: "map ol_incident_ids roots = map (\<lambda>i. [in_incident_id i]) (filter is_global incidents)"
    and faithful: "\<forall>t\<in>set (concat (map ol_children roots) @ trees). outline_faithful (outline_of N graph goals nodes blockers incidents) t"
    using outline_expands_once_facts [OF N graph, where targets = goals and blockers = blockers and incidents = incidents] by blast
  have "set (tree_ids t) \<subseteq> fn_claim_id ` set nodes" if "t \<in> set (concat (map ol_children roots) @ trees)" for t
    using faithful_ids [OF bspec [OF faithful that]] by (simp add: outline_of_def)
  then have "set (concat (map tree_ids (concat (map ol_children roots) @ trees))) \<subseteq> fn_claim_id ` set nodes"
    unfolding set_concat set_map by (intro UN_least) (elim imageE, simp only:)
  then show ?thesis using True run ids by (auto simp: comp_def)
next
  case False
  have contains: "nx_contains N graph v \<longleftrightarrow> v \<in> fn_claim_id ` set nodes" for v
    unfolding graph by (rule networkx.failure_graph_facts(1) [OF N])
  have known: "\<forall>v. nx_contains N graph v \<longrightarrow> dict_by fn_claim_id nodes v \<noteq> None"
    by (simp only: contains dict_by_None_iff) simp
  obtain cs es where run: "failure_components N graph (dict_by fn_claim_id nodes) blockers = Inr (cs, es)"
    and members: "map fc_members cs = raw_components N graph" and ids: "map fc_component_id cs = map component_id_text [1..<Suc (length cs)]"
    and edges: "{(ce_dependent e, ce_dependency e) | e. e \<in> set es} =
        {(a, b). \<exists>u v. (u, v) \<in> nx_rel N graph \<and> component_for (raw_components N graph) u = Some a
          \<and> component_for (raw_components N graph) v = Some b \<and> a \<noteq> b}"
    using networkx.failure_components_run [OF N known, where blockers = blockers]
    by (elim exE conjE) (rule that)
  have "set (concat (map fc_members cs)) = fn_claim_id ` set nodes"
  proof -
    have "set (concat (map fc_members cs)) = \<Union> (set ` set (raw_components N graph))" by (simp add: members)
    also have "\<dots> = {v. nx_contains N graph v}"
    proof (intro set_eqI iffI)
      fix v assume "v \<in> \<Union> (set ` set (raw_components N graph))"
      then show "v \<in> {v. nx_contains N graph v}"
        unfolding networkx.raw_components_facts(1) [OF N] using networkx.scc_member(2) [OF N] by blast
    next
      fix v assume "v \<in> {v. nx_contains N graph v}"
      then have "{w. same_component (nx_rel N graph) v w} \<in> set (nx_strongly_connected_components N graph)"
        unfolding networkx.set_scc [OF N] by blast
      then show "v \<in> \<Union> (set ` set (raw_components N graph))"
        unfolding networkx.raw_components_facts(1) [OF N] by (rule UnionI) (simp add: same_component_def)
    qed
    also have "\<dots> = fn_claim_id ` set nodes" by (simp only: contains) simp
    finally show ?thesis .
  qed
  moreover have "{ce_dependent e, ce_dependency e} \<subseteq> fc_component_id ` set cs" if "e \<in> set es" for e
  proof -
    have "(ce_dependent e, ce_dependency e) \<in> {(ce_dependent e, ce_dependency e) | e. e \<in> set es}" using that by blast
    then obtain u v where uv: "component_for (raw_components N graph) u = Some (ce_dependent e)"
        "component_for (raw_components N graph) v = Some (ce_dependency e)"
      unfolding edges by (elim CollectE case_prodE exE conjE) simp
    have "a \<in> fc_component_id ` set cs" if found: "component_for (raw_components N graph) w = Some a" for w a
    proof -
      obtain k where "k < length (raw_components N graph)" "a = component_id_text (Suc k)"
        using component_for_iff [OF networkx.raw_components_facts(2) [OF N], THEN iffD1, OF found] by blast
      moreover have "length cs = length (raw_components N graph)" using members by (metis length_map)
      ultimately have "a \<in> set (map fc_component_id cs)" unfolding ids by (auto simp del: upt_Suc)
      then show ?thesis by simp
    qed
    then show ?thesis using uv by simp
  qed
  moreover have "distinct (concat (map fc_members cs))" unfolding members by (rule networkx.raw_components_facts(2) [OF N])
  ultimately show ?thesis unfolding if_not_P [OF False] using run by blast
qed

lemma build_report_run:
  assumes N: "networkx N" and "incidents \<noteq> []" and "sorted_wrt (<) (map fn_claim_id nodes)"
  obtains r where "build_report N run snapshot incidents goals selected nodes all_edges = Inr r" "report_ok r"
    "fr_incidents r = incidents" "fr_run_id r = r_run_id run"
    "fr_primary_incident_id r = primary_incident incidents (fr_first_blocker r)"
    "\<And>p. fr_first_blocker r = Some p \<Longrightarrow> \<exists>i\<in>set incidents. is_local i \<and> fp_blocker p \<in> set (in_claim_ids i)"
proof -
  define edges where "edges = report_edges_in nodes all_edges"
  define graph where "graph = failure_graph N nodes edges"
  define blockers where "blockers = set (filter (nx_contains N graph) (concat (map in_claim_ids (filter is_local incidents))))"
  define paths where "paths = failure_paths N (length nodes) graph goals blockers"
  define first where "first = (case paths of [] \<Rightarrow> None | p # _ \<Rightarrow> Some p)"
  define drawn where "drawn = (if \<not> nx_is_directed_acyclic_graph N graph
      then bindE (failure_components N graph (dict_by fn_claim_id nodes) blockers) (\<lambda>(components, edges). Inr ([], components, edges))
      else bindE (failure_outline N graph goals nodes blockers incidents) (\<lambda>outline. Inr (outline, [], [])))"
  have rel: "nx_rel N graph = (\<lambda>e. (fe_dependent e, fe_dependency e)) ` set edges"
    unfolding graph_def edges_def by (rule report_graph_rel [OF N])
  have dag: "nx_is_directed_acyclic_graph N graph \<longleftrightarrow> acyclic ((\<lambda>e. (fe_dependent e, fe_dependency e)) ` set edges)"
    using networkx.is_dag_iff [OF N, of graph] by (simp add: rel)
  note drawing = report_drawing [OF N graph_def [unfolded edges_def], where goals = goals and blockers = blockers and incidents = incidents]
  have "\<exists>outline cs es. drawn = Inr (outline, cs, es)"
    using drawing unfolding drawn_def by (auto split: if_splits)
  then obtain outline cs es where drawn: "drawn = Inr (outline, cs, es)" by blast
  define r where "r = \<lparr>fr_run_id = r_run_id run, fr_snapshot = snapshot, fr_outcome = text_or (r_outcome run) (r_status run),
              fr_detail = text_or (r_detail run) ''No further detail was persisted'', fr_targets = goals,
              fr_selected = selected, fr_nodes = nodes, fr_edges = edges, fr_incidents = incidents,
              fr_global_incident_ids = map in_incident_id (filter is_global incidents),
              fr_primary_incident_id = primary_incident incidents first, fr_first_blocker = first,
              fr_paths = paths, fr_has_cycles = (\<not> nx_is_directed_acyclic_graph N graph), fr_outline = outline, fr_components = cs,
              fr_component_edges = es\<rparr>"
  have fin: "finite blockers" by (simp add: blockers_def)
  note inside = failure_paths_inside [OF N graph_def fin, of _ goals, folded paths_def]
  have run: "build_report N run snapshot incidents goals selected nodes all_edges = Inr r"
    using drawn unfolding build_report_def Let_def r_def first_def paths_def blockers_def drawn_def graph_def edges_def report_edges_in_def
    by simp
  have local: "\<exists>i\<in>set incidents. is_local i \<and> fp_blocker p \<in> set (in_claim_ids i)" if "first = Some p" for p
  proof -
    have "p \<in> set paths" using that by (auto simp: first_def split: list.splits)
    then have "fp_blocker p \<in> blockers" by (rule inside(2))
    then show ?thesis by (auto simp: blockers_def)
  qed
  obtain i where "i \<in> set incidents" "primary_incident incidents first = Some (in_incident_id i)"
    using primary_incident_Some [OF assms(2), of first] by metis
  then have primary: "primary_incident incidents first \<in> Some ` in_incident_id ` set incidents" by blast
  have "report_ok r"
    unfolding report_ok_def
  proof (intro conjI)
    show "report_rel r \<subseteq> report_ids r \<times> report_ids r" by (auto simp: r_def report_rel_def report_ids_def edges_def report_edges_in_def)
    show "\<forall>p\<in>set (fr_paths r). fp_target p \<in> set (fr_targets r) \<and> fp_claims p \<noteq> [] \<and> set (fp_claims p) \<subseteq> report_ids r"
      using inside(1,3,4) by (simp add: r_def report_ids_def)
    show "fr_has_cycles r \<longleftrightarrow> \<not> acyclic (report_rel r)" by (simp add: r_def report_rel_def dag)
    show "if fr_has_cycles r
        then fr_outline r = [] \<and> distinct (concat (map fc_members (fr_components r)))
          \<and> set (concat (map fc_members (fr_components r))) = report_ids r
          \<and> (\<forall>e\<in>set (fr_component_edges r). {ce_dependent e, ce_dependency e} \<subseteq> fc_component_id ` set (fr_components r))
        else fr_components r = [] \<and> fr_component_edges r = []
          \<and> (\<exists>roots trees. fr_outline r = roots @ trees \<and> map ol_incident_ids roots = map (\<lambda>i. [i]) (fr_global_incident_ids r)
              \<and> set (concat (map tree_ids (concat (map ol_children roots) @ trees))) \<subseteq> report_ids r)"
    proof (cases "nx_is_directed_acyclic_graph N graph")
      case True
      then obtain roots trees where "failure_outline N graph goals nodes blockers incidents = Inr (roots @ trees)"
        "map ol_incident_ids roots = map (\<lambda>i. [i]) (map in_incident_id (filter is_global incidents))"
        "set (concat (map tree_ids (concat (map ol_children roots) @ trees))) \<subseteq> fn_claim_id ` set nodes"
        using drawing by auto
      then show ?thesis using drawn True by (auto simp: drawn_def r_def report_ids_def)
    next
      case False
      then show ?thesis using drawing drawn by (auto simp: drawn_def r_def report_ids_def)
    qed
  qed (use assms(3) primary in \<open>auto simp: r_def first_def\<close>)
  then show thesis using that run local by (simp add: r_def)
qed

section \<open>The report of a run\<close>

text \<open>The file of selected claims, where it can be read, holds a JSON object, as \<^verbatim>\<open>session.py\<close> writes it.\<close>

definition affected_payload_ok :: "report_host \<Rightarrow> bool" where
  "affected_payload_ok h \<longleftrightarrow> (\<forall>run_id. case rh_affected_claims h run_id of Some (JObject _) \<Rightarrow> True | None \<Rightarrow> True | _ \<Rightarrow> False)"

lemma legacy_selected_Inr:
  assumes "affected_payload_ok h"
  shows "\<exists>xs. legacy_selected h run_id = Inr xs"
proof -
  have "case rh_affected_claims h run_id of Some (JObject _) \<Rightarrow> True | None \<Rightarrow> True | _ \<Rightarrow> False"
    using assms by (simp only: affected_payload_ok_def)
  then show ?thesis by (auto simp: legacy_selected_def split: option.splits json.splits)
qed

lemma report_scope_Inr: "role \<in> {''TARGET'', ''SELECTED''} \<Longrightarrow> \<exists>xs. report_scope db run_id role = Inr xs"
  by (auto simp: report_scope_def run_scope_rows_def)

lemma failure_report_run:
  assumes N: "networkx N" and "affected_payload_ok h" and run: "reported_run db run_id = Some run" and incidents: "run_incidents h db run \<noteq> []"
  obtains r where "build_failure_report N h db run_id = Inr (Some r)" "report_ok r" "fr_incidents r = run_incidents h db run"
    "fr_run_id r = r_run_id run" "fr_primary_incident_id r = primary_incident (run_incidents h db run) (fr_first_blocker r)"
    "\<And>p. fr_first_blocker r = Some p \<Longrightarrow> \<exists>i\<in>set (run_incidents h db run). is_local i \<and> fp_blocker p \<in> set (in_claim_ids i)"
proof -
  obtain scope_targets scope_selected recorded where inputs: "report_scope db (r_run_id run) ''TARGET'' = Inr scope_targets"
      "report_scope db (r_run_id run) ''SELECTED'' = Inr scope_selected"
      "(if scope_selected = [] then legacy_selected h (r_run_id run) else Inr scope_selected) = Inr recorded"
    using report_scope_Inr [of "''TARGET''"] report_scope_Inr [of "''SELECTED''"] legacy_selected_Inr [OF assms(2)]
    by (metis insertI1 insertI2)
  define ids where "ids = sorted_list_of_set (set (concat (map in_claim_ids (run_incidents h db run))))"
  define chosen where "chosen = or_all recorded ids"
  define goals where "goals = or_all scope_targets (or_all ids chosen)"
  define nodes where "nodes = report_nodes db (r_run_id run) (nonempty_text (r_snapshot_commit run)) chosen (run_incidents h db run)"
  have sorted: "sorted_wrt (<) (map fn_claim_id nodes)"
    unfolding nodes_def report_nodes_ids by (rule strict_sorted_list_of_set)
  obtain r where r: "build_report N run (nonempty_text (r_snapshot_commit run)) (run_incidents h db run) goals chosen nodes
        (report_edges db (r_run_id run) (nonempty_text (r_snapshot_commit run))) = Inr r"
      "report_ok r" "fr_incidents r = run_incidents h db run" "fr_run_id r = r_run_id run"
      "fr_primary_incident_id r = primary_incident (run_incidents h db run) (fr_first_blocker r)"
      "\<And>p. fr_first_blocker r = Some p \<Longrightarrow> \<exists>i\<in>set (run_incidents h db run). is_local i \<and> fp_blocker p \<in> set (in_claim_ids i)"
    using build_report_run [OF N incidents sorted] by blast
  have "build_failure_report N h db run_id = Inr (Some r)"
    using r(1) [unfolded nodes_def goals_def chosen_def ids_def] incidents inputs
    by (simp add: build_failure_report_def run Let_def)
  then show thesis using that r(2-6) by blast
qed

lemma failure_report_none:
  "build_failure_report N h db run_id = Inr None"
  if "reported_run db run_id = None \<or> (\<exists>run. reported_run db run_id = Some run \<and> run_incidents h db run = [])"
  using that by (auto simp: build_failure_report_def Let_def split: option.splits)

lemma failure_report_inv:
  assumes N: "networkx N" and "affected_payload_ok h" and build: "build_failure_report N h db run_id = Inr (Some r)"
  obtains run where "reported_run db run_id = Some run" "run_incidents h db run \<noteq> []" "report_ok r"
    "fr_incidents r = run_incidents h db run" "fr_primary_incident_id r = primary_incident (run_incidents h db run) (fr_first_blocker r)"
    "\<And>p. fr_first_blocker r = Some p \<Longrightarrow> \<exists>i\<in>set (run_incidents h db run). is_local i \<and> fp_blocker p \<in> set (in_claim_ids i)"
proof -
  have "\<exists>run. reported_run db run_id = Some run \<and> run_incidents h db run \<noteq> []"
    using failure_report_none [of db run_id h N] build by (cases "reported_run db run_id") auto
  then obtain run where run: "reported_run db run_id = Some run" "run_incidents h db run \<noteq> []" by blast
  show thesis by (rule failure_report_run [OF assms(1,2) run]) (use build run that in auto)
qed



text \<open>The primary incident explains the first blocker: in a report whose first path leads to a blocker, the primary incident is an
  incident of a claim or a component that names this blocker, and the least such incident in the order of the report;
  in a report without a blocker it is an incident of the run or of a batch whenever there is one.\<close>

theorem primary_explains_first_blocker:
  assumes "networkx N" and "affected_payload_ok h" and "build_failure_report N h db run_id = Inr (Some r)"
  shows "\<exists>i\<in>set (fr_incidents r). fr_primary_incident_id r = Some (in_incident_id i)
    \<and> (case fr_first_blocker r of
         Some p \<Rightarrow> is_local i \<and> fp_blocker p \<in> set (in_claim_ids i)
           \<and> (\<forall>j\<in>set (fr_incidents r). is_local j \<and> fp_blocker p \<in> set (in_claim_ids j) \<longrightarrow> incident_rank i \<le> incident_rank j)
       | None \<Rightarrow> (\<forall>j\<in>set (fr_incidents r). is_global j \<longrightarrow> is_global i \<and> incident_rank i \<le> incident_rank j))"
proof -
  obtain run where run: "run_incidents h db run \<noteq> []" "fr_incidents r = run_incidents h db run"
      "fr_primary_incident_id r = primary_incident (run_incidents h db run) (fr_first_blocker r)"
      "\<And>p. fr_first_blocker r = Some p \<Longrightarrow> \<exists>i\<in>set (run_incidents h db run). is_local i \<and> fp_blocker p \<in> set (in_claim_ids i)"
    by (rule failure_report_inv [OF assms]) blast
  obtain i where i: "i \<in> set (run_incidents h db run)"
      "primary_incident (run_incidents h db run) (fr_first_blocker r) = Some (in_incident_id i)"
      "\<And>p j. fr_first_blocker r = Some p \<Longrightarrow> j \<in> set (run_incidents h db run) \<Longrightarrow> is_local j \<Longrightarrow> fp_blocker p \<in> set (in_claim_ids j)
       \<Longrightarrow> is_local i \<and> fp_blocker p \<in> set (in_claim_ids i) \<and> incident_rank i \<le> incident_rank j"
      "\<And>j. fr_first_blocker r = None \<Longrightarrow> j \<in> set (run_incidents h db run) \<Longrightarrow> is_global j \<Longrightarrow> is_global i \<and> incident_rank i \<le> incident_rank j"
    by (rule primary_incident_Some [OF run(1), of "fr_first_blocker r"]) blast
  show ?thesis
  proof (intro bexI [of _ i] conjI)
    show "i \<in> set (fr_incidents r)" "fr_primary_incident_id r = Some (in_incident_id i)" using i(1,2) run(2,3) by simp_all
    show "case fr_first_blocker r of
         Some p \<Rightarrow> is_local i \<and> fp_blocker p \<in> set (in_claim_ids i)
           \<and> (\<forall>j\<in>set (fr_incidents r). is_local j \<and> fp_blocker p \<in> set (in_claim_ids j) \<longrightarrow> incident_rank i \<le> incident_rank j)
       | None \<Rightarrow> (\<forall>j\<in>set (fr_incidents r). is_global j \<longrightarrow> is_global i \<and> incident_rank i \<le> incident_rank j)"
    proof (cases "fr_first_blocker r")
      case None
      then show ?thesis using i(4) run(2) by simp
    next
      case (Some p)
      then obtain j where "j \<in> set (run_incidents h db run)" "is_local j" "fp_blocker p \<in> set (in_claim_ids j)" using run(4) by blast
      then show ?thesis using i(3) [OF Some] Some run(2) by auto
    qed
  qed
qed

context networkx
begin

lemma components_exact:
  assumes "graph = failure_graph N nodes edges"
  shows "\<exists>cs es. failure_components N graph (dict_by fn_claim_id nodes) blockers = Inr (cs, es)
    \<and> (\<forall>u v. (\<exists>c\<in>set cs. {u, v} \<subseteq> set (fc_members c)) \<longleftrightarrow> u \<in> fn_claim_id ` set nodes \<and> same_component (nx_rel N graph) u v)
    \<and> (\<forall>c\<in>set cs. \<forall>u\<in>set (fc_members c). fc_cyclic c \<longleftrightarrow> (u, u) \<in> (nx_rel N graph)\<^sup>+)
    \<and> (\<forall>c\<in>set cs. fc_blocker c \<longleftrightarrow> set (fc_members c) \<inter> blockers \<noteq> {})
    \<and> acyclic {(ce_dependent e, ce_dependency e) | e. e \<in> set es}"
proof -
  let ?R = "nx_rel N graph"
  have contains: "nx_contains N graph v \<longleftrightarrow> v \<in> fn_claim_id ` set nodes" for v
    unfolding assms(1) by (rule failure_graph_facts(1))
  have known: "\<forall>v. nx_contains N graph v \<longrightarrow> dict_by fn_claim_id nodes v \<noteq> None"
    by (simp only: contains dict_by_None_iff) simp
  obtain cs es where run: "failure_components N graph (dict_by fn_claim_id nodes) blockers = Inr (cs, es)"
    and members: "map fc_members cs = raw_components N graph"
    and cyclic: "\<forall>c\<in>set cs. fc_cyclic c \<longleftrightarrow> 1 < length (fc_members c) \<or> nx_has_edge N graph (fc_members c ! 0) (fc_members c ! 0)"
    and blocker: "\<forall>c\<in>set cs. fc_blocker c \<longleftrightarrow> set (fc_members c) \<inter> blockers \<noteq> {}"
    and edges: "{(ce_dependent e, ce_dependency e) | e. e \<in> set es} =
        {(a, b). \<exists>u v. (u, v) \<in> ?R \<and> component_for (raw_components N graph) u = Some a
          \<and> component_for (raw_components N graph) v = Some b \<and> a \<noteq> b}"
    using failure_components_run [OF known, where blockers = blockers] by (elim exE conjE) (rule that)
  have raw: "fc_members c \<in> set (raw_components N graph)" if "c \<in> set cs" for c
    using that by (simp add: members [symmetric])
  have sets: "(\<lambda>c. set (fc_members c)) ` set cs = set (nx_strongly_connected_components N graph)"
    unfolding raw_components_facts(1) [symmetric] members [symmetric] by (simp add: image_image)
  have "(\<exists>c\<in>set cs. {u, v} \<subseteq> set (fc_members c)) \<longleftrightarrow> u \<in> fn_claim_id ` set nodes \<and> same_component ?R u v" for u v
  proof
    assume "\<exists>c\<in>set cs. {u, v} \<subseteq> set (fc_members c)"
    then obtain C where C: "C \<in> set (nx_strongly_connected_components N graph)" "u \<in> C" "v \<in> C" unfolding sets [symmetric] by blast
    show "u \<in> fn_claim_id ` set nodes \<and> same_component ?R u v"
      using C(3) scc_member [OF C(1,2)] unfolding contains by blast
  next
    assume uv: "u \<in> fn_claim_id ` set nodes \<and> same_component ?R u v"
    then have "{w. same_component ?R u w} \<in> (\<lambda>c. set (fc_members c)) ` set cs"
      unfolding sets set_scc contains by blast
    then obtain c where "c \<in> set cs" "{w. same_component ?R u w} = set (fc_members c)" by (rule imageE)
    moreover have "same_component ?R u u" by (simp add: same_component_def)
    ultimately show "\<exists>c\<in>set cs. {u, v} \<subseteq> set (fc_members c)" using uv by blast
  qed
  moreover have "fc_cyclic c \<longleftrightarrow> (u, u) \<in> ?R\<^sup>+" if "c \<in> set cs" "u \<in> set (fc_members c)" for c u
    using component_cyclic [OF raw [OF that(1)] that(2)] bspec [OF cyclic that(1)] by simp
  moreover have "acyclic {(ce_dependent e, ce_dependency e) | e. e \<in> set es}" unfolding edges by (rule condensation_acyclic)
  ultimately show ?thesis using run blocker by blast
qed

end

text \<open>C21. The components of a cyclic graph are right: drawing them never raises; two claims of the graph share a component
  exactly when each depends on the other, directly or not; a component counts as cyclic exactly when its claims lie on a
  dependency cycle; it counts as a blocker exactly when a blocker is in it; and the edges between components have no cycle,
  so what is drawn is a tree of causes.\<close>

theorem components_condense_cycles:
  assumes "networkx N" and "graph = failure_graph N nodes edges"
  shows "\<exists>cs es. failure_components N graph (dict_by fn_claim_id nodes) blockers = Inr (cs, es)
    \<and> (\<forall>u v. (\<exists>c\<in>set cs. {u, v} \<subseteq> set (fc_members c)) \<longleftrightarrow> u \<in> fn_claim_id ` set nodes \<and> same_component (nx_rel N graph) u v)
    \<and> (\<forall>c\<in>set cs. \<forall>u\<in>set (fc_members c). fc_cyclic c \<longleftrightarrow> (u, u) \<in> (nx_rel N graph)\<^sup>+)
    \<and> (\<forall>c\<in>set cs. fc_blocker c \<longleftrightarrow> set (fc_members c) \<inter> blockers \<noteq> {})
    \<and> acyclic {(ce_dependent e, ce_dependency e) | e. e \<in> set es}"
  using networkx.components_exact [OF assms] .

section \<open>An example\<close>

definition ex_failed_run :: run_row where
  "ex_failed_run = \<lparr>r_run_id = 3, r_command = ''run'', r_status = ''FAILED'', r_outcome = None, r_started_at = ''t0'',
     r_completed_at = Some ''t1'', r_snapshot_commit = None, r_previous_snapshot_commit = None, r_task_sha256 = None,
     r_mode = None, r_environment_hash = None, r_detail = None\<rparr>"

text \<open>A run of an old schema, where the failure of \<open>def\<close> is a transition of the run and its incident has to be reconstructed,
  and a run with a recorded incident.\<close>

definition ex_legacy_db :: store_db where
  "ex_legacy_db = empty_store\<lparr>t_runs := [ex_failed_run],
     t_run_claims := [\<lparr>rc_run_id = 3, rc_claim_id = ''def'', rc_action = ''attempt'', rc_state_before = None,
       rc_state_after = Some FAILED_TECHNICAL, rc_reason = Some ''no proof'', rc_reused = False\<rparr>]\<rparr>"

definition ex_failed_db :: store_db where
  "ex_failed_db = empty_store\<lparr>t_runs := [ex_failed_run],
     t_failure_incidents := [\<lparr>fi_failure_id = 1, fi_run_id = 3, fi_scope = ''CLAIM'', fi_failure_kind = ''CLAIM_TECHNICAL'',
       fi_phase = ''p'', fi_category = ''c'', fi_message = ''m'', fi_detail = None, fi_provenance = ''w'', fi_batch_index = None,
       fi_retryable = True\<rparr>],
     t_failure_incident_claims := [\<lparr>ic_failure_id = 1, ic_claim_id = ''d'', ic_ordinal = 0\<rparr>],
     t_run_scope := [\<lparr>sc_run_id = 3, sc_claim_id = ''t'', sc_role = ''TARGET'', sc_ordinal = 0\<rparr>,
       \<lparr>sc_run_id = 3, sc_claim_id = ''d'', sc_role = ''SELECTED'', sc_ordinal = 0\<rparr>,
       \<lparr>sc_run_id = 3, sc_claim_id = ''t'', sc_role = ''SELECTED'', sc_ordinal = 1\<rparr>],
     t_run_dependency_edges := [\<lparr>re_run_id = 3, re_edge = \<lparr>e_src = ''t'', e_dst = ''d'', e_kind = ''reference'',
       e_provenance = ''tex'', e_approved = True\<rparr>\<rparr>]\<rparr>"

definition ex_report_host :: report_host where
  "ex_report_host = \<lparr>rh_artifact_path = id, rh_affected_claims = (\<lambda>_. None)\<rparr>"

lemma ex_report_host_ok: "affected_payload_ok ex_report_host"
  by (simp add: affected_payload_ok_def ex_report_host_def)

lemma ex_failed_report:
  "\<exists>r. build_failure_report list_nx ex_report_host ex_failed_db None = Inr (Some r) \<and> fr_has_cycles r = False
     \<and> fr_first_blocker r = Some \<lparr>fp_target = ''t'', fp_blocker = ''d'', fp_claims = [''t'', ''d'']\<rparr>
     \<and> fr_primary_incident_id r = Some 1"
proof -
  have "case build_failure_report list_nx ex_report_host ex_failed_db None of
      Inr (Some r) \<Rightarrow> fr_has_cycles r = False
        \<and> fr_first_blocker r = Some \<lparr>fp_target = ''t'', fp_blocker = ''d'', fp_claims = [''t'', ''d'']\<rparr>
        \<and> fr_primary_incident_id r = Some 1 | _ \<Rightarrow> False"
    by code_simp
  then show ?thesis by (auto split: sum.splits option.splits)
qed



theorem primary_explains_first_blocker_witness:
  "\<exists>r i. build_failure_report list_nx ex_report_host ex_failed_db None = Inr (Some r)
    \<and> map_option fp_claims (fr_first_blocker r) = Some [''t'', ''d''] \<and> fr_primary_incident_id r = Some 1
    \<and> is_local i \<and> ''d'' \<in> set (in_claim_ids i) \<and> in_incident_id i = 1"
proof -
  obtain r where r: "build_failure_report list_nx ex_report_host ex_failed_db None = Inr (Some r)"
      "fr_first_blocker r = Some \<lparr>fp_target = ''t'', fp_blocker = ''d'', fp_claims = [''t'', ''d'']\<rparr>"
      "fr_primary_incident_id r = Some 1"
    using ex_failed_report by blast
  from primary_explains_first_blocker [OF list_graphs.networkx_axioms ex_report_host_ok r(1)] r show ?thesis by auto
qed

theorem components_condense_cycles_witness:
  "\<exists>cs es. failure_components list_nx
      (failure_graph list_nx ex_failure_nodes (\<lparr>fe_dependent = ''def'', fe_dependency = ''lem'', fe_kinds = [], fe_provenances = []\<rparr>
        # ex_failure_edges)) (dict_by fn_claim_id ex_failure_nodes) {''def''} = Inr (cs, es)
    \<and> map fc_members cs = [[''def'', ''lem''], [''thm'']] \<and> map fc_cyclic cs = [True, False]
    \<and> map (\<lambda>e. (ce_dependent e, ce_dependency e)) es = [(''component:0002'', ''component:0001'')]
    \<and> acyclic {(ce_dependent e, ce_dependency e) | e. e \<in> set es}"
proof -
  let ?graph = "failure_graph list_nx ex_failure_nodes
    (\<lparr>fe_dependent = ''def'', fe_dependency = ''lem'', fe_kinds = [], fe_provenances = []\<rparr> # ex_failure_edges)"
  have "case failure_components list_nx ?graph (dict_by fn_claim_id ex_failure_nodes) {''def''} of Inl _ \<Rightarrow> False
      | Inr (cs, es) \<Rightarrow> map fc_members cs = [[''def'', ''lem''], [''thm'']] \<and> map fc_cyclic cs = [True, False]
        \<and> map (\<lambda>e. (ce_dependent e, ce_dependency e)) es = [(''component:0002'', ''component:0001'')]"
    by code_simp
  then show ?thesis
    using components_condense_cycles [OF list_graphs.networkx_axioms refl, of ex_failure_nodes
        "\<lparr>fe_dependent = ''def'', fe_dependency = ''lem'', fe_kinds = [], fe_provenances = []\<rparr> # ex_failure_edges" "{''def''}"]
    by (auto split: sum.splits)
qed

end
