(* ===== verification/Job_Store.thy ===== *)
theory Job_Store
  imports Provider_Contract
begin

text \<open>
  The store of detached verification jobs, \<^verbatim>\<open>workflow/jobs.py\<close>: one row per job, an append-only log of progress events
  and a file per job that requests its cancellation. Every operation is one transaction, except that appending an event is
  followed by a heartbeat. The records are those of \<^verbatim>\<open>workflow/contracts.py\<close>; the settings column holds the settings
  themselves.
\<close>

section \<open>Settings\<close>

datatype task_kind = CLARIFICATION | DIAGNOSTIC | PROOF | SKETCH | MAINTENANCE | REVIEW | DUPLICATE_PROOF | REPORTING

definition TASK_KINDS :: "task_kind list" where
  "TASK_KINDS = [CLARIFICATION, DIAGNOSTIC, PROOF, SKETCH, MAINTENANCE, REVIEW, DUPLICATE_PROOF, REPORTING]"

record role_settings =
  rs_task :: task_kind
  rs_ai_driver :: string
  rs_model :: string
  rs_effort :: string

record verification_settings =
  vs_ai_driver :: string
  vs_model :: string
  vs_effort :: string
  vs_jobs :: int
  vs_batch_size :: int
  vs_lean_pool_size :: int
  vs_turn_timeout :: rat
  vs_setup_timeout :: rat
  vs_request_timeout :: rat
  vs_gc_timeout :: rat
  vs_role_settings :: "role_settings list"

definition default_settings :: verification_settings where
  "default_settings = \<lparr>vs_ai_driver = ''codex_cli'', vs_model = ''gpt-5.6-sol'', vs_effort = ''high'', vs_jobs = 2,
     vs_batch_size = 8, vs_lean_pool_size = 1, vs_turn_timeout = 86400, vs_setup_timeout = 1800, vs_request_timeout = 120,
     vs_gc_timeout = 900, vs_role_settings = []\<rparr>"

definition check_choice :: "string \<Rightarrow> string \<Rightarrow> string \<Rightarrow> unit result" where
  "check_choice driver model effort =
     (if driver \<notin> set DRIVER_IDS then Inl (ValueError ''DriverId'')
      else if \<not> is_model_id model then Inl (ValueError ''must be a safe provider identifier'')
      else if effort \<notin> set DIFFICULTIES then Inl (ValueError ''Difficulty'') else Inr ())"

definition check_role :: "role_settings \<Rightarrow> unit result" where
  "check_role r = check_choice (rs_ai_driver r) (rs_model r) (rs_effort r)"

definition check_settings :: "verification_settings \<Rightarrow> unit result" where
  "check_settings s =
     bindE (check_choice (vs_ai_driver s) (vs_model s) (vs_effort s)) (\<lambda>_.
     let roles = vs_role_settings s; tasks = map rs_task roles
     in if \<not> distinct tasks then Inl (ValueError ''verification role settings must be unique'')
        else if roles = [] then Inr ()
        else if set tasks \<noteq> set TASK_KINDS then Inl (ValueError ''frozen verification settings require every role'')
        else if rs_ai_driver ` set roles \<noteq> {vs_ai_driver s}
        then Inl (ValueError ''frozen verification settings require one provider for every role'')
        else case find (\<lambda>r. rs_task r = PROOF) roles of
               None \<Rightarrow> Inl (RuntimeError ''StopIteration'')
             | Some p \<Rightarrow>
                 if (vs_ai_driver s, vs_model s, vs_effort s) \<noteq> (rs_ai_driver p, rs_model p, rs_effort p)
                 then Inl (ValueError ''verification scalar compatibility fields must match the proof role'') else Inr ())"

definition for_task :: "verification_settings \<Rightarrow> task_kind \<Rightarrow> role_settings" where
  "for_task s task =
     (case find (\<lambda>r. rs_task r = task) (vs_role_settings s) of
        Some r \<Rightarrow> r
      | None \<Rightarrow> \<lparr>rs_task = task, rs_ai_driver = vs_ai_driver s, rs_model = vs_model s, rs_effort = vs_effort s\<rparr>)"

section \<open>Jobs and events\<close>

datatype job_state = STARTING | RUNNING | CANCEL_REQUESTED | SUCCEEDED | FAILED | INTERRUPTED

definition terminal :: "job_state \<Rightarrow> bool" where
  "terminal s \<longleftrightarrow> s \<in> {SUCCEEDED, FAILED, INTERRUPTED}"

definition ACTIVE_STATES :: "job_state set" where
  "ACTIVE_STATES = {STARTING, RUNNING, CANCEL_REQUESTED}"

lemma active_iff [simp]: "s \<in> ACTIVE_STATES \<longleftrightarrow> \<not> terminal s"
  by (cases s) (simp_all add: ACTIVE_STATES_def terminal_def)

record job_row =
  jr_job_id :: string
  jr_project_path :: string
  jr_request_fingerprint :: string
  jr_plan_id :: "string option"
  jr_settings :: verification_settings
  jr_state :: job_state
  jr_created_at :: string
  jr_started_at :: "string option"
  jr_updated_at :: string
  jr_completed_at :: "string option"
  jr_heartbeat_at :: "string option"
  jr_pid :: "int option"
  jr_error :: "string option"
  jr_worker_log_path :: "string option"
  jr_launch_command :: "string list"

record verification_job =
  vj_job_id :: string
  vj_project_path :: string
  vj_state :: job_state
  vj_request_fingerprint :: string
  vj_plan_id :: "string option"
  vj_settings :: "verification_settings option"
  vj_created_at :: string
  vj_started_at :: "string option"
  vj_updated_at :: string
  vj_completed_at :: "string option"
  vj_heartbeat_at :: "string option"
  vj_pid :: "int option"
  vj_error :: "string option"
  vj_cancellable :: bool
  vj_attached_legacy :: bool
  vj_worker_log_path :: "string option"
  vj_launch_command :: "string list"

record progress_event =
  pe_sequence :: int
  pe_phase :: string
  pe_message :: string
  pe_completed :: "int option"
  pe_total :: "int option"
  pe_claim_id :: "string option"
  pe_details :: string

record event_row =
  ev_sequence :: int
  ev_job_id :: string
  ev_created_at :: string
  ev_event :: progress_event

record job_observation =
  jo_job :: verification_job
  jo_events :: "progress_event list"
  jo_after_sequence :: int
  jo_next_sequence :: int
  jo_started :: bool
  jo_attached :: bool

record job_db =
  jb_project :: string
  jb_jobs :: "job_row list"
  jb_events :: "event_row list"
  jb_next_sequence :: int
  jb_cancel_files :: "string set"

definition empty_jobs :: "string \<Rightarrow> job_db" where
  "empty_jobs project = \<lparr>jb_project = project, jb_jobs = [], jb_events = [], jb_next_sequence = 1, jb_cancel_files = {}\<rparr>"

definition row_to_job :: "job_row \<Rightarrow> verification_job" where
  "row_to_job r = \<lparr>vj_job_id = jr_job_id r, vj_project_path = jr_project_path r, vj_state = jr_state r,
     vj_request_fingerprint = jr_request_fingerprint r, vj_plan_id = jr_plan_id r, vj_settings = Some (jr_settings r),
     vj_created_at = jr_created_at r, vj_started_at = jr_started_at r, vj_updated_at = jr_updated_at r,
     vj_completed_at = jr_completed_at r, vj_heartbeat_at = jr_heartbeat_at r, vj_pid = jr_pid r, vj_error = jr_error r,
     vj_cancellable = (\<not> terminal (jr_state r)), vj_attached_legacy = False, vj_worker_log_path = jr_worker_log_path r,
     vj_launch_command = jr_launch_command r\<rparr>"

text \<open>The partial index \<open>one_active_verification_job\<close>.\<close>

definition is_active :: "job_row \<Rightarrow> bool" where
  "is_active r \<longleftrightarrow> jr_state r \<in> ACTIVE_STATES"

definition one_active :: "job_row list \<Rightarrow> bool" where
  "one_active jobs \<longleftrightarrow> length (filter is_active jobs) \<le> 1"

section \<open>Operations\<close>

definition job_of :: "string \<Rightarrow> job_db \<Rightarrow> job_row option" where
  "job_of job_id db = lookup_row jr_job_id job_id (jb_jobs db)"

text \<open>The newest of the rows; among rows created at the same time SQL may return any, here the first.\<close>

definition newest :: "job_row list \<Rightarrow> job_row option" where
  "newest rows = (case rev (sort_key jr_created_at (rev rows)) of [] \<Rightarrow> None | r # _ \<Rightarrow> Some r)"

definition active_job :: "job_db \<Rightarrow> job_row option" where
  "active_job db = newest (filter is_active (jb_jobs db))"

definition latest_job :: "job_db \<Rightarrow> job_row option" where
  "latest_job db = newest (jb_jobs db)"

definition create_job ::
    "string \<Rightarrow> string \<Rightarrow> string \<Rightarrow> string option \<Rightarrow> verification_settings \<Rightarrow> job_db \<Rightarrow> (job_db \<times> job_row) result" where
  "create_job now job_id fingerprint plan_id settings db =
     (let row = \<lparr>jr_job_id = job_id, jr_project_path = jb_project db, jr_request_fingerprint = fingerprint, jr_plan_id = plan_id,
            jr_settings = settings, jr_state = STARTING, jr_created_at = now, jr_started_at = None, jr_updated_at = now,
            jr_completed_at = None, jr_heartbeat_at = None, jr_pid = None, jr_error = None, jr_worker_log_path = None,
            jr_launch_command = []\<rparr>
      in bindE (insert_row jr_job_id row (jb_jobs db)) (\<lambda>jobs.
         if one_active jobs then Inr (db\<lparr>jb_jobs := jobs\<rparr>, row) else Inl (IntegrityError ''UNIQUE constraint failed'')))"

definition update_jobs :: "(job_row \<Rightarrow> bool) \<Rightarrow> (job_row \<Rightarrow> job_row) \<Rightarrow> job_db \<Rightarrow> job_db" where
  "update_jobs P f db = db\<lparr>jb_jobs := update_where P f (jb_jobs db)\<rparr>"

text \<open>\<open>job = self.job(job_id)\<close> after an update, raising for an unknown id.\<close>

definition with_job :: "string \<Rightarrow> job_db \<Rightarrow> (job_db \<times> job_row) result" where
  "with_job job_id db = (case job_of job_id db of None \<Rightarrow> Inl (ValueError ''Unknown verification job'') | Some r \<Rightarrow> Inr (db, r))"

definition mark_running :: "string \<Rightarrow> string \<Rightarrow> int \<Rightarrow> job_db \<Rightarrow> (job_db \<times> job_row) result" where
  "mark_running now job_id pid db =
     with_job job_id (update_jobs (\<lambda>r. jr_job_id r = job_id \<and> jr_state r \<in> {STARTING, CANCEL_REQUESTED})
       (\<lambda>r. r\<lparr>jr_state := (if jr_state r = CANCEL_REQUESTED then jr_state r else RUNNING),
              jr_started_at := (case jr_started_at r of None \<Rightarrow> Some now | Some t \<Rightarrow> Some t),
              jr_updated_at := now, jr_heartbeat_at := Some now, jr_pid := Some pid\<rparr>) db)"

definition record_spawn :: "string \<Rightarrow> string \<Rightarrow> int \<Rightarrow> string list \<Rightarrow> string \<Rightarrow> job_db \<Rightarrow> (job_db \<times> job_row) result" where
  "record_spawn now job_id pid command log_path db =
     with_job job_id (update_jobs (\<lambda>r. jr_job_id r = job_id)
       (\<lambda>r. r\<lparr>jr_pid := Some pid, jr_launch_command := command, jr_worker_log_path := Some log_path, jr_updated_at := now\<rparr>) db)"

definition heartbeat_job :: "string \<Rightarrow> string \<Rightarrow> job_db \<Rightarrow> job_db" where
  "heartbeat_job now job_id db =
     update_jobs (\<lambda>r. jr_job_id r = job_id \<and> jr_state r \<in> ACTIVE_STATES)
       (\<lambda>r. r\<lparr>jr_heartbeat_at := Some now, jr_updated_at := now\<rparr>) db"

definition finish_job :: "string \<Rightarrow> string \<Rightarrow> job_state \<Rightarrow> string option \<Rightarrow> job_db \<Rightarrow> (job_db \<times> job_row) result" where
  "finish_job now job_id state error db =
     (if \<not> terminal state then Inl (ValueError ''Job finish state must be terminal'')
      else with_job job_id (update_jobs (\<lambda>r. jr_job_id r = job_id \<and> jr_state r \<in> ACTIVE_STATES)
             (\<lambda>r. r\<lparr>jr_state := state, jr_updated_at := now, jr_completed_at := Some now, jr_heartbeat_at := Some now,
                    jr_error := error\<rparr>) db))"

definition append_event :: "string \<Rightarrow> string \<Rightarrow> progress_event \<Rightarrow> job_db \<Rightarrow> job_db \<times> progress_event" where
  "append_event now job_id event db =
     (let sequence = jb_next_sequence db;
          row = \<lparr>ev_sequence = sequence, ev_job_id = job_id, ev_created_at = now, ev_event = event\<rparr>
      in (heartbeat_job now job_id (db\<lparr>jb_events := jb_events db @ [row], jb_next_sequence := sequence + 1\<rparr>),
          event\<lparr>pe_sequence := sequence\<rparr>))"

definition job_events :: "string \<Rightarrow> int \<Rightarrow> job_db \<Rightarrow> progress_event list" where
  "job_events job_id after_sequence db =
     map (\<lambda>e. (ev_event e)\<lparr>pe_sequence := ev_sequence e\<rparr>)
       (sort_key ev_sequence (filter (\<lambda>e. ev_job_id e = job_id \<and> after_sequence < ev_sequence e) (jb_events db)))"

definition observe_job :: "verification_job \<Rightarrow> int \<Rightarrow> bool \<Rightarrow> bool \<Rightarrow> job_db \<Rightarrow> job_observation result" where
  "observe_job job after_sequence started attached db =
     (if after_sequence < 0 then Inl (ValueError ''after_sequence must be nonnegative'')
      else let events = job_events (vj_job_id job) after_sequence db
           in Inr \<lparr>jo_job = job, jo_events = events, jo_after_sequence = after_sequence,
                   jo_next_sequence = (if events = [] then after_sequence else pe_sequence (last events)),
                   jo_started = started, jo_attached = attached\<rparr>)"

definition request_cancel :: "string \<Rightarrow> string \<Rightarrow> job_db \<Rightarrow> (job_db \<times> job_row) result" where
  "request_cancel now job_id db =
     (case job_of job_id db of
        None \<Rightarrow> Inl (ValueError ''Unknown verification job'')
      | Some row \<Rightarrow>
          with_job job_id (if terminal (jr_state row) then db
            else (update_jobs (\<lambda>r. jr_job_id r = job_id) (\<lambda>r. r\<lparr>jr_state := CANCEL_REQUESTED, jr_updated_at := now\<rparr>) db)
                   \<lparr>jb_cancel_files := insert job_id (jb_cancel_files db)\<rparr>))"

definition cancellation_requested :: "string \<Rightarrow> job_db \<Rightarrow> bool" where
  "cancellation_requested job_id db \<longleftrightarrow> job_id \<in> jb_cancel_files db"

section \<open>What the table always satisfies\<close>

definition rank :: "job_state \<Rightarrow> nat" where
  "rank s = (case s of STARTING \<Rightarrow> 0 | RUNNING \<Rightarrow> 1 | CANCEL_REQUESTED \<Rightarrow> 2 | _ \<Rightarrow> 3)"

definition row_ok :: "string set \<Rightarrow> job_row \<Rightarrow> bool" where
  "row_ok cancelled r \<longleftrightarrow> (jr_completed_at r \<noteq> None \<longleftrightarrow> terminal (jr_state r))
     \<and> (jr_state r = CANCEL_REQUESTED \<longrightarrow> jr_job_id r \<in> cancelled) \<and> (jr_job_id r \<in> cancelled \<longrightarrow> 2 \<le> rank (jr_state r))"

definition job_inv :: "job_db \<Rightarrow> bool" where
  "job_inv db \<longleftrightarrow> unique_on jr_job_id (jb_jobs db) \<and> one_active (jb_jobs db)
     \<and> sorted_wrt (<) (map ev_sequence (jb_events db)) \<and> (\<forall>e\<in>set (jb_events db). ev_sequence e < jb_next_sequence db)
     \<and> (\<forall>r\<in>set (jb_jobs db). row_ok (jb_cancel_files db) r) \<and> jb_cancel_files db \<subseteq> jr_job_id ` set (jb_jobs db)"

lemma job_inv_empty: "job_inv (empty_jobs project)"
  by (simp add: job_inv_def empty_jobs_def unique_on_def one_active_def)

text \<open>What an operation may do to a row of the same job.\<close>

definition row_advances :: "job_row \<Rightarrow> job_row \<Rightarrow> bool" where
  "row_advances r r' \<longleftrightarrow> jr_job_id r' = jr_job_id r \<and> jr_settings r' = jr_settings r \<and> jr_plan_id r' = jr_plan_id r
     \<and> jr_request_fingerprint r' = jr_request_fingerprint r \<and> jr_created_at r' = jr_created_at r
     \<and> rank (jr_state r) \<le> rank (jr_state r')
     \<and> (terminal (jr_state r) \<longrightarrow> jr_state r' = jr_state r \<and> jr_error r' = jr_error r \<and> jr_completed_at r' = jr_completed_at r)"

lemma rank_terminal: "rank s = 3 \<longleftrightarrow> terminal s" "rank s \<le> 3" "terminal s \<Longrightarrow> 2 \<le> rank s"
  by (cases s; simp add: rank_def terminal_def)+

lemma row_advances_refl [simp]: "row_advances r r"
  by (simp add: row_advances_def)

lemma row_advances_trans: "row_advances r r' \<Longrightarrow> row_advances r' r'' \<Longrightarrow> row_advances r r''"
  by (auto simp: row_advances_def)

lemma advance_active: "row_advances r r' \<Longrightarrow> is_active r' \<Longrightarrow> is_active r"
  by (auto simp: row_advances_def is_active_def)

text \<open>Rewriting the rows one by one keeps the invariant when every row advances and stays well formed.\<close>

lemma rewrite_rows:
  assumes inv: "job_inv db" and files: "jb_cancel_files db \<subseteq> files" "files \<subseteq> jr_job_id ` set (jb_jobs db)"
    and row: "\<And>r. r \<in> set (jb_jobs db) \<Longrightarrow> row_advances r (f r) \<and> row_ok files (f r)"
  shows "job_inv (db\<lparr>jb_jobs := map f (jb_jobs db), jb_cancel_files := files\<rparr>)"
proof -
  have ids: "map jr_job_id (map f (jb_jobs db)) = map jr_job_id (jb_jobs db)"
    using row by (simp add: row_advances_def)
  have keys: "jr_job_id ` set (map f (jb_jobs db)) = jr_job_id ` set (jb_jobs db)"
    by (metis ids list.set_map)
  have "length (filter is_active (map f rows)) \<le> length (filter is_active rows)" if "set rows \<subseteq> set (jb_jobs db)" for rows
    using that
  proof (induction rows)
    case (Cons r rows)
    have "is_active (f r) \<Longrightarrow> is_active r" using row [of r] advance_active Cons.prems by auto
    then show ?case using Cons by auto
  qed simp
  then have "one_active (map f (jb_jobs db))" using inv by (force simp: job_inv_def one_active_def)
  moreover have "unique_on jr_job_id (map f (jb_jobs db))" using inv unfolding job_inv_def unique_on_def ids by blast
  ultimately show ?thesis using inv row files(2) keys by (auto simp: job_inv_def)
qed

text \<open>What an operation may do to the store.\<close>

definition db_advances :: "job_db \<Rightarrow> job_db \<Rightarrow> bool" where
  "db_advances db db' \<longleftrightarrow> jb_cancel_files db \<subseteq> jb_cancel_files db' \<and> jb_next_sequence db \<le> jb_next_sequence db'
     \<and> (\<forall>r\<in>set (jb_jobs db). \<exists>r'\<in>set (jb_jobs db'). row_advances r r')
     \<and> (\<exists>es. jb_events db' = jb_events db @ es \<and> (\<forall>e\<in>set es. jb_next_sequence db \<le> ev_sequence e))"

definition safe_change :: "job_db \<Rightarrow> job_db \<Rightarrow> bool" where
  "safe_change db db' \<longleftrightarrow> (job_inv db \<longrightarrow> job_inv db' \<and> db_advances db db')"

lemma db_advances_refl [simp]: "db_advances db db"
  by (auto simp: db_advances_def intro: row_advances_refl)

lemma db_advances_trans:
  assumes "db_advances a b" and "db_advances b c"
  shows "db_advances a c"
proof -
  have "\<exists>r'\<in>set (jb_jobs c). row_advances r r'" if "r \<in> set (jb_jobs a)" for r
  proof -
    obtain r1 where "r1 \<in> set (jb_jobs b)" "row_advances r r1" using assms(1) \<open>r \<in> set (jb_jobs a)\<close> by (auto simp: db_advances_def)
    moreover from this obtain r2 where "r2 \<in> set (jb_jobs c)" "row_advances r1 r2" using assms(2) by (auto simp: db_advances_def)
    ultimately show ?thesis using row_advances_trans by blast
  qed
  moreover obtain es fs where "jb_events b = jb_events a @ es" "\<forall>e\<in>set es. jb_next_sequence a \<le> ev_sequence e"
      "jb_events c = jb_events b @ fs" "\<forall>e\<in>set fs. jb_next_sequence b \<le> ev_sequence e"
    using assms unfolding db_advances_def by blast
  moreover have "jb_next_sequence a \<le> jb_next_sequence b" using assms(1) by (simp add: db_advances_def)
  ultimately show ?thesis using assms unfolding db_advances_def by (auto intro: order_trans)
qed

lemma safe_change_refl [simp]: "safe_change db db"
  by (simp add: safe_change_def)

lemma safe_rewrite:
  assumes "job_inv db \<Longrightarrow> jb_cancel_files db \<subseteq> files \<and> files \<subseteq> jr_job_id ` set (jb_jobs db)"
    and "\<And>r. r \<in> set (jb_jobs db) \<Longrightarrow> job_inv db \<Longrightarrow> P r \<Longrightarrow> row_advances r (f r) \<and> row_ok files (f r)"
    and "\<And>r. r \<in> set (jb_jobs db) \<Longrightarrow> job_inv db \<Longrightarrow> \<not> P r \<Longrightarrow> row_ok files r"
  shows "safe_change db ((update_jobs P f db)\<lparr>jb_cancel_files := files\<rparr>)"
  unfolding safe_change_def
proof
  assume inv: "job_inv db"
  let ?g = "\<lambda>r. if P r then f r else r"
  have step: "row_advances r (?g r) \<and> row_ok files (?g r)" if "r \<in> set (jb_jobs db)" for r
    using assms(2,3) [OF that inv] by simp
  have "job_inv (db\<lparr>jb_jobs := map ?g (jb_jobs db), jb_cancel_files := files\<rparr>)"
    using assms(1) [OF inv] by (intro rewrite_rows inv step) auto
  moreover have "db_advances db (db\<lparr>jb_jobs := map ?g (jb_jobs db), jb_cancel_files := files\<rparr>)"
    unfolding db_advances_def
  proof (intro conjI ballI)
    fix r assume "r \<in> set (jb_jobs db)"
    moreover from this step have "row_advances r (?g r)" by blast
    ultimately show "\<exists>r'\<in>set (jb_jobs (db\<lparr>jb_jobs := map ?g (jb_jobs db), jb_cancel_files := files\<rparr>)). row_advances r r'"
      by (intro bexI [of _ "?g r"]) simp_all
  qed (use assms(1) [OF inv] in auto)
  ultimately show "job_inv ((update_jobs P f db)\<lparr>jb_cancel_files := files\<rparr>) \<and> db_advances db ((update_jobs P f db)\<lparr>jb_cancel_files := files\<rparr>)"
    by (simp add: update_jobs_def update_where_def)
qed

lemma safe_update:
  assumes "\<And>r. r \<in> set (jb_jobs db) \<Longrightarrow> P r \<Longrightarrow> row_ok (jb_cancel_files db) r \<Longrightarrow> row_advances r (f r) \<and> row_ok (jb_cancel_files db) (f r)"
  shows "safe_change db (update_jobs P f db)"
proof -
  have "safe_change db ((update_jobs P f db)\<lparr>jb_cancel_files := jb_cancel_files db\<rparr>)"
    using assms by (intro safe_rewrite) (auto simp: job_inv_def)
  moreover have "(update_jobs P f db)\<lparr>jb_cancel_files := jb_cancel_files db\<rparr> = update_jobs P f db"
    by (simp add: update_jobs_def)
  ultimately show ?thesis by simp
qed

lemmas row_change = row_advances_def row_ok_def rank_def terminal_def

lemma with_job_Inr [simp]: "with_job job_id db = Inr (db', r) \<longleftrightarrow> db' = db \<and> job_of job_id db = Some r"
  by (auto simp: with_job_def split: option.splits)

lemma create_job_Inr:
  assumes "create_job now job_id fp plan settings db = Inr (db', r)"
  shows "db' = db\<lparr>jb_jobs := jb_jobs db @ [r]\<rparr>" "job_id \<notin> jr_job_id ` set (jb_jobs db)" "one_active (jb_jobs db @ [r])"
    "jr_job_id r = job_id" "jr_state r = STARTING" "jr_completed_at r = None"
  using assms by (auto simp: create_job_def Let_def bindE_Inr_iff insert_row_def split: if_splits)

lemma create_job_safe: "create_job now job_id fp plan settings db = Inr (db', r) \<Longrightarrow> safe_change db db'"
proof -
  assume "create_job now job_id fp plan settings db = Inr (db', r)"
  note new = create_job_Inr [OF this]
  have "db_advances db db'" unfolding new(1) by (auto simp: db_advances_def intro: row_advances_refl)
  moreover have "job_inv db'" if inv: "job_inv db"
  proof -
    have "job_id \<notin> jb_cancel_files db" using inv new(2) by (auto simp: job_inv_def)
    then have "row_ok (jb_cancel_files db) r" using new(4-6) by (simp add: row_ok_def terminal_def)
    then show ?thesis using inv new(2-4) unfolding new(1) by (auto simp: job_inv_def unique_on_def)
  qed
  ultimately show ?thesis by (simp add: safe_change_def)
qed

lemma mark_running_safe: "mark_running now job_id pid db = Inr (db', r) \<Longrightarrow> safe_change db db'"
  by (auto simp: mark_running_def row_change split: job_state.splits intro!: safe_update)

lemma record_spawn_safe: "record_spawn now job_id pid command path db = Inr (db', r) \<Longrightarrow> safe_change db db'"
  by (auto simp: record_spawn_def row_change intro!: safe_update)

lemma heartbeat_safe: "safe_change db (heartbeat_job now job_id db)"
  by (auto simp: heartbeat_job_def row_change intro!: safe_update)

lemma finish_job_safe: "finish_job now job_id state error db = Inr (db', r) \<Longrightarrow> safe_change db db'"
  by (auto simp: finish_job_def row_change split: if_splits job_state.splits intro!: safe_update)

lemma append_event_safe: "safe_change db (fst (append_event now job_id event db))"
proof -
  let ?row = "\<lparr>ev_sequence = jb_next_sequence db, ev_job_id = job_id, ev_created_at = now, ev_event = event\<rparr>"
  let ?mid = "db\<lparr>jb_events := jb_events db @ [?row], jb_next_sequence := jb_next_sequence db + 1\<rparr>"
  have "safe_change db ?mid"
    by (auto simp: safe_change_def job_inv_def db_advances_def sorted_wrt_append intro: row_advances_refl)
  with heartbeat_safe [of ?mid now job_id] show ?thesis
    by (auto simp: append_event_def Let_def safe_change_def intro: db_advances_trans)
qed

lemma request_cancel_safe: "request_cancel now job_id db = Inr (db', r) \<Longrightarrow> safe_change db db'"
proof -
  assume cancel: "request_cancel now job_id db = Inr (db', r)"
  then obtain row where row: "job_of job_id db = Some row" by (auto simp: request_cancel_def split: option.splits)
  show ?thesis
  proof (cases "terminal (jr_state row)")
    case True
    then show ?thesis using cancel row by (simp add: request_cancel_def)
  next
    case False
    let ?f = "\<lambda>r. r\<lparr>jr_state := CANCEL_REQUESTED, jr_updated_at := now\<rparr>"
    have mem: "row \<in> set (jb_jobs db)" "jr_job_id row = job_id" using lookup_row_SomeD [of jr_job_id job_id "jb_jobs db" row] row by (simp_all add: job_of_def)
    have same: "r = row" if "job_inv db" "r \<in> set (jb_jobs db)" "jr_job_id r = job_id" for r
      using that mem by (auto simp: job_inv_def unique_on_def distinct_map inj_on_def)
    have "safe_change db ((update_jobs (\<lambda>r. jr_job_id r = job_id) ?f db)\<lparr>jb_cancel_files := insert job_id (jb_cancel_files db)\<rparr>)"
    proof (rule safe_rewrite)
      show "job_inv db \<Longrightarrow> jb_cancel_files db \<subseteq> insert job_id (jb_cancel_files db)
          \<and> insert job_id (jb_cancel_files db) \<subseteq> jr_job_id ` set (jb_jobs db)"
        using mem by (auto simp: job_inv_def)
      show "row_advances r (?f r) \<and> row_ok (insert job_id (jb_cancel_files db)) (?f r)"
        if "r \<in> set (jb_jobs db)" "job_inv db" "jr_job_id r = job_id" for r
        using same [OF that(2,1,3)] False bspec [of "set (jb_jobs db)" "row_ok (jb_cancel_files db)" r] that
        by (auto simp: row_change job_inv_def split: job_state.splits)
      show "row_ok (insert job_id (jb_cancel_files db)) r" if "r \<in> set (jb_jobs db)" "job_inv db" "jr_job_id r \<noteq> job_id" for r
        using that by (auto simp: row_ok_def job_inv_def)
    qed
    then show ?thesis using cancel row False by (simp add: request_cancel_def)
  qed
qed

section \<open>Every interleaving of processes\<close>

inductive job_step :: "job_db \<Rightarrow> job_db \<Rightarrow> bool" where
  create: "job_step db db'" if "create_job now job_id fingerprint plan_id settings db = Inr (db', row)"
| run: "job_step db db'" if "mark_running now job_id pid db = Inr (db', row)"
| spawn: "job_step db db'" if "record_spawn now job_id pid command path db = Inr (db', row)"
| beat: "job_step db (heartbeat_job now job_id db)"
| finish: "job_step db db'" if "finish_job now job_id state error db = Inr (db', row)"
| append: "job_step db (fst (append_event now job_id event db))"
| cancel: "job_step db db'" if "request_cancel now job_id db = Inr (db', row)"

lemma job_step_safe: "job_step db db' \<Longrightarrow> safe_change db db'"
  by (induction rule: job_step.induct)
    (blast intro: create_job_safe mark_running_safe record_spawn_safe heartbeat_safe finish_job_safe append_event_safe request_cancel_safe)+

lemma job_steps_safe: "job_step\<^sup>*\<^sup>* db db' \<Longrightarrow> job_inv db \<Longrightarrow> job_inv db' \<and> db_advances db db'"
  by (induction rule: rtranclp_induct) (auto dest!: job_step_safe simp: safe_change_def intro: db_advances_trans)

lemma job_of_mem: "job_inv db \<Longrightarrow> r \<in> set (jb_jobs db) \<Longrightarrow> job_of (jr_job_id r) db = Some r"
  by (auto simp: job_inv_def job_of_def lookup_row_Some_iff)

text \<open>C24. The life of a detached job: whatever launchers, workers and clients do, at any time at most one job is active; a job
  only moves forward, from starting over running and cancellation to its end; the first terminal result is final, with its
  error and its completion time; its request never changes; and a request to cancel is never lost: the job cannot
  run normally again and its worker keeps seeing the request.\<close>

theorem job_lifecycle:
  assumes "job_step\<^sup>*\<^sup>* (empty_jobs project) db" and "job_step\<^sup>*\<^sup>* db db'" and "job_of job_id db = Some r"
  shows "length (filter (\<lambda>r. \<not> terminal (jr_state r)) (jb_jobs db')) \<le> 1
    \<and> (\<exists>r'. job_of job_id db' = Some r' \<and> rank (jr_state r) \<le> rank (jr_state r')
       \<and> jr_settings r' = jr_settings r \<and> jr_plan_id r' = jr_plan_id r \<and> jr_request_fingerprint r' = jr_request_fingerprint r
       \<and> (terminal (jr_state r) \<longrightarrow>
            jr_state r' = jr_state r \<and> jr_error r' = jr_error r \<and> jr_completed_at r' = jr_completed_at r)
       \<and> (jr_state r = CANCEL_REQUESTED \<longrightarrow>
            cancellation_requested job_id db' \<and> (jr_state r' = CANCEL_REQUESTED \<or> terminal (jr_state r'))))"
proof -
  have inv: "job_inv db" using job_steps_safe [OF assms(1) job_inv_empty] by simp
  have inv': "job_inv db'" and adv: "db_advances db db'" using job_steps_safe [OF assms(2) inv] by simp_all
  have r: "r \<in> set (jb_jobs db)" "jr_job_id r = job_id" using lookup_row_SomeD [of jr_job_id job_id "jb_jobs db" r] assms(3) by (simp_all add: job_of_def)
  obtain r' where r': "r' \<in> set (jb_jobs db')" "row_advances r r'" using adv r(1) by (auto simp: db_advances_def)
  have "job_of job_id db' = Some r'" using job_of_mem [OF inv' r'(1)] r'(2) r(2) by (simp add: row_advances_def)
  moreover have "cancellation_requested job_id db' \<and> (jr_state r' = CANCEL_REQUESTED \<or> terminal (jr_state r'))"
    if "jr_state r = CANCEL_REQUESTED"
  proof -
    have "job_id \<in> jb_cancel_files db" using inv r that by (auto simp: job_inv_def row_ok_def)
    then have "job_id \<in> jb_cancel_files db'" using adv by (auto simp: db_advances_def)
    moreover have "2 \<le> rank (jr_state r')" using r'(2) that by (simp add: row_advances_def rank_def)
    ultimately show ?thesis by (cases "jr_state r'") (simp_all add: cancellation_requested_def rank_def terminal_def)
  qed
  moreover have "length (filter (\<lambda>r. \<not> terminal (jr_state r)) (jb_jobs db')) \<le> 1"
    using inv' by (simp add: job_inv_def one_active_def is_active_def [abs_def])
  ultimately show ?thesis using r'(2) by (auto simp: row_advances_def)
qed

lemma le_last: "sorted_wrt (<) (map f xs) \<Longrightarrow> x \<in> set xs \<Longrightarrow> f x \<le> (f (last xs) :: 'a::linorder)"
  by (induction xs rule: rev_induct) (auto simp: sorted_wrt_append less_imp_le)

text \<open>Filtering an append-only sequence twice, the second time after the last element the first pass gave.\<close>

lemma replay_filter:
  fixes key :: "'e \<Rightarrow> 'k::linorder"
  assumes "sorted_wrt (<) (map key xs)" and "\<forall>x\<in>set xs. key x < bound" and "\<forall>y\<in>set ys. bound \<le> key y"
    and "cursor = (if filter (\<lambda>e. P e \<and> start < key e) xs = [] then start else key (last (filter (\<lambda>e. P e \<and> start < key e) xs)))"
  shows "filter (\<lambda>e. P e \<and> start < key e) xs @ filter (\<lambda>e. P e \<and> cursor < key e) (xs @ ys) = filter (\<lambda>e. P e \<and> start < key e) (xs @ ys)"
proof (cases "filter (\<lambda>e. P e \<and> start < key e) xs = []")
  case False
  let ?first = "filter (\<lambda>e. P e \<and> start < key e) xs"
  have cursor: "cursor = key (last ?first)" using assms(4) False by simp
  have mem: "last ?first \<in> set ?first" using False by (rule last_in_set)
  have sorted: "sorted_wrt (<) (map key ?first)" using assms(1) by (simp add: sorted_wrt_map sorted_wrt_filter)
  have "\<not> (P e \<and> cursor < key e)" if "e \<in> set xs" for e
    using le_last [OF sorted, of e] that mem cursor by (force simp: not_less)
  then have "filter (\<lambda>e. P e \<and> cursor < key e) xs = []" by (simp add: filter_empty_conv)
  moreover have "filter (\<lambda>e. P e \<and> cursor < key e) ys = filter (\<lambda>e. P e \<and> start < key e) ys"
    using assms(2,3) mem cursor by (intro filter_cong) (auto intro: less_le_trans less_trans)
  ultimately show ?thesis by simp
qed (use assms(4) in simp)

text \<open>C27. Progress is replayed exactly once: a client that observes a job from some sequence number, and later, after any
  activity of other processes, from the number the first observation ended with, gets in the two observations together
  exactly the events of the job after the first number, each once and in order.\<close>

theorem replay_exactly_once:
  assumes "job_step\<^sup>*\<^sup>* (empty_jobs project) db" and "job_step\<^sup>*\<^sup>* db db'"
    and "observe_job job start started attached db = Inr first"
    and "observe_job job (jo_next_sequence first) started' attached' db' = Inr second"
  shows "jo_events first @ jo_events second = job_events (vj_job_id job) start db'
    \<and> sorted_wrt (<) (map pe_sequence (jo_events first @ jo_events second))"
proof -
  have inv: "job_inv db" using job_steps_safe [OF assms(1) job_inv_empty] by simp
  have inv': "job_inv db'" and adv: "db_advances db db'" using job_steps_safe [OF assms(2) inv] by simp_all
  obtain es where es: "jb_events db' = jb_events db @ es" "\<forall>e\<in>set es. jb_next_sequence db \<le> ev_sequence e"
    using adv by (auto simp: db_advances_def)
  let ?id = "vj_job_id job" and ?view = "\<lambda>e. (ev_event e)\<lparr>pe_sequence := ev_sequence e\<rparr>"
  let ?pick = "\<lambda>n xs. filter (\<lambda>e. ev_job_id e = ?id \<and> n < ev_sequence e) xs"
  have sorted: "sorted (map ev_sequence (?pick n (jb_events db')))" for n
    using inv' by (auto simp: job_inv_def strict_sorted_iff dest: sorted_wrt_filter intro!: sorted_filter)
  have sorted0: "sorted (map ev_sequence (?pick n (jb_events db)))" for n
    using inv by (auto simp: job_inv_def strict_sorted_iff intro!: sorted_filter)
  have events': "job_events ?id n db' = map ?view (?pick n (jb_events db'))" for n
    using sorted by (simp add: job_events_def sort_key_id_if_sorted)
  have events: "job_events ?id n db = map ?view (?pick n (jb_events db))" for n
    using sorted0 by (simp add: job_events_def sort_key_id_if_sorted)
  have first: "jo_events first = map ?view (?pick start (jb_events db))"
    and next_seq: "jo_next_sequence first = (if ?pick start (jb_events db) = [] then start else ev_sequence (last (?pick start (jb_events db))))"
    using assms(3) events [of start] by (auto simp: observe_job_def Let_def last_map split: if_splits)
  have second: "jo_events second = map ?view (?pick (jo_next_sequence first) (jb_events db'))"
    using assms(4) events' by (auto simp: observe_job_def Let_def split: if_splits)
  have "?pick start (jb_events db) @ ?pick (jo_next_sequence first) (jb_events db') = ?pick start (jb_events db')"
    unfolding es(1) using inv es(2) next_seq by (intro replay_filter [where bound = "jb_next_sequence db"]) (auto simp: job_inv_def)
  then have all: "jo_events first @ jo_events second = map ?view (?pick start (jb_events db'))"
    unfolding first second map_append [symmetric] by simp
  moreover have "sorted_wrt (<) (map ev_sequence (?pick start (jb_events db')))"
    using inv' by (auto simp: job_inv_def sorted_wrt_map intro: sorted_wrt_filter)
  ultimately show ?thesis by (simp add: events' comp_def)
qed

section \<open>An example\<close>

definition db_of :: "(job_db \<times> job_row) result \<Rightarrow> job_db" where
  "db_of r = (case r of Inr (db, _) \<Rightarrow> db | Inl _ \<Rightarrow> empty_jobs [])"

definition succeeds :: "'a result \<Rightarrow> bool" where
  "succeeds r = (case r of Inr _ \<Rightarrow> True | Inl _ \<Rightarrow> False)"

lemma succeeds_db_of: "succeeds r \<Longrightarrow> \<exists>row. r = Inr (db_of r, row)"
  by (auto simp: succeeds_def db_of_def split: sum.splits)

definition ex_event :: progress_event where
  "ex_event = \<lparr>pe_sequence = 0, pe_phase = ''INDEXING'', pe_message = ''m'', pe_completed = None, pe_total = None,
     pe_claim_id = None, pe_details = ''{}''\<rparr>"

definition ex_created :: "(job_db \<times> job_row) result" where
  "ex_created = create_job ''t0'' ''j'' ''fp'' None default_settings (empty_jobs ''/p'')"

definition ex_running_db :: job_db where
  "ex_running_db = fst (append_event ''t2'' ''j'' ex_event (db_of (mark_running ''t1'' ''j'' 7 (db_of ex_created))))"

definition ex_cancelled_db :: job_db where
  "ex_cancelled_db = fst (append_event ''t4'' ''j'' ex_event (db_of (request_cancel ''t3'' ''j'' ex_running_db)))"

lemma ex_job_steps: "job_step\<^sup>*\<^sup>* (empty_jobs ''/p'') ex_running_db" "job_step\<^sup>*\<^sup>* ex_running_db ex_cancelled_db"
proof -
  have "succeeds ex_created" "succeeds (mark_running ''t1'' ''j'' 7 (db_of ex_created))"
    "succeeds (request_cancel ''t3'' ''j'' ex_running_db)"
    by code_simp+
  from this [THEN succeeds_db_of] have steps: "job_step (empty_jobs ''/p'') (db_of ex_created)"
      "job_step (db_of ex_created) (db_of (mark_running ''t1'' ''j'' 7 (db_of ex_created)))"
      "job_step ex_running_db (db_of (request_cancel ''t3'' ''j'' ex_running_db))"
    by (auto simp: ex_created_def intro: job_step.create job_step.run job_step.cancel)
  show "job_step\<^sup>*\<^sup>* (empty_jobs ''/p'') ex_running_db"
    unfolding ex_running_db_def by (meson steps(1,2) job_step.append rtranclp.rtrancl_into_rtrancl rtranclp.rtrancl_refl)
  show "job_step\<^sup>*\<^sup>* ex_running_db ex_cancelled_db"
    unfolding ex_cancelled_db_def by (meson steps(3) job_step.append rtranclp.rtrancl_into_rtrancl rtranclp.rtrancl_refl)
qed

theorem job_lifecycle_witness:
  "\<exists>r r'. job_of ''j'' ex_running_db = Some r \<and> jr_state r = RUNNING \<and> job_of ''j'' ex_cancelled_db = Some r'
     \<and> jr_state r' = CANCEL_REQUESTED \<and> rank (jr_state r) \<le> rank (jr_state r') \<and> jr_settings r' = jr_settings r"
proof -
  have "map_option jr_state (job_of ''j'' ex_running_db) = Some RUNNING"
    "map_option jr_state (job_of ''j'' ex_cancelled_db) = Some CANCEL_REQUESTED"
    by code_simp+
  then obtain r r' where r: "job_of ''j'' ex_running_db = Some r" "jr_state r = RUNNING" "job_of ''j'' ex_cancelled_db = Some r'"
      "jr_state r' = CANCEL_REQUESTED" by auto
  from job_lifecycle [OF ex_job_steps r(1)] r show ?thesis by auto
qed

definition ex_job :: verification_job where
  "ex_job = row_to_job (hd (jb_jobs ex_running_db))"

theorem replay_exactly_once_witness:
  "\<exists>first second. observe_job ex_job 0 False True ex_running_db = Inr first
     \<and> observe_job ex_job (jo_next_sequence first) False True ex_cancelled_db = Inr second
     \<and> map pe_sequence (jo_events first) = [1] \<and> map pe_sequence (jo_events second) = [2]
     \<and> jo_events first @ jo_events second = job_events ''j'' 0 ex_cancelled_db"
proof -
  have "case observe_job ex_job 0 False True ex_running_db of Inl _ \<Rightarrow> False
      | Inr first \<Rightarrow> map pe_sequence (jo_events first) = [1]
          \<and> (case observe_job ex_job (jo_next_sequence first) False True ex_cancelled_db of Inl _ \<Rightarrow> False
             | Inr second \<Rightarrow> map pe_sequence (jo_events second) = [2])"
    by code_simp
  then obtain first second where runs: "observe_job ex_job 0 False True ex_running_db = Inr first"
      "observe_job ex_job (jo_next_sequence first) False True ex_cancelled_db = Inr second"
      "map pe_sequence (jo_events first) = [1]" "map pe_sequence (jo_events second) = [2]"
    by (auto split: sum.splits)
  have "vj_job_id ex_job = ''j''" by code_simp
  with runs replay_exactly_once [OF ex_job_steps runs(1,2)] show ?thesis by auto
qed

end
