(* ===== verification/Job_Control.thy ===== *)
theory Job_Control
  imports Job_Store
begin

text \<open>
  Starting, observing, cancelling and running detached verification jobs: the methods of \<^verbatim>\<open>workflow/service.py\<close> on the
  store of \<open>Job_Store\<close>. Two file locks tell whether a process is alive: the worker lease of \<^verbatim>\<open>incremental/locking.py\<close>, which
  a launcher takes and hands to the worker it starts, and the session lock of the project. What a call finds when it
  tries a lock is a field of its host record, as are the clock, the new job id and what the operating system answers.
\<close>

section \<open>The identity of a request\<close>

text \<open>The object that \<open>request_fingerprint\<close> hashes; a key that is left out is \<open>None\<close>.\<close>

record request_payload =
  rq_project :: string
  rq_plan_id :: "string option"
  rq_model :: string
  rq_effort :: string
  rq_ai_driver :: "string option"
  rq_codex :: "string option"
  rq_cache_home :: "string option"
  rq_role_policies :: "(string \<times> string \<times> string \<times> string) list option"

primrec task_value :: "task_kind \<Rightarrow> string" where
  "task_value CLARIFICATION = ''clarification''"
| "task_value DIAGNOSTIC = ''diagnostic''"
| "task_value PROOF = ''proof''"
| "task_value SKETCH = ''sketch''"
| "task_value MAINTENANCE = ''maintenance''"
| "task_value REVIEW = ''review''"
| "task_value DUPLICATE_PROOF = ''duplicate_proof''"
| "task_value REPORTING = ''reporting''"

definition role_policy :: "role_settings \<Rightarrow> string \<times> string \<times> string \<times> string" where
  "role_policy r = (task_value (rs_task r), rs_ai_driver r, rs_model r, rs_effort r)"

definition request_payload_of ::
    "string \<Rightarrow> string option \<Rightarrow> verification_settings \<Rightarrow> string \<Rightarrow> string option \<Rightarrow> request_payload" where
  "request_payload_of project plan_id settings codex cache_home =
     (let codex_driver = (vs_ai_driver settings = ''codex_cli'') in
      \<lparr>rq_project = project, rq_plan_id = plan_id, rq_model = vs_model settings, rq_effort = vs_effort settings,
       rq_ai_driver = (if codex_driver then None else Some (vs_ai_driver settings)),
       rq_codex = (if codex_driver then Some codex else None), rq_cache_home = cache_home,
       rq_role_policies = (if vs_role_settings settings = [] then None
         else Some (map role_policy (sort_key (task_value \<circ> rs_task) (vs_role_settings settings))))\<rparr>)"

section \<open>Observing\<close>

record observe_host =
  oh_now :: string
  oh_lease_active :: bool
  oh_session_active :: bool
  oh_legacy_id :: string

definition legacy_job :: "string \<Rightarrow> string \<Rightarrow> string \<Rightarrow> bool \<Rightarrow> verification_job" where
  "legacy_job now identity project starting =
     \<lparr>vj_job_id = ''legacy-'' @ identity, vj_project_path = project, vj_state = (if starting then STARTING else RUNNING),
      vj_request_fingerprint = ''legacy-unavailable'', vj_plan_id = None, vj_settings = None, vj_created_at = now,
      vj_started_at = (if starting then None else Some now), vj_updated_at = now, vj_completed_at = None, vj_heartbeat_at = None,
      vj_pid = None,
      vj_error = Some (''An active backend verification predates durable job control; '' @
        ''only coarse attachment is available''),
      vj_cancellable = False, vj_attached_legacy = True, vj_worker_log_path = None, vj_launch_command = []\<rparr>"

definition legacy_observation :: "string \<Rightarrow> string \<Rightarrow> string \<Rightarrow> bool \<Rightarrow> job_observation" where
  "legacy_observation now identity project starting =
     \<lparr>jo_job = legacy_job now identity project starting, jo_events = [], jo_after_sequence = 0, jo_next_sequence = 0,
      jo_started = False, jo_attached = True\<rparr>"

definition worker_lost :: string where
  "worker_lost = ''The detached verification worker exited without recording '' @
     ''a terminal result; the project mutation lease is free''"

text \<open>A worker counts as crashed only when both locks are free.\<close>

definition observe_verification :: "observe_host \<Rightarrow> int \<Rightarrow> (job_db, job_observation option) op" where
  "observe_verification h after_sequence db =
     (case active_job db of
        Some active \<Rightarrow>
          if \<not> oh_lease_active h \<and> \<not> oh_session_active h
          then (case finish_job (oh_now h) (jr_job_id active) INTERRUPTED (Some worker_lost) db of
                  Inl e \<Rightarrow> (db, Inl e)
                | Inr (db', row) \<Rightarrow> (db', bindE (observe_job (row_to_job row) after_sequence False True db') (\<lambda>o'. Inr (Some o'))))
          else (db, bindE (observe_job (row_to_job active) after_sequence False True db) (\<lambda>o'. Inr (Some o')))
      | None \<Rightarrow>
          if oh_session_active h then (db, Inr (Some (legacy_observation (oh_now h) (oh_legacy_id h) (jb_project db) False)))
          else if oh_lease_active h then (db, Inr (Some (legacy_observation (oh_now h) (oh_legacy_id h) (jb_project db) True)))
          else (case latest_job db of
                  None \<Rightarrow> (db, Inr None)
                | Some latest \<Rightarrow> (db, bindE (observe_job (row_to_job latest) after_sequence False True db) (\<lambda>o'. Inr (Some o')))))"

section \<open>Starting\<close>

text \<open>\<open>VerificationJobConflictError\<close> and \<open>StaleChangePlanError\<close> are runtime errors.\<close>

definition assert_matching_request :: "job_observation \<Rightarrow> string \<Rightarrow> job_observation result" where
  "assert_matching_request observation fingerprint =
     (if \<not> vj_attached_legacy (jo_job observation) \<and> vj_request_fingerprint (jo_job observation) \<noteq> fingerprint
      then Inl (RuntimeError ''VerificationJobConflictError'') else Inr observation)"

definition attach :: "job_row \<Rightarrow> string \<Rightarrow> job_db \<Rightarrow> job_observation result" where
  "attach existing fingerprint db =
     bindE (observe_job (row_to_job existing) 0 False True db) (\<lambda>observation. assert_matching_request observation fingerprint)"

text \<open>\<open>sh_polls\<close> is what the launcher that did not get the lease sees in each of its attempts: the store and the session lock.
  \<open>sh_session_active\<close> and \<open>sh_session_still\<close> are the two tests of the session lock with the lease held.\<close>

record start_host =
  sh_now :: string
  sh_job_id :: string
  sh_fingerprint :: "request_payload \<Rightarrow> string"
  sh_codex :: string
  sh_cache_home :: "string option"
  sh_legacy_id :: string
  sh_lease_active :: bool
  sh_lease_acquired :: bool
  sh_polls :: "(job_db \<times> bool) list"
  sh_session_active :: bool
  sh_session_still :: bool
  sh_current_plan :: "string option result"
  sh_enabled :: "string \<Rightarrow> bool"
  sh_status :: "string \<Rightarrow> driver_status result"
  sh_difficulties :: "string \<Rightarrow> string list"
  sh_spawn :: "int result"
  sh_spawn_text :: string
  sh_command :: "string \<Rightarrow> string list"
  sh_worker_log :: "string \<Rightarrow> string"
  sh_spawn_recorded :: bool

primrec wait_for_launcher :: "start_host \<Rightarrow> string \<Rightarrow> string \<Rightarrow> (job_db \<times> bool) list \<Rightarrow> job_observation result" where
  "wait_for_launcher h project fingerprint [] = Inr (legacy_observation (sh_now h) (sh_legacy_id h) project True)"
| "wait_for_launcher h project fingerprint (seen # polls) =
     (case seen of (db, session_active) \<Rightarrow>
        case active_job db of
          Some existing \<Rightarrow> attach existing fingerprint db
        | None \<Rightarrow> if session_active then Inr (legacy_observation (sh_now h) (sh_legacy_id h) project False)
                  else wait_for_launcher h project fingerprint polls)"

definition check_plan :: "start_host \<Rightarrow> string option \<Rightarrow> unit result" where
  "check_plan h plan_id =
     bindE (sh_current_plan h) (\<lambda>current.
       if plan_id \<noteq> None \<and> (current = None \<or> current \<noteq> plan_id) then Inl (RuntimeError ''StaleChangePlanError'')
       else if plan_id = None \<and> current \<noteq> None then Inl (RuntimeError ''StaleChangePlanError'') else Inr ())"

text \<open>\<open>_validate_frozen_role_settings\<close> and \<open>VerifyOptions.validate\<close>, on what the machine configuration and the selected driver report.\<close>

definition validate_frozen_roles :: "start_host \<Rightarrow> verification_settings \<Rightarrow> unit result" where
  "validate_frozen_roles h settings =
     (let roles = vs_role_settings settings; driver = vs_ai_driver settings
      in if roles = [] then Inl (ValueError ''New verification jobs require a frozen model and effort for every role'')
         else if \<not> rs_ai_driver ` set roles \<subseteq> set DRIVER_IDS \<or> driver \<notin> set DRIVER_IDS then Inl (ValueError ''DriverId'')
         else if driver \<notin> set SUPPORTED_DRIVERS then Inl (ValueError ''Unsupported AI provider'')
         else if rs_ai_driver ` set roles \<noteq> {driver}
         then Inl (ValueError ''New verification jobs require one selected provider for every role'')
         else if \<not> sh_enabled h driver then Inl (ValueError ''AI driver is disabled'')
         else bindE (sh_status h driver) (\<lambda>status.
           if \<not> ds_ready status then Inl (ValueError ''AI driver is not ready for a new job'')
           else case ds_catalog status of
                  None \<Rightarrow> Inl (ValueError ''AI driver has no model catalog'')
                | Some catalog \<Rightarrow>
                    if \<not> mc_contract_approved catalog then Inl (ValueError ''AI driver has no validated model catalog'')
                    else foldr (\<lambda>role rest. bindE
                      (if rs_effort role \<notin> set DIFFICULTIES then Inl (ValueError ''Difficulty'')
                       else validate_difficulty (sh_difficulties h driver) (rs_model role) (rs_effort role) catalog) (\<lambda>_. rest))
                      roles (Inr ())))"

definition validate_start :: "start_host \<Rightarrow> verification_settings \<Rightarrow> unit result" where
  "validate_start h settings =
     bindE (validate_frozen_roles h settings) (\<lambda>_.
       let proof_settings = for_task settings PROOF
       in validate_options \<lparr>vo_model = rs_model proof_settings, vo_ai_driver = rs_ai_driver proof_settings,
            vo_jobs = vs_jobs settings, vo_batch_size = vs_batch_size settings, vo_lean_pool_size = vs_lean_pool_size settings\<rparr>)"

definition launch_job :: "start_host \<Rightarrow> string \<Rightarrow> string option \<Rightarrow> verification_settings \<Rightarrow> (job_db, job_observation) op" where
  "launch_job h fingerprint plan_id settings db =
     (case bindE (check_plan h plan_id) (\<lambda>_. bindE (validate_start h settings) (\<lambda>_.
             create_job (sh_now h) (sh_job_id h) fingerprint plan_id settings db)) of
        Inl e \<Rightarrow> (db, Inl e)
      | Inr (db1, job) \<Rightarrow>
          (case sh_spawn h of
             Inl e \<Rightarrow> (case finish_job (sh_now h) (jr_job_id job) FAILED (Some (''Could not launch detached verification: '' @ sh_spawn_text h)) db1 of
                 Inl e' \<Rightarrow> (db1, Inl e') | Inr (db2, _) \<Rightarrow> (db2, Inl e))
           | Inr pid \<Rightarrow>
               let recorded = (if sh_spawn_recorded h
                     then record_spawn (sh_now h) (jr_job_id job) pid (sh_command h (jr_job_id job)) (sh_worker_log h (jr_job_id job)) db1
                     else Inl (RuntimeError ''OperationalError''));
                   (db2, started) = (case recorded of
                     Inr (db2, row) \<Rightarrow> (db2, Some row) | Inl _ \<Rightarrow> (db1, job_of (jr_job_id job) db1))
               in case started of
                    None \<Rightarrow> (db2, Inl (RuntimeError ''VerificationJobNotFoundError''))
                  | Some row \<Rightarrow> (db2, observe_job (row_to_job row) 0 True False db2)))"

definition lost_leases :: string where
  "lost_leases = ''A previous detached worker lost both lifecycle leases '' @ ''before recording a terminal result''"

text \<open>What a launcher does once it holds the lease. The lease keeps other launchers out; clients may still observe and cancel.\<close>

definition start_with_lease ::
    "start_host \<Rightarrow> string \<Rightarrow> string option \<Rightarrow> verification_settings \<Rightarrow> (job_db, job_observation) op" where
  "start_with_lease h fingerprint plan_id settings db =
     (let legacy = legacy_observation (sh_now h) (sh_legacy_id h) (jb_project db) False
      in case active_job db of
           Some existing \<Rightarrow>
             if sh_session_active h then (db, attach existing fingerprint db)
             else (case finish_job (sh_now h) (jr_job_id existing) INTERRUPTED (Some lost_leases) db of
                     Inl e \<Rightarrow> (db, Inl e)
                   | Inr (db', _) \<Rightarrow> if sh_session_still h then (db', Inr legacy) else launch_job h fingerprint plan_id settings db')
         | None \<Rightarrow> if sh_session_still h then (db, Inr legacy) else launch_job h fingerprint plan_id settings db)"

definition start_verification :: "start_host \<Rightarrow> string option \<Rightarrow> verification_settings \<Rightarrow> (job_db, job_observation) op" where
  "start_verification h plan_id settings db =
     (let fingerprint = sh_fingerprint h (request_payload_of (jb_project db) plan_id settings (sh_codex h) (sh_cache_home h));
          take_lease = (if sh_lease_acquired h then start_with_lease h fingerprint plan_id settings db
            else (db, wait_for_launcher h (jb_project db) fingerprint (sh_polls h)))
      in case active_job db of
           Some existing \<Rightarrow> if sh_lease_active h then (db, attach existing fingerprint db) else take_lease
         | None \<Rightarrow> take_lease)"

section \<open>Cancelling\<close>

definition request_verification_cancel :: "observe_host \<Rightarrow> string \<Rightarrow> (job_db, job_observation) op" where
  "request_verification_cancel h job_id db =
     (case job_of job_id db of
        None \<Rightarrow>
          (case observe_verification h 0 db of
             (db', Inl e) \<Rightarrow> (db', Inl e)
           | (db', Inr None) \<Rightarrow> (db', Inl (RuntimeError ''VerificationJobNotFoundError''))
           | (db', Inr (Some observed)) \<Rightarrow>
               if vj_job_id (jo_job observed) = job_id
               then if vj_attached_legacy (jo_job observed) then (db', Inl (RuntimeError ''VerificationJobNotCancellableError''))
                    else (db', Inr observed)
               else (db', Inl (RuntimeError ''VerificationJobNotFoundError'')))
      | Some row \<Rightarrow>
          if terminal (jr_state row) then (db, observe_job (row_to_job row) 0 False True db)
          else (case request_cancel (oh_now h) job_id db of
                  Inl e \<Rightarrow> (db, Inl e) | Inr (db', row') \<Rightarrow> (db', observe_job (row_to_job row') 0 False True db')))"

section \<open>The worker\<close>

datatype workflow_state =
  PROJECT_READY | OBSERVING_SOURCE | CHANGE_REVIEW | VERIFYING | AWAITING_CLARIFICATION | COMPLETED | FAILED_STATE
  | INTERRUPTED_STATE | BUSY_EXTERNAL

text \<open>How \<open>confirm_and_verify\<close> ends: with a snapshot and its error, or with an exception, an exit request or not.\<close>

datatype verification_end = Snapshot workflow_state "string option" | Raised bool string

record worker_host =
  wh_now :: string
  wh_pid :: int
  wh_lease_valid :: bool
  wh_lease_text :: string
  wh_events :: "progress_event list"
  wh_end :: verification_end

definition terminal_result :: "verification_end \<Rightarrow> job_state \<times> string option" where
  "terminal_result ending =
     (case ending of
        Snapshot state error \<Rightarrow>
          if state = INTERRUPTED_STATE then (INTERRUPTED, error)
          else if state = FAILED_STATE then (FAILED, error) else (SUCCEEDED, None)
      | Raised exit_requested message \<Rightarrow> (if exit_requested then INTERRUPTED else FAILED, Some message))"

definition run_verification_job :: "worker_host \<Rightarrow> string \<Rightarrow> (job_db, int) op" where
  "run_verification_job h job_id db =
     (case job_of job_id db of
        None \<Rightarrow> (db, Inl (RuntimeError ''VerificationJobNotFoundError''))
      | Some _ \<Rightarrow>
          if \<not> wh_lease_valid h
          then (case finish_job (wh_now h) job_id FAILED (Some (''Inherited worker mutation lease is invalid: '' @ wh_lease_text h)) db of
                  Inl e \<Rightarrow> (db, Inl e) | Inr (db', _) \<Rightarrow> (db', Inr 2))
          else (case mark_running (wh_now h) job_id (wh_pid h) db of
                  Inl e \<Rightarrow> (db, Inl e)
                | Inr (db1, _) \<Rightarrow>
                    let db2 = fold (\<lambda>event d. fst (append_event (wh_now h) job_id event d)) (wh_events h) db1;
                        (state, error) = terminal_result (wh_end h)
                    in case finish_job (wh_now h) job_id state error db2 of
                         Inl _ \<Rightarrow> (db2, Inr 1)
                       | Inr (db3, _) \<Rightarrow> (db3, Inr (if state = SUCCEEDED then 0 else 1))))"

section \<open>Lemmas on the operations\<close>

lemma newest_mem: "newest rows = Some r \<Longrightarrow> r \<in> set rows"
proof -
  assume "newest rows = Some r"
  then obtain rest where "rev (sort_key jr_created_at (rev rows)) = r # rest" by (auto simp: newest_def split: list.splits)
  then have "r \<in> set (rev (sort_key jr_created_at (rev rows)))" by simp
  then show ?thesis by simp
qed

lemma newest_None [simp]: "newest rows = None \<longleftrightarrow> rows = []"
  by (auto simp: newest_def split: list.splits)

lemma active_job_Some: "active_job db = Some r \<Longrightarrow> r \<in> set (jb_jobs db) \<and> \<not> terminal (jr_state r)"
  using newest_mem by (fastforce simp: active_job_def is_active_def)

lemma active_job_None: "active_job db = None \<longleftrightarrow> (\<forall>r\<in>set (jb_jobs db). terminal (jr_state r))"
  by (auto simp: active_job_def is_active_def filter_empty_conv)

lemma only_active:
  assumes "job_inv db" and "active_job db = Some r" and "r' \<in> set (jb_jobs db)" and "\<not> terminal (jr_state r')"
  shows "r' = r"
proof -
  have "r \<in> set (filter is_active (jb_jobs db))" "r' \<in> set (filter is_active (jb_jobs db))"
    using active_job_Some [OF assms(2)] assms(3,4) by (simp_all add: is_active_def)
  moreover have "length (filter is_active (jb_jobs db)) \<le> Suc 0" using assms(1) by (simp add: job_inv_def one_active_def)
  ultimately show ?thesis using subset_singleton_of_length by metis
qed

lemma finish_job_Inr:
  assumes "finish_job now job_id state error db = Inr (db', row)"
  shows "terminal state"
    "jb_jobs db' = map (\<lambda>r. if jr_job_id r = job_id \<and> \<not> terminal (jr_state r) then r\<lparr>jr_state := state, jr_updated_at := now,
        jr_completed_at := Some now, jr_heartbeat_at := Some now, jr_error := error\<rparr> else r) (jb_jobs db)"
    "job_of job_id db' = Some row"
  using assms by (auto simp: finish_job_def update_jobs_def update_where_def split: if_splits)

lemma job_of_update:
  "(\<And>r. jr_job_id (f r) = jr_job_id r) \<Longrightarrow>
     job_of k (update_jobs P f db) = map_option (\<lambda>r. if P r then f r else r) (job_of k db)"
  by (simp add: job_of_def update_jobs_def lookup_row_update_where)

lemma finish_job_eq:
  assumes "job_of job_id db = Some r" and "terminal state"
  shows "finish_job now job_id state error db = Inr (update_jobs (\<lambda>r. jr_job_id r = job_id \<and> jr_state r \<in> ACTIVE_STATES)
       (\<lambda>r. r\<lparr>jr_state := state, jr_updated_at := now, jr_completed_at := Some now, jr_heartbeat_at := Some now, jr_error := error\<rparr>) db,
     if terminal (jr_state r) then r else r\<lparr>jr_state := state, jr_updated_at := now, jr_completed_at := Some now,
       jr_heartbeat_at := Some now, jr_error := error\<rparr>)"
proof -
  have "jr_job_id r = job_id" using assms(1) lookup_row_SomeD [of jr_job_id job_id "jb_jobs db" r] by (simp add: job_of_def)
  then show ?thesis using assms by (simp add: finish_job_def with_job_def job_of_update)
qed

lemma finish_job_of:
  assumes "finish_job now job_id state error db = Inr (db', row)"
  shows "terminal (jr_state row)" "jr_job_id row = job_id"
    "k \<noteq> job_id \<Longrightarrow> job_of k db' = job_of k db"
proof -
  obtain r where r: "job_of job_id db = Some r" "terminal state"
    using assms by (auto simp: finish_job_def job_of_update with_job_def split: if_splits option.splits)
  have id: "jr_job_id r = job_id" using r(1) lookup_row_SomeD [of jr_job_id job_id "jb_jobs db" r] by (simp add: job_of_def)
  note eq = assms [unfolded finish_job_eq [OF r]]
  show "terminal (jr_state row)" "jr_job_id row = job_id" using eq r(2) id by (auto split: if_splits)
  show "job_of k db' = job_of k db" if "k \<noteq> job_id"
  proof -
    have "jr_job_id x = k" if "job_of k db = Some x" for x using that lookup_row_SomeD [of jr_job_id k "jb_jobs db" x] by (simp add: job_of_def)
    then show ?thesis using eq \<open>k \<noteq> job_id\<close> by (cases "job_of k db") (auto simp: job_of_update)
  qed
qed

lemma finish_active:
  assumes "job_inv db" and "active_job db = Some r" and "terminal state"
  shows "\<exists>db' row. finish_job now (jr_job_id r) state error db = Inr (db', row) \<and> active_job db' = None \<and> job_inv db'
     \<and> jr_state row = state \<and> jr_error row = error \<and> jr_job_id row = jr_job_id r \<and> job_of (jr_job_id r) db' = Some row
     \<and> (\<forall>k. k \<noteq> jr_job_id r \<longrightarrow> job_of k db' = job_of k db) \<and> jr_job_id ` set (jb_jobs db') = jr_job_id ` set (jb_jobs db)"
proof -
  have r: "r \<in> set (jb_jobs db)" "\<not> terminal (jr_state r)" using active_job_Some [OF assms(2)] by simp_all
  have job: "job_of (jr_job_id r) db = Some r" by (rule job_of_mem [OF assms(1) r(1)])
  obtain db' row where fin: "finish_job now (jr_job_id r) state error db = Inr (db', row)"
      "jr_state row = state" "jr_error row = error" "jr_job_id row = jr_job_id r"
    using r(2) unfolding finish_job_eq [OF job assms(3)] by simp
  have rows: "jb_jobs db' = map (\<lambda>x. if jr_job_id x = jr_job_id r \<and> \<not> terminal (jr_state x) then x\<lparr>jr_state := state, jr_updated_at := now,
      jr_completed_at := Some now, jr_heartbeat_at := Some now, jr_error := error\<rparr> else x) (jb_jobs db)"
    by (rule finish_job_Inr(2) [OF fin(1)])
  have "terminal (jr_state x)" if mem: "x \<in> set (jb_jobs db')" for x
  proof -
    obtain y where y: "y \<in> set (jb_jobs db)" "x = (if jr_job_id y = jr_job_id r \<and> \<not> terminal (jr_state y) then y\<lparr>jr_state := state, jr_updated_at := now,
      jr_completed_at := Some now, jr_heartbeat_at := Some now, jr_error := error\<rparr> else y)"
      using mem unfolding rows set_map by (elim imageE) blast
    then show ?thesis using only_active [OF assms(1,2) y(1)] assms(3) by (cases "terminal (jr_state y)") auto
  qed
  then have "active_job db' = None" by (simp add: active_job_None)
  moreover have "jr_job_id ` set (jb_jobs db') = jr_job_id ` set (jb_jobs db)" unfolding rows set_map image_image by (intro image_cong) auto
  moreover have "job_inv db'" using finish_job_safe [OF fin(1)] assms(1) by (simp add: safe_change_def)
  ultimately show ?thesis using fin finish_job_of(3) [OF fin(1)] finish_job_Inr(3) [OF fin(1)] by blast
qed

text \<open>C26. A crash is noticed and nothing else is taken for one: observing a project changes the store only when both locks are free
  and a job is still active; then that job ends as interrupted, with the reason, and no job is active any more. While
  one of the locks is held the observation of an active job returns the job as it is.\<close>

theorem observation_closes_only_crashed:
  assumes "job_inv db" and "0 \<le> after_sequence" and "active_job db = Some r"
  shows "\<exists>db' o'. observe_verification h after_sequence db = (db', Inr (Some o'))
    \<and> (if oh_lease_active h \<or> oh_session_active h then db' = db \<and> jo_job o' = row_to_job r
       else active_job db' = None \<and> vj_job_id (jo_job o') = jr_job_id r \<and> vj_state (jo_job o') = INTERRUPTED
         \<and> vj_error (jo_job o') = Some worker_lost \<and> (\<forall>k. k \<noteq> jr_job_id r \<longrightarrow> job_of k db' = job_of k db))"
proof (cases "oh_lease_active h \<or> oh_session_active h")
  case True
  then show ?thesis using assms(2,3) by (auto simp: observe_verification_def observe_job_def Let_def)
next
  case False
  have "terminal INTERRUPTED" by (simp add: terminal_def)
  then obtain db' row where "finish_job (oh_now h) (jr_job_id r) INTERRUPTED (Some worker_lost) db = Inr (db', row)"
      "active_job db' = None" "jr_state row = INTERRUPTED" "jr_error row = Some worker_lost" "jr_job_id row = jr_job_id r"
      "\<forall>k. k \<noteq> jr_job_id r \<longrightarrow> job_of k db' = job_of k db"
    using finish_active [OF assms(1,3)] by blast
  then show ?thesis using False assms(2,3) by (simp add: observe_verification_def observe_job_def Let_def row_to_job_def)
qed

lemma check_plan_iff: "check_plan h plan_id = Inr () \<longleftrightarrow> sh_current_plan h = Inr plan_id"
  by (cases "sh_current_plan h"; cases plan_id) (auto simp: check_plan_def)

lemma attach_Inr: "attach existing fingerprint db = Inr o' \<Longrightarrow>
    jo_started o' = False \<and> jo_job o' = row_to_job existing \<and> jr_request_fingerprint existing = fingerprint"
  by (auto simp: attach_def assert_matching_request_def observe_job_def Let_def bindE_Inr_iff row_to_job_def split: if_splits)

lemma legacy_simps [simp]:
  "jo_started (legacy_observation now identity project starting) = False"
  "vj_attached_legacy (jo_job (legacy_observation now identity project starting)) = True"
  by (simp_all add: legacy_observation_def legacy_job_def)

lemma wait_Inr: "wait_for_launcher h project fingerprint polls = Inr o' \<Longrightarrow>
    jo_started o' = False \<and> (vj_attached_legacy (jo_job o') \<or> vj_request_fingerprint (jo_job o') = fingerprint)"
  by (induction polls) (auto simp: row_to_job_def dest: attach_Inr split: prod.splits option.splits if_splits)

lemma create_job_fields: "create_job now job_id fp plan settings db = Inr (db', r) \<Longrightarrow>
    jr_settings r = settings \<and> jr_plan_id r = plan \<and> jr_request_fingerprint r = fp \<and> terminal (jr_state r) = False"
  by (auto simp: create_job_def Let_def bindE_Inr_iff terminal_def split: if_splits)

lemma newest_single [simp]: "newest [r] = Some r"
  by (simp add: newest_def)

lemma create_job_active:
  assumes "job_inv db" and "active_job db = None" and "create_job now job_id fp plan settings db = Inr (db', r)"
  shows "active_job db' = Some r" "job_of job_id db' = Some r" "filter is_active (jb_jobs db') = [r]"
proof -
  note new = create_job_Inr [OF assms(3)] create_job_fields [OF assms(3)]
  have "filter is_active (jb_jobs db) = []" using assms(2) by (simp add: active_job_def)
  then show only: "filter is_active (jb_jobs db') = [r]" using new by (simp add: is_active_def)
  then show "active_job db' = Some r" by (simp add: active_job_def)
  have "job_inv db'" using create_job_safe [OF assms(3)] assms(1) by (simp add: safe_change_def)
  moreover have "r \<in> set (jb_jobs db')" using new(1) by simp
  ultimately show "job_of job_id db' = Some r" using job_of_mem [of db' r] new(4) by simp
qed

lemma record_spawn_active:
  assumes "job_of job_id db = Some r" and "filter is_active (jb_jobs db) = [r]"
  shows "\<exists>db' row. record_spawn now job_id pid command path db = Inr (db', row) \<and> job_of job_id db' = Some row \<and> active_job db' = Some row
     \<and> jr_settings row = jr_settings r \<and> jr_plan_id row = jr_plan_id r \<and> jr_request_fingerprint row = jr_request_fingerprint r
     \<and> jr_state row = jr_state r"
proof -
  let ?f = "\<lambda>r. r\<lparr>jr_pid := Some pid, jr_launch_command := command, jr_worker_log_path := Some path, jr_updated_at := now\<rparr>"
  let ?db = "update_jobs (\<lambda>r. jr_job_id r = job_id) ?f db"
  have id: "jr_job_id r = job_id" using assms(1) lookup_row_SomeD [of jr_job_id job_id "jb_jobs db" r] by (simp add: job_of_def)
  have "filter is_active (map (\<lambda>r. if jr_job_id r = job_id then ?f r else r) rows)
      = map (\<lambda>r. if jr_job_id r = job_id then ?f r else r) (filter is_active rows)" for rows
    by (induction rows) (auto simp: is_active_def)
  then have "active_job ?db = Some (?f r)" using assms(2) id by (simp add: active_job_def update_jobs_def update_where_def)
  moreover have "job_of job_id ?db = Some (?f r)" using assms(1) id by (simp add: job_of_update)
  ultimately show ?thesis by (simp add: record_spawn_def)
qed

text \<open>Settings that a job may be started with: every role has a model and an effort that the approved catalog of one enabled and
  ready driver lists, and the sizes are within their bounds.\<close>

definition approved_settings :: "start_host \<Rightarrow> verification_settings \<Rightarrow> bool" where
  "approved_settings h settings \<longleftrightarrow>
     (let driver = vs_ai_driver settings in
      vs_role_settings settings \<noteq> [] \<and> driver \<in> set SUPPORTED_DRIVERS \<and> sh_enabled h driver
      \<and> (\<exists>status catalog. sh_status h driver = Inr status \<and> ds_ready status \<and> ds_catalog status = Some catalog \<and> mc_contract_approved catalog
           \<and> (\<forall>role\<in>set (vs_role_settings settings). rs_ai_driver role = driver
                \<and> (\<exists>item\<in>set (mc_models catalog). md_model_id item = rs_model role \<and> rs_effort role \<in> set (md_difficulties item))))
      \<and> 1 \<le> vs_jobs settings \<and> vs_jobs settings \<le> 128 \<and> 1 \<le> vs_batch_size settings \<and> 1 \<le> vs_lean_pool_size settings)"

lemma foldr_checks: "foldr (\<lambda>x rest. bindE (check x) (\<lambda>_. rest)) xs (Inr ()) = Inr () \<longleftrightarrow> (\<forall>x\<in>set xs. check x = Inr ())"
  by (induction xs) (auto simp: bindE_Inr_iff)

lemma validate_frozen_roles_Inr:
  assumes "validate_frozen_roles h settings = Inr ()"
  shows "vs_role_settings settings \<noteq> []" "vs_ai_driver settings \<in> set SUPPORTED_DRIVERS" "sh_enabled h (vs_ai_driver settings)"
    "\<exists>status catalog. sh_status h (vs_ai_driver settings) = Inr status \<and> ds_ready status \<and> ds_catalog status = Some catalog
       \<and> mc_contract_approved catalog \<and> (\<forall>role\<in>set (vs_role_settings settings). rs_ai_driver role = vs_ai_driver settings
            \<and> (\<exists>item\<in>set (mc_models catalog). md_model_id item = rs_model role \<and> rs_effort role \<in> set (md_difficulties item)))"
proof -
  have roles: "rs_ai_driver ` set (vs_role_settings settings) = {vs_ai_driver settings}"
    using assms by (simp add: validate_frozen_roles_def Let_def split: if_splits)
  obtain status catalog where found: "sh_status h (vs_ai_driver settings) = Inr status" "ds_ready status" "ds_catalog status = Some catalog"
      "mc_contract_approved catalog" "\<forall>role\<in>set (vs_role_settings settings).
        validate_difficulty (sh_difficulties h (vs_ai_driver settings)) (rs_model role) (rs_effort role) catalog = Inr ()"
    using assms by (auto simp: validate_frozen_roles_def Let_def bindE_Inr_iff foldr_checks split: if_splits option.splits)
  show "vs_role_settings settings \<noteq> []" "vs_ai_driver settings \<in> set SUPPORTED_DRIVERS" "sh_enabled h (vs_ai_driver settings)"
    using assms by (auto simp: validate_frozen_roles_def Let_def split: if_splits)
  show "\<exists>status catalog. sh_status h (vs_ai_driver settings) = Inr status \<and> ds_ready status \<and> ds_catalog status = Some catalog
       \<and> mc_contract_approved catalog \<and> (\<forall>role\<in>set (vs_role_settings settings). rs_ai_driver role = vs_ai_driver settings
            \<and> (\<exists>item\<in>set (mc_models catalog). md_model_id item = rs_model role \<and> rs_effort role \<in> set (md_difficulties item)))"
    using found roles validate_difficulty_approved [OF _ found(4)] by blast
qed

lemma validate_start_approved: "validate_start h settings = Inr () \<Longrightarrow> approved_settings h settings"
  unfolding approved_settings_def Let_def
  using validate_frozen_roles_Inr [of h settings] validate_options_bounds
  by (fastforce simp: validate_start_def Let_def bindE_Inr_iff)

lemma launch_job_Inr:
  assumes "job_inv db" and "active_job db = None" and "launch_job h fingerprint plan_id settings db = (db', Inr o')"
  shows "jo_started o' \<and> sh_current_plan h = Inr plan_id \<and> approved_settings h settings
    \<and> (\<exists>r. job_of (sh_job_id h) db' = Some r \<and> jr_settings r = settings \<and> jr_plan_id r = plan_id \<and> jr_request_fingerprint r = fingerprint
        \<and> jr_state r = STARTING \<and> jo_job o' = row_to_job r \<and> active_job db' = Some r)"
proof -
  obtain db1 job where created: "create_job (sh_now h) (sh_job_id h) fingerprint plan_id settings db = Inr (db1, job)"
      and checks: "sh_current_plan h = Inr plan_id" "validate_start h settings = Inr ()"
    using assms(3) by (auto simp: launch_job_def bindE_Inr_iff check_plan_iff split: sum.splits prod.splits)
  note approved = validate_start_approved [OF checks(2)]
  note new = create_job_Inr(4,5) [OF created] create_job_fields [OF created] create_job_active [OF assms(1,2) created]
  have run: "launch_job h fingerprint plan_id settings db =
      (case sh_spawn h of
             Inl e \<Rightarrow> (case finish_job (sh_now h) (jr_job_id job) FAILED (Some (''Could not launch detached verification: '' @ sh_spawn_text h)) db1 of
                 Inl e' \<Rightarrow> (db1, Inl e') | Inr (db2, _) \<Rightarrow> (db2, Inl e))
           | Inr pid \<Rightarrow>
               let recorded = (if sh_spawn_recorded h
                     then record_spawn (sh_now h) (jr_job_id job) pid (sh_command h (jr_job_id job)) (sh_worker_log h (jr_job_id job)) db1
                     else Inl (RuntimeError ''OperationalError''));
                   (db2, started) = (case recorded of
                     Inr (db2, row) \<Rightarrow> (db2, Some row) | Inl _ \<Rightarrow> (db1, job_of (jr_job_id job) db1))
               in case started of
                    None \<Rightarrow> (db2, Inl (RuntimeError ''VerificationJobNotFoundError''))
                  | Some row \<Rightarrow> (db2, observe_job (row_to_job row) 0 True False db2))"
    using created checks check_plan_iff [of h plan_id] by (simp add: launch_job_def)
  obtain pid where pid: "sh_spawn h = Inr pid"
    using assms(3) unfolding run by (auto split: sum.splits prod.splits)
  show ?thesis
  proof (cases "sh_spawn_recorded h")
    case True
    obtain db2 row where spawn: "record_spawn (sh_now h) (sh_job_id h) pid (sh_command h (sh_job_id h)) (sh_worker_log h (sh_job_id h)) db1 = Inr (db2, row)"
        "job_of (sh_job_id h) db2 = Some row" "active_job db2 = Some row" "jr_settings row = jr_settings job" "jr_plan_id row = jr_plan_id job"
        "jr_request_fingerprint row = jr_request_fingerprint job" "jr_state row = jr_state job"
      using record_spawn_active [OF new(5,6)] by blast
    then show ?thesis using assms(3) True pid new(1-3) checks(1) approved unfolding run by (auto simp: observe_job_def Let_def)
  next
    case False
    then show ?thesis using assms(3) pid new checks(1) approved unfolding run by (auto simp: observe_job_def Let_def)
  qed
qed

lemma job_of_id: "job_of k db = Some r \<Longrightarrow> jr_job_id r = k"
  using lookup_row_SomeD [of jr_job_id k "jb_jobs db" r] by (simp add: job_of_def)

lemma record_spawn_other:
  "record_spawn now job_id pid command path db = Inr (db', row) \<Longrightarrow> k \<noteq> job_id \<Longrightarrow> job_of k db' = job_of k db"
  by (cases "job_of k db") (auto simp: record_spawn_def job_of_update dest: job_of_id)

lemma create_job_other:
  assumes "create_job now job_id fp plan settings db = Inr (db', r)" and "k \<noteq> job_id"
  shows "job_of k db' = job_of k db"
  using create_job_Inr(1,4) [OF assms(1)] assms(2)
  by (auto simp: job_of_def lookup_row_append lookup_row_Cons split: option.splits)

lemma launch_job_other:
  assumes "launch_job h fingerprint plan_id settings db = (db', Inr o')" and "job_of k db \<noteq> None"
  shows "job_of k db' = job_of k db"
proof -
  obtain db1 job where created: "create_job (sh_now h) (sh_job_id h) fingerprint plan_id settings db = Inr (db1, job)"
    using assms(1) by (auto simp: launch_job_def bindE_Inr_iff split: sum.splits prod.splits)
  have "k \<in> jr_job_id ` set (jb_jobs db)"
    using assms(2) lookup_row_None_iff [of jr_job_id k "jb_jobs db"] by (simp add: job_of_def)
  then have k: "k \<noteq> sh_job_id h" using create_job_Inr(2) [OF created] by blast
  then have "job_of k db1 = job_of k db" by (rule create_job_other [OF created])
  moreover have "job_of k db' = job_of k db1"
    using assms(1) created create_job_Inr(4) [OF created] record_spawn_other [OF _ k]
    by (auto simp: launch_job_def Let_def bindE_Inr_iff split: sum.splits prod.splits if_splits option.splits)
  ultimately show ?thesis by simp
qed


lemma update_jobs_events [simp]: "jb_events (update_jobs P f db) = jb_events db"
  by (simp add: update_jobs_def)

lemma job_of_events [simp]: "job_of k (db\<lparr>jb_events := events, jb_next_sequence := n\<rparr>) = job_of k db"
  by (simp add: job_of_def)

lemma append_event_job:
  "job_of job_id db = Some r \<Longrightarrow>
     \<exists>r'. job_of job_id (fst (append_event now job_id event db)) = Some r' \<and> jr_state r' = jr_state r \<and> jr_error r' = jr_error r"
  by (auto simp: append_event_def Let_def heartbeat_job_def job_of_update)

lemma append_event_length: "length (jb_events (fst (append_event now job_id event db))) = Suc (length (jb_events db))"
  by (simp add: append_event_def Let_def heartbeat_job_def update_jobs_def)

lemma append_events_job:
  "job_of job_id db = Some r \<Longrightarrow>
     (\<exists>r'. job_of job_id (fold (\<lambda>event d. fst (append_event now job_id event d)) events db) = Some r' \<and> jr_state r' = jr_state r \<and> jr_error r' = jr_error r)
     \<and> length (jb_events (fold (\<lambda>event d. fst (append_event now job_id event d)) events db)) = length (jb_events db) + length events"
proof (induction events arbitrary: db r)
  case (Cons event events)
  obtain r1 where r1: "job_of job_id (fst (append_event now job_id event db)) = Some r1" "jr_state r1 = jr_state r" "jr_error r1 = jr_error r"
    using append_event_job [OF Cons.prems] by blast
  show ?case using Cons.IH [OF r1(1)] r1(2,3) by (simp add: append_event_length)
qed simp

lemma mark_running_job:
  assumes "job_of job_id db = Some r"
  shows "\<exists>db' r'. mark_running now job_id pid db = Inr (db', r') \<and> job_of job_id db' = Some r' \<and> (terminal (jr_state r') \<longleftrightarrow> terminal (jr_state r))
     \<and> (terminal (jr_state r) \<longrightarrow> jr_state r' = jr_state r) \<and> jr_error r' = jr_error r \<and> jb_events db' = jb_events db"
  using assms job_of_id [OF assms]
  by (cases "jr_state r") (simp_all add: mark_running_def with_job_def job_of_update terminal_def)

lemma terminal_result_succeeded:
  "fst (terminal_result ending) = SUCCEEDED \<longleftrightarrow> (\<exists>s e. ending = Snapshot s e \<and> s \<notin> {INTERRUPTED_STATE, FAILED_STATE})"
  by (cases ending) (auto simp: terminal_result_def)

lemma terminal_result_terminal: "terminal (fst (terminal_result ending))"
  by (simp add: terminal_result_def terminal_def split: verification_end.splits)


section \<open>Launchers, workers and clients side by side\<close>

text \<open>Who holds the worker lease: nobody; a launcher, which may already have created its job; or the worker of a job, which
  inherited the descriptor. \<open>cw_suspects\<close> are the jobs that some client found active while both locks were free, and may
  therefore still interrupt at any later time. A step is one transaction or one change of the lease; \<open>die\<close> is the end of a
  process at any point, after which the operating system frees the lock.\<close>

datatype actor = A_Launcher | A_Worker | A_Client | A_System

datatype lease_holder = Nobody | Launcher "string option" | Worker string

record control_world =
  cw_db :: job_db
  cw_lease :: lease_holder
  cw_suspects :: "string set"

inductive control_step :: "actor \<Rightarrow> control_world \<Rightarrow> control_world \<Rightarrow> bool" where
  take_lease: "control_step A_Launcher w (w\<lparr>cw_lease := Launcher None\<rparr>)" if "cw_lease w = Nobody"
| close_stale: "control_step A_Launcher w (w\<lparr>cw_db := db'\<rparr>)"
    if "cw_lease w = Launcher None" "active_job (cw_db w) = Some r"
      "finish_job now (jr_job_id r) INTERRUPTED (Some lost_leases) (cw_db w) = Inr (db', row)"
| make_job: "control_step A_Launcher w (w\<lparr>cw_db := db', cw_lease := Launcher (Some job_id)\<rparr>)"
    if "cw_lease w = Launcher None" "create_job now job_id fingerprint plan_id settings (cw_db w) = Inr (db', row)"
| launch_failed: "control_step A_Launcher w (w\<lparr>cw_db := db'\<rparr>)"
    if "cw_lease w = Launcher (Some job_id)" "finish_job now job_id FAILED message (cw_db w) = Inr (db', row)"
| hand_over: "control_step A_Launcher w (w\<lparr>cw_lease := Worker job_id\<rparr>)" if "cw_lease w = Launcher (Some job_id)"
| note_spawn: "control_step A_Launcher w (w\<lparr>cw_db := db'\<rparr>)" if "record_spawn now job_id pid command path (cw_db w) = Inr (db', row)"
| work_start: "control_step A_Worker w (w\<lparr>cw_db := db'\<rparr>)"
    if "cw_lease w = Worker job_id" "mark_running now job_id pid (cw_db w) = Inr (db', row)"
| work_beat: "control_step A_Worker w (w\<lparr>cw_db := heartbeat_job now job_id (cw_db w)\<rparr>)" if "cw_lease w = Worker job_id"
| work_event: "control_step A_Worker w (w\<lparr>cw_db := fst (append_event now job_id event (cw_db w))\<rparr>)" if "cw_lease w = Worker job_id"
| work_finish: "control_step A_Worker w (w\<lparr>cw_db := db'\<rparr>)"
    if "cw_lease w = Worker job_id" "finish_job now job_id state error (cw_db w) = Inr (db', row)"
| die: "control_step A_System w (w\<lparr>cw_lease := Nobody\<rparr>)"
| look: "control_step A_Client w (w\<lparr>cw_suspects := insert (jr_job_id r) (cw_suspects w)\<rparr>)"
    if "active_job (cw_db w) = Some r" "cw_lease w = Nobody"
| interrupt: "control_step A_Client w (w\<lparr>cw_db := db'\<rparr>)"
    if "job_id \<in> cw_suspects w" "finish_job now job_id INTERRUPTED (Some worker_lost) (cw_db w) = Inr (db', row)"
| ask_cancel: "control_step A_Client w (w\<lparr>cw_db := db'\<rparr>)" if "request_cancel now job_id (cw_db w) = Inr (db', row)"

definition world_step :: "control_world \<Rightarrow> control_world \<Rightarrow> bool" where
  "world_step w w' \<longleftrightarrow> (\<exists>actor. control_step actor w w')"

inductive_cases launcher_stepE: "control_step A_Launcher w w'"
inductive_cases client_stepE: "control_step A_Client w w'"
inductive_cases system_stepE: "control_step A_System w w'"

definition first_world :: "string \<Rightarrow> control_world" where
  "first_world project = \<lparr>cw_db = empty_jobs project, cw_lease = Nobody, cw_suspects = {}\<rparr>"

text \<open>The lock decides: the job whose launcher or worker holds the lease is known to the store, no other job is active, and no
  client suspects it.\<close>

definition leased_job :: "lease_holder \<Rightarrow> string option" where
  "leased_job holder = (case holder of Nobody \<Rightarrow> None | Launcher job_id \<Rightarrow> job_id | Worker job_id \<Rightarrow> Some job_id)"

definition control_inv :: "control_world \<Rightarrow> bool" where
  "control_inv w \<longleftrightarrow> job_inv (cw_db w) \<and> cw_suspects w \<subseteq> jr_job_id ` set (jb_jobs (cw_db w))
     \<and> (\<forall>job_id. leased_job (cw_lease w) = Some job_id \<longrightarrow>
          job_id \<notin> cw_suspects w \<and> (\<forall>r\<in>set (jb_jobs (cw_db w)). jr_job_id r = job_id \<or> terminal (jr_state r)))"

text \<open>A transaction that only advances rows and creates none keeps the invariant of the world.\<close>

lemma control_inv_advance:
  assumes "control_inv w" and "safe_change (cw_db w) db'" and "map jr_job_id (jb_jobs db') = map jr_job_id (jb_jobs (cw_db w))"
  shows "control_inv (w\<lparr>cw_db := db'\<rparr>)"
proof -
  have inv: "job_inv (cw_db w)" using assms(1) by (simp add: control_inv_def)
  then have inv': "job_inv db'" and adv: "db_advances (cw_db w) db'" using assms(2) by (simp_all add: safe_change_def)
  have ids: "jr_job_id ` set (jb_jobs db') = jr_job_id ` set (jb_jobs (cw_db w))" using assms(3) by (metis list.set_map)
  have "terminal (jr_state r')" if r': "r' \<in> set (jb_jobs db')" "jr_job_id r' \<noteq> job_id" and "leased_job (cw_lease w) = Some job_id" for r' job_id
  proof -
    have "jr_job_id r' \<in> jr_job_id ` set (jb_jobs (cw_db w))" unfolding ids [symmetric] using r'(1) by (rule imageI)
    then obtain r where r: "r \<in> set (jb_jobs (cw_db w))" "jr_job_id r' = jr_job_id r" by (rule imageE)
    then have "terminal (jr_state r)" using assms(1) that(2,3) by (auto simp: control_inv_def)
    obtain r1 where r1: "r1 \<in> set (jb_jobs db')" "row_advances r r1" using adv r(1) by (auto simp: db_advances_def)
    have "job_of (jr_job_id r') db' = Some r'" "job_of (jr_job_id r1) db' = Some r1" using job_of_mem [OF inv'] r'(1) r1(1) by blast+
    then have "r1 = r'" using r1(2) r(2) by (simp add: row_advances_def)
    with r1(2) \<open>terminal (jr_state r)\<close> show ?thesis by (simp add: row_advances_def)
  qed
  then show ?thesis using assms(1) inv' ids by (auto simp: control_inv_def)
qed

lemma update_jobs_ids: "(\<And>r. jr_job_id (f r) = jr_job_id r) \<Longrightarrow> map jr_job_id (jb_jobs (update_jobs P f db)) = map jr_job_id (jb_jobs db)"
  by (simp add: update_jobs_def map_key_update_where)

lemma finish_job_ids: "finish_job now job_id state error db = Inr (db', row) \<Longrightarrow> map jr_job_id (jb_jobs db') = map jr_job_id (jb_jobs db)"
  by (auto simp: finish_job_def update_jobs_ids split: if_splits)

lemma request_cancel_ids: "request_cancel now job_id db = Inr (db', row) \<Longrightarrow> map jr_job_id (jb_jobs db') = map jr_job_id (jb_jobs db)"
  by (auto simp: request_cancel_def update_jobs_ids split: option.splits if_splits)

lemma mark_running_ids: "mark_running now job_id pid db = Inr (db', row) \<Longrightarrow> map jr_job_id (jb_jobs db') = map jr_job_id (jb_jobs db)"
  by (auto simp: mark_running_def update_jobs_ids)

lemma record_spawn_ids: "record_spawn now job_id pid command path db = Inr (db', row) \<Longrightarrow> map jr_job_id (jb_jobs db') = map jr_job_id (jb_jobs db)"
  by (auto simp: record_spawn_def update_jobs_ids)

lemma heartbeat_ids: "map jr_job_id (jb_jobs (heartbeat_job now job_id db)) = map jr_job_id (jb_jobs db)"
  by (simp add: heartbeat_job_def update_jobs_ids)

lemma append_event_ids: "map jr_job_id (jb_jobs (fst (append_event now job_id event db))) = map jr_job_id (jb_jobs db)"
  by (simp add: append_event_def Let_def heartbeat_ids)

lemmas advance_rules = control_inv_advance finish_job_safe finish_job_ids request_cancel_safe request_cancel_ids mark_running_safe
  mark_running_ids record_spawn_safe record_spawn_ids heartbeat_safe heartbeat_ids append_event_safe append_event_ids

lemma make_job_inv:
  assumes "control_inv w" and "create_job now job_id fp plan settings (cw_db w) = Inr (db', row)"
  shows "control_inv (w\<lparr>cw_db := db', cw_lease := Launcher (Some job_id)\<rparr>)"
proof -
  note new = create_job_Inr [OF assms(2)]
  have inv: "job_inv db'" using assms(1) create_job_safe [OF assms(2)] by (simp add: control_inv_def safe_change_def)
  have mem: "row \<in> set (jb_jobs db')" using new(1) by simp
  have "terminal (jr_state r)" if "r \<in> set (jb_jobs db')" "jr_job_id r \<noteq> job_id" for r
  proof (rule ccontr)
    assume "\<not> terminal (jr_state r)"
    then have "r \<in> set (filter is_active (jb_jobs db'))" "row \<in> set (filter is_active (jb_jobs db'))"
      using that(1) mem new(5) by (simp_all add: is_active_def terminal_def)
    then have "r = row" using inv subset_singleton_of_length by (fastforce simp: job_inv_def one_active_def)
    then show False using that(2) new(4) by simp
  qed
  then show ?thesis using assms(1) inv new(1,2) by (auto simp: control_inv_def leased_job_def)
qed

lemma control_step_inv: "control_step actor w w' \<Longrightarrow> control_inv w \<Longrightarrow> control_inv w'"
proof (induction rule: control_step.induct)
  case (make_job w now job_id fingerprint plan_id settings db' row)
  then show ?case by (blast intro: make_job_inv)
next
  case (look w r)
  then show ?case using active_job_Some by (auto simp: control_inv_def leased_job_def)
next
  case (hand_over w job_id)
  then show ?case by (auto simp: control_inv_def leased_job_def)
qed (auto intro: advance_rules, auto simp: control_inv_def leased_job_def)

lemma control_run_inv: "world_step\<^sup>*\<^sup>* (first_world project) w \<Longrightarrow> control_inv w"
proof (induction rule: rtranclp_induct)
  case base
  show ?case by (simp add: control_inv_def first_world_def job_inv_empty leased_job_def)
qed (auto simp: world_step_def intro: control_step_inv)

lemma job_of_files [simp]: "job_of k (db\<lparr>jb_cancel_files := files\<rparr>) = job_of k db"
  by (simp add: job_of_def)

lemma request_cancel_state:
  assumes "request_cancel now job_id' db = Inr (db', row)" and "job_of job_id db = Some r" and "job_of job_id db' = Some r'"
  shows "jr_state r' = jr_state r \<or> jr_state r' = CANCEL_REQUESTED"
proof -
  have "job_of job_id db' = Some r \<or> job_of job_id db' = Some (r\<lparr>jr_state := CANCEL_REQUESTED, jr_updated_at := now\<rparr>)"
    using assms(1,2) by (auto simp: request_cancel_def with_job_def job_of_update job_of_files split: option.splits if_splits)
  then show ?thesis using assms(3) by auto
qed

lemma record_spawn_state:
  assumes "record_spawn now job_id' pid command path db = Inr (db', row)" and "job_of job_id db = Some r" and "job_of job_id db' = Some r'"
  shows "jr_state r' = jr_state r"
  using assms by (auto simp: record_spawn_def job_of_update split: if_splits)

lemma finish_other_state:
  assumes "finish_job now job_id' state error db = Inr (db', row)" and "job_of job_id db = Some r" and "job_of job_id db' = Some r'"
    and "job_id' \<noteq> job_id"
  shows "jr_state r' = jr_state r"
  using finish_job_of(3) [OF assms(1), of job_id] assms(2-4) by simp

text \<open>C23. Nobody interrupts a live worker: however launchers, workers and clients interleave and wherever processes die, as long as the
  worker of a job holds the lease, no other job is active, no client is left that took the job for crashed, and a step
  of anyone but the worker leaves the state of the job as it is or requests its cancellation.\<close>

theorem live_worker_not_interrupted:
  assumes "world_step\<^sup>*\<^sup>* (first_world project) w" and "cw_lease w = Worker job_id" and "control_step actor w w'" and "actor \<noteq> A_Worker"
    and "job_of job_id (cw_db w) = Some r" and "job_of job_id (cw_db w') = Some r'"
  shows "(jr_state r' = jr_state r \<or> jr_state r' = CANCEL_REQUESTED) \<and> job_id \<notin> cw_suspects w
    \<and> (\<forall>other\<in>set (jb_jobs (cw_db w)). jr_job_id other = job_id \<or> terminal (jr_state other))"
proof -
  have quiet: "job_id \<notin> cw_suspects w" "\<forall>other\<in>set (jb_jobs (cw_db w)). jr_job_id other = job_id \<or> terminal (jr_state other)"
    using control_run_inv [OF assms(1)] assms(2) by (auto simp: control_inv_def leased_job_def)
  have "jr_state r' = jr_state r \<or> jr_state r' = CANCEL_REQUESTED"
  proof (cases actor)
    case A_Launcher
    with assms(2,3,5,6) show ?thesis by (auto elim!: launcher_stepE dest: record_spawn_state)
  next
    case A_Worker
    with assms(4) show ?thesis by simp
  next
    case A_Client
    with assms(3) have "control_step A_Client w w'" by simp
    then show ?thesis
    proof (rule client_stepE)
      fix other now db' row
      assume "w' = w\<lparr>cw_db := db'\<rparr>" "other \<in> cw_suspects w" "finish_job now other INTERRUPTED (Some worker_lost) (cw_db w) = Inr (db', row)"
      moreover from this(2) have "other \<noteq> job_id" using quiet(1) by auto
      ultimately show ?thesis using assms(5,6) finish_other_state [of now other] by simp
    qed (use assms(5,6) request_cancel_state in auto)
  next
    case A_System
    with assms(3,5,6) show ?thesis by (auto elim!: system_stepE)
  qed
  with quiet show ?thesis by blast
qed

section \<open>Examples\<close>

lemma ex_running_inv: "job_inv ex_running_db"
  using job_steps_safe [OF ex_job_steps(1) job_inv_empty] by simp

lemma ex_running_active: "\<exists>r. active_job ex_running_db = Some r \<and> job_of ''j'' ex_running_db = Some r \<and> jr_job_id r = ''j'' \<and> jr_state r = RUNNING"
proof -
  have "case active_job ex_running_db of None \<Rightarrow> False
      | Some r \<Rightarrow> jr_job_id r = ''j'' \<and> jr_state r = RUNNING"
    by code_simp
  then obtain r where "active_job ex_running_db = Some r" "jr_job_id r = ''j''" "jr_state r = RUNNING" by (auto split: option.splits)
  with job_of_mem [OF ex_running_inv] active_job_Some [of ex_running_db r] show ?thesis by fastforce
qed

theorem observation_closes_only_crashed_witness:
  "\<exists>db' o'. observe_verification \<lparr>oh_now = ''t5'', oh_lease_active = False, oh_session_active = False, oh_legacy_id = ''x''\<rparr> 1 ex_running_db
     = (db', Inr (Some o')) \<and> active_job db' = None \<and> vj_job_id (jo_job o') = ''j'' \<and> vj_state (jo_job o') = INTERRUPTED"
proof -
  obtain r where r: "active_job ex_running_db = Some r" "jr_job_id r = ''j''" using ex_running_active by auto
  have "(0::int) \<le> 1" by simp
  from observation_closes_only_crashed [OF ex_running_inv this r(1),
      of "\<lparr>oh_now = ''t5'', oh_lease_active = False, oh_session_active = False, oh_legacy_id = ''x''\<rparr>"] r(2)
  show ?thesis by auto
qed

text \<open>A launcher that finds the job of a crashed worker, ends it and starts its own.\<close>

definition ex_start_host :: start_host where
  "ex_start_host = \<lparr>sh_now = ''t6'', sh_job_id = ''k'', sh_fingerprint = rq_model, sh_codex = ''codex'', sh_cache_home = None,
     sh_legacy_id = ''x'', sh_lease_active = False, sh_lease_acquired = True, sh_polls = [], sh_session_active = False,
     sh_session_still = False, sh_current_plan = Inr None, sh_enabled = (\<lambda>_. True),
     sh_status = (\<lambda>_. Inr \<lparr>ds_ready = True, ds_catalog = Some \<lparr>mc_models = [\<lparr>md_model_id = ''m'', md_difficulties = [''high'']\<rparr>],
       mc_contract_approved = True\<rparr>\<rparr>), sh_difficulties = (\<lambda>_. []), sh_spawn = Inr 9, sh_spawn_text = [],
     sh_command = (\<lambda>job_id. [job_id]), sh_worker_log = (\<lambda>job_id. job_id), sh_spawn_recorded = True\<rparr>"

definition ex_settings :: verification_settings where
  "ex_settings = default_settings\<lparr>vs_model := ''m'', vs_role_settings :=
     map (\<lambda>task. \<lparr>rs_task = task, rs_ai_driver = ''codex_cli'', rs_model = ''m'', rs_effort = ''high''\<rparr>) TASK_KINDS\<rparr>"


definition ex_worker_host :: worker_host where
  "ex_worker_host = \<lparr>wh_now = ''t7'', wh_pid = 9, wh_lease_valid = True, wh_lease_text = [], wh_events = [ex_event, ex_event],
     wh_end = Snapshot COMPLETED None\<rparr>"


text \<open>A worker at work, and a client that cancels its job.\<close>

definition ex_working :: control_world where
  "ex_working = \<lparr>cw_db = db_of (mark_running ''t1'' ''j'' 7 (db_of ex_created)), cw_lease = Worker ''j'', cw_suspects = {}\<rparr>"

lemma ex_working_reachable: "world_step\<^sup>*\<^sup>* (first_world ''/p'') ex_working"
proof -
  have "succeeds ex_created" "succeeds (mark_running ''t1'' ''j'' 7 (db_of ex_created))" by code_simp+
  from this [THEN succeeds_db_of] obtain created running
    where rows: "create_job ''t0'' ''j'' ''fp'' None default_settings (empty_jobs ''/p'') = Inr (db_of ex_created, created)"
      "mark_running ''t1'' ''j'' 7 (db_of ex_created) = Inr (db_of (mark_running ''t1'' ''j'' 7 (db_of ex_created)), running)"
    by (auto simp: ex_created_def)
  let ?w = "\<lambda>db lease. \<lparr>cw_db = db, cw_lease = lease, cw_suspects = {}\<rparr>"
  have "world_step (first_world ''/p'') (?w (empty_jobs ''/p'') (Launcher None))"
    using take_lease [of "first_world ''/p''"] unfolding world_step_def by (auto simp: first_world_def)
  moreover have "world_step (?w (empty_jobs ''/p'') (Launcher None)) (?w (db_of ex_created) (Launcher (Some ''j'')))"
    using make_job [of "?w (empty_jobs ''/p'') (Launcher None)"] rows(1) unfolding world_step_def by fastforce
  moreover have "world_step (?w (db_of ex_created) (Launcher (Some ''j''))) (?w (db_of ex_created) (Worker ''j''))"
    using hand_over [of "?w (db_of ex_created) (Launcher (Some ''j''))" "''j''"] unfolding world_step_def by auto
  moreover have "world_step (?w (db_of ex_created) (Worker ''j'')) ex_working"
    using work_start [of "?w (db_of ex_created) (Worker ''j'')"] rows(2) unfolding world_step_def ex_working_def by fastforce
  ultimately show ?thesis by (meson rtranclp.rtrancl_into_rtrancl rtranclp.rtrancl_refl)
qed

theorem live_worker_not_interrupted_witness:
  "\<exists>db' row r'. request_cancel ''t3'' ''j'' (cw_db ex_working) = Inr (db', row) \<and> job_of ''j'' db' = Some r'
     \<and> (jr_state r' = RUNNING \<or> jr_state r' = CANCEL_REQUESTED) \<and> ''j'' \<notin> cw_suspects ex_working"
proof -
  have "case request_cancel ''t3'' ''j'' (cw_db ex_working) of Inl _ \<Rightarrow> False | Inr (db', _) \<Rightarrow> job_of ''j'' db' \<noteq> None"
    "map_option jr_state (job_of ''j'' (cw_db ex_working)) = Some RUNNING"
    by code_simp+
  then obtain db' row r r' where cancel: "request_cancel ''t3'' ''j'' (cw_db ex_working) = Inr (db', row)"
      and r': "job_of ''j'' db' = Some r'" and r: "job_of ''j'' (cw_db ex_working) = Some r" "jr_state r = RUNNING"
    by (auto split: sum.splits)
  have leased: "cw_lease ex_working = Worker ''j''" by (simp add: ex_working_def)
  have "job_of ''j'' (cw_db (ex_working\<lparr>cw_db := db'\<rparr>)) = Some r'" using r' by simp
  from live_worker_not_interrupted [OF ex_working_reachable leased ask_cancel [OF cancel] _ r(1) this] r(2) cancel r' show ?thesis by auto
qed

end
