(* ===== verification/Machine_Config.thy ===== *)
theory Machine_Config
  imports Agent_Tools Decimal
begin

text \<open>
  The machine-wide concurrency settings of \<^verbatim>\<open>concurrency/config.py\<close>: the defaults and the validation, the mapping of a patch to and
  from the settings file, the revisioned store of that file, and the resolution of the scopes with their precedence.
  The dataclasses \<open>ConcurrencyConfig\<close> and \<open>ConcurrencyConfigPatch\<close> hold whatever the file holds until the validation, so a
  configuration maps each of its fields to a value and a patch some of them. An enum member is its text; a mapping of the file
  has texts as keys. The file holds the value it is written from, and is replaced atomically.
\<close>

section \<open>Fields\<close>

datatype config_section = Top_Fields | AI_Section | Lean_Section | Build_Section | Scheduler_Section | Legacy_Section

definition NESTED_SECTIONS :: "config_section list" where
  "NESTED_SECTIONS = [AI_Section, Lean_Section, Build_Section, Scheduler_Section, Legacy_Section]"

primrec section_name :: "config_section \<Rightarrow> string" where
  "section_name Top_Fields = ''''"
| "section_name AI_Section = ''ai''"
| "section_name Lean_Section = ''lean''"
| "section_name Build_Section = ''build''"
| "section_name Scheduler_Section = ''scheduler''"
| "section_name Legacy_Section = ''legacy''"

primrec section_defaults :: "config_section \<Rightarrow> (string \<times> json) list" where
  "section_defaults Top_Fields =
     [(''mode'', JString ''adaptive''), (''resource_profile'', JString ''auto''), (''telemetry_enabled'', JBool True)]"
| "section_defaults AI_Section =
     [(''plan'', JString ''unknown''), (''initial'', JString ''auto''), (''hard_max'', JString ''auto''), (''minimum'', JInt 1),
      (''budget_policy'', JString ''balanced''), (''increase_after_successes'', JString ''auto''),
      (''increase_cooldown_seconds'', JFloat 60), (''throttle_multiplier'', JFloat (1 / 2))]"
| "section_defaults Lean_Section =
     [(''pool_size'', JString ''auto''), (''min_pool'', JInt 1), (''max_pool'', JString ''auto''), (''memory_calibration'', JBool True),
      (''fallback_memory_per_repl_gib'', JFloat 3), (''p95_safety_multiplier'', JFloat (3 / 2)), (''initial_auto_cap'', JInt 32)]"
| "section_defaults Build_Section = [(''max_concurrent'', JString ''auto''), (''min_concurrent'', JInt 1), (''hard_max'', JInt 8)]"
| "section_defaults Scheduler_Section =
     [(''agents_per_target_initial'', JInt 1), (''agents_per_target_max'', JInt 4), (''dependency_priority'', JBool True),
      (''duplicate_agent_escalation'', JBool True)]"
| "section_defaults Legacy_Section = [(''jobs'', JInt 2), (''batch_size'', JInt 8), (''lean_pool_size'', JInt 1)]"

definition section_fields :: "config_section \<Rightarrow> string list" where
  "section_fields s = map fst (section_defaults s)"

type_synonym leaf = "config_section \<times> string"
type_synonym config = "leaf \<Rightarrow> json"
type_synonym config_patch = "leaf \<Rightarrow> json option"

definition section_leaves :: "config_section \<Rightarrow> leaf list" where
  "section_leaves s = map (Pair s) (section_fields s)"

definition LEAVES :: "leaf list" where
  "LEAVES = concat (map section_leaves (Top_Fields # NESTED_SECTIONS))"

definition leaf_path :: "leaf \<Rightarrow> string" where
  "leaf_path leaf = (case leaf of (s, name) \<Rightarrow> if s = Top_Fields then name else section_name s @ ''.'' @ name)"

definition default_config :: config where
  "default_config leaf = (case leaf of (s, name) \<Rightarrow> (case map_of (section_defaults s) name of None \<Rightarrow> JNull | Some v \<Rightarrow> v))"

definition ENUM_FIELDS :: "(leaf \<times> string list) list" where
  "ENUM_FIELDS =
     [((Top_Fields, ''mode''), [''adaptive'', ''fixed'']), ((Top_Fields, ''resource_profile''), [''auto'', ''interactive'', ''server'']),
      ((AI_Section, ''plan''), [''unknown'', ''plus'', ''pro_5x'', ''pro_20x'', ''api'']),
      ((AI_Section, ''budget_policy''), [''economy'', ''balanced'', ''throughput''])]"

definition AUTO_FIELDS :: "leaf list" where
  "AUTO_FIELDS = [(AI_Section, ''initial''), (AI_Section, ''hard_max''), (AI_Section, ''increase_after_successes''),
     (Lean_Section, ''pool_size''), (Lean_Section, ''max_pool''), (Build_Section, ''max_concurrent'')]"

section \<open>Patches and mappings\<close>

definition config_error :: "string \<Rightarrow> py_error" where
  "config_error message = ValueError message"

definition coerce_auto_int :: "leaf \<Rightarrow> json \<Rightarrow> json result" where
  "coerce_auto_int leaf value =
     (case value of
        JString s \<Rightarrow> if s = ''auto'' then Inr value else Inl (config_error (leaf_path leaf @ '' must be 'auto' or an integer''))
      | JInt n \<Rightarrow> Inr value
      | _ \<Rightarrow> Inl (config_error (leaf_path leaf @ '' must be 'auto' or an integer'')))"

definition coerce_patch_value :: "leaf \<Rightarrow> json \<Rightarrow> json result" where
  "coerce_patch_value leaf value =
     (if leaf \<in> set AUTO_FIELDS then coerce_auto_int leaf value
      else case map_of ENUM_FIELDS leaf of
             None \<Rightarrow> Inr value
           | Some choices \<Rightarrow>
               (case value of
                  JString s \<Rightarrow> if s \<in> set choices then Inr value
                    else Inl (config_error (leaf_path leaf @ '' must be one of: '' @ py_join '', '' choices))
                | _ \<Rightarrow> Inl (config_error (leaf_path leaf @ '' must be a string''))))"

text \<open>A field given as \<open>None\<close> is a field of the patch that is not set.\<close>

definition put_value :: "leaf \<Rightarrow> json \<Rightarrow> config_patch \<Rightarrow> config_patch" where
  "put_value leaf value patch = patch(leaf := (if value = JNull then None else Some value))"

definition set_coerced :: "leaf \<Rightarrow> json \<Rightarrow> config_patch \<Rightarrow> config_patch result" where
  "set_coerced leaf value patch = bindE (coerce_patch_value leaf value) (\<lambda>v. Inr (put_value leaf v patch))"

definition unknown_keys :: "string list \<Rightarrow> (string \<times> json) list \<Rightarrow> string list" where
  "unknown_keys allowed payload = sorted_list_of_set (set (map fst payload) - set allowed)"

definition read_section :: "(string \<times> json) list \<Rightarrow> config_section \<Rightarrow> config_patch \<Rightarrow> config_patch result" where
  "read_section payload s patch =
     (case map_of payload (section_name s) of
        None \<Rightarrow> Inr patch
      | Some JNull \<Rightarrow> Inr patch
      | Some (JObject raw) \<Rightarrow>
          if unknown_keys (section_fields s) raw \<noteq> []
          then Inl (config_error (''Unknown concurrency.'' @ section_name s @ '' setting(s): '' @ py_join '', '' (unknown_keys (section_fields s) raw)))
          else foldE (\<lambda>(key, value). set_coerced (s, key) value) raw patch
      | Some _ \<Rightarrow> Inl (config_error (''concurrency.'' @ section_name s @ '' must be a mapping'')))"

definition patch_from_mapping :: "(string \<times> json) list \<Rightarrow> config_patch result" where
  "patch_from_mapping payload =
     (let unknown = unknown_keys (section_fields Top_Fields @ map section_name NESTED_SECTIONS) payload
      in if unknown \<noteq> [] then Inl (config_error (''Unknown concurrency setting(s): '' @ py_join '', '' unknown))
         else bindE (foldE (\<lambda>name patch. case map_of payload name of
                  None \<Rightarrow> Inr patch | Some value \<Rightarrow> set_coerced (Top_Fields, name) value patch)
                (section_fields Top_Fields) (\<lambda>_. None))
              (foldE (read_section payload) NESTED_SECTIONS))"

definition section_values :: "config_patch \<Rightarrow> config_section \<Rightarrow> (string \<times> json) list" where
  "section_values patch s = List.map_filter (\<lambda>name. map_option (Pair name) (patch (s, name))) (section_fields s)"

definition patch_to_mapping :: "config_patch \<Rightarrow> (string \<times> json) list" where
  "patch_to_mapping patch =
     section_values patch Top_Fields
     @ List.map_filter (\<lambda>s. case section_values patch s of [] \<Rightarrow> None | values \<Rightarrow> Some (section_name s, JObject values)) NESTED_SECTIONS"

section \<open>Validation\<close>

definition positive_integer :: "json \<Rightarrow> string \<Rightarrow> int result" where
  "positive_integer value path =
     (case value of
        JInt n \<Rightarrow> if n < 1 then Inl (config_error (path @ '' must be a positive integer'')) else Inr n
      | _ \<Rightarrow> Inl (config_error (path @ '' must be a positive integer'')))"

definition positive_number :: "json \<Rightarrow> string \<Rightarrow> rat result" where
  "positive_number value path =
     (case value of
        JInt n \<Rightarrow> if n \<le> 0 then Inl (config_error (path @ '' must be a positive number'')) else Inr (of_int n)
      | JFloat q \<Rightarrow> if q \<le> 0 then Inl (config_error (path @ '' must be a positive number'')) else Inr q
      | _ \<Rightarrow> Inl (config_error (path @ '' must be a positive number'')))"

definition POSITIVE_FIELDS :: "leaf list" where
  "POSITIVE_FIELDS =
     [(AI_Section, ''minimum''), (Lean_Section, ''min_pool''), (Lean_Section, ''initial_auto_cap''), (Build_Section, ''min_concurrent''),
      (Build_Section, ''hard_max''), (Scheduler_Section, ''agents_per_target_initial''), (Scheduler_Section, ''agents_per_target_max''),
      (Legacy_Section, ''jobs''), (Legacy_Section, ''batch_size''), (Legacy_Section, ''lean_pool_size'')]"

definition BOOLEAN_FIELDS :: "leaf list" where
  "BOOLEAN_FIELDS =
     [(Lean_Section, ''memory_calibration''), (Scheduler_Section, ''dependency_priority''), (Scheduler_Section, ''duplicate_agent_escalation'')]"

fun is_bool :: "json \<Rightarrow> bool" where
  "is_bool (JBool _) = True"
| "is_bool _ = False"

text \<open>The integer of a value that has been checked, if it is one.\<close>

fun as_int :: "json \<Rightarrow> int option" where
  "as_int (JInt n) = Some n"
| "as_int _ = None"

fun both_and :: "('a \<Rightarrow> 'a \<Rightarrow> bool) \<Rightarrow> 'a option \<Rightarrow> 'a option \<Rightarrow> bool" where
  "both_and P (Some m) (Some n) = P m n"
| "both_and P _ _ = False"

definition exceeds :: "config \<Rightarrow> leaf \<Rightarrow> leaf \<Rightarrow> bool" where
  "exceeds config low high \<longleftrightarrow> both_and (\<lambda>m n. n < m) (as_int (config low)) (as_int (config high))"

definition ensure :: "bool \<Rightarrow> string \<Rightarrow> unit result" where
  "ensure ok message = (if ok then Inr () else Inl (config_error message))"

definition ORDERED_FIELDS :: "(leaf \<times> leaf \<times> string) list" where
  "ORDERED_FIELDS =
     [((Scheduler_Section, ''agents_per_target_initial''), (Scheduler_Section, ''agents_per_target_max''),
        ''scheduler.agents_per_target_initial cannot exceed its maximum''),
      ((AI_Section, ''minimum''), (AI_Section, ''hard_max''), ''ai.minimum cannot exceed ai.hard_max''),
      ((Lean_Section, ''min_pool''), (Lean_Section, ''max_pool''), ''lean.min_pool cannot exceed lean.max_pool''),
      ((Build_Section, ''min_concurrent''), (Build_Section, ''hard_max''), ''build.min_concurrent cannot exceed build.hard_max'')]"

definition ORDERED_INITIALS :: "(leaf \<times> leaf \<times> string) list" where
  "ORDERED_INITIALS =
     [((AI_Section, ''initial''), (AI_Section, ''hard_max''), ''ai.initial cannot exceed ai.hard_max''),
      ((Lean_Section, ''pool_size''), (Lean_Section, ''max_pool''), ''lean.pool_size cannot exceed lean.max_pool''),
      ((Build_Section, ''max_concurrent''), (Build_Section, ''hard_max''), ''build.max_concurrent cannot exceed build.hard_max'')]"

definition FIXED_FIELDS :: "leaf list" where
  "FIXED_FIELDS = [(AI_Section, ''initial''), (Lean_Section, ''pool_size''), (Build_Section, ''max_concurrent'')]"

definition check_each :: "('a \<Rightarrow> unit result) \<Rightarrow> 'a list \<Rightarrow> unit result" where
  "check_each f xs = foldE (\<lambda>x _. f x) xs ()"

definition check_ordered :: "config \<Rightarrow> leaf \<times> leaf \<times> string \<Rightarrow> unit result" where
  "check_ordered config pair = (case pair of (low, high, message) \<Rightarrow> ensure (\<not> exceeds config low high) message)"

definition validate_config :: "config \<Rightarrow> unit result" where
  "validate_config config =
     bindE (ensure (is_bool (config (Top_Fields, ''telemetry_enabled''))) ''telemetry_enabled must be true or false'') (\<lambda>_.
     bindE (check_each (\<lambda>leaf. if config leaf = JString ''auto'' then Inr ()
              else bindE (positive_integer (config leaf) (leaf_path leaf)) (\<lambda>_. Inr ())) AUTO_FIELDS) (\<lambda>_.
     bindE (check_each (\<lambda>leaf. bindE (positive_integer (config leaf) (leaf_path leaf)) (\<lambda>_. Inr ())) POSITIVE_FIELDS) (\<lambda>_.
     bindE (positive_number (config (AI_Section, ''increase_cooldown_seconds'')) ''ai.increase_cooldown_seconds'') (\<lambda>cooldown.
     bindE (positive_number (config (AI_Section, ''throttle_multiplier'')) ''ai.throttle_multiplier'') (\<lambda>throttle.
     bindE (positive_number (config (Lean_Section, ''fallback_memory_per_repl_gib'')) ''lean.fallback_memory_per_repl_gib'') (\<lambda>_.
     bindE (positive_number (config (Lean_Section, ''p95_safety_multiplier'')) ''lean.p95_safety_multiplier'') (\<lambda>safety.
     bindE (ensure (throttle < 1) ''ai.throttle_multiplier must be between 0 and 1'') (\<lambda>_.
     bindE (ensure (0 < cooldown) ''ai.increase_cooldown_seconds must be positive'') (\<lambda>_.
     bindE (ensure (1 \<le> safety) ''lean.p95_safety_multiplier must be at least 1'') (\<lambda>_.
     bindE (check_each (\<lambda>leaf. ensure (is_bool (config leaf)) (leaf_path leaf @ '' must be true or false'')) BOOLEAN_FIELDS) (\<lambda>_.
     bindE (check_each (check_ordered config) ORDERED_FIELDS) (\<lambda>_.
     bindE (ensure (\<not> both_and (<) (Some 128) (as_int (config (Legacy_Section, ''jobs''))))
       ''legacy.jobs must be between 1 and 128 for the compatibility verifier'') (\<lambda>_.
     bindE (check_each (check_ordered config) ORDERED_INITIALS) (\<lambda>_.
     if config (Top_Fields, ''mode'') = JString ''fixed''
     then let missing = filter (\<lambda>leaf. config leaf = JString ''auto'') FIXED_FIELDS
          in ensure (missing = []) (''Fixed concurrency mode requires numeric values for: '' @ py_join '', '' (map leaf_path missing))
     else Inr ()))))))))))))))"

section \<open>Resolution\<close>

datatype config_scope = Scope_Default | Scope_Machine | Scope_Project | Scope_Environment | Scope_CLI

type_synonym environ = "string \<Rightarrow> string option"

definition env_integer :: "environ \<Rightarrow> string \<Rightarrow> int option result" where
  "env_integer env name =
     (case env name of
        None \<Rightarrow> Inr None
      | Some raw \<Rightarrow>
          (case py_int raw of
             Inl _ \<Rightarrow> Inl (config_error (name @ '' must be a positive integer''))
           | Inr parsed \<Rightarrow> bindE (positive_integer (JInt parsed) name) (\<lambda>n. Inr (Some n))))"

definition env_mode :: "environ \<Rightarrow> string option result" where
  "env_mode env =
     (case env ''PROOF_ASSISTANT_CONCURRENCY_MODE'' of
        None \<Rightarrow> Inr None
      | Some raw \<Rightarrow>
          if raw = [] then Inr None
          else if py_casefold raw \<in> {''adaptive'', ''fixed''} then Inr (Some (py_casefold raw))
          else Inl (config_error ''PROOF_ASSISTANT_CONCURRENCY_MODE must be adaptive or fixed''))"

definition environment_patch :: "environ \<Rightarrow> config_patch result" where
  "environment_patch env =
     bindE (env_mode env) (\<lambda>mode.
     bindE (env_integer env ''PROOF_ASSISTANT_AI_CONCURRENCY'') (\<lambda>ai.
     bindE (env_integer env ''PROOF_ASSISTANT_LEAN_POOL_SIZE'') (\<lambda>lean.
     bindE (env_integer env ''PROOF_ASSISTANT_MAX_BUILDS'') (\<lambda>builds.
     bindE (env_integer env ''PROOF_ASSISTANT_AGENTS_PER_TARGET'') (\<lambda>agents.
     Inr (\<lambda>leaf.
       if leaf = (Top_Fields, ''mode'') then map_option JString mode
       else if leaf \<in> {(AI_Section, ''initial''), (AI_Section, ''hard_max'')} then map_option JInt ai
       else if leaf \<in> {(Lean_Section, ''pool_size''), (Lean_Section, ''max_pool'')} then map_option JInt lean
       else if leaf \<in> {(Build_Section, ''max_concurrent''), (Build_Section, ''hard_max'')} then map_option JInt builds
       else if leaf = (Scheduler_Section, ''agents_per_target_max'') then map_option JInt agents
       else None))))))"

record machine_settings =
  ms_revision :: int
  ms_patch :: config_patch

datatype machine_layer = No_Machine | Machine_Settings machine_settings | Machine_Patch config_patch

record resolved_config =
  rc_config :: config
  rc_sources :: "leaf \<Rightarrow> config_scope option"
  rc_machine_revision :: int

definition iter_patch_values :: "config_patch \<Rightarrow> (leaf \<times> json) list" where
  "iter_patch_values patch = List.map_filter (\<lambda>leaf. map_option (Pair leaf) (patch leaf)) LEAVES"

definition config_leaf_values :: "config \<Rightarrow> (leaf \<times> json) list" where
  "config_leaf_values config = map (\<lambda>leaf. (leaf, config leaf)) LEAVES"

definition set_leaf :: "config \<Rightarrow> leaf \<Rightarrow> json \<Rightarrow> config" where
  "set_leaf config leaf value = config(leaf := value)"

definition apply_layer ::
    "config_scope \<times> config_patch option \<Rightarrow> config \<times> (leaf \<Rightarrow> config_scope option) \<Rightarrow> config \<times> (leaf \<Rightarrow> config_scope option)" where
  "apply_layer layer state =
     (case layer of
        (scope, None) \<Rightarrow> state
      | (scope, Some patch) \<Rightarrow>
          fold (\<lambda>(leaf, value) (config, sources). (set_leaf config leaf value, sources(leaf := Some scope))) (iter_patch_values patch) state)"

definition resolve_concurrency_config ::
    "machine_layer \<Rightarrow> config_patch option \<Rightarrow> environ \<Rightarrow> config_patch option \<Rightarrow> config option \<Rightarrow> resolved_config result" where
  "resolve_concurrency_config machine project env cli defaults =
     (let config = (case defaults of None \<Rightarrow> default_config | Some c \<Rightarrow> c);
          sources = map_of (map (\<lambda>(leaf, _). (leaf, Scope_Default)) (config_leaf_values config));
          (revision, machine_patch) = (case machine of
             No_Machine \<Rightarrow> (0, None) | Machine_Settings s \<Rightarrow> (ms_revision s, Some (ms_patch s)) | Machine_Patch p \<Rightarrow> (0, Some p))
      in bindE (environment_patch env) (\<lambda>env_patch.
         let (config', sources') = fold apply_layer
               [(Scope_Machine, machine_patch), (Scope_Project, project), (Scope_Environment, Some env_patch), (Scope_CLI, cli)] (config, sources)
         in bindE (validate_config config') (\<lambda>_.
            Inr \<lparr>rc_config = config', rc_sources = sources', rc_machine_revision = revision\<rparr>)))"

definition source_for :: "resolved_config \<Rightarrow> leaf \<Rightarrow> config_scope result" where
  "source_for resolved leaf =
     (case rc_sources resolved leaf of None \<Rightarrow> Inl (KeyError (''Unknown concurrency setting: '' @ leaf_path leaf)) | Some scope \<Rightarrow> Inr scope)"

section \<open>The settings file\<close>

datatype config_file = Missing | Unreadable | Parsed json

text \<open>\<open>1\<close>, \<open>1.0\<close> and \<open>True\<close> are equal.\<close>

definition equals_one :: "json \<Rightarrow> bool" where
  "equals_one value \<longleftrightarrow> value \<in> {JInt 1, JFloat 1, JBool True}"

definition load_unlocked :: "config_file \<Rightarrow> machine_settings result" where
  "load_unlocked file =
     (case file of
        Missing \<Rightarrow> Inr \<lparr>ms_revision = 0, ms_patch = (\<lambda>_. None)\<rparr>
      | Unreadable \<Rightarrow> Inl (config_error ''Invalid machine concurrency settings'')
      | Parsed (JObject raw) \<Rightarrow>
          if \<not> (case map_of raw ''schema_version'' of None \<Rightarrow> False | Some v \<Rightarrow> equals_one v)
          then Inl (config_error ''Unsupported machine concurrency settings schema version'')
          else if map_of raw ''scope'' \<noteq> Some (JString ''MACHINE'')
          then Inl (config_error ''Machine settings must declare scope: MACHINE'')
          else (case map_of raw ''revision'' of
                  Some (JInt revision) \<Rightarrow>
                    if revision < 0 then Inl (config_error ''Machine settings revision must be non-negative'')
                    else (case map_of raw ''concurrency'' of
                            None \<Rightarrow> bindE (patch_from_mapping []) (\<lambda>patch. Inr \<lparr>ms_revision = revision, ms_patch = patch\<rparr>)
                          | Some (JObject concurrency) \<Rightarrow>
                              bindE (patch_from_mapping concurrency) (\<lambda>patch. Inr \<lparr>ms_revision = revision, ms_patch = patch\<rparr>)
                          | Some _ \<Rightarrow> Inl (config_error ''Machine concurrency settings must be a mapping''))
                | _ \<Rightarrow> Inl (config_error ''Machine settings revision must be non-negative''))
      | Parsed _ \<Rightarrow> Inl (config_error ''Machine settings must be a YAML mapping''))"

definition write_unlocked :: "machine_settings \<Rightarrow> config_file" where
  "write_unlocked settings = Parsed (JObject
     [(''schema_version'', JInt 1), (''scope'', JString ''MACHINE''), (''revision'', JInt (ms_revision settings)),
      (''concurrency'', JObject (patch_to_mapping (ms_patch settings)))])"

text \<open>The validation resolves with the environment of the process that saves.\<close>

definition save :: "environ \<Rightarrow> config_patch \<Rightarrow> int \<Rightarrow> (config_file, machine_settings) op" where
  "save env patch expected_revision file =
     (case bindE (load_unlocked file) (\<lambda>current.
             if ms_revision current \<noteq> expected_revision then Inl (config_error ''Machine concurrency settings changed'')
             else let candidate = \<lparr>ms_revision = ms_revision current + 1, ms_patch = patch\<rparr>
                  in bindE (resolve_concurrency_config (Machine_Settings candidate) None env None None) (\<lambda>_. Inr candidate)) of
        Inl e \<Rightarrow> (file, Inl e)
      | Inr candidate \<Rightarrow> (write_unlocked candidate, Inr candidate))"

section \<open>The precedence of the scopes\<close>

lemma map_filter_Cons: "List.map_filter f (x # xs) = (case f x of None \<Rightarrow> List.map_filter f xs | Some y \<Rightarrow> y # List.map_filter f xs)"
  by (simp add: List.map_filter_def split: option.splits)

lemma map_filter_Nil [simp]: "List.map_filter f [] = []"
  by (simp add: List.map_filter_def)

lemma apply_layer_fold:
  "fold (\<lambda>(leaf, value) (config, sources). (set_leaf config leaf value, sources(leaf := Some scope)))
      (List.map_filter (\<lambda>leaf. map_option (Pair leaf) (patch leaf)) leaves) (config, sources)
    = (\<lambda>leaf. case patch leaf of None \<Rightarrow> config leaf | Some v \<Rightarrow> if leaf \<in> set leaves then v else config leaf,
       \<lambda>leaf. if leaf \<in> set leaves \<and> patch leaf \<noteq> None then Some scope else sources leaf)"
proof (induction leaves arbitrary: config sources)
  case (Cons leaf leaves)
  then show ?case by (cases "patch leaf") (auto simp: map_filter_Cons set_leaf_def fun_eq_iff split: option.splits)
qed (simp add: fun_eq_iff split: option.splits)

lemma apply_layer_simps:
  "apply_layer (scope, None) state = state"
  "apply_layer (scope, Some patch) (config, sources) =
     (\<lambda>leaf. case patch leaf of None \<Rightarrow> config leaf | Some v \<Rightarrow> if leaf \<in> set LEAVES then v else config leaf,
      \<lambda>leaf. if leaf \<in> set LEAVES \<and> patch leaf \<noteq> None then Some scope else sources leaf)"
  by (simp_all add: apply_layer_def iter_patch_values_def apply_layer_fold)

text \<open>What the layers say of a field, the highest first.\<close>

fun winning :: "(config_scope \<times> config_patch option) list \<Rightarrow> leaf \<Rightarrow> (config_scope \<times> json) option" where
  "winning [] leaf = None"
| "winning ((scope, patch) # layers) leaf =
     (case Option.bind patch (\<lambda>p. p leaf) of None \<Rightarrow> winning layers leaf | Some value \<Rightarrow> Some (scope, value))"

lemma winning_append: "winning (layers @ layers') leaf = (case winning layers leaf of None \<Rightarrow> winning layers' leaf | Some w \<Rightarrow> Some w)"
  by (induction layers leaf rule: winning.induct) (auto split: option.splits)

lemma apply_layers_winning:
  assumes "leaf \<in> set LEAVES" and "fold apply_layer layers (config, sources) = (config', sources')"
  shows "(config' leaf, sources' leaf) = (case winning (rev layers) leaf of
     None \<Rightarrow> (config leaf, sources leaf) | Some (scope, value) \<Rightarrow> (value, Some scope))"
  using assms(2)
proof (induction layers arbitrary: config sources)
  case (Cons layer layers)
  obtain scope patch where layer: "layer = (scope, patch)" by fastforce
  obtain config1 sources1 where step: "apply_layer layer (config, sources) = (config1, sources1)" by fastforce
  then have rest: "(config' leaf, sources' leaf) = (case winning (rev layers) leaf of
     None \<Rightarrow> (config1 leaf, sources1 leaf) | Some (scope, value) \<Rightarrow> (value, Some scope))"
    using Cons.prems by (intro Cons.IH) simp
  have "(config1 leaf, sources1 leaf) = (case winning [layer] leaf of None \<Rightarrow> (config leaf, sources leaf) | Some (scope, value) \<Rightarrow> (value, Some scope))"
    using step assms(1) unfolding layer by (cases patch) (auto simp: apply_layer_simps split: option.splits)
  then show ?case using rest by (simp add: winning_append split: option.splits)
qed simp

definition machine_patch_of :: "machine_layer \<Rightarrow> config_patch option" where
  "machine_patch_of machine = (case machine of No_Machine \<Rightarrow> None | Machine_Settings s \<Rightarrow> Some (ms_patch s) | Machine_Patch p \<Rightarrow> Some p)"

lemma map_of_const: "map_of (map (\<lambda>x. (x, c)) xs) y = (if y \<in> set xs then Some c else None)"
  by (induction xs) auto

lemma resolve_Inr:
  assumes "resolve_concurrency_config machine project env cli defaults = Inr r"
  obtains env_patch sources where "environment_patch env = Inr env_patch" "validate_config (rc_config r) = Inr ()"
    "fold apply_layer [(Scope_Machine, machine_patch_of machine), (Scope_Project, project), (Scope_Environment, Some env_patch), (Scope_CLI, cli)]
       (case defaults of None \<Rightarrow> default_config | Some c \<Rightarrow> c, sources) = (rc_config r, rc_sources r)"
    "\<And>leaf. leaf \<in> set LEAVES \<Longrightarrow> sources leaf = Some Scope_Default"
proof -
  let ?config = "case defaults of None \<Rightarrow> default_config | Some c \<Rightarrow> c"
  let ?sources = "map_of (map (\<lambda>leaf. (leaf, Scope_Default)) LEAVES)"
  obtain env_patch where env: "environment_patch env = Inr env_patch"
    using assms by (cases "environment_patch env") (auto simp: resolve_concurrency_config_def Let_def split: prod.splits)
  have "(case machine of No_Machine \<Rightarrow> (0, None) | Machine_Settings s \<Rightarrow> (ms_revision s, Some (ms_patch s)) | Machine_Patch p \<Rightarrow> (0, Some p))
      = (rc_machine_revision r, machine_patch_of machine) \<and> validate_config (rc_config r) = Inr ()
      \<and> fold apply_layer [(Scope_Machine, machine_patch_of machine), (Scope_Project, project), (Scope_Environment, Some env_patch), (Scope_CLI, cli)]
       (?config, ?sources) = (rc_config r, rc_sources r)"
    using assms env
    by (cases machine) (auto simp: resolve_concurrency_config_def Let_def bindE_Inr_iff machine_patch_of_def config_leaf_values_def comp_def
      split: prod.splits)
  then show ?thesis using that [OF env, of ?sources] by (simp add: map_of_const)
qed

text \<open>C33. The precedence of the scopes: in a resolved configuration every field has the value of the highest of command line, environment,
  project and machine that sets it, and its default when none does, and its recorded source is exactly that scope.\<close>

theorem resolution_precedence:
  assumes "resolve_concurrency_config machine project env cli defaults = Inr r" and "leaf \<in> set LEAVES"
  shows "\<exists>env_patch. environment_patch env = Inr env_patch
    \<and> (case winning [(Scope_CLI, cli), (Scope_Environment, Some env_patch), (Scope_Project, project), (Scope_Machine, machine_patch_of machine)] leaf of
         None \<Rightarrow> rc_config r leaf = (case defaults of None \<Rightarrow> default_config leaf | Some c \<Rightarrow> c leaf) \<and> source_for r leaf = Inr Scope_Default
       | Some (scope, value) \<Rightarrow> rc_config r leaf = value \<and> source_for r leaf = Inr scope)"
proof -
  obtain env_patch sources where r: "environment_patch env = Inr env_patch"
    "fold apply_layer [(Scope_Machine, machine_patch_of machine), (Scope_Project, project), (Scope_Environment, Some env_patch), (Scope_CLI, cli)]
       (case defaults of None \<Rightarrow> default_config | Some c \<Rightarrow> c, sources) = (rc_config r, rc_sources r)"
    "sources leaf = Some Scope_Default"
    using resolve_Inr [OF assms(1)] assms(2) by metis
  note winner = apply_layers_winning [OF assms(2) r(2)]
  show ?thesis
    using winner r(1,3) by (intro exI [of _ env_patch]) (auto simp: source_for_def split: option.splits prod.splits)
qed

section \<open>The settings file holds the patch\<close>

text \<open>The patches that \<open>patch_from_mapping\<close> builds: only fields that exist, with values that the coercion accepts.\<close>

definition patch_ok :: "config_patch \<Rightarrow> bool" where
  "patch_ok patch \<longleftrightarrow> (\<forall>leaf v. patch leaf = Some v \<longrightarrow> leaf \<in> set LEAVES \<and> v \<noteq> JNull \<and> coerce_patch_value leaf v = Inr v)"

text \<open>The part of a patch that lies in some fields, over another patch.\<close>

definition part_of :: "leaf set \<Rightarrow> config_patch \<Rightarrow> config_patch \<Rightarrow> config_patch" where
  "part_of part patch base leaf = (if leaf \<in> part \<and> patch leaf \<noteq> None then patch leaf else base leaf)"

lemma part_of_simps [simp]:
  "part_of {} patch base = base"
  "part_of A patch (part_of B patch base) = part_of (A \<union> B) patch base"
  by (auto simp: part_of_def fun_eq_iff)

lemma in_LEAVES: "(s, name) \<in> set LEAVES \<longleftrightarrow> name \<in> set (section_fields s)"
  by (cases s) (auto simp: LEAVES_def NESTED_SECTIONS_def section_leaves_def)

lemma patch_okD:
  assumes "patch_ok patch" and "patch leaf = Some v"
  shows "leaf \<in> set LEAVES" "v \<noteq> JNull" "coerce_patch_value leaf v = Inr v"
  using assms unfolding patch_ok_def by blast+

lemma set_coerced_ok:
  assumes "patch_ok patch" and "patch leaf = Some v"
  shows "set_coerced leaf v base = Inr (part_of {leaf} patch base)"
  using patch_okD [OF assms] assms(2) by (auto simp: set_coerced_def put_value_def part_of_def fun_eq_iff)

lemma part_of_unset: "patch leaf = None \<Longrightarrow> part_of (insert leaf A) patch base = part_of A patch base"
  by (auto simp: part_of_def fun_eq_iff)

lemma fold_values:
  "patch_ok patch \<Longrightarrow> foldE (\<lambda>(key, v). set_coerced (s, key) v) (List.map_filter (\<lambda>name. map_option (Pair name) (patch (s, name))) names) base
     = Inr (part_of (Pair s ` set names) patch base)"
  by (induction names arbitrary: base)
    (auto simp: map_filter_Cons set_coerced_ok part_of_unset split: option.splits)

lemma map_of_values:
  "map_of (List.map_filter (\<lambda>name. map_option (Pair name) (f name)) names) name = (if name \<in> set names then f name else None)"
  by (induction names) (auto simp: map_filter_Cons split: option.splits)

lemma section_values_keys: "set (map fst (section_values patch s)) \<subseteq> set (section_fields s)"
  by (auto simp: section_values_def List.map_filter_def split: option.splits)

lemma unknown_keys_empty: "set (map fst payload) \<subseteq> set allowed \<Longrightarrow> unknown_keys allowed payload = []"
  by (simp add: unknown_keys_def Diff_eq_empty_iff [THEN iffD2])

lemma read_section_ok:
  assumes "patch_ok patch"
    and "map_of payload (section_name s) = (if section_values patch s = [] then None else Some (JObject (section_values patch s)))"
  shows "read_section payload s base = Inr (part_of (Pair s ` set (section_fields s)) patch base)"
proof -
  note fields_read = fold_values [OF assms(1), of s "section_fields s" base, folded section_values_def]
  show ?thesis
  proof (cases "section_values patch s = []")
    case True
    then show ?thesis using fields_read assms(2) by (simp add: read_section_def)
  next
    case False
    then show ?thesis
      using fields_read assms(2) unknown_keys_empty [OF section_values_keys [of patch s]] by (simp add: read_section_def)
  qed
qed

lemma read_sections_ok:
  assumes "patch_ok patch"
    and "\<And>s. s \<in> set ss \<Longrightarrow>
       map_of payload (section_name s) = (if section_values patch s = [] then None else Some (JObject (section_values patch s)))"
  shows "foldE (read_section payload) ss base = Inr (part_of (\<Union>s\<in>set ss. Pair s ` set (section_fields s)) patch base)"
  using assms(2) by (induction ss arbitrary: base) (simp_all add: read_section_ok [OF assms(1)] Un_commute)

lemma read_top_ok:
  assumes "patch_ok patch" and "\<And>name. name \<in> set names \<Longrightarrow> map_of payload name = patch (s, name)"
  shows "foldE (\<lambda>name q. case map_of payload name of None \<Rightarrow> Inr q | Some v \<Rightarrow> set_coerced (s, name) v q) names base
     = Inr (part_of (Pair s ` set names) patch base)"
  using assms(2)
  by (induction names arbitrary: base) (auto simp: set_coerced_ok [OF assms(1)] part_of_unset split: option.splits)

lemma map_of_nested:
  "inj_on name_of (insert s (set ss)) \<Longrightarrow>
     map_of (List.map_filter (\<lambda>s. case vals s of [] \<Rightarrow> None | vs \<Rightarrow> Some (name_of s, JObject vs)) ss) (name_of s)
       = (if s \<in> set ss \<and> vals s \<noteq> [] then Some (JObject (vals s)) else None)"
proof (induction ss)
  case (Cons s' ss)
  have inj: "inj_on name_of (insert s (set ss))" by (rule inj_on_subset [OF Cons.prems]) auto
  have same: "name_of s' = name_of s \<longleftrightarrow> s' = s" using inj_on_eq_iff [OF Cons.prems, of s' s] by simp
  show ?case using Cons.IH [OF inj] same by (cases "s' = s"; cases "vals s'") (auto simp: map_filter_Cons)
qed simp

lemma map_of_nested_other:
  "name \<notin> name_of ` set ss \<Longrightarrow>
     map_of (List.map_filter (\<lambda>s. case vals s of [] \<Rightarrow> None | vs \<Rightarrow> Some (name_of s, JObject vs)) ss) name = None"
  by (induction ss) (auto simp: map_filter_Cons split: list.splits)

lemma section_names: "inj section_name" "section_name s \<notin> set (section_fields Top_Fields)" "name \<in> set (section_fields Top_Fields) \<Longrightarrow> name \<noteq> section_name s"
proof -
  show "inj section_name"
  proof (rule injI)
    show "section_name a = section_name b \<Longrightarrow> a = b" for a b by (cases a; cases b) simp_all
  qed
  show "section_name s \<notin> set (section_fields Top_Fields)" by (cases s) (simp_all add: section_fields_def)
  then show "name \<in> set (section_fields Top_Fields) \<Longrightarrow> name \<noteq> section_name s" by auto
qed

lemma map_of_patch_to_mapping:
  "name \<in> set (section_fields Top_Fields) \<Longrightarrow> map_of (patch_to_mapping patch) name = patch (Top_Fields, name)"
  "s \<in> set NESTED_SECTIONS \<Longrightarrow>
     map_of (patch_to_mapping patch) (section_name s) = (if section_values patch s = [] then None else Some (JObject (section_values patch s)))"
proof -
  let ?nested = "List.map_filter (\<lambda>s. case section_values patch s of [] \<Rightarrow> None | values \<Rightarrow> Some (section_name s, JObject values)) NESTED_SECTIONS"
  have split: "map_of (patch_to_mapping patch) name
      = (case map_of (section_values patch Top_Fields) name of None \<Rightarrow> map_of ?nested name | Some v \<Rightarrow> Some v)" for name
    by (simp add: patch_to_mapping_def map_add_def)
  show "map_of (patch_to_mapping patch) name = patch (Top_Fields, name)" if "name \<in> set (section_fields Top_Fields)"
    using that section_names(3) map_of_nested_other [of name section_name NESTED_SECTIONS "section_values patch"]
    unfolding split by (auto simp: section_values_def [of _ Top_Fields] map_of_values split: option.splits)
  show "map_of (patch_to_mapping patch) (section_name s) = (if section_values patch s = [] then None else Some (JObject (section_values patch s)))"
    if "s \<in> set NESTED_SECTIONS"
    using that section_names(2) [of s] map_of_nested [where name_of = section_name and s = s and ss = NESTED_SECTIONS and vals = "section_values patch",
        OF inj_on_subset [OF section_names(1) subset_UNIV]]
    unfolding split by (simp add: section_values_def [of _ Top_Fields] map_of_values)
qed

lemma patch_to_mapping_keys:
  "set (map fst (patch_to_mapping patch)) \<subseteq> set (section_fields Top_Fields @ map section_name NESTED_SECTIONS)"
  using section_values_keys [of patch Top_Fields]
  by (auto simp: patch_to_mapping_def List.map_filter_def split: list.splits)

lemma patch_mapping_roundtrip:
  assumes "patch_ok patch"
  shows "patch_from_mapping (patch_to_mapping patch) = Inr patch"
proof -
  have all: "part_of (Pair Top_Fields ` set (section_fields Top_Fields) \<union> (\<Union>s\<in>set NESTED_SECTIONS. Pair s ` set (section_fields s)))
      patch (\<lambda>_. None) = patch"
  proof
    fix leaf
    show "part_of (Pair Top_Fields ` set (section_fields Top_Fields) \<union> (\<Union>s\<in>set NESTED_SECTIONS. Pair s ` set (section_fields s)))
      patch (\<lambda>_. None) leaf = patch leaf"
    proof (cases "patch leaf")
      case (Some v)
      then have "leaf \<in> set LEAVES" by (rule patch_okD [OF assms])
      then have "leaf \<in> Pair Top_Fields ` set (section_fields Top_Fields) \<union> (\<Union>s\<in>set NESTED_SECTIONS. Pair s ` set (section_fields s))"
        by (auto simp: LEAVES_def section_leaves_def)
      then show ?thesis by (simp add: part_of_def)
    qed (simp add: part_of_def)
  qed
  show ?thesis
    using read_top_ok [OF assms, of "section_fields Top_Fields" "patch_to_mapping patch" Top_Fields "\<lambda>_. None"]
      read_sections_ok [OF assms, of NESTED_SECTIONS "patch_to_mapping patch"] map_of_patch_to_mapping [of _ patch]
      unknown_keys_empty [OF patch_to_mapping_keys [of patch]] all
    by (simp add: patch_from_mapping_def Let_def Un_commute)
qed

lemma set_coerced_patch_ok:
  assumes "set_coerced leaf v patch = Inr patch'" and "patch_ok patch" and "leaf \<in> set LEAVES"
  shows "patch_ok patch'"
proof -
  obtain v' where v': "coerce_patch_value leaf v = Inr v'" "patch' = put_value leaf v' patch"
    using assms(1) by (auto simp: set_coerced_def bindE_Inr_iff)
  then have "v' = v" by (auto simp: coerce_patch_value_def coerce_auto_int_def split: if_splits json.splits option.splits)
  then have "coerce_patch_value leaf v' = Inr v'" using v'(1) by simp
  then show ?thesis using assms(2,3) v'(2) unfolding patch_ok_def put_value_def by auto
qed

lemma read_section_patch_ok:
  assumes "read_section payload s patch = Inr patch'" and "patch_ok patch"
  shows "patch_ok patch'"
proof -
  have "patch_ok patch'" if raw: "foldE (\<lambda>(key, v). set_coerced (s, key) v) raw patch = Inr patch'" "unknown_keys (section_fields s) raw = []" for raw
  proof (rule foldE_invariant [where I = patch_ok, OF raw(1) assms(2)])
    fix x and q q' :: config_patch
    assume x: "x \<in> set raw" "patch_ok q" "(case x of (key, v) \<Rightarrow> set_coerced (s, key) v) q = Inr q'"
    obtain key v where kv: "x = (key, v)" by fastforce
    have "set (map fst raw) \<subseteq> set (section_fields s)" using raw(2) by (simp add: unknown_keys_def)
    then have "(s, key) \<in> set LEAVES" using x(1) kv by (force simp: in_LEAVES)
    then show "patch_ok q'" using set_coerced_patch_ok x(2,3) kv by simp
  qed
  with assms show ?thesis by (auto simp: read_section_def split: option.splits json.splits if_splits)
qed

lemma patch_from_mapping_ok:
  assumes "patch_from_mapping payload = Inr patch"
  shows "patch_ok patch"
proof -
  obtain top where top: "foldE (\<lambda>name patch. case map_of payload name of
                  None \<Rightarrow> Inr patch | Some v \<Rightarrow> set_coerced (Top_Fields, name) v patch)
                (section_fields Top_Fields) (\<lambda>_. None) = Inr top"
      and rest: "foldE (read_section payload) NESTED_SECTIONS top = Inr patch"
    using assms by (auto simp: patch_from_mapping_def Let_def bindE_Inr_iff split: if_splits)
  have "patch_ok top"
  proof (rule foldE_invariant [where I = patch_ok, OF top])
    fix name and q q' :: config_patch
    assume step: "name \<in> set (section_fields Top_Fields)" "patch_ok q"
      "(case map_of payload name of None \<Rightarrow> Inr q | Some v \<Rightarrow> set_coerced (Top_Fields, name) v q) = Inr q'"
    have "(Top_Fields, name) \<in> set LEAVES" using step(1) by (simp add: in_LEAVES)
    then show "patch_ok q'" using step(2,3) set_coerced_patch_ok by (auto split: option.splits)
  qed (simp add: patch_ok_def)
  then show ?thesis by (rule foldE_invariant [where I = patch_ok, OF rest]) (rule read_section_patch_ok)
qed

text \<open>C36. What a settings file says survives being read and written: a patch that was read from any mapping is written as a mapping that
  reads back as the same patch.\<close>

theorem settings_roundtrip:
  assumes "patch_from_mapping payload = Inr patch"
  shows "patch_from_mapping (patch_to_mapping patch) = Inr patch"
  by (rule patch_mapping_roundtrip [OF patch_from_mapping_ok [OF assms]])

section \<open>Saving\<close>

lemma load_revision: "load_unlocked stored = Inr s \<Longrightarrow> 0 \<le> ms_revision s"
  by (auto simp: load_unlocked_def bindE_Inr_iff split: config_file.splits json.splits if_splits option.splits)

lemma load_write:
  "patch_ok (ms_patch s) \<Longrightarrow> 0 \<le> ms_revision s \<Longrightarrow> load_unlocked (write_unlocked s) = Inr s"
  by (simp add: load_unlocked_def write_unlocked_def equals_one_def patch_mapping_roundtrip)

lemma save_Inr:
  assumes "save env patch expected stored = (stored', Inr s')"
  shows "\<exists>s. load_unlocked stored = Inr s \<and> expected = ms_revision s \<and> s' = \<lparr>ms_revision = expected + 1, ms_patch = patch\<rparr>
    \<and> stored' = write_unlocked s'"
  using assms by (auto simp: save_def Let_def bindE_Inr_iff split: sum.splits if_splits)

lemma save_Inl: "save env patch expected stored = (stored', Inl e) \<Longrightarrow> stored' = stored"
  by (auto simp: save_def split: sum.splits)

text \<open>What happens to the file when any clients save, each with the revision it has read.\<close>

fun run_saves :: "(environ \<times> config_patch \<times> int) list \<Rightarrow> config_file \<Rightarrow> config_file \<times> (int \<times> config_patch) list" where
  "run_saves [] stored = (stored, [])"
| "run_saves ((env, patch, expected) # attempts) stored =
     (case save env patch expected stored of
        (stored', Inl _) \<Rightarrow> run_saves attempts stored'
      | (stored', Inr _) \<Rightarrow> (let (stored'', saved) = run_saves attempts stored' in (stored'', (expected, patch) # saved)))"

lemma run_saves_attempts: "set (snd (run_saves attempts stored)) \<subseteq> (\<lambda>(_, patch, expected). (expected, patch)) ` set attempts"
  by (induction attempts stored rule: run_saves.induct) (fastforce simp: Let_def split: prod.splits sum.splits)+

text \<open>C34. No save is lost: of any saves of any clients, in any order and with any environments, those that succeed were based on consecutive
  revisions, so no two on the same one; the file always loads, and what it then holds is the patch of the last
  successful save, with a revision that counts them all.\<close>

theorem saves_are_serialized:
  assumes "load_unlocked stored = Inr s" and "list_all (\<lambda>(_, patch, _). patch_ok patch) attempts"
    and "run_saves attempts stored = (stored', saved)"
  shows "map fst saved = map (\<lambda>i. ms_revision s + int i) [0..<length saved]
    \<and> load_unlocked stored' = Inr \<lparr>ms_revision = ms_revision s + int (length saved),
        ms_patch = (if saved = [] then ms_patch s else snd (last saved))\<rparr>"
  using assms
proof (induction attempts arbitrary: stored s saved)
  case (Cons attempt attempts)
  obtain env patch expected where attempt: "attempt = (env, patch, expected)" by (metis prod_cases3)
  show ?case
  proof (cases "snd (save env patch expected stored)")
    case (Inl e)
    then have "save env patch expected stored = (stored, Inl e)" using save_Inl by (metis prod.collapse)
    then show ?thesis using Cons attempt by simp
  next
    case (Inr s1)
    obtain stored1 where saved1: "save env patch expected stored = (stored1, Inr s1)" using Inr by (metis prod.collapse)
    then have s1: "expected = ms_revision s" "s1 = \<lparr>ms_revision = expected + 1, ms_patch = patch\<rparr>" "stored1 = write_unlocked s1"
      using save_Inr [OF saved1] Cons.prems(1) by auto
    obtain saved' where rest: "run_saves attempts stored1 = (stored', saved')" "saved = (expected, patch) # saved'"
      using Cons.prems(3) attempt saved1 by (auto split: prod.splits)
    have load1: "load_unlocked stored1 = Inr s1"
      using load_write [of s1] load_revision [OF Cons.prems(1)] Cons.prems(2) s1 attempt by simp
    have IH: "map fst saved' = map (\<lambda>i. ms_revision s1 + int i) [0..<length saved']"
      "load_unlocked stored' = Inr \<lparr>ms_revision = ms_revision s1 + int (length saved'),
        ms_patch = (if saved' = [] then ms_patch s1 else snd (last saved'))\<rparr>"
      using Cons.IH [OF load1 _ rest(1)] Cons.prems(2) by simp_all
    have "map (\<lambda>i. ms_revision s + int i) [0..<Suc n] = ms_revision s # map (\<lambda>i. ms_revision s + 1 + int i) [0..<n]" for n
      by (simp add: upt_conv_Cons map_Suc_upt [symmetric] comp_def del: upt_Suc)
    then show ?thesis using IH rest(2) s1 by (simp del: upt_Suc)
  qed
qed simp

text \<open>The check before a save does not protect the file: it resolves with the environment of the saving process, which may hide
  a value that no other process accepts.\<close>

lemma environment_masks_invalid_settings:
  "\<exists>env patch stored s. patch_ok patch \<and> save env patch 0 Missing = (stored, Inr s)
     \<and> (\<exists>e. resolve_concurrency_config (Machine_Settings s) None (\<lambda>_. None) None None = Inl e)"
proof -
  let ?env = "[''PROOF_ASSISTANT_AI_CONCURRENCY'' \<mapsto> ''4'']" and ?patch = "[(AI_Section, ''hard_max'') \<mapsto> JInt 0]"
  have ok: "patch_ok ?patch"
    by (simp add: patch_ok_def in_LEAVES section_fields_def coerce_patch_value_def coerce_auto_int_def AUTO_FIELDS_def)
  have "\<not> isl (snd (save ?env ?patch 0 Missing))"
    "isl (resolve_concurrency_config (Machine_Settings \<lparr>ms_revision = 1, ms_patch = ?patch\<rparr>) None (\<lambda>_. None) None None)"
    by code_simp+
  then obtain stored s e where saved: "save ?env ?patch 0 Missing = (stored, Inr s)"
      and rejected: "resolve_concurrency_config (Machine_Settings \<lparr>ms_revision = 1, ms_patch = ?patch\<rparr>) None (\<lambda>_. None) None None = Inl e"
    by (cases "save ?env ?patch 0 Missing"; cases "snd (save ?env ?patch 0 Missing)") (auto simp: isl_def)
  moreover have "s = \<lparr>ms_revision = 1, ms_patch = ?patch\<rparr>" using save_Inr [OF saved] by auto
  ultimately have "save ?env ?patch 0 Missing = (stored, Inr s)"
    "resolve_concurrency_config (Machine_Settings s) None (\<lambda>_. None) None None = Inl e" by simp_all
  with ok show ?thesis by blast
qed

section \<open>What a resolved configuration guarantees\<close>

text \<open>What the controllers may rely on: limits are positive or left to be computed, minima and start values do not exceed their
  maxima, rates lie in their ranges, and the fixed mode has a number for every limit it fixes.\<close>

definition not_above :: "config \<Rightarrow> leaf \<Rightarrow> leaf \<Rightarrow> bool" where
  "not_above config low high \<longleftrightarrow> (\<forall>m n. config low = JInt m \<longrightarrow> config high = JInt n \<longrightarrow> m \<le> n)"

definition number_of :: "json \<Rightarrow> rat option" where
  "number_of value = (case value of JInt n \<Rightarrow> Some (of_int n) | JFloat q \<Rightarrow> Some q | _ \<Rightarrow> None)"

definition usable_config :: "config \<Rightarrow> bool" where
  "usable_config config \<longleftrightarrow>
     (\<forall>leaf\<in>set AUTO_FIELDS. config leaf = JString ''auto'' \<or> (\<exists>n\<ge>1. config leaf = JInt n))
   \<and> (\<forall>leaf\<in>set POSITIVE_FIELDS. \<exists>n\<ge>1. config leaf = JInt n)
   \<and> (\<forall>leaf\<in>set ((Top_Fields, ''telemetry_enabled'') # BOOLEAN_FIELDS). \<exists>b. config leaf = JBool b)
   \<and> not_above config (AI_Section, ''minimum'') (AI_Section, ''hard_max'')
   \<and> not_above config (AI_Section, ''initial'') (AI_Section, ''hard_max'')
   \<and> not_above config (Lean_Section, ''min_pool'') (Lean_Section, ''max_pool'')
   \<and> not_above config (Lean_Section, ''pool_size'') (Lean_Section, ''max_pool'')
   \<and> not_above config (Build_Section, ''min_concurrent'') (Build_Section, ''hard_max'')
   \<and> not_above config (Build_Section, ''max_concurrent'') (Build_Section, ''hard_max'')
   \<and> not_above config (Scheduler_Section, ''agents_per_target_initial'') (Scheduler_Section, ''agents_per_target_max'')
   \<and> (\<exists>n\<le>128. config (Legacy_Section, ''jobs'') = JInt n)
   \<and> (\<exists>q>0. number_of (config (AI_Section, ''increase_cooldown_seconds'')) = Some q)
   \<and> (\<exists>q>0. q < 1 \<and> number_of (config (AI_Section, ''throttle_multiplier'')) = Some q)
   \<and> (\<exists>q>0. number_of (config (Lean_Section, ''fallback_memory_per_repl_gib'')) = Some q)
   \<and> (\<exists>q\<ge>1. number_of (config (Lean_Section, ''p95_safety_multiplier'')) = Some q)
   \<and> (config (Top_Fields, ''mode'') = JString ''fixed'' \<longrightarrow> (\<forall>leaf\<in>{(AI_Section, ''initial''), (Lean_Section, ''pool_size''), (Build_Section, ''max_concurrent'')}. \<exists>n\<ge>1. config leaf = JInt n))"

lemma check_each_Inr: "check_each f xs = Inr () \<longleftrightarrow> (\<forall>x\<in>set xs. f x = Inr ())"
  by (induction xs) (auto simp: check_each_def bindE_Inr_iff)

lemma ensure_Inr [simp]: "ensure ok message = Inr () \<longleftrightarrow> ok"
  by (simp add: ensure_def)

lemma positive_integer_Inr: "positive_integer value path = Inr n \<longleftrightarrow> 1 \<le> n \<and> value = JInt n"
  by (auto simp: positive_integer_def split: json.splits)

lemma positive_number_Inr: "positive_number value path = Inr q \<longleftrightarrow> number_of value = Some q \<and> 0 < q"
  by (auto simp: positive_number_def number_of_def split: json.splits)

lemma is_bool_iff: "is_bool v \<longleftrightarrow> (\<exists>b. v = JBool b)"
  by (cases v) simp_all

lemma not_exceeds: "\<not> exceeds config low high \<longleftrightarrow> not_above config low high"
  by (cases "config low"; cases "config high") (auto simp: exceeds_def not_above_def)

lemma check_ordered_Inr: "check_ordered config p = Inr () \<longleftrightarrow> not_above config (fst p) (fst (snd p))"
  by (auto simp: check_ordered_def not_exceeds split: prod.splits)

lemma validate_config_usable:
  assumes "validate_config config = Inr ()"
  shows "usable_config config"
proof -
  obtain cooldown throttle memory safety where checks:
      "is_bool (config (Top_Fields, ''telemetry_enabled''))"
      "\<forall>leaf\<in>set AUTO_FIELDS. config leaf = JString ''auto'' \<or> (\<exists>n\<ge>1. config leaf = JInt n)"
      "\<forall>leaf\<in>set POSITIVE_FIELDS. \<exists>n\<ge>1. config leaf = JInt n"
      "number_of (config (AI_Section, ''increase_cooldown_seconds'')) = Some cooldown" "0 < cooldown"
      "number_of (config (AI_Section, ''throttle_multiplier'')) = Some throttle" "0 < throttle" "throttle < 1"
      "number_of (config (Lean_Section, ''fallback_memory_per_repl_gib'')) = Some memory" "0 < memory"
      "number_of (config (Lean_Section, ''p95_safety_multiplier'')) = Some safety" "1 \<le> safety"
      "\<forall>leaf\<in>set BOOLEAN_FIELDS. is_bool (config leaf)"
      "\<forall>p\<in>set ORDERED_FIELDS. not_above config (fst p) (fst (snd p))"
      "\<forall>p\<in>set ORDERED_INITIALS. not_above config (fst p) (fst (snd p))"
      "\<not> both_and (<) (Some 128) (as_int (config (Legacy_Section, ''jobs'')))"
      "config (Top_Fields, ''mode'') = JString ''fixed'' \<longrightarrow> filter (\<lambda>leaf. config leaf = JString ''auto'') FIXED_FIELDS = []"
    using assms
    by (auto simp: validate_config_def Let_def bindE_Inr_iff check_each_Inr check_ordered_Inr positive_integer_Inr positive_number_Inr
        split: if_splits)
  have jobs: "\<exists>n\<le>128. config (Legacy_Section, ''jobs'') = JInt n"
    using checks(3,16) by (auto simp: POSITIVE_FIELDS_def)
  have "\<forall>leaf\<in>set FIXED_FIELDS. leaf \<in> set AUTO_FIELDS" by (simp add: FIXED_FIELDS_def AUTO_FIELDS_def)
  then have fixed: "config (Top_Fields, ''mode'') = JString ''fixed'' \<longrightarrow> (\<forall>leaf\<in>set FIXED_FIELDS. \<exists>n\<ge>1. config leaf = JInt n)"
    using checks(2,17) by (auto simp: filter_empty_conv)
  show ?thesis
    using checks jobs fixed unfolding usable_config_def by (auto simp: ORDERED_FIELDS_def ORDERED_INITIALS_def FIXED_FIELDS_def is_bool_iff)
qed


section \<open>Examples\<close>

definition ex_payload :: "(string \<times> json) list" where
  "ex_payload = [(''mode'', JString ''fixed''), (''ai'', JObject [(''initial'', JInt 3), (''hard_max'', JInt 4)]),
     (''lean'', JObject [(''pool_size'', JInt 2)]), (''build'', JObject [(''max_concurrent'', JInt 1)])]"

definition ex_patch :: config_patch where
  "ex_patch = (case patch_from_mapping ex_payload of Inr patch \<Rightarrow> patch | Inl _ \<Rightarrow> \<lambda>_. None)"

definition ex_env :: environ where
  "ex_env = [''PROOF_ASSISTANT_MAX_BUILDS'' \<mapsto> ''2'']"

lemma ex_patch: "patch_from_mapping ex_payload = Inr ex_patch"
proof -
  have "\<not> isl (patch_from_mapping ex_payload)" by code_simp
  then show ?thesis by (auto simp: ex_patch_def isl_def split: sum.splits)
qed

theorem settings_roundtrip_witness:
  "patch_from_mapping (patch_to_mapping ex_patch) = Inr ex_patch \<and> ex_patch (AI_Section, ''initial'') = Some (JInt 3)"
proof
  show "patch_from_mapping (patch_to_mapping ex_patch) = Inr ex_patch" by (rule settings_roundtrip [OF ex_patch])
  show "ex_patch (AI_Section, ''initial'') = Some (JInt 3)" by code_simp
qed

lemma ex_resolved: "\<exists>r. resolve_concurrency_config (Machine_Patch ex_patch) None ex_env None None = Inr r"
proof -
  have "\<not> isl (resolve_concurrency_config (Machine_Patch ex_patch) None ex_env None None)" by code_simp
  then show ?thesis by (cases "resolve_concurrency_config (Machine_Patch ex_patch) None ex_env None None") simp_all
qed

theorem resolution_precedence_witness:
  "\<exists>r. resolve_concurrency_config (Machine_Patch ex_patch) None ex_env None None = Inr r
     \<and> rc_config r (Build_Section, ''max_concurrent'') = JInt 2
     \<and> source_for r (Build_Section, ''max_concurrent'') = Inr Scope_Environment"
proof -
  obtain r where r: "resolve_concurrency_config (Machine_Patch ex_patch) None ex_env None None = Inr r" using ex_resolved by blast
  have leaf: "(Build_Section, ''max_concurrent'') \<in> set LEAVES" by code_simp
  have "case environment_patch ex_env of Inl _ \<Rightarrow> False | Inr p \<Rightarrow> p (Build_Section, ''max_concurrent'') = Some (JInt 2)" by code_simp
  then obtain env_patch where env: "environment_patch ex_env = Inr env_patch" "env_patch (Build_Section, ''max_concurrent'') = Some (JInt 2)"
    by (auto split: sum.splits)
  from resolution_precedence [OF r leaf] r env show ?thesis by auto
qed


text \<open>Three clients: the second is based on the revision of the first and loses.\<close>

definition ex_attempts :: "(environ \<times> config_patch \<times> int) list" where
  "ex_attempts = [(\<lambda>_. None, ex_patch, 0), (\<lambda>_. None, \<lambda>_. None, 0), (ex_env, ex_patch, 1)]"

theorem saves_are_serialized_witness:
  "map fst (snd (run_saves ex_attempts Missing)) = [0, 1]
     \<and> load_unlocked (fst (run_saves ex_attempts Missing)) = Inr \<lparr>ms_revision = 2, ms_patch = ex_patch\<rparr>"
proof -
  obtain stored saved where run: "run_saves ex_attempts Missing = (stored, saved)" by fastforce
  have "map fst (snd (run_saves ex_attempts Missing)) = [0, 1]" by code_simp
  then have two: "map fst saved = [0, 1]" by (simp add: run)
  have load: "load_unlocked Missing = Inr \<lparr>ms_revision = 0, ms_patch = \<lambda>_. None\<rparr>" by (simp add: load_unlocked_def)
  have ok: "list_all (\<lambda>(_, patch, _). patch_ok patch) ex_attempts"
    using patch_from_mapping_ok [OF ex_patch] by (simp add: ex_attempts_def patch_ok_def)
  have "set saved \<subseteq> {(0, ex_patch), (0, \<lambda>_. None), (1, ex_patch)}"
    using run_saves_attempts [of ex_attempts Missing, unfolded run] by (auto simp: ex_attempts_def)
  moreover from two have "saved \<noteq> []" "fst (last saved) = 1" by (auto simp: last_map [symmetric])
  ultimately have "snd (last saved) = ex_patch" using last_in_set [of saved] by (cases "last saved") auto
  then show ?thesis using saves_are_serialized [OF load ok run] two run \<open>saved \<noteq> []\<close> by (auto dest: arg_cong [of _ _ length])
qed

end
