(* ===== verification/Spec2Isabelle.thy ===== *)
theory Spec2Isabelle
  imports Models NetworkX DepGraph Admission_Runs Admission_Controller AI_Controller Pool_Controllers
    Distributed_Leases Scheduler Memory_Pressure Store_Invariant
    Certification Latex_Index Conjectural_Policy Prepare_Pass Agent_Tools Run_Outcomes
    Failure_Report Job_Control Machine_Config
begin

text \<open>
  A verification library of Proof Assistant, the incremental verifier of LaTeX manuscripts under
  \<^verbatim>\<open>src/src/proof_assistant\<close>. All paths below are relative to that directory.

  \<^bold>\<open>The program.\<close> A manuscript is indexed into claims with stable ids; a dependency graph says what each claim rests on.
  A verification run takes a snapshot, marks what a change affects, lets proof agents formalize the claims whose
  dependencies are certified, rebuilds the project, and certifies a claim only on what Lean's environment says.
  All state is one SQLite file per project. A second SQLite file per machine admits provider turns, Lean processes and
  builds under limits that controllers adapt.

  \<^bold>\<open>The machine.\<close> \<open>Admission\<close> is the leases and limits of \<^verbatim>\<open>concurrency/admission.py\<close>, one definition per transaction;
  \<open>Admission_Runs\<close> interleaves the transactions of any number of processes and proves that no resource is over-admitted,
  that a live lease is not revoked and that a free slot admits a waiter. \<open>Admission_Controller\<close> is the polling
  facade. \<open>Adaptive_Limits\<close>, \<open>AI_Controller\<close> and \<open>Pool_Controllers\<close> are the controllers of \<^verbatim>\<open>ai.py\<close>, \<^verbatim>\<open>lean.py\<close> and
  \<^verbatim>\<open>build.py\<close>, \<open>Memory_Pressure\<close> the classifier that drives two of them, \<open>Distributed_Leases\<close> the leases a coordinator
  hands to other nodes, \<open>Scheduler\<close> the ranking of ready claims. \<open>Machine_Config\<close> is the settings of \<^verbatim>\<open>config.py\<close>: the
  precedence of the scopes, the validation, and the revisioned file that no concurrent save overwrites unseen.

  \<^bold>\<open>The store.\<close> \<open>Store_Tables\<close> has the tables of \<^verbatim>\<open>incremental/store.py\<close> as lists of rows and the schema as the invariant
  \<open>store_inv\<close>; \<open>Store_Runs\<close>, \<open>Store_Claims\<close>, \<open>Store_Questions\<close> and \<open>Store_Failures\<close> are its operations, and
  \<open>Store_Invariant\<close> the step relation over all of them, with the invariant by rule induction.

  \<^bold>\<open>The manuscript.\<close> \<open>Models\<close> is \<^verbatim>\<open>incremental/models.py\<close>. \<open>Latex_Text\<close> and \<open>Latex_Index\<close> are \<^verbatim>\<open>incremental/latex.py\<close>: comment
  stripping, include closure, object extraction, stable ids. \<open>NetworkX\<close> states what the graph functions rely on in the
  package \<^verbatim>\<open>networkx\<close>, as a locale with an executable instance; \<open>DepGraph\<close> is \<^verbatim>\<open>incremental/graph.py\<close>.

  \<^bold>\<open>A run.\<close> \<open>Conjectural_Policy\<close> and \<open>Prepare_Pass\<close> are the policy for unproved assertions and the preparation of a pass in
  \<^verbatim>\<open>incremental/session.py\<close>. \<open>Agent_Tools\<close> has the eight tools of \<^verbatim>\<open>incremental/agent.py\<close>, \<open>Certification\<close> the kernel
  boundary of \<^verbatim>\<open>incremental/certification.py\<close>. \<open>Proof_Rounds\<close> and \<open>Verification_Run\<close> are \<^verbatim>\<open>verify_project\<close> of
  \<^verbatim>\<open>incremental/orchestration.py\<close>, step by step, its exception handler included. \<open>Run_Invariants\<close> states once, as
  locales, in which ways a run writes claims and certificates, and interprets them on the predicates of interest;
  \<open>Run_Outcomes\<close> draws the conclusions for whole runs: nothing stays in flight, what is certified has its certificate, the
  verdict \<^verbatim>\<open>verified\<close> is borne out, and only guarded batches change the project.

  \<^bold>\<open>Explaining a failure.\<close> \<^verbatim>\<open>incremental/failures.py\<close> builds the report of a failed run from the store. \<open>Failure_Graph\<close> has its
  records and the breadth-first search for paths to the claims that block a target, which are proved shortest and complete;
  \<open>Failure_Outline\<close> the tree outline, a stack machine that refines a depth-first recursion and expands every claim
  once; \<open>Failure_Report\<close> the incidents, nodes, edges and components, and the whole report: it is always built, it is well
  formed, every failed run has one, and the incident shown first explains the first blocker.

  \<^bold>\<open>Detached jobs.\<close> A verification runs in a worker process that outlives the client that started it. \<open>Job_Store\<close> is
  \<^verbatim>\<open>workflow/jobs.py\<close>, the table of jobs with its log of progress events: at most one job is active, jobs move only forward,
  the first result is final and events are replayed exactly once. \<open>Provider_Contract\<close> has the catalogs of
  \<^verbatim>\<open>ai/contracts.py\<close> and the checks of models and options against them. \<open>Job_Control\<close> has the methods of
  \<^verbatim>\<open>workflow/service.py\<close> that start, observe, cancel and run a job, and a step relation in which launchers, workers and clients
  interleave and die at any point: whatever they do, a worker that holds the lease is not interrupted.

  \<^bold>\<open>Conventions.\<close> Strings are character lists (8-bit characters); floats are rationals, exact. A Python exception is the
  \<open>Inl\<close> of a sum whose \<open>py_error\<close> keeps its class; a \<^verbatim>\<open>ValueError\<close> subclass of the program is its base class. A SQL table is
  the list of its rows, a rolled-back transaction is an \<open>Inl\<close> without a store, and a method of several transactions
  is an \<open>op\<close>, a function from the store to a store and a result, so that what an exception leaves behind is part of
  the model. \<open>sorted(set(...))\<close> is \<open>sorted_list_of_set\<close>; the iteration order of a set, where it can matter, is a parameter.
  JSON columns hold the values they encode. Clock readings, UUIDs and jitter are arguments; one operation reads
  the clock once.

  \<^bold>\<open>Bounds and fuel.\<close> A polling loop is a recursion on the list of its wake-up times, so it ends with the list; \<open>acquire\<close>
  says what holds when the list is exhausted. The proof rounds recurse on the number of rounds that the source's own
  bound \<open>round_index <= len(objects) + 1\<close> leaves, \<open>length objects + 2\<close> of them. The certification loop, written \<^verbatim>\<open>while True\<close>, and
  the include closure are total functions with their own termination proofs; so is the stack machine of the outline. The
  breadth-first search gets the number of claims as fuel, each of which enters its queue once.

  \<^bold>\<open>Parameters.\<close> The package networkx (a record of functions with a locale), pylatexenc, path resolution, the file contents and
  SHA-256 (\<open>source_tree\<close>), Git, Lake, Lean, the workers and cancellation (\<open>pass_input\<close>, \<open>round_host\<close>, \<open>run_host\<close>), locks, processes and what a provider reports about itself
  (\<open>observe_host\<close>, \<open>start_host\<close>, \<open>worker_host\<close>).
  What the agents do is any list of tool calls.

  \<^bold>\<open>Not modelled.\<close> The terminal interface, the command line, the backend protocol and the methods of the workflow service
  other than those on jobs: they render state and forward requests. The AI drivers, the discovery of provider
  catalogs and the cache of Lean builds: processes, HTTP and file systems. Schema migrations, backups and
  pragmas of the store, file locks, snapshot repositories, generated reports and exports: I/O. The notification hooks, which no
  result depends on. Event order between threads other than through the admission store.
\<close>

end
